(* ===== verification/Prelude.thy ===== *)
theory Prelude
  imports Main "HOL-Library.FSet"
begin

text \<open>
  Shared vocabulary of the development: the machine types of the C++ sources, the return codes
  and the undefined-behaviour faults that the components raise, and the generic lemmas about
  lists used as \<open>std::deque\<close> or \<open>std::vector\<close>.

  Log indexes and log terms are \<open>int64_t\<close> in the sources and \<open>int\<close> here: they only grow by one
  per appended entry, so their width never matters. Where the width does matter (the dependency
  bitmaps, the 32-bit \<open>_current_term\<close> of the node, the on-disk header) the width is written out.
\<close>

section \<open>Types and return codes\<close>

type_synonym int64 = int

text \<open>The integer return codes of the sources: 0, -1 and the errno and Raft error constants.\<close>

datatype rc =
    OK0
  | NEG1
  | POS1
  | NEG2
  | EPERM
  | ENOENT
  | EIO
  | EINTR
  | EBUSY
  | EINVAL
  | ENOMEM
  | ERANGE
  | ESTOP
  | ETIMEDOUT
  | ESHUTDOWN
  | ESTATEMACHINE

text \<open>
  Undefined behaviour of the C++ program, as values: reading or writing outside a container,
  \<open>front\<close>/\<open>pop_front\<close> of an empty container, dereferencing \<open>NULL\<close>, overflowing a C buffer, an
  unrepresentable conversion, calling \<open>abort\<close>, signed overflow, and division by zero.
\<close>

datatype fault =
    Out_of_range
  | Empty_container
  | Null_deref
  | Buffer_overflow
  | Bad_conversion
  | Abort_called
  | Signed_overflow
  | Division_by_zero

type_synonym 'a res = "fault + 'a"

section \<open>Element access with the faults of the container types\<close>

definition at_index :: "'a list \<Rightarrow> int \<Rightarrow> 'a res" where
  "at_index xs i = (if 0 \<le> i \<and> i < int (length xs) then Inr (xs ! nat i) else Inl Out_of_range)"

definition put_index :: "'a list \<Rightarrow> int \<Rightarrow> 'a \<Rightarrow> 'a list res" where
  "put_index xs i v =
     (if 0 \<le> i \<and> i < int (length xs) then Inr (xs[nat i := v]) else Inl Out_of_range)"

lemma at_index_in [simp]:
  "0 \<le> i \<Longrightarrow> i < int (length xs) \<Longrightarrow> at_index xs i = Inr (xs ! nat i)"
  by (simp add: at_index_def)

lemma put_index_in [simp]:
  "0 \<le> i \<Longrightarrow> i < int (length xs) \<Longrightarrow> put_index xs i v = Inr (xs[nat i := v])"
  by (simp add: put_index_def)

lemma at_index_Inr: "at_index xs i = Inr x \<longleftrightarrow> 0 \<le> i \<and> i < int (length xs) \<and> x = xs ! nat i"
  by (auto simp: at_index_def)

lemma put_index_Inr:
  "put_index xs i v = Inr ys \<longleftrightarrow> 0 \<le> i \<and> i < int (length xs) \<and> ys = xs[nat i := v]"
  by (auto simp: put_index_def)

end
