(* ===== verification/Configuration.thy ===== *)
theory Configuration
  imports Prelude
begin

text \<open>
  \<open>src/cpp/configuration.h\<close> and \<open>configuration.cc\<close>: peers and sets of peers. A \<open>PeerId\<close> is an
  end point (ip and port) and an index; the order is the one of \<open>operator<\<close>, so that iterating a
  \<open>std::set<PeerId>\<close> is \<^const>\<open>sorted_list_of_fset\<close>.
\<close>

section \<open>PeerId\<close>

datatype peer_id = PeerId (peer_ip: nat) (peer_port: int) (peer_idx: int)

definition peer_lt :: "peer_id \<Rightarrow> peer_id \<Rightarrow> bool" where
  "peer_lt a b \<longleftrightarrow>
     (peer_ip a < peer_ip b \<or> peer_ip a = peer_ip b \<and> peer_port a < peer_port b) \<or>
     (peer_ip a = peer_ip b \<and> peer_port a = peer_port b) \<and> peer_idx a < peer_idx b"

definition peer_eq :: "peer_id \<Rightarrow> peer_id \<Rightarrow> bool" where
  "peer_eq a b \<longleftrightarrow> (peer_ip a = peer_ip b \<and> peer_port a = peer_port b) \<and> peer_idx a = peer_idx b"

lemma peer_eq_iff [simp]: "peer_eq a b \<longleftrightarrow> a = b"
  by (cases a; cases b) (auto simp: peer_eq_def)

text \<open>The order the code's containers of peers use, as an instance of the library's class.\<close>

instantiation peer_id :: linorder
begin

definition less_peer_id :: "peer_id \<Rightarrow> peer_id \<Rightarrow> bool" where
  "less_peer_id = peer_lt"

definition less_eq_peer_id :: "peer_id \<Rightarrow> peer_id \<Rightarrow> bool" where
  "less_eq_peer_id a b \<longleftrightarrow> a < b \<or> peer_eq a b"

instance
proof
  fix a b :: peer_id
  show "a \<le> b \<or> b \<le> a"
    by (cases a; cases b) (auto simp: less_peer_id_def less_eq_peer_id_def peer_lt_def)
qed (auto simp: less_peer_id_def less_eq_peer_id_def peer_lt_def)

end

definition empty_peer :: peer_id where
  "empty_peer = PeerId 0 0 0"

definition is_empty_peer :: "peer_id \<Rightarrow> bool" where
  "is_empty_peer p \<longleftrightarrow> peer_ip p = 0 \<and> peer_port p = 0 \<and> peer_idx p = 0"

lemma is_empty_peer_iff: "is_empty_peer p \<longleftrightarrow> p = empty_peer"
  by (cases p) (auto simp: is_empty_peer_def empty_peer_def)

section \<open>Configuration: a set of peers\<close>

text \<open>
  \<open>Configuration::_peers\<close> is a \<open>std::set<PeerId>\<close>: a finite set, iterated in the order of
  \<open>operator<\<close>.
\<close>

type_synonym configuration = "peer_id fset"

definition conf_of_vector :: "peer_id list \<Rightarrow> configuration" where
  "conf_of_vector peers = fold finsert peers {||}"

definition conf_empty :: "configuration \<Rightarrow> bool" where
  "conf_empty c \<longleftrightarrow> c = {||}"

definition conf_list_peers :: "configuration \<Rightarrow> peer_id list" where
  "conf_list_peers c = sorted_list_of_fset c"

definition append_peers :: "configuration \<Rightarrow> peer_id fset \<Rightarrow> peer_id fset" where
  "append_peers c peers = peers |\<union>| c"

definition add_peer :: "configuration \<Rightarrow> peer_id \<Rightarrow> bool \<times> configuration" where
  "add_peer c p = (p |\<notin>| c, finsert p c)"

definition remove_peer :: "configuration \<Rightarrow> peer_id \<Rightarrow> bool \<times> configuration" where
  "remove_peer c p = (p |\<in>| c, c |-| {|p|})"

definition conf_contains :: "configuration \<Rightarrow> peer_id \<Rightarrow> bool" where
  "conf_contains c p \<longleftrightarrow> p |\<in>| c"

fun conf_contains_all :: "configuration \<Rightarrow> peer_id list \<Rightarrow> bool" where
  "conf_contains_all c [] = True"
| "conf_contains_all c (p # ps) = (if p |\<notin>| c then False else conf_contains_all c ps)"

fun equals_vector_loop :: "configuration \<Rightarrow> peer_id list \<Rightarrow> peer_id fset \<Rightarrow> bool" where
  "equals_vector_loop c [] peer_set = (fcard peer_set = fcard c)"
| "equals_vector_loop c (p # ps) peer_set =
     (if p |\<notin>| c then False else equals_vector_loop c ps (finsert p peer_set))"

definition conf_equals_vector :: "configuration \<Rightarrow> peer_id list \<Rightarrow> bool" where
  "conf_equals_vector c peers = equals_vector_loop c peers {||}"

fun equals_loop :: "peer_id list \<Rightarrow> configuration \<Rightarrow> bool" where
  "equals_loop [] rhs = True"
| "equals_loop (p # ps) rhs = (if \<not> conf_contains rhs p then False else equals_loop ps rhs)"

definition conf_equals :: "configuration \<Rightarrow> configuration \<Rightarrow> bool" where
  "conf_equals c rhs = (if fcard c \<noteq> fcard rhs then False else equals_loop (conf_list_peers c) rhs)"

definition diffs :: "configuration \<Rightarrow> configuration \<Rightarrow> configuration \<times> configuration" where
  "diffs c rhs =
     (let excluded = fold (\<lambda>p e. e |-| {|p|}) (conf_list_peers c) rhs;
          included = fold (\<lambda>p i. i |-| {|p|}) (conf_list_peers rhs) c
      in (included, excluded))"

subsection \<open>Correctness of the set operations\<close>

lemma set_conf_list_peers [simp]: "set (conf_list_peers c) = fset c"
  by (simp add: conf_list_peers_def)

lemma distinct_conf_list_peers [simp]: "distinct (conf_list_peers c)"
  by (simp add: conf_list_peers_def sorted_list_of_fset.rep_eq)

lemma sorted_conf_list_peers [simp]: "sorted (conf_list_peers c)"
  by (simp add: conf_list_peers_def sorted_list_of_fset.rep_eq)

lemma length_conf_list_peers [simp]: "length (conf_list_peers c) = fcard c"
  by (simp add: conf_list_peers_def sorted_list_of_fset.rep_eq fcard.rep_eq)

lemma conf_of_vector_fold: "fset (fold finsert ps c) = fset c \<union> set ps"
  by (induction ps arbitrary: c) auto

lemma fset_conf_of_vector [simp]: "fset (conf_of_vector ps) = set ps"
  by (simp add: conf_of_vector_def conf_of_vector_fold)

lemma conf_of_vector_list_peers: "conf_of_vector (conf_list_peers c) = c"
  by (simp add: fset_inject [symmetric])

lemma conf_contains_all_iff: "conf_contains_all c ps \<longleftrightarrow> set ps \<subseteq> fset c"
  by (induction ps) auto

lemma equals_vector_loop_iff:
  "peer_set |\<subseteq>| c \<Longrightarrow>
     equals_vector_loop c ps peer_set \<longleftrightarrow> set ps \<subseteq> fset c \<and> fset peer_set \<union> set ps = fset c"
proof (induction ps arbitrary: peer_set)
  case Nil
  then have sub: "fset peer_set \<subseteq> fset c" by (simp add: less_eq_fset.rep_eq)
  then have "fcard peer_set = fcard c \<longleftrightarrow> fset peer_set = fset c"
    using card_subset_eq [OF finite_fset sub] by (auto simp: fcard.rep_eq)
  then show ?case by simp
next
  case (Cons p ps)
  show ?case
  proof (cases "p |\<in>| c")
    case True
    with Cons.prems have "finsert p peer_set |\<subseteq>| c" by simp
    from Cons.IH [OF this] True show ?thesis by simp
  qed simp
qed

lemma equals_loop_iff: "equals_loop ps rhs \<longleftrightarrow> set ps \<subseteq> fset rhs"
  by (induction ps) (auto simp: conf_contains_def)

lemma conf_equals_iff: "conf_equals c rhs \<longleftrightarrow> c = rhs"
proof -
  have "fset c \<subseteq> fset rhs \<Longrightarrow> fcard c = fcard rhs \<Longrightarrow> fset c = fset rhs"
    by (simp add: card_subset_eq fcard.rep_eq)
  then show ?thesis
    by (auto simp: conf_equals_def equals_loop_iff fset_inject)
qed

lemma fold_minus_fset: "fset (fold (\<lambda>p e. e |-| {|p|}) ps c) = fset c - set ps"
  by (induction ps arbitrary: c) auto

end
