(* ===== verification/Ballot.thy ===== *)
theory Ballot
  imports Configuration
begin

text \<open>
  \<open>src/cpp/ballot.h\<close> and \<open>ballot.cc\<close>: counting the votes of one ballot, with an optional second
  (old) configuration during joint consensus. The state records the peers of each configuration
  with a \<open>found\<close> flag and how many grants are still missing.
\<close>

section \<open>Model\<close>

text \<open>\<open>Ballot::UnfoundPeerId\<close>: a peer and whether it has granted.\<close>

type_synonym unfound_peer = "peer_id \<times> bool"

record ballot =
  bl_peers :: "unfound_peer list"
  bl_quorum :: int
  bl_old_peers :: "unfound_peer list"
  bl_old_quorum :: int

text \<open>\<open>Ballot::PosHint\<close>: the positions found by the previous \<open>grant\<close>, -1 for none.\<close>

type_synonym pos_hint = "int \<times> int"

definition no_hint :: pos_hint where
  "no_hint = (-1, -1)"

definition new_ballot :: ballot where
  "new_ballot = \<lparr>bl_peers = [], bl_quorum = 0, bl_old_peers = [], bl_old_quorum = 0\<rparr>"

definition unfound :: "configuration \<Rightarrow> unfound_peer list" where
  "unfound c = map (\<lambda>p. (p, False)) (conf_list_peers c)"

definition ballot_init :: "configuration \<Rightarrow> configuration option \<Rightarrow> ballot" where
  "ballot_init conf old_conf =
     (let ps = unfound conf; bl = \<lparr>bl_peers = ps, bl_quorum = int (length ps) div 2 + 1,
                                    bl_old_peers = [], bl_old_quorum = 0\<rparr>
      in case old_conf of
           None \<Rightarrow> bl
         | Some oc \<Rightarrow> (let os = unfound oc
                       in bl\<lparr>bl_old_peers := os, bl_old_quorum := int (length os) div 2 + 1\<rparr>))"

fun find_from :: "peer_id \<Rightarrow> unfound_peer list \<Rightarrow> int \<Rightarrow> int option" where
  "find_from peer [] i = None"
| "find_from peer (u # us) i = (if fst u = peer then Some i else find_from peer us (i + 1))"

definition find_peer :: "peer_id \<Rightarrow> unfound_peer list \<Rightarrow> int \<Rightarrow> int option" where
  "find_peer peer peers hint =
     (if hint < 0 \<or> hint \<ge> int (length peers) \<or> fst (peers ! nat hint) \<noteq> peer
      then find_from peer peers 0
      else Some hint)"

text \<open>One half of \<open>Ballot::grant\<close>, written twice in the source: for \<open>_peers\<close> and \<open>_old_peers\<close>.\<close>

definition grant_half ::
    "peer_id \<Rightarrow> int \<Rightarrow> unfound_peer list \<Rightarrow> int \<Rightarrow> unfound_peer list \<times> int \<times> int" where
  "grant_half peer hint peers quorum =
     (case find_peer peer peers hint of
        None \<Rightarrow> (peers, quorum, -1)
      | Some i \<Rightarrow>
          (if \<not> snd (peers ! nat i) then (peers[nat i := (fst (peers ! nat i), True)], quorum - 1, i)
           else (peers, quorum, i)))"

definition grant :: "ballot \<Rightarrow> peer_id \<Rightarrow> pos_hint \<Rightarrow> ballot \<times> pos_hint" where
  "grant bl peer hint =
     (let (ps, q, pos0) = grant_half peer (fst hint) (bl_peers bl) (bl_quorum bl);
          bl1 = bl\<lparr>bl_peers := ps, bl_quorum := q\<rparr>
      in if bl_old_peers bl = [] then (bl1, (pos0, -1))
         else (let (os, oq, pos1) = grant_half peer (snd hint) (bl_old_peers bl) (bl_old_quorum bl)
               in (bl1\<lparr>bl_old_peers := os, bl_old_quorum := oq\<rparr>, (pos0, pos1))))"

definition grant_peer :: "ballot \<Rightarrow> peer_id \<Rightarrow> ballot" where
  "grant_peer bl peer = fst (grant bl peer no_hint)"

definition granted :: "ballot \<Rightarrow> bool" where
  "granted bl \<longleftrightarrow> bl_quorum bl \<le> 0 \<and> bl_old_quorum bl \<le> 0"

section \<open>Specification: a ballot is a set of votes\<close>

text \<open>
  \<open>ballot_of conf old V\<close> is the ballot in which exactly the peers of \<open>V\<close> have voted. The
  operations refine \<open>{}\<close> and \<open>insert\<close> on the set of votes, whatever hints they are given.
\<close>

definition slots :: "peer_id set \<Rightarrow> peer_id list \<Rightarrow> unfound_peer list" where
  "slots V ps = map (\<lambda>p. (p, p \<in> V)) ps"

definition missing :: "peer_id set \<Rightarrow> peer_id list \<Rightarrow> int" where
  "missing V ps = int (length ps) div 2 + 1 - int (card (V \<inter> set ps))"

definition ballot_of :: "configuration \<Rightarrow> configuration option \<Rightarrow> peer_id set \<Rightarrow> ballot" where
  "ballot_of conf old V =
     \<lparr>bl_peers = slots V (conf_list_peers conf), bl_quorum = missing V (conf_list_peers conf),
      bl_old_peers = (case old of None \<Rightarrow> [] | Some oc \<Rightarrow> slots V (conf_list_peers oc)),
      bl_old_quorum = (case old of None \<Rightarrow> 0 | Some oc \<Rightarrow> missing V (conf_list_peers oc))\<rparr>"

definition majority :: "configuration \<Rightarrow> peer_id set \<Rightarrow> bool" where
  "majority c V \<longleftrightarrow> fcard c < 2 * card (V \<inter> fset c)"

lemma length_slots [simp]: "length (slots V ps) = length ps"
  by (simp add: slots_def)

lemma nth_slots [simp]: "i < length ps \<Longrightarrow> slots V ps ! i = (ps ! i, ps ! i \<in> V)"
  by (simp add: slots_def)

lemma slots_Nil_iff [simp]: "slots V ps = [] \<longleftrightarrow> ps = []"
  by (simp add: slots_def)

lemma missing_empty [simp]: "missing {} ps = int (length ps) div 2 + 1"
  by (simp add: missing_def)

lemma missing_le_0: "distinct ps \<Longrightarrow> missing V ps \<le> 0 \<longleftrightarrow> length ps < 2 * card (V \<inter> set ps)"
  by (simp add: missing_def) linarith

lemma find_from_None: "find_from p us k = None \<longleftrightarrow> p \<notin> fst ` set us"
  by (induction us arbitrary: k) auto

lemma find_from_Some:
  "find_from p us k = Some i \<Longrightarrow> k \<le> i \<and> i < k + int (length us) \<and> fst (us ! nat (i - k)) = p"
proof (induction us arbitrary: k)
  case Nil
  then show ?case by simp
next
  case (Cons u us)
  show ?case
  proof (cases "fst u = p")
    case True
    with Cons.prems show ?thesis by simp
  next
    case False
    with Cons.prems have "find_from p us (k + 1) = Some i" by simp
    from Cons.IH [OF this] have "k + 1 \<le> i" "i < k + 1 + int (length us)"
      "fst (us ! nat (i - (k + 1))) = p" by auto
    moreover from this have "nat (i - k) = Suc (nat (i - (k + 1)))" by simp
    ultimately show ?thesis by simp
  qed
qed

text \<open>Every hint gives the position of the peer: the hint is only a shortcut.\<close>

lemma find_peer_slots_in:
  assumes "p \<in> set ps"
  obtains i where "find_peer p (slots V ps) h = Some i" "0 \<le> i" "i < int (length ps)" "ps ! nat i = p"
proof (cases "h < 0 \<or> h \<ge> int (length ps) \<or> ps ! nat h \<noteq> p")
  case True
  then have eq: "find_peer p (slots V ps) h = find_from p (slots V ps) 0"
    by (auto simp: find_peer_def)
  from assms have "find_from p (slots V ps) 0 \<noteq> None"
    by (auto simp: find_from_None slots_def image_image)
  then obtain i where i: "find_from p (slots V ps) 0 = Some i" by auto
  from find_from_Some [OF i] have "0 \<le> i" "i < int (length ps)" "ps ! nat i = p" by auto
  with eq i that show ?thesis by simp
next
  case False
  then have "find_peer p (slots V ps) h = Some h" by (auto simp: find_peer_def)
  with False that show ?thesis by simp
qed

lemma find_peer_slots_notin:
  "p \<notin> set ps \<Longrightarrow> find_peer p (slots V ps) h = None"
  by (auto simp: find_peer_def find_from_None slots_def)

lemma slots_update:
  "distinct ps \<Longrightarrow> i < length ps \<Longrightarrow> (slots V ps)[i := (ps ! i, True)] = slots (insert (ps ! i) V) ps"
  by (rule nth_equalityI) (auto simp: nth_list_update nth_eq_iff_index_eq)

lemma slots_insert_notin: "p \<notin> set ps \<Longrightarrow> slots (insert p V) ps = slots V ps"
  by (auto simp: slots_def)

lemma slots_insert_in: "p \<in> V \<Longrightarrow> slots (insert p V) ps = slots V ps"
  by (simp add: insert_absorb)

lemma missing_insert:
  "p \<in> set ps \<Longrightarrow> p \<notin> V \<Longrightarrow> missing (insert p V) ps = missing V ps - 1"
  by (simp add: missing_def)

lemma missing_insert_notin: "p \<notin> set ps \<Longrightarrow> missing (insert p V) ps = missing V ps"
  by (simp add: missing_def)

lemma grant_half_slots:
  assumes "distinct ps"
  shows "\<exists>pos. grant_half p h (slots V ps) (missing V ps) = (slots (insert p V) ps, missing (insert p V) ps, pos)
     \<and> (if p \<in> set ps then 0 \<le> pos \<and> pos < int (length ps) \<and> ps ! nat pos = p else pos = -1)"
proof (cases "p \<in> set ps")
  case True
  then obtain i where i: "find_peer p (slots V ps) h = Some i" "0 \<le> i" "i < int (length ps)"
      "ps ! nat i = p"
    by (rule find_peer_slots_in)
  then have "nat i < length ps" by simp
  with assms i True show ?thesis
    using slots_update [of ps "nat i" V]
    by (auto simp: grant_half_def missing_insert slots_insert_in insert_absorb)
next
  case False
  then show ?thesis
    by (simp add: grant_half_def find_peer_slots_notin slots_insert_notin missing_insert_notin)
qed

lemma ballot_init_refines: "ballot_init conf old = ballot_of conf old {}"
  by (auto simp: ballot_init_def ballot_of_def unfound_def slots_def Let_def split: option.splits)

lemma grant_refines: "fst (grant (ballot_of conf old V) p h) = ballot_of conf old (insert p V)"
proof -
  obtain pos0 where h0: "grant_half p (fst h) (slots V (conf_list_peers conf)) (missing V (conf_list_peers conf))
      = (slots (insert p V) (conf_list_peers conf), missing (insert p V) (conf_list_peers conf), pos0)"
    using grant_half_slots [of "conf_list_peers conf" p "fst h" V] by auto
  show ?thesis
  proof (cases old)
    case None
    with h0 show ?thesis by (simp add: grant_def ballot_of_def)
  next
    case (Some oc)
    obtain pos1 where h1: "grant_half p (snd h) (slots V (conf_list_peers oc)) (missing V (conf_list_peers oc))
      = (slots (insert p V) (conf_list_peers oc), missing (insert p V) (conf_list_peers oc), pos1)"
      using grant_half_slots [of "conf_list_peers oc" p "snd h" V] by auto
    show ?thesis
    proof (cases "conf_list_peers oc = []")
      case True
      with h0 Some show ?thesis by (simp add: grant_def ballot_of_def slots_def missing_def)
    next
      case False
      with h0 h1 Some show ?thesis by (simp add: grant_def ballot_of_def)
    qed
  qed
qed

lemma grant_peer_refines [simp]: "grant_peer (ballot_of conf old V) p = ballot_of conf old (insert p V)"
  by (simp add: grant_peer_def grant_refines)

lemma granted_ballot_of:
  "granted (ballot_of conf old V) \<longleftrightarrow>
     majority conf V \<and> (case old of None \<Rightarrow> True | Some oc \<Rightarrow> majority oc V)"
  by (auto simp: granted_def ballot_of_def majority_def missing_le_0 split: option.splits)

section \<open>Quorums\<close>

text \<open>The contract that elections and commits rest on: any two quorums have a member in common.\<close>

locale quorum_system =
  fixes members :: "'v set"
    and quorum :: "'v set \<Rightarrow> bool"
  assumes meet: "quorum A \<Longrightarrow> quorum B \<Longrightarrow> \<exists>v \<in> members. v \<in> A \<and> v \<in> B"
    and grow: "quorum A \<Longrightarrow> A \<subseteq> B \<Longrightarrow> quorum B"
begin

text \<open>If every voter makes at most one choice, at most one choice gets a quorum.\<close>

lemma one_choice:
  assumes "quorum A" "quorum B" "\<And>v. v \<in> A \<Longrightarrow> choice v = Some a" "\<And>v. v \<in> B \<Longrightarrow> choice v = Some b"
  shows "a = b"
proof -
  obtain v where "v \<in> A" "v \<in> B" using meet [OF assms(1,2)] by blast
  then have "Some a = Some b" using assms(3,4) by metis
  then show ?thesis by simp
qed

lemma quorum_nonempty: "quorum A \<Longrightarrow> A \<noteq> {}"
  using meet by blast

end

lemma majority_mono: "majority c V \<Longrightarrow> V \<subseteq> W \<Longrightarrow> majority c W"
  using card_mono [of "W \<inter> fset c" "V \<inter> fset c"] Int_mono [of V W "fset c" "fset c"]
  by (simp add: majority_def)

lemma majority_meet:
  assumes "majority c A" "majority c B"
  shows "\<exists>v \<in> fset c. v \<in> A \<and> v \<in> B"
proof (rule ccontr)
  assume "\<not> ?thesis"
  then have "(A \<inter> fset c) \<inter> (B \<inter> fset c) = {}" by auto
  then have "card (A \<inter> fset c) + card (B \<inter> fset c) = card ((A \<inter> fset c) \<union> (B \<inter> fset c))"
    by (simp add: card_Un_disjoint)
  also have "\<dots> \<le> card (fset c)" by (rule card_mono) auto
  finally show False using assms by (simp add: majority_def fcard.rep_eq)
qed

interpretation majority_quorum: quorum_system "fset c" "majority c" for c
  by unfold_locales (auto intro: majority_mono dest: majority_meet)

section \<open>Counting votes\<close>

definition grant_all :: "(peer_id \<times> pos_hint) list \<Rightarrow> ballot \<Rightarrow> ballot" where
  "grant_all gs bl = fold (\<lambda>(p, h) b. fst (grant b p h)) gs bl"

lemma grant_all_refines: "grant_all gs (ballot_of conf old V) = ballot_of conf old (fst ` set gs \<union> V)"
  unfolding grant_all_def
proof (induction gs arbitrary: V)
  case (Cons g gs)
  obtain p h where "g = (p, h)" by (cases g)
  then show ?case using Cons.IH [of "insert p V"] by (simp add: grant_refines)
qed simp

lemma granted_counts_voters:
  "granted (grant_all gs (ballot_init conf old)) \<longleftrightarrow>
     majority conf (fst ` set gs) \<and> (case old of None \<Rightarrow> True | Some oc \<Rightarrow> majority oc (fst ` set gs))"
  by (simp add: ballot_init_refines grant_all_refines granted_ballot_of)

text \<open>
  C32. after \<open>Ballot::init\<close> and any sequence of \<open>Ballot::grant\<close> calls, with repeated voters,
  strangers and arbitrary position hints, \<open>granted\<close> answers exactly whether the distinct voters
  contain a majority of the configuration and, in a joint change, of the old configuration too.
\<close>

theorem granted_counts_distinct_voters:
  "granted (grant_all gs (ballot_init conf old)) \<longleftrightarrow>
     majority conf (fst ` set gs) \<and> (case old of None \<Rightarrow> True | Some oc \<Rightarrow> majority oc (fst ` set gs))"
  by (rule granted_counts_voters)

text \<open>
  C2. two granted ballots of the same configuration have a voter of that configuration in common,
  whatever their old configurations are.
\<close>

theorem granted_ballots_share_a_voter:
  assumes "granted (grant_all gs (ballot_init conf old1))"
    and "granted (grant_all hs (ballot_init conf old2))"
  shows "\<exists>p \<in> fset conf. p \<in> fst ` set gs \<and> p \<in> fst ` set hs"
  using assms majority_quorum.meet [of conf "fst ` set gs" "fst ` set hs"]
  by (simp add: ballot_init_refines grant_all_refines granted_ballot_of)

definition peer_n :: "nat \<Rightarrow> peer_id" where
  "peer_n n = PeerId n 8000 0"

definition conf3 :: configuration where
  "conf3 = {|peer_n 1, peer_n 2, peer_n 3|}"

lemma conf3_simps [simp]:
  "fset conf3 = {peer_n 1, peer_n 2, peer_n 3}" "fcard conf3 = 3" "peer_n m = peer_n n \<longleftrightarrow> m = n"
  by (simp_all add: conf3_def peer_n_def fcard.rep_eq)

theorem granted_ballots_share_a_voter_witness:
  "\<exists>p \<in> fset conf3. p \<in> fst ` set [(peer_n 1, no_hint), (peer_n 2, (0, -1))]
     \<and> p \<in> fst ` set [(peer_n 3, no_hint), (peer_n 9, no_hint), (peer_n 2, (7, 7))]"
  by (rule granted_ballots_share_a_voter [of _ _ None _ None])
    (simp_all add: granted_counts_voters majority_def)

end
