(* ===== verification/Window.thy ===== *)
theory Window
  imports Prelude
begin

text \<open>
  The sliding window that three components share: \<open>BallotBox\<close> (\<open>_pending_index\<close> and
  \<open>_committed_index_queue\<close>), \<open>ClosureQueue\<close> (\<open>_first_index\<close> and \<open>_has_committed_queue\<close>) and
  \<open>Replicator\<close> (\<open>_oo_start_index\<close> and \<open>_oo_committed_entries\<close>). An index is settled when it lies
  before the base or its flag is set; each component ends its operations with a loop that pops the
  settled prefix. The locale states what that loop promises, the interpretations discharge it for
  the loops of the three components.
\<close>

definition settled :: "int \<Rightarrow> bool list \<Rightarrow> int \<Rightarrow> bool" where
  "settled b fs i \<longleftrightarrow> i < b \<or> (i < b + int (length fs) \<and> fs ! nat (i - b))"

lemma settled_before [simp]: "i < b \<Longrightarrow> settled b fs i"
  by (simp add: settled_def)

lemma settled_after [simp]: "b + int (length fs) \<le> i \<Longrightarrow> \<not> settled b fs i"
  by (simp add: settled_def)

lemma settled_nth: "k < length fs \<Longrightarrow> settled b fs (b + int k) \<longleftrightarrow> fs ! k"
  by (simp add: settled_def)

lemma settled_pop: "settled (b + 1) fs i \<longleftrightarrow> settled b (True # fs) i"
proof -
  consider "i < b" | "i = b" | "b < i" by linarith
  then show ?thesis
  proof cases
    case 3
    then have "nat (i - b) = Suc (nat (i - (b + 1)))" by simp
    with 3 show ?thesis by (auto simp: settled_def)
  qed (auto simp: settled_def)
qed

lemma settled_snoc: "settled b (fs @ [False]) i \<longleftrightarrow> settled b fs i"
  by (auto simp: settled_def nth_append)

lemma settled_update:
  "b \<le> j \<Longrightarrow> j < b + int (length fs) \<Longrightarrow> settled b (fs[nat (j - b) := True]) i \<longleftrightarrow> i = j \<or> settled b fs i"
  by (auto simp: settled_def nth_list_update nat_eq_iff)

text \<open>The part of the flag list that the popping loop removes.\<close>

definition front_run :: "bool list \<Rightarrow> nat" where
  "front_run fs = length (takeWhile (\<lambda>b. b) fs)"

lemma front_run_simps [simp]:
  "front_run [] = 0"
  "front_run (True # fs) = Suc (front_run fs)"
  "front_run (False # fs) = 0"
  by (simp_all add: front_run_def)

lemma front_run_le: "front_run fs \<le> length fs"
  by (simp add: front_run_def length_takeWhile_le)

lemma drop_front_run: "drop (front_run fs) fs = dropWhile (\<lambda>b. b) fs"
  by (simp add: front_run_def dropWhile_eq_drop)

lemma dropWhile_head: "dropWhile (\<lambda>b. b) fs = [] \<or> \<not> hd (dropWhile (\<lambda>b. b) fs)"
  using hd_dropWhile by blast

lemma settled_drop:
  "settled (b + int (front_run fs)) (drop (front_run fs) fs) i \<longleftrightarrow> settled b fs i"
proof (induction fs arbitrary: b)
  case Nil
  then show ?case by simp
next
  case (Cons f fs)
  show ?case
  proof (cases f)
    case True
    have "settled (b + 1 + int (front_run fs)) (drop (front_run fs) fs) i \<longleftrightarrow> settled (b + 1) fs i"
      by (rule Cons.IH)
    with True show ?thesis by (simp add: settled_pop add.assoc)
  qed simp
qed

section \<open>The contract of the popping loop\<close>

locale sliding_window =
  fixes base :: "'s \<Rightarrow> int"
    and flags :: "'s \<Rightarrow> bool list"
    and aligned :: "'s \<Rightarrow> bool"
    and settle :: "'s \<Rightarrow> 's res"
  assumes settle_runs: "aligned s \<Longrightarrow> \<exists>s'. settle s = Inr s'"
    and settle_aligned: "aligned s \<Longrightarrow> settle s = Inr s' \<Longrightarrow> aligned s'"
    and settle_base: "aligned s \<Longrightarrow> settle s = Inr s' \<Longrightarrow> base s' = base s + int (front_run (flags s))"
    and settle_flags: "aligned s \<Longrightarrow> settle s = Inr s' \<Longrightarrow> flags s' = drop (front_run (flags s)) (flags s)"
begin

text \<open>Popping never forgets nor invents a settled index.\<close>

lemma settle_keeps:
  "aligned s \<Longrightarrow> settle s = Inr s' \<Longrightarrow> settled (base s') (flags s') i \<longleftrightarrow> settled (base s) (flags s) i"
  by (simp add: settle_base settle_flags settled_drop)

text \<open>Afterwards the base is the first index that is not settled.\<close>

lemma settle_base_open:
  assumes "aligned s" "settle s = Inr s'"
  shows "\<not> settled (base s') (flags s') (base s')"
proof -
  have "flags s' = [] \<or> \<not> hd (flags s')"
    using assms dropWhile_head by (simp add: settle_flags drop_front_run)
  then show ?thesis by (cases "flags s'") (auto simp: settled_def)
qed

lemma settle_base_least:
  assumes "aligned s" "settle s = Inr s'"
  shows "i < base s' \<longleftrightarrow> (\<forall>j \<le> i. settled (base s) (flags s) j)"
proof
  assume "i < base s'"
  then show "\<forall>j \<le> i. settled (base s) (flags s) j"
    using settle_keeps [OF assms] settled_before by (metis le_less_trans)
next
  assume all: "\<forall>j \<le> i. settled (base s) (flags s) j"
  show "i < base s'"
  proof (rule ccontr)
    assume "\<not> i < base s'"
    with all have "settled (base s) (flags s) (base s')" by simp
    with settle_base_open [OF assms] settle_keeps [OF assms] show False by simp
  qed
qed

lemma settle_base_mono: "aligned s \<Longrightarrow> settle s = Inr s' \<Longrightarrow> base s \<le> base s'"
  by (simp add: settle_base)

end

end
