(* ===== verification/Closure_Queue.thy ===== *)
theory Closure_Queue
  imports Window
begin

text \<open>
  \<open>src/cpp/closure_queue.h\<close> and \<open>closure_queue.cc\<close>: the user closures that wait for their log
  entry to be committed. Entry \<open>k\<close> of \<open>_queue\<close> belongs to log index \<open>_first_index + k\<close>;
  \<open>_has_committed_queue\<close> marks the closures already handed out, so that out-of-order commits hand
  each closure out once. A \<open>Closure*\<close> may be \<open>NULL\<close>, hence the \<open>option\<close>. Which kind of thread
  runs a closure (\<open>_usercode_in_pthread\<close>) is not modelled: running is an output.
\<close>

section \<open>Model\<close>

record 'c closure_queue =
  cq_first_index :: int64
  cq_queue :: "'c option list"
  cq_has_committed :: "bool list"

definition new_closure_queue :: "'c closure_queue" where
  "new_closure_queue = \<lparr>cq_first_index = 0, cq_queue = [], cq_has_committed = []\<rparr>"

text \<open>\<open>clear\<close> returns the closures it runs with \<open>EPERM\<close> ("leader stepped down").\<close>

definition cq_clear :: "'c closure_queue \<Rightarrow> 'c list \<times> 'c closure_queue" where
  "cq_clear q = (List.map_filter (\<lambda>c. c) (cq_queue q), q\<lparr>cq_queue := [], cq_first_index := 0\<rparr>)"

text \<open>\<open>CHECK(_queue.empty())\<close> only logs; the assignment happens in any case.\<close>

definition reset_first_index :: "int64 \<Rightarrow> 'c closure_queue \<Rightarrow> 'c closure_queue" where
  "reset_first_index first_index q = q\<lparr>cq_first_index := first_index\<rparr>"

definition append_pending_closure :: "'c option \<Rightarrow> 'c closure_queue \<Rightarrow> 'c closure_queue" where
  "append_pending_closure c q =
     q\<lparr>cq_queue := cq_queue q @ [c], cq_has_committed := cq_has_committed q @ [False]\<rparr>"

text \<open>The body of the loop of \<open>pop_closure_until\<close> for one position of the queue.\<close>

definition pop_at ::
    "int \<Rightarrow> 'c closure_queue \<Rightarrow> 'c option list \<Rightarrow> int64 list \<Rightarrow>
      ('c closure_queue \<times> 'c option list \<times> int64 list) res" where
  "pop_at queue_index q out out_indexes =
     (case at_index (cq_has_committed q) queue_index of
        Inl e \<Rightarrow> Inl e
      | Inr True \<Rightarrow> Inr (q, out, out_indexes)
      | Inr False \<Rightarrow>
          (case at_index (cq_queue q) queue_index of
             Inl e \<Rightarrow> Inl e
           | Inr c \<Rightarrow> Inr (q\<lparr>cq_has_committed := (cq_has_committed q)[nat queue_index := True]\<rparr>,
                           out @ [c], out_indexes @ [queue_index + cq_first_index q])))"

text \<open>The loop: first the indexes \<open>ite .. to_index\<close>, then the out-of-order ones.\<close>

function pop_loop ::
    "int64 \<Rightarrow> int64 \<Rightarrow> int64 list \<Rightarrow> 'c closure_queue \<Rightarrow> 'c option list \<Rightarrow> int64 list \<Rightarrow>
      ('c closure_queue \<times> 'c option list \<times> int64 list) res" where
  "pop_loop ite to_index oo q out out_indexes =
     (if ite \<le> to_index then
        (case pop_at (ite - cq_first_index q) q out out_indexes of
           Inl e \<Rightarrow> Inl e
         | Inr (q', out', idx') \<Rightarrow> pop_loop (ite + 1) to_index oo q' out' idx')
      else
        (case oo of
           [] \<Rightarrow> Inr (q, out, out_indexes)
         | i # oo' \<Rightarrow>
             (case pop_at (i - cq_first_index q) q out out_indexes of
                Inl e \<Rightarrow> Inl e
              | Inr (q', out', idx') \<Rightarrow> pop_loop ite to_index oo' q' out' idx')))"
  by pat_completeness auto
termination
  by (relation "measure (\<lambda>(ite, to_index, oo, q, out, idx). nat (to_index - ite + 1) + length oo)") auto

declare pop_loop.simps [simp del]

text \<open>The final loop: pop the handed-out prefix. \<open>pop_front\<close> of an empty \<open>_queue\<close> is undefined.\<close>

fun settle_queue :: "int64 \<Rightarrow> 'c option list \<Rightarrow> bool list \<Rightarrow> (int64 \<times> 'c option list \<times> bool list) res" where
  "settle_queue b q [] = Inr (b, q, [])"
| "settle_queue b q (False # fs) = Inr (b, q, False # fs)"
| "settle_queue b [] (True # fs) = Inl Empty_container"
| "settle_queue b (c # q) (True # fs) = settle_queue (b + 1) q fs"

definition cq_settle :: "'c closure_queue \<Rightarrow> 'c closure_queue res" where
  "cq_settle q =
     (case settle_queue (cq_first_index q) (cq_queue q) (cq_has_committed q) of
        Inl e \<Rightarrow> Inl e
      | Inr (b, cs, fs) \<Rightarrow> Inr (q\<lparr>cq_first_index := b, cq_queue := cs, cq_has_committed := fs\<rparr>))"

definition pop_closure_until ::
    "int64 \<Rightarrow> int64 list \<Rightarrow> int64 list \<Rightarrow> 'c closure_queue \<Rightarrow>
      (rc \<times> 'c option list \<times> int64 list \<times> 'c closure_queue) res" where
  "pop_closure_until to_index oo out_indexes q =
     (if cq_queue q = [] \<or> (oo \<noteq> [] \<and> last oo < cq_first_index q) then Inr (OK0, [], oo, q)
      else if oo \<noteq> [] \<and> last oo > cq_first_index q + int (length (cq_queue q)) - 1
      then Inr (NEG1, [], out_indexes, q)
      else
        (case pop_loop (cq_first_index q) to_index oo q [] out_indexes of
           Inl e \<Rightarrow> Inl e
         | Inr (q1, out, idx) \<Rightarrow>
             (case cq_settle q1 of Inl e \<Rightarrow> Inl e | Inr q2 \<Rightarrow> Inr (OK0, out, idx, q2))))"

section \<open>The window contract\<close>

definition cq_aligned :: "'c closure_queue \<Rightarrow> bool" where
  "cq_aligned q \<longleftrightarrow> length (cq_has_committed q) = length (cq_queue q)"

abbreviation cq_done :: "'c closure_queue \<Rightarrow> int64 \<Rightarrow> bool" where
  "cq_done q i \<equiv> settled (cq_first_index q) (cq_has_committed q) i"

lemma settle_queue_aligned:
  "length cs = length fs \<Longrightarrow>
     settle_queue b cs fs = Inr (b + int (front_run fs), drop (front_run fs) cs, drop (front_run fs) fs)"
  by (induction b cs fs rule: settle_queue.induct) auto

interpretation closure_window: sliding_window cq_first_index cq_has_committed cq_aligned cq_settle
  by unfold_locales (auto simp: cq_settle_def cq_aligned_def settle_queue_aligned)

section \<open>Lemmas\<close>

text \<open>One turn of the loop at a position inside the queue.\<close>

lemma pop_at_in:
  assumes "cq_aligned q" "cq_first_index q \<le> i" "i < cq_first_index q + int (length (cq_queue q))"
  shows "pop_at (i - cq_first_index q) q out idx =
     (if cq_done q i then Inr (q, out, idx)
      else Inr (q\<lparr>cq_has_committed := (cq_has_committed q)[nat (i - cq_first_index q) := True]\<rparr>,
                out @ [cq_queue q ! nat (i - cq_first_index q)], idx @ [i]))"
  using assms by (auto simp: pop_at_def settled_def cq_aligned_def split: bool.splits)

definition cq_at :: "'c closure_queue \<Rightarrow> int64 \<Rightarrow> 'c option" where
  "cq_at q i = cq_queue q ! nat (i - cq_first_index q)"

definition in_queue :: "'c closure_queue \<Rightarrow> int64 \<Rightarrow> bool" where
  "in_queue q i \<longleftrightarrow> cq_first_index q \<le> i \<and> i < cq_first_index q + int (length (cq_queue q))"

text \<open>The loop is one pass over the sequential indexes followed by the out-of-order ones.\<close>

fun pop_each ::
    "int64 list \<Rightarrow> 'c closure_queue \<Rightarrow> 'c option list \<Rightarrow> int64 list \<Rightarrow>
      ('c closure_queue \<times> 'c option list \<times> int64 list) res" where
  "pop_each [] q out idx = Inr (q, out, idx)"
| "pop_each (i # is) q out idx =
     (case pop_at (i - cq_first_index q) q out idx of
        Inl e \<Rightarrow> Inl e
      | Inr (q', out', idx') \<Rightarrow> pop_each is q' out' idx')"

lemma pop_loop_each: "pop_loop ite to_index oo q out idx = pop_each ([ite..to_index] @ oo) q out idx"
proof (induction ite to_index oo q out idx rule: pop_loop.induct)
  case (1 ite to_index oo q out idx)
  show ?case
  proof (cases "ite \<le> to_index")
    case True
    with "1.IH"(1) show ?thesis
      by (subst pop_loop.simps) (auto simp: upto_rec1 split: sum.splits)
  next
    case False
    with "1.IH"(2) show ?thesis
      by (subst pop_loop.simps) (auto split: sum.splits list.splits)
  qed
qed

text \<open>
  It hands out, in order, the closures of the indexes not handed out before, and marks them.
\<close>

lemma pop_each_correct:
  assumes "cq_aligned q" "\<forall>i \<in> set is. in_queue q i" "distinct is"
  shows "\<exists>q'. pop_each is q out idx =
        Inr (q', out @ map (cq_at q) (filter (\<lambda>i. \<not> cq_done q i) is), idx @ filter (\<lambda>i. \<not> cq_done q i) is)
      \<and> cq_aligned q' \<and> cq_first_index q' = cq_first_index q \<and> cq_queue q' = cq_queue q
      \<and> (\<forall>i. cq_done q' i \<longleftrightarrow> cq_done q i \<or> i \<in> set is)"
  using assms
proof (induction "is" arbitrary: q out idx)
  case Nil
  then show ?case by simp
next
  case (Cons i "is")
  let ?q = "if cq_done q i then q
      else q\<lparr>cq_has_committed := (cq_has_committed q)[nat (i - cq_first_index q) := True]\<rparr>"
  let ?new = "if cq_done q i then [] else [i]"
  have inq: "in_queue q i" using Cons.prems by simp
  have at: "pop_at (i - cq_first_index q) q out idx = Inr (?q, out @ map (cq_at q) ?new, idx @ ?new)"
    using pop_at_in [OF Cons.prems(1), of i out idx] inq by (auto simp: in_queue_def cq_at_def)
  have frame: "cq_first_index ?q = cq_first_index q" "cq_queue ?q = cq_queue q" "cq_aligned ?q"
    using Cons.prems(1) by (auto simp: cq_aligned_def)
  have mark: "cq_done ?q j \<longleftrightarrow> cq_done q j \<or> j = i" for j
    using Cons.prems(1) inq by (auto simp: settled_update cq_aligned_def in_queue_def)
  have "\<forall>j \<in> set is. in_queue ?q j"
    using Cons.prems(2) frame by (simp add: in_queue_def)
  with Cons.IH [OF frame(3), of "out @ map (cq_at q) ?new" "idx @ ?new"] Cons.prems(3)
  obtain q' where q': "pop_each is ?q (out @ map (cq_at q) ?new) (idx @ ?new) =
        Inr (q', (out @ map (cq_at q) ?new) @ map (cq_at ?q) (filter (\<lambda>i. \<not> cq_done ?q i) is),
             (idx @ ?new) @ filter (\<lambda>i. \<not> cq_done ?q i) is)"
    and post: "cq_aligned q'" "cq_first_index q' = cq_first_index ?q" "cq_queue q' = cq_queue ?q"
      "\<forall>j. cq_done q' j \<longleftrightarrow> cq_done ?q j \<or> j \<in> set is"
    by fastforce
  have same: "filter (\<lambda>i. \<not> cq_done ?q i) is = filter (\<lambda>i. \<not> cq_done q i) is"
    by (rule filter_cong [OF refl]) (use mark Cons.prems(3) in auto)
  have at': "cq_at ?q = cq_at q"
    by (rule ext) (simp only: cq_at_def frame)
  have "pop_each (i # is) q out idx =
      Inr (q', out @ map (cq_at q) (?new @ filter (\<lambda>i. \<not> cq_done q i) is),
           idx @ ?new @ filter (\<lambda>i. \<not> cq_done q i) is)"
    by (simp only: pop_each.simps at sum.case prod.case q' same at' map_append append_assoc)
  moreover have "?new @ filter (\<lambda>i. \<not> cq_done q i) is = filter (\<lambda>i. \<not> cq_done q i) (i # is)"
    by simp
  moreover have "\<forall>j. cq_done q' j \<longleftrightarrow> cq_done q j \<or> j \<in> set (i # is)"
    using post(4) mark by auto
  ultimately show ?case
    using post(1-3) frame by (intro exI [of _ q']) simp
qed

lemma cq_settle_aligned:
  assumes "cq_aligned q"
  shows "cq_settle q = Inr (q\<lparr>cq_first_index := cq_first_index q + int (front_run (cq_has_committed q)),
     cq_queue := drop (front_run (cq_has_committed q)) (cq_queue q),
     cq_has_committed := drop (front_run (cq_has_committed q)) (cq_has_committed q)\<rparr>)"
  using assms by (simp add: cq_settle_def cq_aligned_def settle_queue_aligned)

text \<open>After the final loop the remaining positions still hold the closures of their index.\<close>

lemma cq_settle_at:
  assumes "cq_aligned q" "cq_settle q = Inr q'" "in_queue q' i"
  shows "in_queue q i" "cq_at q' i = cq_at q i"
proof -
  let ?n = "front_run (cq_has_committed q)"
  have n: "?n \<le> length (cq_queue q)"
    using assms(1) front_run_le [of "cq_has_committed q"] by (simp add: cq_aligned_def)
  have q': "cq_first_index q' = cq_first_index q + int ?n" "cq_queue q' = drop ?n (cq_queue q)"
    using assms(2) by (auto simp: cq_settle_aligned [OF assms(1)])
  show "in_queue q i" using assms(3) n by (auto simp: in_queue_def q')
  have le: "cq_first_index q + int ?n \<le> i" using assms(3) by (simp add: in_queue_def q')
  have "?n + nat (i - (cq_first_index q + int ?n)) = nat (i - cq_first_index q)"
    using le by linarith
  then show "cq_at q' i = cq_at q i" using n by (simp add: cq_at_def q')
qed

text \<open>The whole operation, for indexes inside the queue.\<close>

lemma pop_closure_until_newly:
  assumes al: "cq_aligned q" and ne: "cq_queue q \<noteq> []"
    and to: "to_index < cq_first_index q + int (length (cq_queue q))"
    and dist: "distinct oo" and oo: "\<forall>i \<in> set oo. to_index < i \<and> in_queue q i"
  shows "\<exists>q'. pop_closure_until to_index oo [] q =
        Inr (OK0, map (cq_at q) (filter (\<lambda>i. \<not> cq_done q i) ([cq_first_index q..to_index] @ oo)),
             filter (\<lambda>i. \<not> cq_done q i) ([cq_first_index q..to_index] @ oo), q')
      \<and> cq_aligned q'
      \<and> (\<forall>i. cq_done q' i \<longleftrightarrow> cq_done q i \<or> i \<in> set ([cq_first_index q..to_index] @ oo))
      \<and> \<not> cq_done q' (cq_first_index q')
      \<and> (\<forall>i. in_queue q' i \<longrightarrow> in_queue q i \<and> cq_at q' i = cq_at q i)"
proof -
  let ?is = "[cq_first_index q..to_index] @ oo"
  have inq: "\<forall>i \<in> set ?is. in_queue q i" and d: "distinct ?is"
    using to oo dist by (auto simp: in_queue_def)
  have "oo = [] \<or> in_queue q (last oo)" using oo last_in_set by blast
  then have guards: "\<not> (cq_queue q = [] \<or> (oo \<noteq> [] \<and> last oo < cq_first_index q))"
    "\<not> (oo \<noteq> [] \<and> last oo > cq_first_index q + int (length (cq_queue q)) - 1)"
    using ne by (auto simp: in_queue_def)
  obtain q1 where q1: "pop_each ?is q [] [] =
      Inr (q1, map (cq_at q) (filter (\<lambda>i. \<not> cq_done q i) ?is), filter (\<lambda>i. \<not> cq_done q i) ?is)"
    and al1: "cq_aligned q1" and fr: "cq_first_index q1 = cq_first_index q" "cq_queue q1 = cq_queue q"
    and dn: "\<forall>i. cq_done q1 i \<longleftrightarrow> cq_done q i \<or> i \<in> set ?is"
    using pop_each_correct [OF al inq d, of "[]" "[]"] by auto
  obtain q2 where q2: "cq_settle q1 = Inr q2"
    using closure_window.settle_runs [OF al1] by auto
  have "pop_closure_until to_index oo [] q =
      Inr (OK0, map (cq_at q) (filter (\<lambda>i. \<not> cq_done q i) ?is), filter (\<lambda>i. \<not> cq_done q i) ?is, q2)"
    unfolding pop_closure_until_def if_not_P [OF guards(1)] if_not_P [OF guards(2)] pop_loop_each q1
    by (simp add: q2)
  moreover have "\<forall>i. in_queue q2 i \<longrightarrow> in_queue q i \<and> cq_at q2 i = cq_at q i"
    using cq_settle_at [OF al1 q2] fr by (auto simp: in_queue_def cq_at_def)
  ultimately show ?thesis
    using closure_window.settle_aligned [OF al1 q2] closure_window.settle_base_open [OF al1 q2]
      closure_window.settle_keeps [OF al1 q2] dn
    by (intro exI [of _ q2]) simp
qed

section \<open>Properties\<close>

text \<open>
  C26. Handing out closures: if the sequential commit index and the out-of-order indexes lie in the
  queue, \<open>pop_closure_until\<close> succeeds and hands out exactly the closures of the committed indexes
  that were not handed out before, in order; all of them are settled afterwards, nothing else is,
  the queue is popped up to the first open index and the remaining closures keep their index.
\<close>

theorem pop_closure_until_exactly_once:
  assumes al: "cq_aligned q" and ne: "cq_queue q \<noteq> []"
    and to: "to_index < cq_first_index q + int (length (cq_queue q))"
    and dist: "distinct oo" and oo: "\<forall>i \<in> set oo. to_index < i \<and> in_queue q i"
  shows "\<exists>q'. pop_closure_until to_index oo [] q =
        Inr (OK0, map (cq_at q) (filter (\<lambda>i. \<not> cq_done q i) ([cq_first_index q..to_index] @ oo)),
             filter (\<lambda>i. \<not> cq_done q i) ([cq_first_index q..to_index] @ oo), q')
      \<and> cq_aligned q'
      \<and> (\<forall>i. cq_done q' i \<longleftrightarrow> cq_done q i \<or> i \<in> set ([cq_first_index q..to_index] @ oo))
      \<and> \<not> cq_done q' (cq_first_index q')
      \<and> (\<forall>i. in_queue q' i \<longrightarrow> in_queue q i \<and> cq_at q' i = cq_at q i)"
  by (rule pop_closure_until_newly [OF assms])

definition demo_queue :: "nat closure_queue" where
  "demo_queue = fold (\<lambda>c. append_pending_closure (Some c)) [10, 20, 30] (reset_first_index 1 new_closure_queue)"

lemmas demo_queue_eval = demo_queue_def append_pending_closure_def reset_first_index_def new_closure_queue_def

theorem pop_closure_until_exactly_once_witness:
  "\<exists>q'. pop_closure_until 1 [3] [] demo_queue = Inr (OK0, [Some 10, Some 30], [1, 3], q')
      \<and> \<not> cq_done q' (cq_first_index q')"
proof -
  have new: "filter (\<lambda>i. \<not> cq_done demo_queue i) ([cq_first_index demo_queue..1] @ [3]) = [1, 3]"
    and cs: "map (cq_at demo_queue) [1, 3] = [Some 10, Some 30]"
    by (simp_all add: demo_queue_eval settled_def cq_at_def)
  have "cq_aligned demo_queue" "cq_queue demo_queue \<noteq> []"
    "(1::int) < cq_first_index demo_queue + int (length (cq_queue demo_queue))"
    "distinct [3::int]" "\<forall>i \<in> set [3]. 1 < i \<and> in_queue demo_queue i"
    by (simp_all add: demo_queue_eval cq_aligned_def in_queue_def)
  from pop_closure_until_exactly_once [OF this] show ?thesis
    unfolding new cs by blast
qed

text \<open>
  \<open>clear\<close> runs every closure still in the queue, also one that was already handed out by an
  out-of-order commit and only waits behind an open index: such a closure is run twice.
\<close>

theorem clear_runs_handed_out_closure:
  assumes "in_queue q i" "cq_done q i" "cq_at q i = Some c"
  shows "c \<in> set (fst (cq_clear q))"
proof -
  from assms(1) have "cq_at q i \<in> set (cq_queue q)" by (auto simp: cq_at_def in_queue_def)
  with assms(3) show ?thesis by (force simp: cq_clear_def List.map_filter_def)
qed

definition demo_queue_oo :: "nat closure_queue" where
  "demo_queue_oo = (case pop_closure_until 0 [2] [] demo_queue of Inr (_, _, _, q) \<Rightarrow> q | Inl _ \<Rightarrow> demo_queue)"

lemma demo_queue_oo_eq:
  "demo_queue_oo = \<lparr>cq_first_index = 1, cq_queue = [Some 10, Some 20, Some 30], cq_has_committed = [False, True, False]\<rparr>"
  "pop_closure_until 0 [2] [] demo_queue = Inr (OK0, [Some 20], [2], demo_queue_oo)"
  by (simp_all add: demo_queue_oo_def demo_queue_eval pop_closure_until_def pop_loop_each pop_at_def at_index_def
      cq_settle_def numeral_2_eq_2)

theorem clear_runs_handed_out_closure_witness:
  "pop_closure_until 0 [2] [] demo_queue = Inr (OK0, [Some 20], [2], demo_queue_oo) \<and>
   20 \<in> set (fst (cq_clear demo_queue_oo))"
proof -
  have "in_queue demo_queue_oo 2" "cq_done demo_queue_oo 2" "cq_at demo_queue_oo 2 = Some 20"
    by (simp_all add: demo_queue_oo_eq in_queue_def settled_def cq_at_def)
  from clear_runs_handed_out_closure [OF this] demo_queue_oo_eq(2) show ?thesis by simp
qed

text \<open>
  \<open>clear\<close> keeps \<open>_has_committed_queue\<close>, so the marks of one leadership period are read in the
  next one: with a stale mark at position 1, committing only index 5 hands out its closure and
  also drops the closure of index 6 without ever handing it out.
\<close>

theorem stale_mark_drops_closure:
  "pop_closure_until 5 [] []
     (append_pending_closure (Some 60) (append_pending_closure (Some 50)
        (reset_first_index 5 (snd (cq_clear demo_queue_oo))))) =
   Inr (OK0, [Some 50], [5], \<lparr>cq_first_index = 7, cq_queue = [], cq_has_committed = [False, False, False]\<rparr>)"
  by (simp add: demo_queue_oo_eq cq_clear_def append_pending_closure_def reset_first_index_def
      pop_closure_until_def pop_loop_each pop_at_def at_index_def cq_settle_def)

end
