(* ===== verification/Ballot_Box.thy ===== *)
theory Ballot_Box
  imports Ballot Closure_Queue
begin

text \<open>
  \<open>src/cpp/ballot_box.h\<close> and \<open>ballot_box.cc\<close>: the leader's bookkeeping of which pending log
  entries have a quorum of votes. Entry \<open>k\<close> of \<open>_pending_meta_queue\<close> is the ballot of log index
  \<open>_pending_index + k\<close>, and \<open>_committed_index_queue\<close> marks the indexes already reported as
  committed (possibly out of order). The mutex makes every operation atomic. The box owns a
  \<open>ClosureQueue\<close> and calls \<open>FSMCaller::on_committed\<close>, which is an output here.
\<close>

section \<open>Model\<close>

record 'c ballot_box =
  bb_last_committed_index :: int64
  bb_pending_index :: int64
  bb_pending_meta_queue :: "ballot list"
  bb_committed_index_queue :: "bool list"
  bb_closure_queue :: "'c closure_queue"

text \<open>The call \<open>_waiter->on_committed(committed_index, oo_committed_entries)\<close>.\<close>

datatype commit_event = On_committed int64 "int64 list"

text \<open>\<open>BallotBox()\<close> followed by \<open>init\<close>: both options must be given.\<close>

definition ballot_box_init :: "bool \<Rightarrow> 'c closure_queue option \<Rightarrow> rc \<times> 'c ballot_box option" where
  "ballot_box_init has_waiter cq =
     (case cq of
        None \<Rightarrow> (EINVAL, None)
      | Some q \<Rightarrow>
          (if \<not> has_waiter then (EINVAL, None)
           else (OK0, Some \<lparr>bb_last_committed_index = 0, bb_pending_index = 0,
                            bb_pending_meta_queue = [], bb_committed_index_queue = [],
                            bb_closure_queue = q\<rparr>)))"

text \<open>\<open>while (*commit_indexes.begin() < _pending_index) commit_indexes.pop_front()\<close>.\<close>

fun skip_committed :: "int64 \<Rightarrow> int64 list \<Rightarrow> int64 list res" where
  "skip_committed pending [] = Inl Empty_container"
| "skip_committed pending (i # is) = (if i < pending then skip_committed pending is else Inr (i # is))"

text \<open>The \<open>for\<close> loop over the remaining indexes: grant and collect the newly granted ones.\<close>

fun grant_loop ::
    "peer_id \<Rightarrow> int64 \<Rightarrow> int64 list \<Rightarrow> pos_hint \<Rightarrow> ballot list \<Rightarrow> bool list \<Rightarrow> int64 list \<Rightarrow>
      (ballot list \<times> bool list \<times> int64 list) res" where
  "grant_loop peer pending [] hint meta flags oo = Inr (meta, flags, oo)"
| "grant_loop peer pending (i # is) hint meta flags oo =
     (case at_index meta (i - pending) of
        Inl e \<Rightarrow> Inl e
      | Inr bl \<Rightarrow>
          (let (bl', hint') = grant bl peer hint; meta' = meta[nat (i - pending) := bl'] in
           if granted bl' then
             (case at_index flags (i - pending) of
                Inl e \<Rightarrow> Inl e
              | Inr True \<Rightarrow> grant_loop peer pending is hint' meta' flags oo
              | Inr False \<Rightarrow> grant_loop peer pending is hint' meta' (flags[nat (i - pending) := True]) (oo @ [i]))
           else grant_loop peer pending is hint' meta' flags oo))"

text \<open>
  \<open>while (!_committed_index_queue.empty() && _committed_index_queue.front())\<close>: pop both queues
  and count. \<open>pop_front\<close> of an empty \<open>_pending_meta_queue\<close> is undefined.
\<close>

fun settle_pending :: "ballot list \<Rightarrow> bool list \<Rightarrow> int64 \<Rightarrow> (ballot list \<times> bool list \<times> int64) res" where
  "settle_pending meta [] n = Inr (meta, [], n)"
| "settle_pending meta (False # fs) n = Inr (meta, False # fs, n)"
| "settle_pending [] (True # fs) n = Inl Empty_container"
| "settle_pending (m # meta) (True # fs) n = settle_pending meta fs (n + 1)"

definition bb_settle :: "'c ballot_box \<Rightarrow> 'c ballot_box res" where
  "bb_settle bb =
     (case settle_pending (bb_pending_meta_queue bb) (bb_committed_index_queue bb) 0 of
        Inl e \<Rightarrow> Inl e
      | Inr (meta, flags, n) \<Rightarrow>
          Inr (bb\<lparr>bb_pending_meta_queue := meta, bb_committed_index_queue := flags,
                  bb_pending_index := bb_pending_index bb + n\<rparr>))"

definition commit_at ::
    "'c ballot_box \<Rightarrow> int64 list \<Rightarrow> peer_id \<Rightarrow> (rc \<times> commit_event option \<times> 'c ballot_box) res" where
  "commit_at bb commit_indexes peer =
     (if bb_pending_index bb = 0 then Inr (EINVAL, None, bb)
      else if commit_indexes = [] then Inr (OK0, None, bb)
      else if last commit_indexes < bb_pending_index bb then Inr (OK0, None, bb)
      else if last commit_indexes \<ge> bb_pending_index bb + int (length (bb_pending_meta_queue bb))
      then Inr (ERANGE, None, bb)
      else
        (case skip_committed (bb_pending_index bb) commit_indexes of
           Inl e \<Rightarrow> Inl e
         | Inr is \<Rightarrow>
             (case grant_loop peer (bb_pending_index bb) is no_hint
                     (bb_pending_meta_queue bb) (bb_committed_index_queue bb) [] of
                Inl e \<Rightarrow> Inl e
              | Inr (meta, flags, oo) \<Rightarrow>
                  (let bb1 = bb\<lparr>bb_pending_meta_queue := meta, bb_committed_index_queue := flags\<rparr> in
                   if oo = [] then Inr (OK0, None, bb1)
                   else if hd is = bb_pending_index bb then
                     (case bb_settle bb1 of
                        Inl e \<Rightarrow> Inl e
                      | Inr bb2 \<Rightarrow>
                          (let bb3 = bb2\<lparr>bb_last_committed_index := bb_pending_index bb2 - 1\<rparr> in
                           Inr (OK0, Some (On_committed (bb_last_committed_index bb3) oo), bb3)))
                   else Inr (OK0, Some (On_committed (bb_last_committed_index bb1) oo), bb1)))))"

text \<open>
  \<open>clear_pending_tasks\<close> returns the closures that the closure queue runs with an error. Note that
  \<open>_committed_index_queue\<close> is not cleared.
\<close>

definition clear_pending_tasks :: "'c ballot_box \<Rightarrow> 'c list \<times> 'c ballot_box" where
  "clear_pending_tasks bb =
     (let (run, q) = cq_clear (bb_closure_queue bb)
      in (run, bb\<lparr>bb_pending_meta_queue := [], bb_pending_index := 0, bb_closure_queue := q\<rparr>))"

text \<open>The \<open>CHECK\<close>s of \<open>reset_pending_index\<close> log and go on; they are the predicate below.\<close>

definition reset_pending_index :: "int64 \<Rightarrow> 'c ballot_box \<Rightarrow> rc \<times> 'c ballot_box" where
  "reset_pending_index new_pending_index bb =
     (OK0, bb\<lparr>bb_pending_index := new_pending_index,
              bb_closure_queue := reset_first_index new_pending_index (bb_closure_queue bb)\<rparr>)"

definition reset_pending_index_check :: "int64 \<Rightarrow> 'c ballot_box \<Rightarrow> bool" where
  "reset_pending_index_check new_pending_index bb \<longleftrightarrow>
     bb_pending_index bb = 0 \<and> bb_pending_meta_queue bb = [] \<and>
     new_pending_index > bb_last_committed_index bb \<and> cq_queue (bb_closure_queue bb) = []"

definition set_last_committed_index ::
    "int64 \<Rightarrow> int64 list \<Rightarrow> 'c ballot_box \<Rightarrow> rc \<times> commit_event option \<times> 'c ballot_box" where
  "set_last_committed_index last_committed_index oo bb =
     (if bb_pending_index bb \<noteq> 0 \<or> bb_pending_meta_queue bb \<noteq> [] then (NEG1, None, bb)
      else if last_committed_index < bb_last_committed_index bb then (EINVAL, None, bb)
      else if last_committed_index > bb_last_committed_index bb
      then (OK0, Some (On_committed last_committed_index oo),
            bb\<lparr>bb_last_committed_index := last_committed_index\<rparr>)
      else (OK0, None, bb))"

fun oo_indexes_from :: "int64 \<Rightarrow> bool list \<Rightarrow> int64 list" where
  "oo_indexes_from i [] = []"
| "oo_indexes_from i (f # fs) = (if f then i # oo_indexes_from (i + 1) fs else oo_indexes_from (i + 1) fs)"

text \<open>\<open>oo_commited_indexes\<close> (spelled so in the source): the pending index and the marked indexes.\<close>

definition oo_commited_indexes :: "'c ballot_box \<Rightarrow> int64 \<times> int64 list" where
  "oo_commited_indexes bb =
     (bb_pending_index bb, oo_indexes_from (bb_pending_index bb) (bb_committed_index_queue bb))"

definition bb_get_status :: "'c ballot_box \<Rightarrow> int64 \<times> int64 \<times> int64" where
  "bb_get_status bb =
     (bb_last_committed_index bb,
      (if bb_pending_meta_queue bb \<noteq> [] then bb_pending_index bb else 0),
      (if bb_pending_meta_queue bb \<noteq> [] then int (length (bb_pending_meta_queue bb)) else 0))"

definition append_pending_task ::
    "configuration \<Rightarrow> configuration option \<Rightarrow> 'c option \<Rightarrow> 'c ballot_box \<Rightarrow> rc \<times> 'c ballot_box" where
  "append_pending_task conf old_conf closure bb =
     (OK0, bb\<lparr>bb_pending_meta_queue := bb_pending_meta_queue bb @ [ballot_init conf old_conf],
              bb_committed_index_queue := bb_committed_index_queue bb @ [False],
              bb_closure_queue := append_pending_closure closure (bb_closure_queue bb)\<rparr>)"

section \<open>The window contract\<close>

definition bb_aligned :: "'c ballot_box \<Rightarrow> bool" where
  "bb_aligned bb \<longleftrightarrow> length (bb_committed_index_queue bb) = length (bb_pending_meta_queue bb)"

lemma settle_pending_aligned:
  "length meta = length fs \<Longrightarrow>
     settle_pending meta fs n = Inr (drop (front_run fs) meta, drop (front_run fs) fs, n + int (front_run fs))"
  by (induction meta fs n rule: settle_pending.induct) auto

interpretation ballot_window: sliding_window bb_pending_index bb_committed_index_queue bb_aligned bb_settle
  by unfold_locales (auto simp: bb_settle_def bb_aligned_def settle_pending_aligned)

section \<open>Specification: a queue of vote sets\<close>

text \<open>
  A pending task is its configuration, the old configuration of a joint change, and the set of
  peers that stored the entry. The box refines the queue of these tasks: ballots and marks are
  functions of the vote sets.
\<close>

type_synonym task = "configuration \<times> configuration option \<times> peer_id set"

definition task_ballot :: "task \<Rightarrow> ballot" where
  "task_ballot t = (case t of (c, old, V) \<Rightarrow> ballot_of c old V)"

definition quorate :: "task \<Rightarrow> bool" where
  "quorate t = (case t of (c, old, V) \<Rightarrow>
     majority c V \<and> (case old of None \<Rightarrow> True | Some oc \<Rightarrow> majority oc V))"

definition vote_task :: "peer_id \<Rightarrow> task \<Rightarrow> task" where
  "vote_task p t = (case t of (c, old, V) \<Rightarrow> (c, old, insert p V))"

definition vote_at :: "int64 \<Rightarrow> int64 list \<Rightarrow> peer_id \<Rightarrow> task list \<Rightarrow> task list" where
  "vote_at pending is p ts =
     map (\<lambda>k. if pending + int k \<in> set is then vote_task p (ts ! k) else ts ! k) [0..<length ts]"

definition box_tasks :: "'c ballot_box \<Rightarrow> task list \<Rightarrow> bool" where
  "box_tasks bb ts \<longleftrightarrow>
     bb_pending_meta_queue bb = map task_ballot ts \<and>
     bb_committed_index_queue bb = map quorate ts \<and>
     (ts = [] \<or> \<not> quorate (hd ts))"

text \<open>The indexes that a vote of \<open>p\<close> commits.\<close>

definition newly_quorate :: "int64 \<Rightarrow> int64 list \<Rightarrow> peer_id \<Rightarrow> task list \<Rightarrow> int64 list" where
  "newly_quorate pending is p ts =
     filter (\<lambda>i. pending \<le> i \<and> \<not> quorate (ts ! nat (i - pending)) \<and>
                 quorate (vote_task p (ts ! nat (i - pending)))) is"

lemma granted_task_ballot [simp]: "granted (task_ballot t) \<longleftrightarrow> quorate t"
  by (auto simp: task_ballot_def quorate_def granted_ballot_of split: prod.splits)

lemma grant_task_ballot [simp]: "fst (grant (task_ballot t) p h) = task_ballot (vote_task p t)"
  by (auto simp: task_ballot_def vote_task_def grant_refines split: prod.splits)

lemma vote_task_idem [simp]: "vote_task p (vote_task p t) = vote_task p t"
  by (auto simp: vote_task_def split: prod.splits)

lemma quorate_mono: "quorate t \<Longrightarrow> quorate (vote_task p t)"
  by (auto simp: quorate_def vote_task_def split: prod.splits option.splits intro: majority_mono)

lemma length_vote_at [simp]: "length (vote_at b is p ts) = length ts"
  by (simp add: vote_at_def)

lemma nth_vote_at [simp]:
  "k < length ts \<Longrightarrow> vote_at b is p ts ! k = (if b + int k \<in> set is then vote_task p (ts ! k) else ts ! k)"
  by (simp add: vote_at_def)

lemma vote_at_Nil [simp]: "vote_at b [] p ts = ts"
  by (rule nth_equalityI) auto

lemma vote_at_Cons:
  assumes "b \<le> i" "i < b + int (length ts)"
  shows "vote_at b (i # is) p ts = vote_at b is p (ts[nat (i - b) := vote_task p (ts ! nat (i - b))])"
  by (rule nth_equalityI) (use assms in \<open>auto simp: nth_list_update\<close>)

lemma vote_at_outside: "(\<And>i. i \<in> set is \<Longrightarrow> b \<le> i \<Longrightarrow> i \<in> set js) \<Longrightarrow> set js \<subseteq> set is \<Longrightarrow>
    vote_at b is p ts = vote_at b js p ts"
  by (rule nth_equalityI) auto

lemma grant_loop_step:
  assumes k: "k < length ts"
  shows "grant_loop p b ((b + int k) # is) hint (map task_ballot ts) (map quorate ts) oo =
    grant_loop p b is (snd (grant (task_ballot (ts ! k)) p hint))
      (map task_ballot (ts[k := vote_task p (ts ! k)])) (map quorate (ts[k := vote_task p (ts ! k)]))
      (oo @ (if \<not> quorate (ts ! k) \<and> quorate (vote_task p (ts ! k)) then [b + int k] else []))"
proof -
  obtain bl h where g: "grant (task_ballot (ts ! k)) p hint = (bl, h)"
    by (cases "grant (task_ballot (ts ! k)) p hint") auto
  then have bl: "bl = task_ballot (vote_task p (ts ! k))" using grant_task_ballot by (metis fst_conv)
  have same: "quorate (vote_task p (ts ! k)) = quorate (ts ! k) \<Longrightarrow>
      (map quorate ts)[k := quorate (vote_task p (ts ! k))] = map quorate ts"
    using k by (simp add: list_update_same_conv)
  consider "quorate (ts ! k)" "quorate (vote_task p (ts ! k))" | "\<not> quorate (ts ! k)" "quorate (vote_task p (ts ! k))"
    | "\<not> quorate (ts ! k)" "\<not> quorate (vote_task p (ts ! k))"
    using quorate_mono [of "ts ! k" p] by blast
  then show ?thesis
    by cases (use k same in \<open>simp_all add: g bl map_update\<close>)
qed

lemma grant_loop_tasks:
  assumes "\<forall>i \<in> set is. b \<le> i \<and> i < b + int (length ts)" "distinct is"
  shows "grant_loop p b is hint (map task_ballot ts) (map quorate ts) oo =
     Inr (map task_ballot (vote_at b is p ts), map quorate (vote_at b is p ts), oo @ newly_quorate b is p ts)"
  using assms
proof (induction "is" arbitrary: ts hint oo)
  case Nil
  then show ?case by (simp add: newly_quorate_def)
next
  case (Cons i "is")
  define k where "k = nat (i - b)"
  have k: "i = b + int k" "k < length ts" using Cons.prems(1) by (auto simp: k_def)
  let ?ts = "ts[k := vote_task p (ts ! k)]"
  let ?new = "if \<not> quorate (ts ! k) \<and> quorate (vote_task p (ts ! k)) then [i] else []"
  have "newly_quorate b is p ?ts = newly_quorate b is p ts"
    unfolding newly_quorate_def
  proof (rule filter_cong [OF refl])
    fix j assume "j \<in> set is"
    with Cons.prems have "j \<noteq> i" "b \<le> j" by auto
    then have "nat (j - b) \<noteq> k" using k(1) by auto
    then show "(b \<le> j \<and> \<not> quorate (?ts ! nat (j - b)) \<and> quorate (vote_task p (?ts ! nat (j - b)))) \<longleftrightarrow>
       (b \<le> j \<and> \<not> quorate (ts ! nat (j - b)) \<and> quorate (vote_task p (ts ! nat (j - b))))"
      by simp
  qed
  then have new: "?new @ newly_quorate b is p ?ts = newly_quorate b (i # is) p ts"
    using k by (simp add: newly_quorate_def)
  have "vote_at b (i # is) p ts = vote_at b is p ?ts"
    using vote_at_Cons [of b i ts "is" p] k by simp
  moreover have "grant_loop p b (i # is) hint (map task_ballot ts) (map quorate ts) oo =
      grant_loop p b is (snd (grant (task_ballot (ts ! k)) p hint)) (map task_ballot ?ts) (map quorate ?ts) (oo @ ?new)"
    unfolding k(1) by (rule grant_loop_step [OF k(2)])
  ultimately show ?case
    using Cons.IH [of ?ts "snd (grant (task_ballot (ts ! k)) p hint)" "oo @ ?new"] Cons.prems new by simp
qed

lemma filter_ge_last:
  fixes b :: int
  shows "is \<noteq> [] \<Longrightarrow> b \<le> last is \<Longrightarrow> filter (\<lambda>i. b \<le> i) is \<noteq> []"
  using last_in_set [of "is"] by (auto simp: filter_empty_conv)

lemma filter_ge_sorted:
  fixes b :: int
  shows "sorted_wrt (<) (i # is) \<Longrightarrow> b \<le> i \<Longrightarrow> filter (\<lambda>j. b \<le> j) (i # is) = i # is"
  by (auto simp: filter_id_conv)

lemma skip_committed_sorted:
  "sorted_wrt (<) is \<Longrightarrow> is \<noteq> [] \<Longrightarrow> b \<le> last is \<Longrightarrow> skip_committed b is = Inr (filter (\<lambda>i. b \<le> i) is)"
proof (induction "is")
  case (Cons i "is")
  then show ?case
    by (cases "i < b") (use filter_ge_sorted [of i "is" b] in \<open>auto split: if_splits\<close>)
qed simp

lemma hd_filter_sorted:
  fixes b :: int
  shows "sorted_wrt (<) is \<Longrightarrow> is \<noteq> [] \<Longrightarrow> b \<le> last is \<Longrightarrow>
     hd (filter (\<lambda>i. b \<le> i) is) = b \<longleftrightarrow> b \<in> set is"
proof (induction "is")
  case (Cons i "is")
  then show ?case by (cases "i < b") (auto split: if_splits)
qed simp

lemma front_run_quorate: "ts = [] \<or> \<not> quorate (hd ts) \<Longrightarrow> front_run (map quorate ts) = 0"
  by (cases ts) auto

lemma drop_front_run_quorate:
  "drop (front_run (map quorate ts)) ts = [] \<or> \<not> quorate (hd (drop (front_run (map quorate ts)) ts))"
proof (induction ts)
  case (Cons t ts)
  then show ?case by (cases "quorate t") auto
qed simp


lemma settle_tasks:
  "bb_pending_meta_queue bb = map task_ballot ts \<Longrightarrow> bb_committed_index_queue bb = map quorate ts \<Longrightarrow>
    bb_settle bb = Inr (bb\<lparr>bb_pending_meta_queue := map task_ballot (drop (front_run (map quorate ts)) ts),
      bb_committed_index_queue := map quorate (drop (front_run (map quorate ts)) ts),
      bb_pending_index := bb_pending_index bb + int (front_run (map quorate ts))\<rparr>)"
  by (simp add: bb_settle_def settle_pending_aligned drop_map)

lemma hd_vote_at: "ts \<noteq> [] \<Longrightarrow> b \<notin> set is \<Longrightarrow> hd (vote_at b is p ts) = hd ts"
  by (simp add: vote_at_def hd_map hd_conv_nth)

lemma front_run_vote_at:
  assumes "ts = [] \<or> \<not> quorate (hd ts)" "b \<notin> set is"
  shows "front_run (map quorate (vote_at b is p ts)) = 0"
  by (rule front_run_quorate) (use assms hd_vote_at in \<open>auto simp: vote_at_def\<close>)

lemma quorate_vote_at_same:
  assumes "newly_quorate b is p ts = []"
  shows "map quorate (vote_at b is p ts) = map quorate ts"
proof (rule nth_equalityI)
  fix k assume k: "k < length (map quorate (vote_at b is p ts))"
  have "quorate (vote_task p (ts ! k)) = quorate (ts ! k)" if "b + int k \<in> set is"
    using assms that quorate_mono [of "ts ! k" p] by (auto simp: newly_quorate_def filter_empty_conv)
  with k show "map quorate (vote_at b is p ts) ! k = map quorate ts ! k" by auto
qed simp

text \<open>The abstract box (last committed index, first pending index, pending tasks) after a vote.\<close>

definition vote_spec :: "int64 list \<Rightarrow> peer_id \<Rightarrow> int64 \<times> int64 \<times> task list \<Rightarrow> int64 \<times> int64 \<times> task list" where
  "vote_spec is p s =
     (case s of (l, b, ts) \<Rightarrow>
       (let ts' = vote_at b is p ts; n = front_run (map quorate ts')
        in (if newly_quorate b is p ts \<noteq> [] \<and> b \<in> set is then b + int n - 1 else l, b + int n, drop n ts')))"

definition box_abs :: "'c ballot_box \<Rightarrow> int64 \<times> int64 \<times> task list \<Rightarrow> bool" where
  "box_abs bb s = (case s of (l, b, ts) \<Rightarrow>
     bb_last_committed_index bb = l \<and> bb_pending_index bb = b \<and> box_tasks bb ts)"

lemma commit_at_loop:
  assumes box: "box_tasks bb ts" and b: "bb_pending_index bb \<noteq> 0"
    and srt: "sorted_wrt (<) is" and ne: "is \<noteq> []"
    and lo: "bb_pending_index bb \<le> last is" and hi: "last is < bb_pending_index bb + int (length ts)"
  shows "skip_committed (bb_pending_index bb) is = Inr (filter ((\<le>) (bb_pending_index bb)) is)"
    and "grant_loop p (bb_pending_index bb) (filter ((\<le>) (bb_pending_index bb)) is) no_hint
      (bb_pending_meta_queue bb) (bb_committed_index_queue bb) [] =
      Inr (map task_ballot (vote_at (bb_pending_index bb) is p ts), map quorate (vote_at (bb_pending_index bb) is p ts),
        newly_quorate (bb_pending_index bb) is p ts)"
proof -
  show "skip_committed (bb_pending_index bb) is = Inr (filter ((\<le>) (bb_pending_index bb)) is)"
    using skip_committed_sorted [OF srt ne lo] by simp
  have le: "i \<le> last is" if "i \<in> set is" for i
    using srt ne that by (metis last_conv_nth in_set_conv_nth less_imp_le sorted_wrt_nth_less Suc_pred'
        length_greater_0_conv less_Suc_eq order_refl diff_less lessI zero_less_one less_SucE)
  let ?f = "filter ((\<le>) (bb_pending_index bb)) is"
  have "\<forall>i \<in> set ?f. bb_pending_index bb \<le> i \<and> i < bb_pending_index bb + int (length ts)"
    using le hi by fastforce
  moreover have "distinct ?f" using srt by (simp add: strict_sorted_iff)
  moreover have "vote_at (bb_pending_index bb) ?f p ts = vote_at (bb_pending_index bb) is p ts"
    by (rule nth_equalityI) auto
  moreover have "newly_quorate (bb_pending_index bb) ?f p ts = newly_quorate (bb_pending_index bb) is p ts"
    by (auto simp: newly_quorate_def intro!: filter_cong)
  ultimately show "grant_loop p (bb_pending_index bb) ?f no_hint
      (bb_pending_meta_queue bb) (bb_committed_index_queue bb) [] =
      Inr (map task_ballot (vote_at (bb_pending_index bb) is p ts), map quorate (vote_at (bb_pending_index bb) is p ts),
        newly_quorate (bb_pending_index bb) is p ts)"
    using grant_loop_tasks [of ?f "bb_pending_index bb" ts p no_hint "[]"] box by (simp add: box_tasks_def)
qed

lemma commit_at_vote:
  assumes box: "box_tasks bb ts" and b: "bb_pending_index bb \<noteq> 0"
    and srt: "sorted_wrt (<) is" and ne: "is \<noteq> []"
    and lo: "bb_pending_index bb \<le> last is" and hi: "last is < bb_pending_index bb + int (length ts)"
  obtains bb' where
    "commit_at bb is p = Inr (OK0,
       (let new = newly_quorate (bb_pending_index bb) is p ts
        in if new = [] then None else Some (On_committed (bb_last_committed_index bb') new)), bb')"
    "box_abs bb' (vote_spec is p (bb_last_committed_index bb, bb_pending_index bb, ts))"
    "bb_closure_queue bb' = bb_closure_queue bb"
proof -
  let ?b = "bb_pending_index bb" and ?f = "filter ((\<le>) (bb_pending_index bb)) is"
  let ?ts = "vote_at ?b is p ts" and ?new = "newly_quorate ?b is p ts"
  let ?bb1 = "bb\<lparr>bb_pending_meta_queue := map task_ballot ?ts, bb_committed_index_queue := map quorate ?ts\<rparr>"
  note loop = commit_at_loop(1) [OF assms] commit_at_loop(2) [OF assms, of p]
  have len: "length (bb_pending_meta_queue bb) = length ts" using box by (simp add: box_tasks_def)
  have hd: "hd ?f = ?b \<longleftrightarrow> ?b \<in> set is" using hd_filter_sorted [OF srt ne lo] by simp
  have front: "ts = [] \<or> \<not> quorate (hd ts)" using box by (simp add: box_tasks_def)
  have same: "?new = [] \<Longrightarrow> map quorate ?ts = map quorate ts" by (rule quorate_vote_at_same)
  have run: "commit_at bb is p = (if ?new = [] then Inr (OK0, None, ?bb1)
      else if hd ?f = ?b then (case bb_settle ?bb1 of Inl e \<Rightarrow> Inl e
        | Inr bb2 \<Rightarrow> (let bb3 = bb2\<lparr>bb_last_committed_index := bb_pending_index bb2 - 1\<rparr> in
             Inr (OK0, Some (On_committed (bb_last_committed_index bb3) ?new), bb3)))
      else Inr (OK0, Some (On_committed (bb_last_committed_index ?bb1) ?new), ?bb1))"
    using b ne lo hi len loop unfolding commit_at_def by (simp add: Let_def)
  let ?n = "front_run (map quorate ?ts)"
  show thesis
  proof (cases "?new = [] \<or> ?b \<notin> set is")
    case True
    then have n0: "?n = 0"
      using front_run_quorate [OF front] same front_run_vote_at [OF front, of ?b "is" p] by auto
    with True run hd have r1: "commit_at bb is p = Inr (OK0, if ?new = [] then None
        else Some (On_committed (bb_last_committed_index ?bb1) ?new), ?bb1)" by auto
    moreover from n0 True have "box_abs ?bb1 (vote_spec is p (bb_last_committed_index bb, ?b, ts))"
      using drop_front_run_quorate [of ?ts] by (auto simp: box_abs_def vote_spec_def box_tasks_def Let_def)
    ultimately show thesis by (intro that [of ?bb1]) (simp_all add: Let_def)
  next
    case False
    let ?bb3 = "?bb1\<lparr>bb_pending_meta_queue := map task_ballot (drop ?n ?ts),
      bb_committed_index_queue := map quorate (drop ?n ?ts), bb_pending_index := ?b + int ?n,
      bb_last_committed_index := ?b + int ?n - 1\<rparr>"
    have "bb_settle ?bb1 = Inr (?bb1\<lparr>bb_pending_meta_queue := map task_ballot (drop ?n ?ts),
      bb_committed_index_queue := map quorate (drop ?n ?ts), bb_pending_index := ?b + int ?n\<rparr>)"
      using settle_tasks [of ?bb1 ?ts] by simp
    with False run hd have "commit_at bb is p =
        Inr (OK0, Some (On_committed (bb_last_committed_index ?bb3) ?new), ?bb3)"
      by (simp add: Let_def)
    moreover from False have "box_abs ?bb3 (vote_spec is p (bb_last_committed_index bb, ?b, ts))"
      using drop_front_run_quorate [of ?ts] by (auto simp: box_abs_def vote_spec_def box_tasks_def Let_def)
    ultimately show thesis using False by (intro that [of ?bb3]) (simp_all add: Let_def)
  qed
qed

section \<open>A leadership period\<close>

text \<open>
  The runs of one leadership: \<open>reset_pending_index\<close> on a box with no pending tasks and no stale
  marks, then \<open>append_pending_task\<close> and \<open>commit_at\<close> with increasing indexes, in any order. The
  second component is the history of all tasks of the period, committed or not.
\<close>

inductive leader_run :: "int64 \<Rightarrow> 'c ballot_box \<Rightarrow> task list \<Rightarrow> bool" for start where
  lr_reset: "bb_pending_meta_queue bb = [] \<Longrightarrow> bb_committed_index_queue bb = [] \<Longrightarrow>
     bb_last_committed_index bb < start \<Longrightarrow> reset_pending_index start bb = (r, bb') \<Longrightarrow> leader_run start bb' []"
| lr_append: "leader_run start bb ts \<Longrightarrow> append_pending_task conf old closure bb = (r, bb') \<Longrightarrow>
     leader_run start bb' (ts @ [(conf, old, {})])"
| lr_commit: "leader_run start bb ts \<Longrightarrow> sorted_wrt (<) is \<Longrightarrow> commit_at bb is p = Inr (r, ev, bb') \<Longrightarrow>
     leader_run start bb' (if r = OK0 then vote_at start is p ts else ts)"

definition run_inv :: "int64 \<Rightarrow> 'c ballot_box \<Rightarrow> task list \<Rightarrow> bool" where
  "run_inv start bb ts \<longleftrightarrow> (\<exists>n \<le> length ts.
     bb_pending_index bb = start + int n \<and> box_tasks bb (drop n ts) \<and>
     (\<forall>k < n. quorate (ts ! k)) \<and> bb_last_committed_index bb < start + int n)"

lemma quorate_fresh [simp]: "\<not> quorate (conf, old, {})"
  by (simp add: quorate_def majority_def)

lemma task_ballot_fresh: "ballot_init conf old = task_ballot (conf, old, {})"
  by (simp add: task_ballot_def ballot_init_refines)

lemma append_pending_task_tasks:
  "box_tasks bb ts \<Longrightarrow> append_pending_task conf old closure bb = (r, bb') \<Longrightarrow> box_tasks bb' (ts @ [(conf, old, {})])"
  by (cases ts) (auto simp: append_pending_task_def box_tasks_def task_ballot_fresh)

lemma drop_vote_at: "drop n (vote_at b is p ts) = vote_at (b + int n) is p (drop n ts)"
  by (rule nth_equalityI) (auto simp: add.assoc)

lemma quorate_vote_at: "k < length ts \<Longrightarrow> quorate (ts ! k) \<Longrightarrow> quorate (vote_at b is p ts ! k)"
  by (simp add: quorate_mono)

lemma front_run_nth: "k < front_run fs \<Longrightarrow> fs ! k"
  using nth_mem [of k "takeWhile (\<lambda>b. b) fs"]
  by (auto simp: front_run_def takeWhile_nth dest!: set_takeWhileD)

lemma commit_at_stale:
  "bb_pending_index bb = 0 \<or> is = [] \<or> last is < bb_pending_index bb \<or>
     bb_pending_index bb + int (length (bb_pending_meta_queue bb)) \<le> last is \<Longrightarrow>
   commit_at bb is p = Inr
     (if bb_pending_index bb = 0 then EINVAL
      else if is = [] \<or> last is < bb_pending_index bb then OK0 else ERANGE, None, bb)"
  by (auto simp: commit_at_def)

lemma sorted_last_less: "sorted_wrt (<) is \<Longrightarrow> i \<in> set is \<Longrightarrow> last is < (b::int) \<Longrightarrow> i < b"
proof (induction "is")
  case (Cons j "is")
  show ?case
  proof (cases "i \<in> set is")
    case True
    with Cons show ?thesis by (auto split: if_splits)
  next
    case False
    with Cons.prems have "i = j" by simp
    with Cons.prems show ?thesis using last_in_set [of "is"] by (cases "is = []") (auto dest: order.strict_trans)
  qed
qed simp

lemma run_inv_commit:
  assumes inv: "run_inv start bb ts" and srt: "sorted_wrt (<) is"
  obtains r ev bb' where "commit_at bb is p = Inr (r, ev, bb')"
    "run_inv start bb' (if r = OK0 then vote_at start is p ts else ts)"
    "\<forall>l oo. ev = Some (On_committed l oo) \<longrightarrow> l = bb_last_committed_index bb' \<and>
       (\<forall>i \<in> set oo. start \<le> i \<and> i < start + int (length ts) \<and> quorate (vote_at start is p ts ! nat (i - start)))"
proof -
  obtain n where n: "n \<le> length ts" "bb_pending_index bb = start + int n" "box_tasks bb (drop n ts)"
    "\<forall>k < n. quorate (ts ! k)" "bb_last_committed_index bb < start + int n"
    using inv by (auto simp: run_inv_def)
  have len: "length (bb_pending_meta_queue bb) = length ts - n" using n(3) by (simp add: box_tasks_def)
  let ?b = "start + int n"
  show thesis
  proof (cases "?b = 0 \<or> is = [] \<or> last is < ?b \<or> ?b + int (length ts - n) \<le> last is")
    case True
    let ?r = "if ?b = 0 then EINVAL else if is = [] \<or> last is < ?b then OK0 else ERANGE"
    have "run_inv start bb (vote_at start is p ts)" if "is = [] \<or> last is < ?b"
    proof -
      have "i < ?b" if "i \<in> set is" for i
        using sorted_last_less [OF srt that, of ?b] \<open>is = [] \<or> last is < ?b\<close> that by auto
      then have "vote_at ?b is p (drop n ts) = drop n ts"
        by (intro nth_equalityI) force+
      then show ?thesis using n by (auto simp: run_inv_def drop_vote_at quorate_mono intro!: exI [of _ n])
    qed
    then have "run_inv start bb (if ?r = OK0 then vote_at start is p ts else ts)" using inv by auto
    then show thesis
      using that [of ?r None bb] commit_at_stale [of bb "is" p] True n(2) len by simp
  next
    case False
    let ?ts' = "vote_at ?b is p (drop n ts)" let ?m = "front_run (map quorate ?ts')"
    obtain bb' where c: "commit_at bb is p = Inr (OK0, (let new = newly_quorate ?b is p (drop n ts)
        in if new = [] then None else Some (On_committed (bb_last_committed_index bb') new)), bb')"
      "box_abs bb' (vote_spec is p (bb_last_committed_index bb, ?b, drop n ts))"
      by (rule commit_at_vote [OF n(3) _ srt, of p, unfolded n(2)]) (use False in auto)
    have m: "?m \<le> length ts - n" using front_run_le [of "map quorate ?ts'"] by simp
    have q: "quorate (vote_at start is p ts ! k)" if "k < n + ?m" for k
    proof (cases "k < n")
      case False
      then have "quorate (?ts' ! (k - n))"
        using front_run_nth [of "k - n" "map quorate ?ts'"] that m by simp
      then show ?thesis using False that m n(1) by (simp add: drop_vote_at [symmetric])
    qed (use n in \<open>simp add: quorate_mono\<close>)
    have "run_inv start bb' (vote_at start is p ts)"
      unfolding run_inv_def
    proof (intro exI [of _ "n + ?m"] conjI)
      have "drop (n + ?m) (vote_at start is p ts) = drop ?m ?ts'"
        by (simp add: drop_vote_at [of n start] add.commute [of n] drop_drop [symmetric] del: drop_drop)
      with c(2) show "box_tasks bb' (drop (n + ?m) (vote_at start is p ts))"
        by (simp add: box_abs_def vote_spec_def Let_def)
      show "bb_last_committed_index bb' < start + int (n + ?m)"
        using c(2) n(5) by (auto simp: box_abs_def vote_spec_def Let_def)
    qed (use c(2) q m n(1) in \<open>simp_all add: box_abs_def vote_spec_def Let_def\<close>)
    moreover have "start \<le> i \<and> i < start + int (length ts) \<and> quorate (vote_at start is p ts ! nat (i - start))"
      if "i \<in> set (newly_quorate ?b is p (drop n ts))" for i
    proof -
      have i: "i \<in> set is" "?b \<le> i" "quorate (vote_task p (drop n ts ! nat (i - ?b)))"
        using that by (auto simp: newly_quorate_def)
      with False n(1) have "i < start + int (length ts)"
        using sorted_last_less [OF srt i(1), of "start + int (length ts)"] by simp
      moreover have "nat (i - start) = n + nat (i - ?b)" using i(2) by simp
      ultimately show ?thesis using i n(1) by simp
    qed
    ultimately show thesis
      by (intro that [OF c(1)]) (simp_all add: Let_def)
  qed
qed

lemma leader_run_inv: "leader_run start bb ts \<Longrightarrow> run_inv start bb ts"
proof (induction rule: leader_run.induct)
  case (lr_reset bb r bb')
  then show ?case by (auto simp: run_inv_def box_tasks_def reset_pending_index_def)
next
  case (lr_append bb ts conf old closure r bb')
  then obtain n where n: "n \<le> length ts" "bb_pending_index bb = start + int n" "box_tasks bb (drop n ts)"
    "\<forall>k < n. quorate (ts ! k)" "bb_last_committed_index bb < start + int n"
    by (auto simp: run_inv_def)
  with append_pending_task_tasks [OF n(3) lr_append.hyps(2)] show ?case
    unfolding run_inv_def using lr_append.hyps(2)
    by (intro exI [of _ n]) (auto simp: append_pending_task_def nth_append)
next
  case (lr_commit bb ts "is" p r ev bb')
  obtain r1 ev1 bb1 where "commit_at bb is p = Inr (r1, ev1, bb1)"
    "run_inv start bb1 (if r1 = OK0 then vote_at start is p ts else ts)"
    by (rule run_inv_commit [OF lr_commit.IH lr_commit.hyps(2)])
  with lr_commit.hyps(3) show ?case by simp
qed

lemma run_inv_settled:
  assumes "run_inv start bb ts" "start \<le> i"
  shows "settled (bb_pending_index bb) (bb_committed_index_queue bb) i \<longleftrightarrow>
     i < start + int (length ts) \<and> quorate (ts ! nat (i - start))"
proof -
  obtain n where n: "n \<le> length ts" "bb_pending_index bb = start + int n" "box_tasks bb (drop n ts)"
    "\<forall>k < n. quorate (ts ! k)"
    using assms(1) by (auto simp: run_inv_def)
  have fl: "bb_committed_index_queue bb = map quorate (drop n ts)" using n(3) by (simp add: box_tasks_def)
  define k where "k = nat (i - start)"
  have i: "i = start + int k" using assms(2) by (simp add: k_def)
  show ?thesis
  proof (cases "k < n")
    case False
    then have "nat (int k - int n) = k - n" "n + (k - n) = k" by auto
    with False n(1) show ?thesis by (auto simp: settled_def n(2) fl i)
  qed (use n in \<open>simp add: settled_def i\<close>)
qed

lemma oo_indexes_from_settled: "i \<in> set (oo_indexes_from b fs) \<longleftrightarrow> b \<le> i \<and> settled b fs i"
proof (induction fs arbitrary: b)
  case (Cons f fs)
  show ?case
  proof (cases "i \<le> b")
    case True
    then show ?thesis by (auto simp: Cons.IH settled_def)
  next
    case False
    then have "nat (i - b) = Suc (nat (i - (b + 1)))" by simp
    with False show ?thesis by (auto simp: Cons.IH settled_def)
  qed
qed (simp add: settled_def)


text \<open>
  \<open>commit_at\<close> with increasing indexes never leaves the bounds of its queues in a leadership
  period, whatever the indexes are, and every index it reports to the state machine has a quorum
  of recorded voters; the reported last committed index is the one stored in the box.
\<close>

theorem commit_at_reports_only_quorate:
  assumes "leader_run start bb ts" "sorted_wrt (<) is"
  shows "\<exists>r ev bb'. commit_at bb is p = Inr (r, ev, bb') \<and>
     (\<forall>l oo. ev = Some (On_committed l oo) \<longrightarrow> l = bb_last_committed_index bb' \<and>
       (\<forall>i \<in> set oo. start \<le> i \<and> i < start + int (length ts) \<and> quorate (vote_at start is p ts ! nat (i - start))))"
  by (rule run_inv_commit [OF leader_run_inv [OF assms(1)] assms(2)]) blast

text \<open>
  C25. a vote refines the abstract step on the queue of vote sets: every named pending index gets
  the peer's vote, the quorate prefix leaves the queue, and the state machine is told exactly the
  newly quorate indexes, in order, with the new last committed index.
\<close>

theorem commit_at_refines_vote:
  assumes "box_tasks bb ts" "bb_pending_index bb \<noteq> 0" "sorted_wrt (<) is" "is \<noteq> []"
    "bb_pending_index bb \<le> last is" "last is < bb_pending_index bb + int (length ts)"
  shows "\<exists>bb'. commit_at bb is p = Inr (OK0,
       (let new = newly_quorate (bb_pending_index bb) is p ts
        in if new = [] then None else Some (On_committed (bb_last_committed_index bb') new)), bb') \<and>
     box_abs bb' (vote_spec is p (bb_last_committed_index bb, bb_pending_index bb, ts)) \<and>
     bb_closure_queue bb' = bb_closure_queue bb"
  by (rule commit_at_vote [OF assms]) blast

definition box0 :: "nat ballot_box" where
  "box0 = the (snd (ballot_box_init True (Some new_closure_queue)))"

text \<open>A leader that starts at index 1 with three entries replicated to \<open>conf3\<close>.\<close>

definition demo_box :: "nat ballot_box" where
  "demo_box = (((snd \<circ> append_pending_task conf3 None None) ^^ 3) (snd (reset_pending_index 1 box0)))"

definition demo_tasks :: "task list" where
  "demo_tasks = replicate 3 (conf3, None, {})"

lemma demo_tasks_eq: "demo_tasks = [(conf3, None, {}), (conf3, None, {}), (conf3, None, {})]"
  by (simp add: demo_tasks_def numeral_3_eq_3)

lemma demo_box_eq:
  "demo_box = \<lparr>bb_last_committed_index = 0, bb_pending_index = 1,
     bb_pending_meta_queue = replicate 3 (ballot_init conf3 None),
     bb_committed_index_queue = replicate 3 False,
     bb_closure_queue = \<lparr>cq_first_index = 1, cq_queue = replicate 3 None, cq_has_committed = replicate 3 False\<rparr>\<rparr>"
  by (simp add: demo_box_def box0_def ballot_box_init_def append_pending_task_def reset_pending_index_def
      new_closure_queue_def reset_first_index_def append_pending_closure_def numeral_3_eq_3)

lemma demo_leader_run: "leader_run 1 demo_box demo_tasks"
proof -
  let ?a = "snd \<circ> append_pending_task conf3 None None" and ?b = "snd (reset_pending_index 1 box0)"
  have 0: "leader_run 1 ?b []"
    by (rule lr_reset [of box0]) (auto simp: box0_def ballot_box_init_def reset_pending_index_def)
  have s: "leader_run 1 (?a b) (ts @ [(conf3, None, {})])" if "leader_run 1 b ts" for b :: "nat ballot_box" and ts
    by (rule lr_append [OF that, of _ _ _ OK0]) (simp add: append_pending_task_def)
  show ?thesis
    using s [OF s [OF s [OF 0]]] by (simp add: demo_box_def demo_tasks_def numeral_3_eq_3)
qed

lemma demo_box_tasks: "box_tasks demo_box demo_tasks"
  by (simp add: box_tasks_def demo_box_eq demo_tasks_def task_ballot_fresh numeral_3_eq_3)

theorem commit_at_refines_vote_witness:
  "\<exists>bb'. commit_at demo_box [1, 3] (peer_n 1) = Inr (OK0, None, bb') \<and>
     box_abs bb' (0, 1, [(conf3, None, {peer_n 1}), (conf3, None, {}), (conf3, None, {peer_n 1})])"
proof -
  have "newly_quorate 1 [1, 3] (peer_n 1) demo_tasks = []"
    "vote_spec [1, 3] (peer_n 1) (0, 1, demo_tasks) =
       (0, 1, [(conf3, None, {peer_n 1}), (conf3, None, {}), (conf3, None, {peer_n 1})])"
    by (simp_all add: newly_quorate_def demo_tasks_eq vote_task_def quorate_def majority_def vote_spec_def
        vote_at_def Let_def)
  then show ?thesis
    using commit_at_refines_vote [OF demo_box_tasks, of "[1, 3]" "peer_n 1"]
    by (auto simp: demo_box_eq demo_tasks_eq Let_def)
qed


theorem commit_at_reports_only_quorate_witness:
  "\<exists>r ev bb'. commit_at demo_box [2, 9] (peer_n 2) = Inr (r, ev, bb')"
  using commit_at_reports_only_quorate [OF demo_leader_run, of "[2, 9]" "peer_n 2"] by auto

definition stale_box :: "nat ballot_box res" where
  "stale_box =
     (case commit_at demo_box [2] (peer_n 1) of Inl e \<Rightarrow> Inl e | Inr (_, _, b1) \<Rightarrow>
      (case commit_at b1 [2] (peer_n 2) of Inl e \<Rightarrow> Inl e | Inr (_, _, b2) \<Rightarrow>
       Inr (((snd \<circ> append_pending_task conf3 None None) ^^ 2) (snd (reset_pending_index 4 (snd (clear_pending_tasks b2)))))))"

lemma commit_one:
  assumes "bb_pending_index bb \<noteq> 0" "bb_pending_meta_queue bb = map task_ballot ts"
    and i: "i = bb_pending_index bb + int k" "k < length ts" "k < length (bb_committed_index_queue bb)"
  shows "commit_at bb [i] p =
    (let ts' = ts[k := vote_task p (ts ! k)]; fs = bb_committed_index_queue bb;
         bb1 = bb\<lparr>bb_pending_meta_queue := map task_ballot ts'\<rparr>;
         bb2 = bb1\<lparr>bb_committed_index_queue := fs[k := True]\<rparr>
     in if \<not> quorate (ts' ! k) \<or> fs ! k then Inr (OK0, None, bb1)
        else if k = 0 then
          (case bb_settle bb2 of Inl e \<Rightarrow> Inl e
           | Inr bb3 \<Rightarrow> Inr (OK0, Some (On_committed (bb_pending_index bb3 - 1) [i]),
                             bb3\<lparr>bb_last_committed_index := bb_pending_index bb3 - 1\<rparr>))
        else Inr (OK0, Some (On_committed (bb_last_committed_index bb2) [i]), bb2))"
  using assms
  by (auto simp: commit_at_def case_prod_beta Let_def map_update split: bool.splits sum.splits)

text \<open>
  \<open>clear_pending_tasks\<close> keeps \<open>_committed_index_queue\<close>, so the marks of one leadership survive
  into the next. Index 2 of the first leadership is committed out of order by two peers; after a
  step-down and a new leadership at index 4 with two fresh entries, a quorum for index 4 alone makes
  the box report last committed index 5, although nobody voted for index 5.
\<close>

theorem stale_marks_commit_without_votes:
  "\<exists>b. stale_box = Inr b \<and> (\<exists>b1. commit_at b [4] (peer_n 1) = Inr (OK0, None, b1) \<and>
      (\<exists>b2. commit_at b1 [4] (peer_n 2) = Inr (OK0, Some (On_committed 5 [4]), b2)))"
proof -
  let ?t = "(conf3, None, {})" and ?t1 = "(conf3, None, {peer_n 1})" and ?t2 = "(conf3, None, {peer_n 2, peer_n 1})"
  let ?box = "\<lambda>l b ts fs c. \<lparr>bb_last_committed_index = l, bb_pending_index = b, bb_pending_meta_queue = map task_ballot ts,
      bb_committed_index_queue = fs, bb_closure_queue = c\<rparr> :: nat ballot_box"
  have q: "\<not> quorate ?t1" "quorate ?t2" "vote_task (peer_n 1) ?t = ?t1" "vote_task (peer_n 2) ?t1 = ?t2"
    by (simp_all add: quorate_def majority_def vote_task_def)
  obtain c where d: "demo_box = ?box 0 1 [?t, ?t, ?t] [False, False, False] c"
    by (simp add: demo_box_eq task_ballot_fresh numeral_3_eq_3)
  have "commit_at demo_box [2] (peer_n 1) = Inr (OK0, None, ?box 0 1 [?t, ?t1, ?t] [False, False, False] c)"
    unfolding d using q by (subst commit_one [where k = 1 and ts = "[?t, ?t, ?t]"]) (simp_all add: Let_def)
  moreover have "commit_at (?box 0 1 [?t, ?t1, ?t] [False, False, False] c) [2] (peer_n 2) =
       Inr (OK0, Some (On_committed 0 [2]), ?box 0 1 [?t, ?t2, ?t] [False, True, False] c)"
    using q by (subst commit_one [where k = 1 and ts = "[?t, ?t1, ?t]"]) (simp_all add: Let_def)
  ultimately obtain c' where st: "stale_box = Inr (?box 0 4 [?t, ?t] [False, True, False, False, False] c')"
    by (simp add: stale_box_def clear_pending_tasks_def reset_pending_index_def append_pending_task_def
        case_prod_beta Let_def task_ballot_fresh numeral_2_eq_2)
  have "commit_at (?box 0 4 [?t, ?t] [False, True, False, False, False] c') [4] (peer_n 1) =
      Inr (OK0, None, ?box 0 4 [?t1, ?t] [False, True, False, False, False] c')"
    using q by (subst commit_one [where k = 0 and ts = "[?t, ?t]"]) (simp_all add: Let_def)
  moreover have "commit_at (?box 0 4 [?t1, ?t] [False, True, False, False, False] c') [4] (peer_n 2) =
      Inr (OK0, Some (On_committed 5 [4]), ?box 5 6 [] [False, False, False] c')"
    using q by (subst commit_one [where k = 0 and ts = "[?t1, ?t]"]) (simp_all add: Let_def bb_settle_def)
  ultimately show ?thesis using st by blast
qed

end
