(* ===== verification/Peer_Text.thy ===== *)
theory Peer_Text
  imports Configuration
begin

text \<open>
  The text form of peers and configurations: \<open>PeerId::parse\<close>, \<open>PeerId::to_string\<close>
  (\<open>src/cpp/configuration.h\<close>) and \<open>Configuration::parse_from\<close> (\<open>configuration.cc\<close>), with the conversions
  of \<open>sscanf\<close> and \<open>snprintf\<close> that they use. The address functions \<open>butil::str2ip\<close> and
  \<open>butil::endpoint2str\<close> are parameters.
\<close>

section \<open>Conversions of the C library\<close>

definition is_digit :: "char \<Rightarrow> bool" where
  "is_digit c \<longleftrightarrow> 48 \<le> (of_char c :: nat) \<and> (of_char c :: nat) \<le> 57"

definition digit_value :: "char \<Rightarrow> nat" where
  "digit_value c = of_char c - 48"

definition digit_char :: "nat \<Rightarrow> char" where
  "digit_char d = char_of (48 + d)"

definition is_space :: "char \<Rightarrow> bool" where
  "is_space c \<longleftrightarrow> (of_char c :: nat) = 32 \<or> 9 \<le> (of_char c :: nat) \<and> (of_char c :: nat) \<le> 13"

definition digits_value :: "string \<Rightarrow> nat" where
  "digits_value ds = fold (\<lambda>c n. 10 * n + digit_value c) ds 0"

text \<open>\<open>%d\<close>: white space, an optional sign, digits. \<open>None\<close> when there is no digit.\<close>

definition scan_int :: "string \<Rightarrow> (int \<times> string) option" where
  "scan_int s =
     (let s1 = dropWhile is_space s;
          neg = (s1 \<noteq> [] \<and> hd s1 = CHR ''-'');
          s2 = (if s1 \<noteq> [] \<and> (hd s1 = CHR ''-'' \<or> hd s1 = CHR ''+'') then tl s1 else s1);
          ds = takeWhile is_digit s2
      in if ds = [] then None
         else Some (if neg then - int (digits_value ds) else int (digits_value ds), dropWhile is_digit s2))"

definition fits_int :: "int \<Rightarrow> bool" where
  "fits_int i \<longleftrightarrow> - 2147483648 \<le> i \<and> i \<le> 2147483647"

text \<open>\<open>%d\<close> of \<open>snprintf\<close>.\<close>

fun show_nat :: "nat \<Rightarrow> string" where
  "show_nat n = (if n < 10 then [digit_char n] else show_nat (n div 10) @ [digit_char (n mod 10)])"

declare show_nat.simps [simp del]

definition show_int :: "int \<Rightarrow> string" where
  "show_int i = (if i < 0 then CHR ''-'' # show_nat (nat (- i)) else show_nat (nat i))"

section \<open>Peers\<close>

text \<open>
  \<open>PeerId::parse\<close>: \<open>sscanf(str.c_str(), "%[^:]%*[:]%d%*[:]%d", ip_str, &addr.port, &idx)\<close> with a buffer of 64
  bytes, then \<open>str2ip\<close>. \<open>None\<close> stands for -1, which leaves the peer reset.
\<close>

definition peer_parse :: "(string \<Rightarrow> nat option) \<Rightarrow> string \<Rightarrow> peer_id option res" where
  "peer_parse str2ip str =
     (let s = takeWhile (\<lambda>c. c \<noteq> CHR 0x00) str;
          ip_str = takeWhile (\<lambda>c. c \<noteq> CHR '':'') s;
          r1 = dropWhile (\<lambda>c. c \<noteq> CHR '':'') s;
          r2 = dropWhile (\<lambda>c. c = CHR '':'') r1
      in if ip_str = [] then Inr None
         else if length ip_str \<ge> 64 then Inl Buffer_overflow
         else if r1 = [] then Inr None
         else (case scan_int r2 of
                 None \<Rightarrow> Inr None
               | Some (port, r3) \<Rightarrow>
                   (let r4 = dropWhile (\<lambda>c. c = CHR '':'') r3;
                        idx = (if r4 = r3 then 0 else (case scan_int r4 of None \<Rightarrow> 0 | Some (i, _) \<Rightarrow> i))
                    in if \<not> fits_int port \<or> \<not> fits_int idx then Inl Bad_conversion
                       else (case str2ip ip_str of
                               None \<Rightarrow> Inr None
                             | Some ip \<Rightarrow> Inr (Some (PeerId ip port idx))))))"

text \<open>\<open>PeerId::to_string\<close>: \<open>snprintf\<close> into 128 bytes.\<close>

definition peer_to_string :: "(nat \<Rightarrow> int \<Rightarrow> string) \<Rightarrow> peer_id \<Rightarrow> string" where
  "peer_to_string endpoint2str p =
     take 127 (endpoint2str (peer_ip p) (peer_port p) @ '':'' @ show_int (peer_idx p))"

text \<open>\<open>PeerId(const std::string&)\<close>: a failed \<open>CHECK_EQ(0, parse(str))\<close> only logs and leaves the peer reset.\<close>

definition peer_of_string :: "(string \<Rightarrow> nat option) \<Rightarrow> string \<Rightarrow> peer_id res" where
  "peer_of_string str2ip s =
     (case peer_parse str2ip s of Inl f \<Rightarrow> Inl f | Inr None \<Rightarrow> Inr empty_peer | Inr (Some p) \<Rightarrow> Inr p)"

section \<open>Configurations\<close>

text \<open>
  \<open>Configuration::parse_from\<close>. The fields are those of \<open>butil::StringSplitter\<close>, a parameter. A field that
  does not parse ends the loop with -1, the peers before it stay inserted.
\<close>

fun parse_peers :: "(string \<Rightarrow> nat option) \<Rightarrow> string list \<Rightarrow> configuration \<Rightarrow> (rc \<times> configuration) res" where
  "parse_peers str2ip [] conf = Inr (OK0, conf)"
| "parse_peers str2ip (s # ss) conf =
     (case peer_parse str2ip s of
        Inl f \<Rightarrow> Inl f
      | Inr None \<Rightarrow> Inr (NEG1, conf)
      | Inr (Some p) \<Rightarrow> parse_peers str2ip ss (snd (add_peer conf p)))"

definition conf_parse_from ::
    "(string \<Rightarrow> nat option) \<Rightarrow> (char \<Rightarrow> string \<Rightarrow> string list) \<Rightarrow> string \<Rightarrow> (rc \<times> configuration) res" where
  "conf_parse_from str2ip splitter s = parse_peers str2ip (splitter (CHR '','') s) {||}"

text \<open>\<open>operator<<\<close> of peers and configurations.\<close>

definition print_peer :: "(nat \<Rightarrow> int \<Rightarrow> string) \<Rightarrow> peer_id \<Rightarrow> string" where
  "print_peer endpoint2str p = endpoint2str (peer_ip p) (peer_port p) @ '':'' @ show_int (peer_idx p)"

fun print_peers :: "(nat \<Rightarrow> int \<Rightarrow> string) \<Rightarrow> peer_id list \<Rightarrow> string" where
  "print_peers endpoint2str [] = []"
| "print_peers endpoint2str [p] = print_peer endpoint2str p"
| "print_peers endpoint2str (p # ps) = print_peer endpoint2str p @ '','' @ print_peers endpoint2str ps"

definition conf_print :: "(nat \<Rightarrow> int \<Rightarrow> string) \<Rightarrow> configuration \<Rightarrow> string" where
  "conf_print endpoint2str c = print_peers endpoint2str (conf_list_peers c)"

section \<open>Round trip of numbers\<close>

lemma of_char_digit: "d < 10 \<Longrightarrow> (of_char (digit_char d) :: nat) = 48 + d"
  by (simp add: digit_char_def of_char_of)

lemma digit_char_facts [simp]:
  assumes "d < 10"
  shows "is_digit (digit_char d)" "digit_value (digit_char d) = d" "\<not> is_space (digit_char d)"
    "digit_char d \<noteq> CHR ''-''" "digit_char d \<noteq> CHR ''+''" "digit_char d \<noteq> CHR '':''" "digit_char d \<noteq> CHR 0x00"
    "digit_char d \<noteq> CHR '',''"
  using assms of_char_digit [OF assms]
  by (auto simp: is_digit_def digit_value_def is_space_def dest: arg_cong [of _ _ "of_char :: char \<Rightarrow> nat"])

lemma show_nat_digits: "\<forall>c \<in> set (show_nat n). \<exists>d < 10. c = digit_char d"
proof (induction n rule: show_nat.induct)
  case (1 n)
  show ?case
  proof (cases "n < 10")
    case False
    with 1 have "\<forall>c \<in> set (show_nat (n div 10)). \<exists>d < 10. c = digit_char d" by simp
    moreover have "n mod 10 < 10" by simp
    ultimately show ?thesis using False by (subst show_nat.simps) fastforce
  qed (subst show_nat.simps, auto)
qed

lemma show_nat_nonempty [simp]: "show_nat n \<noteq> []"
  by (subst show_nat.simps) simp

lemma digits_value_snoc: "digits_value (ds @ [c]) = 10 * digits_value ds + digit_value c"
  by (simp add: digits_value_def)

lemma digits_value_show: "digits_value (show_nat n) = n"
proof (induction n rule: show_nat.induct)
  case (1 n)
  show ?case
  proof (cases "n < 10")
    case True
    then show ?thesis by (subst show_nat.simps) (simp add: digits_value_def)
  next
    case False
    with 1 show ?thesis by (subst show_nat.simps) (simp add: digits_value_snoc)
  qed
qed

lemma show_nat_length: "n < 10 ^ k \<Longrightarrow> 0 < k \<Longrightarrow> length (show_nat n) \<le> k"
proof (induction k arbitrary: n)
  case (Suc k)
  show ?case
  proof (cases "n < 10")
    case False
    then have "0 < k" using Suc.prems by (cases k) auto
    moreover have "n div 10 < 10 ^ k" using Suc.prems by (simp add: less_mult_imp_div_less mult.commute)
    ultimately show ?thesis using Suc.IH [of "n div 10"] False by (subst show_nat.simps) simp
  qed (subst show_nat.simps, simp)
qed simp

lemma takeWhile_digits:
  "\<forall>c \<in> set ds. is_digit c \<Longrightarrow> rest = [] \<or> \<not> is_digit (hd rest) \<Longrightarrow>
     takeWhile is_digit (ds @ rest) = ds \<and> dropWhile is_digit (ds @ rest) = rest"
  by (cases rest) auto

lemma scan_show_nat:
  assumes "rest = [] \<or> \<not> is_digit (hd rest)"
  shows "scan_int (show_nat n @ rest) = Some (int n, rest)"
proof -
  have dig: "\<forall>c \<in> set (show_nat n). is_digit c" using show_nat_digits [of n] by auto
  obtain c cs where c: "show_nat n = c # cs" by (cases "show_nat n") auto
  with show_nat_digits [of n] obtain d where "d < 10" "c = digit_char d" by auto
  then have "\<not> is_space c" "c \<noteq> CHR ''-''" "c \<noteq> CHR ''+''" by auto
  then have "scan_int (show_nat n @ rest) =
      (let ds = takeWhile is_digit (show_nat n @ rest)
       in if ds = [] then None else Some (int (digits_value ds), dropWhile is_digit (show_nat n @ rest)))"
    by (simp add: scan_int_def c)
  then show ?thesis
    using takeWhile_digits [OF dig assms] by (simp add: digits_value_show)
qed

lemma scan_show_int:
  assumes "rest = [] \<or> \<not> is_digit (hd rest)"
  shows "scan_int (show_int i @ rest) = Some (i, rest)"
proof (cases "i < 0")
  case True
  have dig: "\<forall>c \<in> set (show_nat (nat (- i))). is_digit c" using show_nat_digits [of "nat (- i)"] by auto
  have "\<not> is_space (CHR ''-'')" by (simp add: is_space_def)
  then show ?thesis
    using True takeWhile_digits [OF dig assms]
    by (simp add: scan_int_def show_int_def digits_value_show)
next
  case False
  then show ?thesis using scan_show_nat [OF assms, of "nat i"] by (simp add: show_int_def)
qed

lemma show_nat_chars: "c \<in> set (show_nat n) \<Longrightarrow> c \<noteq> CHR '':'' \<and> c \<noteq> CHR 0x00 \<and> c \<noteq> CHR '',''"
  using show_nat_digits [of n] digit_char_facts(6-8) by metis

lemma show_int_chars: "c \<in> set (show_int i) \<Longrightarrow> c \<noteq> CHR '':'' \<and> c \<noteq> CHR 0x00 \<and> c \<noteq> CHR '',''"
  using show_nat_chars by (auto simp: show_int_def split: if_splits)

lemma show_int_nonempty [simp]: "show_int i \<noteq> []"
  by (simp add: show_int_def)

lemma show_int_length: "fits_int i \<Longrightarrow> length (show_int i) \<le> 11"
proof (cases "i < 0")
  case True
  assume "fits_int i"
  then have "nat (- i) < 10 ^ 10" by (simp add: fits_int_def) linarith
  then show ?thesis using show_nat_length [of "nat (- i)" 10] True by (simp add: show_int_def)
next
  case False
  assume "fits_int i"
  then have "nat i < 10 ^ 10" using False by (simp add: fits_int_def nat_less_iff)
  then show ?thesis using show_nat_length [of "nat i" 10] False by (simp add: show_int_def)
qed

section \<open>Round trip of peers\<close>

text \<open>
  The documented behaviour of the address functions: \<open>endpoint2str\<close> prints the address, a colon and the
  port, and \<open>str2ip\<close> reads an address that \<open>ip2str\<close> printed.
\<close>

definition address_text :: "(string \<Rightarrow> nat option) \<Rightarrow> (nat \<Rightarrow> int \<Rightarrow> string) \<Rightarrow> (nat \<Rightarrow> string) \<Rightarrow> nat \<Rightarrow> bool" where
  "address_text str2ip endpoint2str ip2str ip \<longleftrightarrow>
     (\<forall>port. endpoint2str ip port = ip2str ip @ '':'' @ show_int port) \<and> str2ip (ip2str ip) = Some ip \<and>
     ip2str ip \<noteq> [] \<and> length (ip2str ip) < 64 \<and> (\<forall>c \<in> set (ip2str ip). c \<noteq> CHR '':'' \<and> c \<noteq> CHR 0x00 \<and> c \<noteq> CHR '','')"

lemma colon_not_digit [simp]: "\<not> is_digit (CHR '':'')"
  by (simp add: is_digit_def)

lemma takeWhile_none: "\<forall>c \<in> set xs. P c \<Longrightarrow> \<not> P y \<Longrightarrow> takeWhile P (xs @ y # ys) = xs \<and> dropWhile P (xs @ y # ys) = y # ys"
  by auto

lemma dropWhile_colon_show [simp]: "dropWhile (\<lambda>c. c = CHR '':'') (show_int i @ rest) = show_int i @ rest"
proof (cases "show_int i")
  case (Cons c cs)
  then show ?thesis using show_int_chars [of c i] by simp
qed simp

lemma peer_parse_print:
  assumes a: "address_text str2ip endpoint2str ip2str (peer_ip p)" and fits: "fits_int (peer_port p)" "fits_int (peer_idx p)"
  shows "peer_parse str2ip (print_peer endpoint2str p) = Inr (Some p)"
proof -
  let ?ip = "ip2str (peer_ip p)" and ?port = "show_int (peer_port p)" and ?idx = "show_int (peer_idx p)"
  have s: "print_peer endpoint2str p = ?ip @ CHR '':'' # ?port @ CHR '':'' # ?idx"
    using a by (simp add: print_peer_def address_text_def)
  have ip: "\<forall>c \<in> set ?ip. c \<noteq> CHR '':'' \<and> c \<noteq> CHR 0x00" using a unfolding address_text_def by blast
  have "\<forall>c \<in> set (print_peer endpoint2str p). c \<noteq> CHR 0x00" unfolding s using ip show_int_chars by auto
  then have nul: "takeWhile (\<lambda>c. c \<noteq> CHR 0x00) (print_peer endpoint2str p) = print_peer endpoint2str p"
    by (simp add: takeWhile_eq_all_conv)
  have split: "takeWhile (\<lambda>c. c \<noteq> CHR '':'') (print_peer endpoint2str p) = ?ip"
    "dropWhile (\<lambda>c. c \<noteq> CHR '':'') (print_peer endpoint2str p) = CHR '':'' # ?port @ CHR '':'' # ?idx"
    unfolding s using takeWhile_none [of ?ip "\<lambda>c. c \<noteq> CHR '':''" "CHR '':''"] ip by auto
  have scan1: "scan_int (?port @ CHR '':'' # ?idx) = Some (peer_port p, CHR '':'' # ?idx)" by (rule scan_show_int) simp
  have scan2: "scan_int ?idx = Some (peer_idx p, [])" using scan_show_int [of "[]" "peer_idx p"] by simp
  have colon: "dropWhile (\<lambda>c. c = CHR '':'') ?idx = ?idx" using dropWhile_colon_show [of "peer_idx p" "[]"] by simp
  show ?thesis
    using a fits unfolding peer_parse_def Let_def nul split
    by (simp add: scan1 scan2 colon address_text_def)
qed

text \<open>The text form of a peer reads back; the 128-byte buffer never truncates it.\<close>

lemma peer_parse_to_string:
  assumes a: "address_text str2ip endpoint2str ip2str (peer_ip p)" and fits: "fits_int (peer_port p)" "fits_int (peer_idx p)"
  shows "peer_parse str2ip (peer_to_string endpoint2str p) = Inr (Some p)"
proof -
  have "length (print_peer endpoint2str p) \<le> 127"
    using a show_int_length [OF fits(1)] show_int_length [OF fits(2)] by (auto simp: print_peer_def address_text_def)
  then have "peer_to_string endpoint2str p = print_peer endpoint2str p" by (simp add: peer_to_string_def print_peer_def)
  then show ?thesis using peer_parse_print [OF a fits] by simp
qed

section \<open>Round trip of configurations\<close>

fun join_commas :: "string list \<Rightarrow> string" where
  "join_commas [] = []"
| "join_commas [s] = s"
| "join_commas (s # ss) = s @ '','' @ join_commas ss"

lemma print_peers_join: "print_peers e2s ps = join_commas (map (print_peer e2s) ps)"
  by (induction e2s ps rule: print_peers.induct) auto

lemma parse_peers_print:
  assumes "\<forall>p \<in> set ps. address_text str2ip e2s ip2str (peer_ip p) \<and> fits_int (peer_port p) \<and> fits_int (peer_idx p)"
  shows "parse_peers str2ip (map (print_peer e2s) ps) c = Inr (OK0, c |\<union>| fset_of_list ps)"
  using assms by (induction ps arbitrary: c) (auto simp: peer_parse_print add_peer_def)

lemma conf_parse_print:
  assumes split: "\<forall>ss. (\<forall>s \<in> set ss. s \<noteq> [] \<and> CHR '','' \<notin> set s) \<longrightarrow> splitter (CHR '','') (join_commas ss) = ss"
    and peers: "\<forall>p \<in> fset c. address_text str2ip e2s ip2str (peer_ip p) \<and> fits_int (peer_port p) \<and> fits_int (peer_idx p)"
  shows "conf_parse_from str2ip splitter (conf_print e2s c) = Inr (OK0, c)"
proof -
  let ?ps = "conf_list_peers c"
  have set: "set ?ps = fset c" by (simp add: conf_list_peers_def)
  have "print_peer e2s p \<noteq> [] \<and> CHR '','' \<notin> set (print_peer e2s p)" if "p \<in> set ?ps" for p
    using that peers show_int_chars unfolding set by (force simp: print_peer_def address_text_def)
  then have "splitter (CHR '','') (join_commas (map (print_peer e2s) ?ps)) = map (print_peer e2s) ?ps" using split by auto
  then have "conf_parse_from str2ip splitter (conf_print e2s c) = parse_peers str2ip (map (print_peer e2s) ?ps) {||}"
    by (simp add: conf_parse_from_def conf_print_def print_peers_join)
  also have "\<dots> = Inr (OK0, {||} |\<union>| fset_of_list ?ps)" by (rule parse_peers_print [where ip2str = ip2str]) (use peers set in simp)
  also have "fset_of_list ?ps = c" using set by (simp add: fset_inject [symmetric] fset_of_list.rep_eq)
  finally show ?thesis by simp
qed

text \<open>
  C35. A printed configuration parses back to the same set of peers, when the splitter returns the
  non-empty comma-free fields it was given joined by commas.
\<close>

theorem configuration_text_roundtrip:
  assumes split: "\<forall>ss. (\<forall>s \<in> set ss. s \<noteq> [] \<and> CHR '','' \<notin> set s) \<longrightarrow> splitter (CHR '','') (join_commas ss) = ss"
    and peers: "\<forall>p \<in> fset c. address_text str2ip e2s ip2str (peer_ip p) \<and> fits_int (peer_port p) \<and> fits_int (peer_idx p)"
  shows "conf_parse_from str2ip splitter (conf_print e2s c) = Inr (OK0, c)"
  by (rule conf_parse_print [where splitter = splitter and ip2str = ip2str]) (use assms in simp_all)

section \<open>Witnesses\<close>

definition demo_str2ip :: "string \<Rightarrow> nat option" where
  "demo_str2ip s = (if s = ''10.0.0.1'' then Some 1 else None)"

definition demo_endpoint2str :: "nat \<Rightarrow> int \<Rightarrow> string" where
  "demo_endpoint2str ip port = ''10.0.0.1:'' @ show_int port"

fun demo_split :: "char \<Rightarrow> string \<Rightarrow> string \<Rightarrow> string list" where
  "demo_split sep cur [] = (if cur = [] then [] else [cur])"
| "demo_split sep cur (c # cs) =
     (if c = sep then (if cur = [] then demo_split sep [] cs else cur # demo_split sep [] cs)
      else demo_split sep (cur @ [c]) cs)"

lemma demo_address: "address_text demo_str2ip demo_endpoint2str (\<lambda>ip. ''10.0.0.1'') (Suc 0)"
  by (simp add: address_text_def demo_str2ip_def demo_endpoint2str_def)

lemma demo_split_field: "sep \<notin> set s \<Longrightarrow> demo_split sep cur (s @ rest) = demo_split sep (cur @ s) rest"
  by (induction s arbitrary: cur) auto

lemma demo_split_join:
  "\<forall>s \<in> set ss. s \<noteq> [] \<and> CHR '','' \<notin> set s \<Longrightarrow> demo_split (CHR '','') [] (join_commas ss) = ss"
proof (induction ss rule: join_commas.induct)
  case (2 s)
  then show ?case using demo_split_field [of "CHR '',''" s "[]" "[]"] by simp
qed (auto simp: demo_split_field)

theorem configuration_text_roundtrip_witness:
  "conf_parse_from demo_str2ip (\<lambda>sep. demo_split sep []) (conf_print demo_endpoint2str {|PeerId 1 8000 0, PeerId 1 8001 0|}) =
     Inr (OK0, {|PeerId 1 8000 0, PeerId 1 8001 0|})"
  by (rule configuration_text_roundtrip [where ip2str = "\<lambda>ip. ''10.0.0.1''"])
    (simp_all add: demo_address fits_int_def demo_split_join)

end
