(* ===== verification/Bytes.thy ===== *)
theory Bytes
  imports Prelude "HOL-Library.Word"
begin

text \<open>
  Bytes and the network-order packing of \<open>butil::RawPacker\<close> and \<open>HostToNet32\<close>, as used by the log
  segments and the protobuf files: an integer of \<open>8 * n\<close> bits is \<open>n\<close> bytes, most significant first.
\<close>

unbundle bit_operations_syntax

type_synonym byte = "8 word"

fun pack :: "nat \<Rightarrow> 'a::len word \<Rightarrow> byte list" where
  "pack 0 w = []"
| "pack (Suc n) w = pack n (drop_bit 8 w) @ [ucast w]"

definition unpack :: "byte list \<Rightarrow> 'a::len word" where
  "unpack bs = foldl (\<lambda>a b. push_bit 8 a OR ucast b) 0 bs"

lemma unpack_snoc: "unpack (bs @ [b]) = push_bit 8 (unpack bs) OR ucast b"
  by (simp add: unpack_def)

lemma length_pack [simp]: "length (pack n w) = n"
  by (induction n arbitrary: w) auto

lemma unpack_pack: "unpack (pack n w) = take_bit (8 * n) w"
proof (induction n arbitrary: w)
  case 0
  then show ?case by (simp add: unpack_def)
next
  case (Suc n)
  have "push_bit 8 (take_bit (8 * n) (drop_bit 8 w)) OR ucast (ucast w :: byte) = take_bit (8 * Suc n) w"
    by (rule bit_word_eqI) (auto simp: bit_simps)
  then show ?case by (simp add: unpack_snoc Suc)
qed

lemma unpack_pack64 [simp]: "unpack (pack 8 w) = (w :: 64 word)"
  by (simp add: unpack_pack take_bit_word_eq_self)

lemma unpack_pack32 [simp]: "unpack (pack 4 w) = (w :: 32 word)"
  by (simp add: unpack_pack take_bit_word_eq_self)

text \<open>\<open>int64_t\<close> values in 64-bit fields.\<close>

definition fits64 :: "int \<Rightarrow> bool" where
  "fits64 i \<longleftrightarrow> - (2 ^ 63) \<le> i \<and> i < 2 ^ 63"

lemma sint_word_of_int64: "fits64 i \<Longrightarrow> sint (word_of_int i :: 64 word) = i"
  by (simp add: fits64_def sint_sbintrunc' signed_take_bit_int_eq_self)

lemma sint_word_of_nat32: "n < 2147483648 \<Longrightarrow> sint (word_of_nat n :: 32 word) = int n"
  by (simp add: signed_of_nat signed_take_bit_int_eq_self)

lemma unat_word_of_nat32: "n < 4294967296 \<Longrightarrow> unat (word_of_nat n :: 32 word) = n"
  by (simp add: unat_of_nat)

end
