(* ===== verification/Log_Entry.thy ===== *)
theory Log_Entry
  imports Configuration Bytes
begin

text \<open>
  \<open>src/cpp/log_entry.h\<close> and \<open>log_entry.cc\<close>: log identifiers with their order (term first, then
  index), log entries, and the configuration payload of a configuration entry.
\<close>

section \<open>LogId\<close>

datatype log_id = LogId (id_index: int64) (id_term: int64)

definition log_id_lt :: "log_id \<Rightarrow> log_id \<Rightarrow> bool" where
  "log_id_lt a b = (if id_term a = id_term b then id_index a < id_index b else id_term a < id_term b)"

definition log_id_gt :: "log_id \<Rightarrow> log_id \<Rightarrow> bool" where
  "log_id_gt a b = (if id_term a = id_term b then id_index a > id_index b else id_term a > id_term b)"

definition log_id_le :: "log_id \<Rightarrow> log_id \<Rightarrow> bool" where
  "log_id_le a b = (\<not> log_id_gt a b)"

instantiation log_id :: linorder
begin

definition less_log_id :: "log_id \<Rightarrow> log_id \<Rightarrow> bool" where
  "less_log_id = log_id_lt"

definition less_eq_log_id :: "log_id \<Rightarrow> log_id \<Rightarrow> bool" where
  "less_eq_log_id = log_id_le"

instance
proof
  fix a b :: log_id
  assume "a \<le> b" "b \<le> a"
  then show "a = b"
    by (cases a; cases b) (auto simp: less_eq_log_id_def log_id_le_def log_id_gt_def split: if_splits)
qed (auto simp: less_log_id_def less_eq_log_id_def log_id_lt_def log_id_le_def log_id_gt_def split: if_splits)

end

lemmas log_id_order_defs =
  less_log_id_def less_eq_log_id_def log_id_lt_def log_id_le_def log_id_gt_def

definition new_log_id :: log_id where
  "new_log_id = LogId 0 0"

section \<open>Entries\<close>

datatype entry_type =
    ENTRY_TYPE_UNKNOWN
  | ENTRY_TYPE_NO_OP
  | ENTRY_TYPE_DATA
  | ENTRY_TYPE_CONFIGURATION
  | ENTRY_TYPE_O3

text \<open>
  A \<open>LogEntry\<close>. \<open>peers\<close> and \<open>old_peers\<close> are owned pointers that may be \<open>NULL\<close>. The constructor
  leaves \<open>dependency\<close> uninitialised; every path that creates an entry assigns it.
\<close>

record log_entry =
  le_type :: entry_type
  le_id :: log_id
  le_dependency :: int64
  le_peers :: "peer_id list option"
  le_old_peers :: "peer_id list option"
  le_data :: "byte list"

definition new_log_entry :: "int64 \<Rightarrow> log_entry" where
  "new_log_entry garbage =
     \<lparr>le_type = ENTRY_TYPE_UNKNOWN, le_id = new_log_id, le_dependency = garbage,
      le_peers = None, le_old_peers = None, le_data = []\<rparr>"

abbreviation le_index :: "log_entry \<Rightarrow> int64" where
  "le_index e \<equiv> id_index (le_id e)"

abbreviation le_term :: "log_entry \<Rightarrow> int64" where
  "le_term e \<equiv> id_term (le_id e)"

section \<open>Configuration payload\<close>

text \<open>
  \<open>ConfigurationPBMeta\<close> has two repeated string fields. The protobuf wire format is a pair of
  parameters: \<open>ser\<close> serialises a message, \<open>par\<close> parses bytes. \<open>to_s\<close> and \<open>of_s\<close> stand for
  \<open>PeerId::to_string\<close> and the constructor from a string.
\<close>

record conf_pb_meta =
  pb_peers :: "string list"
  pb_old_peers :: "string list"

definition parse_configuration_meta ::
    "(byte list \<Rightarrow> conf_pb_meta option) \<Rightarrow> (string \<Rightarrow> peer_id) \<Rightarrow> byte list \<Rightarrow> log_entry \<Rightarrow> rc \<times> log_entry" where
  "parse_configuration_meta par of_s bytes entry =
     (case par bytes of
        None \<Rightarrow> (EINVAL, entry)
      | Some meta \<Rightarrow>
          (let e1 = entry\<lparr>le_peers := Some (map of_s (pb_peers meta))\<rparr>
           in (OK0, if length (pb_old_peers meta) > 0
                    then e1\<lparr>le_old_peers := Some (map of_s (pb_old_peers meta))\<rparr> else e1)))"

definition serialize_configuration_meta ::
    "(conf_pb_meta \<Rightarrow> byte list option) \<Rightarrow> (peer_id \<Rightarrow> string) \<Rightarrow> log_entry \<Rightarrow> (rc \<times> byte list) res" where
  "serialize_configuration_meta ser to_s entry =
     (case le_peers entry of
        None \<Rightarrow> Inl Null_deref
      | Some ps \<Rightarrow>
          (let meta = \<lparr>pb_peers = map to_s ps,
                       pb_old_peers = (case le_old_peers entry of None \<Rightarrow> [] | Some os \<Rightarrow> map to_s os)\<rparr>
           in case ser meta of None \<Rightarrow> Inr (EINVAL, []) | Some bs \<Rightarrow> Inr (OK0, bs)))"

text \<open>
  The configuration of an entry survives serialisation and parsing, for a protobuf codec that
  parses what it serialises and a textual form of peers that is read back; an empty
  \<open>old_peers\<close> vector comes back as no old configuration.
\<close>

theorem configuration_meta_roundtrip:
  assumes "\<And>m bs. ser m = Some bs \<Longrightarrow> par bs = Some m"
    and "\<And>p. p \<in> set ps \<union> set (case old of None \<Rightarrow> [] | Some os \<Rightarrow> os) \<Longrightarrow> of_s (to_s p) = p"
    and "serialize_configuration_meta ser to_s (e\<lparr>le_peers := Some ps, le_old_peers := old\<rparr>) = Inr (OK0, bs)"
  shows "parse_configuration_meta par of_s bs (e\<lparr>le_peers := None, le_old_peers := None\<rparr>) =
     (OK0, e\<lparr>le_peers := Some ps, le_old_peers := (if old = Some [] then None else old)\<rparr>)"
proof -
  have ps: "map of_s (map to_s ps) = ps" using assms(2) by (simp add: map_idI)
  have os: "map of_s (map to_s os) = os" if "old = Some os" for os
    using assms(2) that by (simp add: map_idI)
  from assms(3) have "ser \<lparr>pb_peers = map to_s ps,
      pb_old_peers = (case old of None \<Rightarrow> [] | Some os \<Rightarrow> map to_s os)\<rparr> = Some bs"
    by (simp add: serialize_configuration_meta_def Let_def split: option.splits)
  from assms(1) [OF this] show ?thesis
    using ps os by (cases old) (auto simp: parse_configuration_meta_def)
qed

text \<open>A toy codec with one byte per character shows that the hypotheses can hold.\<close>

definition demo_ser :: "conf_pb_meta \<Rightarrow> byte list option" where
  "demo_ser m = (if m = \<lparr>pb_peers = [''a''], pb_old_peers = []\<rparr> then Some [7] else None)"

definition demo_par :: "byte list \<Rightarrow> conf_pb_meta option" where
  "demo_par bs = (if bs = [7] then Some \<lparr>pb_peers = [''a''], pb_old_peers = []\<rparr> else None)"

theorem configuration_meta_roundtrip_witness:
  "parse_configuration_meta demo_par (\<lambda>s. PeerId 1 8000 0) [7] (new_log_entry 0) =
     (OK0, (new_log_entry 0)\<lparr>le_peers := Some [PeerId 1 8000 0]\<rparr>)"
proof -
  have "serialize_configuration_meta demo_ser (\<lambda>p. ''a'')
      ((new_log_entry 0)\<lparr>le_peers := Some [PeerId 1 8000 0], le_old_peers := None\<rparr>) = Inr (OK0, [7])"
    by (simp add: serialize_configuration_meta_def demo_ser_def)
  moreover have "demo_par bs = Some m" if "demo_ser m = Some bs" for m bs
    using that by (auto simp: demo_ser_def demo_par_def split: if_splits)
  ultimately show ?thesis
    using configuration_meta_roundtrip [of demo_ser demo_par "[PeerId 1 8000 0]" None "\<lambda>s. PeerId 1 8000 0"
        "\<lambda>p. ''a''" "new_log_entry 0" "[7]"]
    by (simp add: new_log_entry_def)
qed

end
