(* ===== verification/Configuration_Manager.thy ===== *)
theory Configuration_Manager
  imports Log_Entry
begin

text \<open>
  \<open>src/cpp/configuration_manager.h\<close> and \<open>configuration_manager.cc\<close>: the history of the group's
  configurations, one entry per configuration log entry, ordered by log index.
\<close>

section \<open>Model\<close>

record configuration_entry =
  ce_id :: log_id
  ce_conf :: configuration
  ce_old_conf :: configuration

definition new_configuration_entry :: configuration_entry where
  "new_configuration_entry = \<lparr>ce_id = new_log_id, ce_conf = {||}, ce_old_conf = {||}\<rparr>"

text \<open>\<open>ConfigurationEntry(const LogEntry&)\<close> dereferences \<open>entry.peers\<close>.\<close>

definition configuration_entry_of :: "log_entry \<Rightarrow> configuration_entry res" where
  "configuration_entry_of e =
     (case le_peers e of
        None \<Rightarrow> Inl Null_deref
      | Some ps \<Rightarrow>
          Inr \<lparr>ce_id = le_id e, ce_conf = conf_of_vector ps,
               ce_old_conf = (case le_old_peers e of None \<Rightarrow> {||} | Some os \<Rightarrow> conf_of_vector os)\<rparr>)"

definition ce_stable :: "configuration_entry \<Rightarrow> bool" where
  "ce_stable ce = conf_empty (ce_old_conf ce)"

definition ce_empty :: "configuration_entry \<Rightarrow> bool" where
  "ce_empty ce = conf_empty (ce_conf ce)"

definition ce_list_peers :: "configuration_entry \<Rightarrow> peer_id fset" where
  "ce_list_peers ce = append_peers (ce_old_conf ce) (append_peers (ce_conf ce) {||})"

definition ce_contains :: "configuration_entry \<Rightarrow> peer_id \<Rightarrow> bool" where
  "ce_contains ce peer \<longleftrightarrow> conf_contains (ce_conf ce) peer \<or> conf_contains (ce_old_conf ce) peer"

record configuration_manager =
  cm_configurations :: "configuration_entry list"
  cm_snapshot :: configuration_entry

definition new_configuration_manager :: configuration_manager where
  "new_configuration_manager = \<lparr>cm_configurations = [], cm_snapshot = new_configuration_entry\<rparr>"

abbreviation ce_index :: "configuration_entry \<Rightarrow> int64" where
  "ce_index ce \<equiv> id_index (ce_id ce)"

definition cm_add :: "configuration_entry \<Rightarrow> configuration_manager \<Rightarrow> rc \<times> configuration_manager" where
  "cm_add entry cm =
     (if cm_configurations cm \<noteq> [] \<and> ce_index (last (cm_configurations cm)) \<ge> ce_index entry
      then (NEG1, cm)
      else (OK0, cm\<lparr>cm_configurations := cm_configurations cm @ [entry]\<rparr>))"

fun pop_front_below :: "int64 \<Rightarrow> configuration_entry list \<Rightarrow> configuration_entry list" where
  "pop_front_below k [] = []"
| "pop_front_below k (c # cs) = (if ce_index c < k then pop_front_below k cs else c # cs)"

definition cm_truncate_prefix :: "int64 \<Rightarrow> configuration_manager \<Rightarrow> configuration_manager" where
  "cm_truncate_prefix first_index_kept cm =
     cm\<lparr>cm_configurations := pop_front_below first_index_kept (cm_configurations cm)\<rparr>"

function pop_back_above :: "int64 \<Rightarrow> configuration_entry list \<Rightarrow> configuration_entry list" where
  "pop_back_above k cs =
     (if cs \<noteq> [] \<and> ce_index (last cs) > k then pop_back_above k (butlast cs) else cs)"
  by pat_completeness auto
termination by (relation "measure (\<lambda>(k, cs). length cs)") auto

declare pop_back_above.simps [simp del]

definition cm_truncate_suffix :: "int64 \<Rightarrow> configuration_manager \<Rightarrow> configuration_manager" where
  "cm_truncate_suffix last_index_kept cm =
     cm\<lparr>cm_configurations := pop_back_above last_index_kept (cm_configurations cm)\<rparr>"

text \<open>The loop of \<open>get\<close>: how far the iterator gets before an index beyond the bound.\<close>

fun get_position :: "int64 \<Rightarrow> configuration_entry list \<Rightarrow> nat" where
  "get_position k [] = 0"
| "get_position k (c # cs) = (if ce_index c > k then 0 else Suc (get_position k cs))"

definition cm_get :: "int64 \<Rightarrow> configuration_manager \<Rightarrow> configuration_entry" where
  "cm_get last_included_index cm =
     (let cs = cm_configurations cm; it = get_position last_included_index cs
      in if cs = [] then cm_snapshot cm
         else if it = 0 then cm_snapshot cm
         else cs ! (it - 1))"

definition last_configuration :: "configuration_manager \<Rightarrow> configuration_entry" where
  "last_configuration cm =
     (if cm_configurations cm \<noteq> [] then last (cm_configurations cm) else cm_snapshot cm)"

section \<open>Invariant and specification\<close>

definition cm_ok :: "configuration_manager \<Rightarrow> bool" where
  "cm_ok cm \<longleftrightarrow> sorted_wrt (\<lambda>a b. ce_index a < ce_index b) (cm_configurations cm)"

lemma pop_front_below_filter:
  "sorted_wrt (\<lambda>a b. ce_index a < ce_index b) cs \<Longrightarrow>
     pop_front_below k cs = filter (\<lambda>c. k \<le> ce_index c) cs"
proof (induction cs)
  case (Cons c cs)
  show ?case
  proof (cases "ce_index c < k")
    case False
    then have "filter (\<lambda>c. k \<le> ce_index c) cs = cs" using Cons.prems by (auto simp: filter_id_conv)
    with False show ?thesis by simp
  qed (use Cons in auto)
qed simp

lemma pop_back_above_snoc:
  "pop_back_above k (cs @ [c]) = (if ce_index c > k then pop_back_above k cs else cs @ [c])"
  by (subst pop_back_above.simps) simp

lemma pop_back_above_Nil [simp]: "pop_back_above k [] = []"
  by (subst pop_back_above.simps) simp

lemma pop_back_above_filter:
  "sorted_wrt (\<lambda>a b. ce_index a < ce_index b) cs \<Longrightarrow>
     pop_back_above k cs = filter (\<lambda>c. ce_index c \<le> k) cs"
proof (induction cs rule: rev_induct)
  case (snoc c cs)
  show ?case
  proof (cases "ce_index c > k")
    case False
    then have "filter (\<lambda>c. ce_index c \<le> k) cs = cs"
      using snoc.prems by (force simp: filter_id_conv sorted_wrt_append)
    with False show ?thesis by (simp add: pop_back_above_snoc)
  qed (use snoc in \<open>auto simp: pop_back_above_snoc sorted_wrt_append\<close>)
qed simp

lemma get_position_takeWhile: "get_position k cs = length (takeWhile (\<lambda>c. ce_index c \<le> k) cs)"
  by (induction cs) auto

text \<open>What the history answers for an index: the newest configuration at or before it.\<close>

definition newest_upto :: "int64 \<Rightarrow> configuration_manager \<Rightarrow> configuration_entry" where
  "newest_upto k cm =
     (let cs = filter (\<lambda>c. ce_index c \<le> k) (cm_configurations cm)
      in if cs = [] then cm_snapshot cm else last cs)"

lemma takeWhile_filter_sorted:
  "sorted_wrt (\<lambda>a b. ce_index a < ce_index b) cs \<Longrightarrow>
     takeWhile (\<lambda>c. ce_index c \<le> k) cs = filter (\<lambda>c. ce_index c \<le> k) cs"
proof (induction cs)
  case (Cons c cs)
  show ?case
  proof (cases "ce_index c \<le> k")
    case False
    then have "filter (\<lambda>c. ce_index c \<le> k) cs = []" using Cons.prems by (auto simp: filter_empty_conv)
    with False show ?thesis by simp
  qed (use Cons in auto)
qed simp

lemma cm_get_newest: "cm_ok cm \<Longrightarrow> cm_get k cm = newest_upto k cm"
proof -
  let ?cs = "cm_configurations cm" and ?t = "takeWhile (\<lambda>c. ce_index c \<le> k) (cm_configurations cm)"
  assume "cm_ok cm"
  then have t: "?t = filter (\<lambda>c. ce_index c \<le> k) ?cs" by (simp add: cm_ok_def takeWhile_filter_sorted)
  have "?t \<noteq> [] \<Longrightarrow> last ?t = ?cs ! (length ?t - 1)"
    by (simp add: last_conv_nth takeWhile_nth)
  then show ?thesis
    using t by (auto simp: cm_get_def newest_upto_def get_position_takeWhile Let_def)
qed

section \<open>The history contract\<close>

text \<open>
  What the log manager relies on: truncation keeps exactly the configurations inside the kept
  range, a refused \<open>add\<close> changes nothing, and a lookup answers from the kept history.
\<close>

locale configuration_history =
  fixes ok :: "'s \<Rightarrow> bool"
    and entries :: "'s \<Rightarrow> configuration_entry list"
    and add :: "configuration_entry \<Rightarrow> 's \<Rightarrow> rc \<times> 's"
    and tprefix :: "int64 \<Rightarrow> 's \<Rightarrow> 's"
    and tsuffix :: "int64 \<Rightarrow> 's \<Rightarrow> 's"
  assumes ok_sorted: "ok s \<Longrightarrow> sorted_wrt (\<lambda>a b. ce_index a < ce_index b) (entries s)"
    and add_ok: "ok s \<Longrightarrow> ok (snd (add c s))"
    and add_entries: "add c s = (r, s') \<Longrightarrow> ok s \<Longrightarrow>
       (if \<forall>d \<in> set (entries s). ce_index d < ce_index c then r = OK0 \<and> entries s' = entries s @ [c]
        else r = NEG1 \<and> s' = s)"
    and tprefix_ok: "ok s \<Longrightarrow> ok (tprefix k s)"
    and tprefix_entries: "ok s \<Longrightarrow> entries (tprefix k s) = filter (\<lambda>c. k \<le> ce_index c) (entries s)"
    and tsuffix_ok: "ok s \<Longrightarrow> ok (tsuffix k s)"
    and tsuffix_entries: "ok s \<Longrightarrow> entries (tsuffix k s) = filter (\<lambda>c. ce_index c \<le> k) (entries s)"
begin

text \<open>After a suffix truncation the next configuration is always accepted.\<close>

lemma add_after_tsuffix:
  assumes "ok s" "k < ce_index c" "add c (tsuffix k s) = (r, s')"
  shows "r = OK0 \<and> entries s' = filter (\<lambda>d. ce_index d \<le> k) (entries s) @ [c]"
  using add_entries [OF assms(3) tsuffix_ok [OF assms(1)]] assms(2)
  by (auto simp: tsuffix_entries [OF assms(1)] split: if_splits)

lemma truncations_commute: "ok s \<Longrightarrow> entries (tprefix j (tsuffix k s)) = entries (tsuffix k (tprefix j s))"
  by (simp add: tprefix_entries tsuffix_entries tprefix_ok tsuffix_ok conj_commute)

end

lemma sorted_last_bound:
  fixes f :: "'a \<Rightarrow> int"
  shows "sorted_wrt (\<lambda>a b. f a < f b) xs \<Longrightarrow> xs \<noteq> [] \<Longrightarrow> f (last xs) < k \<longleftrightarrow> (\<forall>d \<in> set xs. f d < k)"
proof (induction xs)
  case (Cons x xs)
  show ?case
  proof (cases "xs = []")
    case False
    with Cons.prems(1) have "f x < f (last xs)" by simp
    with False Cons show ?thesis using last_in_set [OF False] by (auto dest: order.strict_trans)
  qed simp
qed simp

lemma cm_add_cases:
  "cm_ok cm \<Longrightarrow> cm_add c cm = (if \<forall>d \<in> set (cm_configurations cm). ce_index d < ce_index c
     then (OK0, cm\<lparr>cm_configurations := cm_configurations cm @ [c]\<rparr>) else (NEG1, cm))"
  using sorted_last_bound [of ce_index "cm_configurations cm" "ce_index c"]
  by (cases "cm_configurations cm = []") (simp_all add: cm_add_def cm_ok_def not_le [symmetric])

interpretation conf_history: configuration_history cm_ok cm_configurations cm_add cm_truncate_prefix cm_truncate_suffix
  by unfold_locales
    (auto simp: cm_add_cases split: if_splits, auto simp: cm_ok_def cm_truncate_prefix_def cm_truncate_suffix_def
      pop_front_below_filter pop_back_above_filter sorted_wrt_filter sorted_wrt_append)

section \<open>Histories\<close>

datatype cm_op = Cm_add configuration_entry | Cm_truncate_prefix int64 | Cm_truncate_suffix int64

fun cm_step :: "cm_op \<Rightarrow> configuration_manager \<Rightarrow> configuration_manager" where
  "cm_step (Cm_add c) cm = snd (cm_add c cm)"
| "cm_step (Cm_truncate_prefix k) cm = cm_truncate_prefix k cm"
| "cm_step (Cm_truncate_suffix k) cm = cm_truncate_suffix k cm"

lemma cm_step_ok: "cm_ok cm \<Longrightarrow> cm_ok (fold cm_step ops cm)"
proof (induction ops arbitrary: cm)
  case (Cons op ops)
  then show ?case
    by (cases op) (auto simp: conf_history.add_ok conf_history.tprefix_ok conf_history.tsuffix_ok)
qed simp

lemma new_cm_ok [simp]: "cm_ok new_configuration_manager"
  by (simp add: cm_ok_def new_configuration_manager_def)

text \<open>
  C30. whatever sequence of \<open>add\<close>, \<open>truncate_prefix\<close> and \<open>truncate_suffix\<close> a history went through,
  its indexes are strictly increasing, \<open>get\<close> answers the newest configuration at or before the
  index (the initial one when there is none), and \<open>last_configuration\<close> is the answer for every
  index from the last one on.
\<close>

theorem configuration_history_get:
  fixes ops :: "cm_op list"
  defines "cm \<equiv> fold cm_step ops new_configuration_manager"
  shows "sorted_wrt (<) (map ce_index (cm_configurations cm)) \<and> cm_get k cm = newest_upto k cm \<and>
    (ce_index (last_configuration cm) \<le> k \<longrightarrow> cm_get k cm = last_configuration cm)"
proof -
  have ok: "cm_ok cm" unfolding cm_def by (rule cm_step_ok) simp
  have "newest_upto k cm = last_configuration cm" if "ce_index (last_configuration cm) \<le> k"
  proof (cases "cm_configurations cm = []")
    case False
    with ok that have "\<forall>d \<in> set (cm_configurations cm). ce_index d < k + 1"
      using sorted_last_bound [of ce_index "cm_configurations cm" "k + 1"]
      by (simp add: cm_ok_def last_configuration_def)
    then have "filter (\<lambda>c. ce_index c \<le> k) (cm_configurations cm) = cm_configurations cm"
      by (auto simp: filter_id_conv)
    with False show ?thesis by (simp add: newest_upto_def last_configuration_def)
  qed (simp add: newest_upto_def last_configuration_def)
  with ok show ?thesis by (simp add: cm_get_newest) (simp add: cm_ok_def sorted_wrt_map)
qed

theorem configuration_history_get_witness:
  "cm_get 7 (fold cm_step [Cm_add (new_configuration_entry\<lparr>ce_id := LogId 3 1\<rparr>)] new_configuration_manager) =
     new_configuration_entry\<lparr>ce_id := LogId 3 1\<rparr>"
  using configuration_history_get [of "[Cm_add (new_configuration_entry\<lparr>ce_id := LogId 3 1\<rparr>)]" 7]
  by (simp add: cm_add_def new_configuration_manager_def last_configuration_def newest_upto_def)

text \<open>
  After conflicting entries are truncated, the configuration of the entry that replaces them
  is always accepted and becomes the last one, with the history up to the kept index intact.
\<close>

theorem conflicting_configuration_replaced:
  assumes "cm_ok cm" "k < ce_index c"
  shows "cm_add c (cm_truncate_suffix k cm) =
     (OK0, cm\<lparr>cm_configurations := filter (\<lambda>d. ce_index d \<le> k) (cm_configurations cm) @ [c]\<rparr>)"
  using assms
  by (simp add: cm_add_cases conf_history.tsuffix_ok) (auto simp: cm_truncate_suffix_def cm_ok_def pop_back_above_filter)

theorem conflicting_configuration_replaced_witness:
  "cm_add (new_configuration_entry\<lparr>ce_id := LogId 3 2\<rparr>)
     (cm_truncate_suffix 2 (snd (cm_add (new_configuration_entry\<lparr>ce_id := LogId 3 1\<rparr>) new_configuration_manager))) =
   (OK0, new_configuration_manager\<lparr>cm_configurations := [new_configuration_entry\<lparr>ce_id := LogId 3 2\<rparr>]\<rparr>)"
  using conflicting_configuration_replaced
    [of "snd (cm_add (new_configuration_entry\<lparr>ce_id := LogId 3 1\<rparr>) new_configuration_manager)" 2
        "new_configuration_entry\<lparr>ce_id := LogId 3 2\<rparr>"]
  by (simp add: conf_history.add_ok) (simp add: cm_add_def new_configuration_manager_def)

end
