(* ===== verification/Segment.thy ===== *)
theory Segment
  imports Configuration_Manager
begin

text \<open>
  The class \<open>Segment\<close> of \<open>src/cpp/log.h\<close> and \<open>log.cc\<close>: one log file. An entry is a 40-byte header
  and its data; the in-memory arrays map an index of the segment to the offset, the term and the
  end offset of its entry. Entries may be appended out of order.

  The file is a byte list; a write that fails part-way, a failing \<open>fsync\<close> and a failing \<open>rename\<close>
  are inputs. Parameters: the two checksum functions and the codec of configuration entries.
\<close>

section \<open>Environment\<close>

record codec =
  cd_murmurhash32 :: "byte list \<Rightarrow> 32 word"
  cd_crc32 :: "byte list \<Rightarrow> 32 word"
  cd_ser :: "conf_pb_meta \<Rightarrow> byte list option"
  cd_par :: "byte list \<Rightarrow> conf_pb_meta option"
  cd_to_s :: "peer_id \<Rightarrow> string"
  cd_of_s :: "string \<Rightarrow> peer_id"

text \<open>Outcomes of the system calls of one operation, and the flag \<open>raft_sync_segments\<close>.\<close>

record io =
  io_write_fails :: "nat option"
  io_sync_segments :: bool
  io_fsync_ok :: bool
  io_rename_ok :: bool

definition io_fine :: io where
  "io_fine = \<lparr>io_write_fails = None, io_sync_segments = False, io_fsync_ok = True, io_rename_ok = True\<rparr>"

section \<open>Headers\<close>

record entry_header =
  eh_term :: int64
  eh_index :: int64
  eh_dependency :: int64
  eh_type :: nat
  eh_checksum_type :: nat
  eh_data_len :: nat
  eh_data_checksum :: "32 word"

definition entry_header_size :: nat where
  "entry_header_size = 40"

definition verify_checksum :: "codec \<Rightarrow> nat \<Rightarrow> byte list \<Rightarrow> 32 word \<Rightarrow> bool" where
  "verify_checksum cd checksum_type bytes v =
     (if checksum_type = 0 then v = cd_murmurhash32 cd bytes
      else if checksum_type = 1 then v = cd_crc32 cd bytes
      else False)"

definition get_checksum :: "codec \<Rightarrow> nat \<Rightarrow> byte list \<Rightarrow> 32 word res" where
  "get_checksum cd checksum_type bytes =
     (if checksum_type = 0 then Inr (cd_murmurhash32 cd bytes)
      else if checksum_type = 1 then Inr (cd_crc32 cd bytes)
      else Inl Abort_called)"

fun type_code :: "entry_type \<Rightarrow> nat" where
  "type_code ENTRY_TYPE_UNKNOWN = 0"
| "type_code ENTRY_TYPE_NO_OP = 1"
| "type_code ENTRY_TYPE_DATA = 2"
| "type_code ENTRY_TYPE_CONFIGURATION = 3"
| "type_code ENTRY_TYPE_O3 = 4"

definition code_type :: "nat \<Rightarrow> entry_type" where
  "code_type n = (if n = 1 then ENTRY_TYPE_NO_OP else if n = 2 then ENTRY_TYPE_DATA
     else if n = 3 then ENTRY_TYPE_CONFIGURATION else if n = 4 then ENTRY_TYPE_O3 else ENTRY_TYPE_UNKNOWN)"

definition meta_field :: "nat \<Rightarrow> nat \<Rightarrow> 32 word" where
  "meta_field ty ck = push_bit 24 (word_of_nat ty) OR push_bit 16 (word_of_nat ck)"

text \<open>The first 36 bytes of the header, then the header checksum.\<close>

definition header_prefix :: "log_entry \<Rightarrow> nat \<Rightarrow> byte list \<Rightarrow> 32 word \<Rightarrow> byte list" where
  "header_prefix e ck payload data_ck =
     pack 8 (word_of_int (le_term e) :: 64 word) @
     pack 8 (word_of_int (le_index e) :: 64 word) @
     pack 8 (word_of_int (le_dependency e) :: 64 word) @
     pack 4 (meta_field (type_code (le_type e)) ck) @
     pack 4 (word_of_nat (length payload) :: 32 word) @
     pack 4 data_ck"

definition encode_header :: "codec \<Rightarrow> nat \<Rightarrow> log_entry \<Rightarrow> byte list \<Rightarrow> byte list res" where
  "encode_header cd ck e payload =
     (case get_checksum cd ck payload of
        Inl f \<Rightarrow> Inl f
      | Inr data_ck \<Rightarrow>
          (let pre = header_prefix e ck payload data_ck
           in case get_checksum cd ck pre of Inl f \<Rightarrow> Inl f | Inr hck \<Rightarrow> Inr (pre @ pack 4 hck)))"

definition decode_header :: "byte list \<Rightarrow> entry_header" where
  "decode_header p =
     (let meta = unpack (take 4 (drop 24 p)) :: 32 word
      in \<lparr>eh_term = sint (unpack (take 8 p) :: 64 word),
          eh_index = sint (unpack (take 8 (drop 8 p)) :: 64 word),
          eh_dependency = sint (unpack (take 8 (drop 16 p)) :: 64 word),
          eh_type = unat (drop_bit 24 meta),
          eh_checksum_type = unat (drop_bit 24 (push_bit 8 meta)),
          eh_data_len = unat (unpack (take 4 (drop 28 p)) :: 32 word),
          eh_data_checksum = unpack (take 4 (drop 32 p))\<rparr>)"

text \<open>
  \<open>Segment::_load_entry\<close>: the codes 0, 1 (the file ends too early), -1 (corrupt) and -2 (the term is
  zero, the mark of a truncated entry). The data is read only when \<open>want_data\<close>.
\<close>

datatype load_result = Load_ok entry_header "byte list" | Load_short | Load_corrupt | Load_void

definition load_entry :: "codec \<Rightarrow> byte list \<Rightarrow> nat \<Rightarrow> bool \<Rightarrow> nat \<Rightarrow> load_result" where
  "load_entry cd file offset want_data size_hint =
     (let to_read = max size_hint entry_header_size; buf = take to_read (drop offset file)
      in if length buf \<noteq> to_read then Load_short
         else (let p = take entry_header_size buf; head = decode_header p;
                   header_checksum = unpack (take 4 (drop 36 p))
               in if eh_term head = 0 then Load_void
                  else if \<not> verify_checksum cd (eh_checksum_type head) (take 36 p) header_checksum then Load_corrupt
                  else if \<not> want_data then Load_ok head []
                  else (let len = entry_header_size + eh_data_len head; whole = take len (drop offset file)
                        in if length whole \<noteq> len then Load_short
                           else (let payload = drop entry_header_size whole
                                 in if verify_checksum cd (eh_checksum_type head) payload (eh_data_checksum head)
                                    then Load_ok head payload else Load_corrupt))))"

section \<open>Segments\<close>

record segment =
  sg_first_index :: int64
  sg_last_index :: int64
  sg_is_open :: bool
  sg_pending_for_closing :: bool
  sg_valid_entries :: int64
  sg_checksum_type :: nat
  sg_bytes :: int64
  sg_start :: "nat \<Rightarrow> int64 \<times> int64"
  sg_end :: "nat \<Rightarrow> int64 \<times> int64"
  sg_file :: "byte list"

text \<open>The two arrays have a fixed size; an index outside it is out of range.\<close>

definition array_size :: int where
  "array_size = 1000000"

definition new_segment :: "int64 \<Rightarrow> nat \<Rightarrow> segment" where
  "new_segment first_index checksum_type =
     \<lparr>sg_first_index = first_index, sg_last_index = first_index - 1, sg_is_open = True,
      sg_pending_for_closing = False, sg_valid_entries = 0, sg_checksum_type = checksum_type,
      sg_bytes = 0, sg_start = (\<lambda>i. (-1, 0)), sg_end = (\<lambda>i. (-1, 0)), sg_file = []\<rparr>"

text \<open>The constructor for a closed segment found on disk, with its file.\<close>

definition closed_segment :: "int64 \<Rightarrow> int64 \<Rightarrow> nat \<Rightarrow> byte list \<Rightarrow> segment" where
  "closed_segment first_index last_index checksum_type file =
     (new_segment first_index checksum_type)\<lparr>sg_last_index := last_index, sg_is_open := False, sg_file := file\<rparr>"

definition seg_create :: "bool \<Rightarrow> segment \<Rightarrow> rc \<times> segment" where
  "seg_create open_ok sg =
     (if \<not> sg_is_open sg then (NEG1, sg)
      else if open_ok then (OK0, sg\<lparr>sg_file := []\<rparr>) else (NEG1, sg))"

definition prepare_to_close :: "segment \<Rightarrow> segment" where
  "prepare_to_close sg = sg\<lparr>sg_pending_for_closing := True\<rparr>"

definition is_fullfilled :: "segment \<Rightarrow> bool" where
  "is_fullfilled sg \<longleftrightarrow> sg_last_index sg - sg_first_index sg + 1 - sg_valid_entries sg = 0"

text \<open>\<open>_get_meta\<close>: offset, length and term of an index.\<close>

definition get_meta :: "int64 \<Rightarrow> segment \<Rightarrow> (nat \<times> nat \<times> int64) option res" where
  "get_meta index sg =
     (if index > sg_last_index sg \<or> index < sg_first_index sg then Inr None
      else if sg_last_index sg = sg_first_index sg - 1 then Inr None
      else (let k = index - sg_first_index sg
            in if k \<ge> array_size then Inl Out_of_range
               else if snd (sg_start sg (nat k)) \<noteq> 0
               then Inr (Some (nat (fst (sg_start sg (nat k))),
                               nat (fst (sg_end sg (nat k)) - fst (sg_start sg (nat k))),
                               snd (sg_start sg (nat k))))
               else Inr None))"

definition seg_close :: "io \<Rightarrow> bool \<Rightarrow> segment \<Rightarrow> rc \<times> segment" where
  "seg_close io will_sync sg =
     (if sg_last_index sg > sg_first_index sg \<and> io_sync_segments io \<and> will_sync \<and> \<not> io_fsync_ok io
      then (NEG1, sg)
      else (if io_rename_ok io then OK0 else NEG1,
            sg\<lparr>sg_is_open := False, sg_pending_for_closing := False\<rparr>))"

text \<open>The data of an entry by its type; \<open>None\<close> is the error return.\<close>

definition entry_payload :: "codec \<Rightarrow> log_entry \<Rightarrow> byte list option res" where
  "entry_payload cd e =
     (case le_type e of
        ENTRY_TYPE_DATA \<Rightarrow> Inr (Some (le_data e))
      | ENTRY_TYPE_NO_OP \<Rightarrow> Inr (Some [])
      | ENTRY_TYPE_CONFIGURATION \<Rightarrow>
          (case serialize_configuration_meta (cd_ser cd) (cd_to_s cd) e of
             Inl f \<Rightarrow> Inl f
           | Inr (OK0, bs) \<Rightarrow> Inr (Some bs)
           | Inr (_, _) \<Rightarrow> Inr None)
      | _ \<Rightarrow> Inr None)"

definition seg_append :: "codec \<Rightarrow> io \<Rightarrow> log_entry \<Rightarrow> segment \<Rightarrow> (rc \<times> segment) res" where
  "seg_append cd io e sg =
     (if \<not> sg_is_open sg then Inr (EINVAL, sg)
      else (case entry_payload cd e of
              Inl f \<Rightarrow> Inl f
            | Inr None \<Rightarrow> Inr (NEG1, sg)
            | Inr (Some payload) \<Rightarrow>
                (case encode_header cd (sg_checksum_type sg) e payload of
                   Inl f \<Rightarrow> Inl f
                 | Inr header \<Rightarrow>
                     (case io_write_fails io of
                        Some k \<Rightarrow> Inr (NEG1, sg\<lparr>sg_file := sg_file sg @ take k (header @ payload)\<rparr>)
                      | None \<Rightarrow>
                          (let k = le_index e - sg_first_index sg;
                               to_write = int (length header + length payload)
                           in if k < 0 \<or> k \<ge> array_size then Inl Out_of_range
                              else (let sg1 = sg\<lparr>sg_file := sg_file sg @ header @ payload,
                                          sg_start := (sg_start sg)(nat k := (sg_bytes sg, le_term e)),
                                          sg_last_index := max (sg_last_index sg) (le_index e),
                                          sg_valid_entries := sg_valid_entries sg + 1,
                                          sg_bytes := sg_bytes sg + to_write,
                                          sg_end := (sg_end sg)(nat k := (sg_bytes sg + to_write, le_term e))\<rparr>
                                    in if sg_pending_for_closing sg1 \<and> is_fullfilled sg1
                                       then Inr (seg_close io True sg1) else Inr (OK0, sg1)))))))"

definition seg_sync :: "bool \<Rightarrow> bool \<Rightarrow> bool \<Rightarrow> segment \<Rightarrow> rc" where
  "seg_sync raft_sync will_sync fsync_ok sg =
     (if sg_last_index sg > sg_first_index sg \<and> raft_sync \<and> will_sync
      then (if fsync_ok then OK0 else NEG1) else OK0)"

text \<open>\<open>Segment::get\<close>; an unknown type passes the \<open>CHECK(false)\<close> and keeps empty data.\<close>

definition seg_get :: "codec \<Rightarrow> int64 \<Rightarrow> segment \<Rightarrow> log_entry option res" where
  "seg_get cd index sg =
     (case get_meta index sg of
        Inl f \<Rightarrow> Inl f
      | Inr None \<Rightarrow> Inr None
      | Inr (Some (offset, len, term)) \<Rightarrow>
          (case load_entry cd (sg_file sg) offset True len of
             Load_ok header payload \<Rightarrow>
               (let e0 = new_log_entry 0;
                    fill = (\<lambda>e. e\<lparr>le_id := LogId index (eh_term header), le_type := code_type (eh_type header),
                                  le_dependency := eh_dependency header\<rparr>)
                in case code_type (eh_type header) of
                     ENTRY_TYPE_DATA \<Rightarrow> Inr (Some (fill (e0\<lparr>le_data := payload\<rparr>)))
                   | ENTRY_TYPE_CONFIGURATION \<Rightarrow>
                       (case parse_configuration_meta (cd_par cd) (cd_of_s cd) payload e0 of
                          (OK0, e1) \<Rightarrow> Inr (Some (fill e1))
                        | _ \<Rightarrow> Inr None)
                   | _ \<Rightarrow> Inr (Some (fill e0)))
           | _ \<Rightarrow> Inr None))"

definition seg_get_term :: "int64 \<Rightarrow> segment \<Rightarrow> int64 res" where
  "seg_get_term index sg =
     (case get_meta index sg of
        Inl f \<Rightarrow> Inl f
      | Inr None \<Rightarrow> Inr 0
      | Inr (Some (_, _, term)) \<Rightarrow> Inr term)"

text \<open>The loop of \<open>truncate\<close>: write a zero term over every stored entry beyond the kept index.\<close>

definition overwrite :: "nat \<Rightarrow> byte list \<Rightarrow> byte list \<Rightarrow> byte list" where
  "overwrite off bs file = take off file @ bs @ drop (off + length bs) file"

definition truncate_mark :: "int64 \<Rightarrow> segment \<Rightarrow> segment res" where
  "truncate_mark i sg =
     (let k = i - sg_first_index sg
      in if k < 0 \<or> k \<ge> array_size then Inl Out_of_range
         else if snd (sg_start sg (nat k)) \<noteq> 0
         then Inr (sg\<lparr>sg_file := overwrite (nat (fst (sg_start sg (nat k)))) (pack 8 (0 :: 64 word)) (sg_file sg),
                      sg_valid_entries := sg_valid_entries sg - 1,
                      sg_start := (sg_start sg)(nat k := (fst (sg_start sg (nat k)), 0))\<rparr>)
         else Inr sg)"

fun truncate_marks :: "int64 list \<Rightarrow> segment \<Rightarrow> segment res" where
  "truncate_marks [] sg = Inr sg"
| "truncate_marks (i # is) sg =
     (case truncate_mark i sg of Inl f \<Rightarrow> Inl f | Inr sg1 \<Rightarrow> truncate_marks is sg1)"

definition seg_truncate :: "io \<Rightarrow> int64 \<Rightarrow> segment \<Rightarrow> (rc \<times> segment) res" where
  "seg_truncate io last_index_kept sg =
     (if last_index_kept \<ge> sg_last_index sg then Inr (OK0, sg)
      else (case truncate_marks [last_index_kept + 1..sg_last_index sg] sg of
              Inl f \<Rightarrow> Inl f
            | Inr sg1 \<Rightarrow>
                Inr (if \<not> sg_is_open sg1 \<and> \<not> io_rename_ok io then NEG1 else OK0,
                     sg1\<lparr>sg_is_open := True, sg_last_index := last_index_kept\<rparr>)))"

text \<open>
  The loop of \<open>Segment::load\<close>, with fuel because it need not end. A result is the return code so far,
  the segment with its arrays filled, the configurations found, the offset reached and the largest
  index seen.
\<close>

fun load_loop ::
    "nat \<Rightarrow> codec \<Rightarrow> int64 \<Rightarrow> nat \<Rightarrow> int64 \<Rightarrow> segment \<Rightarrow> configuration_manager \<Rightarrow>
      (rc \<times> segment \<times> configuration_manager \<times> nat \<times> int64) res option" where
  "load_loop fuel cd i off alast sg cm =
     (if off \<ge> length (sg_file sg) then Some (Inr (OK0, sg, cm, off, alast))
      else (case fuel of
              0 \<Rightarrow> None
            | Suc fuel' \<Rightarrow>
                (case load_entry cd (sg_file sg) off False entry_header_size of
                   Load_void \<Rightarrow> load_loop fuel' cd (i + 1) off alast sg cm
                 | Load_short \<Rightarrow> Some (Inr (OK0, sg, cm, off, alast))
                 | Load_corrupt \<Rightarrow> Some (Inr (NEG1, sg, cm, off, alast))
                 | Load_ok h _ \<Rightarrow>
                     (let skip_len = entry_header_size + eh_data_len h; k = eh_index h - sg_first_index sg;
                          next_cm = (if eh_type h = 3 then
                             (case load_entry cd (sg_file sg) off True skip_len of
                                Load_ok _ payload \<Rightarrow>
                                  (case parse_configuration_meta (cd_par cd) (cd_of_s cd) payload
                                          ((new_log_entry 0)\<lparr>le_id := LogId i (eh_term h)\<rparr>) of
                                     (OK0, e) \<Rightarrow>
                                       (case configuration_entry_of e of
                                          Inl f \<Rightarrow> Inl (Inl f)
                                        | Inr ce \<Rightarrow> Inr (snd (cm_add ce cm)))
                                   | _ \<Rightarrow> Inl (Inr NEG1))
                              | _ \<Rightarrow> Inl (Inr OK0))
                             else Inr cm)
                      in if off + skip_len > length (sg_file sg) then Some (Inr (OK0, sg, cm, off, alast))
                         else (case next_cm of
                                 Inl (Inl f) \<Rightarrow> Some (Inl f)
                               | Inl (Inr ret) \<Rightarrow> Some (Inr (ret, sg, cm, off, alast))
                               | Inr cm1 \<Rightarrow>
                                   (if k < 0 \<or> k \<ge> array_size then Some (Inl Out_of_range)
                                    else load_loop fuel' cd (i + 1) (off + skip_len) (max (eh_index h) alast)
                                           (sg\<lparr>sg_start := (sg_start sg)(nat k := (int off, eh_term h)),
                                               sg_end := (sg_end sg)(nat k := (int (off + skip_len), eh_term h))\<rparr>) cm1))))))"

declare load_loop.simps [simp del]

definition seg_load ::
    "nat \<Rightarrow> codec \<Rightarrow> segment \<Rightarrow> configuration_manager \<Rightarrow> (rc \<times> segment \<times> configuration_manager) res option" where
  "seg_load fuel cd sg cm =
     (case load_loop fuel cd (sg_first_index sg) 0 (sg_first_index sg - 1) sg cm of
        None \<Rightarrow> None
      | Some (Inl f) \<Rightarrow> Some (Inl f)
      | Some (Inr (ret, sg1, cm1, off, alast)) \<Rightarrow>
          (let ret1 = (if ret = OK0 \<and> \<not> sg_is_open sg1 \<and> alast < sg_last_index sg1 then NEG1 else ret);
               sg2 = (if sg_is_open sg1 then sg1\<lparr>sg_last_index := alast\<rparr> else sg1);
               sg3 = (if ret1 = OK0 \<and> off \<noteq> length (sg_file sg2)
                      then sg2\<lparr>sg_file := take off (sg_file sg2)\<rparr> else sg2)
           in Some (Inr (ret1, sg3\<lparr>sg_bytes := int off\<rparr>, cm1))))"

section \<open>Encoding and decoding one entry\<close>

definition header_of :: "nat \<Rightarrow> log_entry \<Rightarrow> byte list \<Rightarrow> 32 word \<Rightarrow> entry_header" where
  "header_of ck e payload data_ck =
     \<lparr>eh_term = le_term e, eh_index = le_index e, eh_dependency = le_dependency e,
      eh_type = type_code (le_type e), eh_checksum_type = ck, eh_data_len = length payload,
      eh_data_checksum = data_ck\<rparr>"

definition checksum :: "codec \<Rightarrow> nat \<Rightarrow> byte list \<Rightarrow> 32 word" where
  "checksum cd ck bs = (if ck = 0 then cd_murmurhash32 cd bs else cd_crc32 cd bs)"

definition encode_entry :: "codec \<Rightarrow> nat \<Rightarrow> log_entry \<Rightarrow> byte list \<Rightarrow> byte list" where
  "encode_entry cd ck e payload =
     (let pre = header_prefix e ck payload (checksum cd ck payload)
      in pre @ pack 4 (checksum cd ck pre) @ payload)"

text \<open>What the on-disk fields can hold: 64-bit numbers, a term other than 0, a 32-bit length.\<close>

definition encodable :: "log_entry \<Rightarrow> byte list \<Rightarrow> bool" where
  "encodable e payload \<longleftrightarrow>
     fits64 (le_term e) \<and> fits64 (le_index e) \<and> fits64 (le_dependency e) \<and> le_term e \<noteq> 0 \<and>
     length payload < 4294967296"

lemma length_header_prefix [simp]: "length (header_prefix e ck payload c) = 36"
  by (simp add: header_prefix_def)

lemma length_encode_entry [simp]: "length (encode_entry cd ck e payload) = 40 + length payload"
  by (simp add: encode_entry_def Let_def)

lemma meta_field_decode:
  assumes "ck < 2"
  shows "unat (drop_bit 24 (meta_field (type_code t) ck)) = type_code t"
    and "unat (drop_bit 24 (push_bit 8 (meta_field (type_code t) ck))) = ck"
proof -
  have ck: "ck = 0 \<or> ck = 1" using assms by auto
  show "unat (drop_bit 24 (meta_field (type_code t) ck)) = type_code t"
    using ck by (cases t) (auto simp: meta_field_def)
  show "unat (drop_bit 24 (push_bit 8 (meta_field (type_code t) ck))) = ck"
    using ck by (cases t) (auto simp: meta_field_def)
qed

lemma decode_header_prefix:
  assumes "encodable e payload" "ck < 2"
  shows "decode_header (header_prefix e ck payload c @ rest) = header_of ck e payload c"
  using assms meta_field_decode [OF assms(2), of "le_type e"]
  by (simp add: decode_header_def header_prefix_def header_of_def Let_def encodable_def sint_word_of_int64
      unat_word_of_nat32)


lemma verify_own_checksum [simp]: "ck < 2 \<Longrightarrow> verify_checksum cd ck bs (checksum cd ck bs)"
  by (auto simp: verify_checksum_def checksum_def)

text \<open>An encoded entry is read back wherever it stands in the file.\<close>

lemma load_encoded:
  assumes "encodable e payload" "ck < 2" and off: "off \<le> length file"
    and at: "take (40 + length payload) (drop off file) = encode_entry cd ck e payload"
  shows "load_entry cd file off False entry_header_size = Load_ok (header_of ck e payload (checksum cd ck payload)) []"
    and "load_entry cd file off True (40 + length payload) =
           Load_ok (header_of ck e payload (checksum cd ck payload)) payload"
proof -
  let ?c = "checksum cd ck payload"
  let ?pre = "header_prefix e ck payload ?c"
  let ?hc = "pack 4 (checksum cd ck ?pre)"
  have len: "40 + length payload \<le> length (drop off file)"
    using arg_cong [OF at, of length] by simp
  have t40: "take 40 (drop off file) = ?pre @ ?hc"
  proof -
    have "take 40 (drop off file) = take 40 (take (40 + length payload) (drop off file))"
      by (simp add: min_def)
    also have "\<dots> = ?pre @ ?hc" unfolding at by (simp add: encode_entry_def Let_def)
    finally show ?thesis .
  qed
  have dec: "decode_header (?pre @ ?hc) = header_of ck e payload ?c"
    by (rule decode_header_prefix [OF assms(1,2)])
  have t0: "le_term e \<noteq> 0" using assms(1) by (simp add: encodable_def)
  show "load_entry cd file off False entry_header_size = Load_ok (header_of ck e payload ?c) []"
    using len t40 dec t0 assms(2)
    by (simp add: load_entry_def entry_header_size_def Let_def header_of_def)
  have t': "take 40 (take (40 + length payload) (drop off file)) = ?pre @ ?hc"
    using t40 by (simp add: min_def)
  have d: "drop 40 (take (40 + length payload) (drop off file)) = payload"
    unfolding at by (simp add: encode_entry_def Let_def)
  show "load_entry cd file off True (40 + length payload) = Load_ok (header_of ck e payload ?c) payload"
    using len t' d dec t0 assms(2)
    by (simp add: load_entry_def entry_header_size_def Let_def header_of_def del: take_take drop_drop drop_take)
qed

lemma encode_header_entry:
  "ck < 2 \<Longrightarrow> \<exists>h. encode_header cd ck e payload = Inr h \<and> length h = 40 \<and> h @ payload = encode_entry cd ck e payload"
  by (auto simp: encode_header_def get_checksum_def encode_entry_def checksum_def Let_def)

section \<open>A segment is a map from positions to entries\<close>

text \<open>
  \<open>storable\<close> is a canonical entry that the segment can hold: what \<open>get\<close> returns for it is the entry
  itself. \<open>seg_rep cd sg M\<close> relates a segment to the entries it holds; the records on disk do not
  overlap.
\<close>

definition storable :: "codec \<Rightarrow> log_entry \<Rightarrow> byte list \<Rightarrow> bool" where
  "storable cd e payload \<longleftrightarrow>
     entry_payload cd e = Inr (Some payload) \<and> encodable e payload \<and>
     (case le_type e of
        ENTRY_TYPE_DATA \<Rightarrow> le_peers e = None \<and> le_old_peers e = None
      | ENTRY_TYPE_NO_OP \<Rightarrow> le_peers e = None \<and> le_old_peers e = None \<and> le_data e = []
      | ENTRY_TYPE_CONFIGURATION \<Rightarrow> le_data e = [] \<and>
          parse_configuration_meta (cd_par cd) (cd_of_s cd) payload (new_log_entry 0) =
            (OK0, (new_log_entry 0)\<lparr>le_peers := le_peers e, le_old_peers := le_old_peers e\<rparr>)
      | _ \<Rightarrow> False)"

definition s_off :: "segment \<Rightarrow> nat \<Rightarrow> nat" where
  "s_off sg k = nat (fst (sg_start sg k))"

definition s_fin :: "segment \<Rightarrow> nat \<Rightarrow> nat" where
  "s_fin sg k = nat (fst (sg_end sg k))"

definition stored_at :: "codec \<Rightarrow> segment \<Rightarrow> nat \<Rightarrow> log_entry \<Rightarrow> bool" where
  "stored_at cd sg k e \<longleftrightarrow>
     sg_start sg k = (int (s_off sg k), le_term e) \<and> fst (sg_end sg k) = int (s_fin sg k) \<and>
     s_fin sg k \<le> length (sg_file sg) \<and> le_index e = sg_first_index sg + int k \<and>
     (\<exists>payload. storable cd e payload \<and> s_fin sg k = s_off sg k + (40 + length payload) \<and>
        take (40 + length payload) (drop (s_off sg k) (sg_file sg)) = encode_entry cd (sg_checksum_type sg) e payload)"

definition seg_rep :: "codec \<Rightarrow> segment \<Rightarrow> (nat \<rightharpoonup> log_entry) \<Rightarrow> bool" where
  "seg_rep cd sg M \<longleftrightarrow>
     sg_bytes sg = int (length (sg_file sg)) \<and> sg_checksum_type sg < 2 \<and>
     (\<forall>k. M k = None \<longrightarrow> snd (sg_start sg k) = 0) \<and>
     (\<forall>k e. M k = Some e \<longrightarrow>
        int k < array_size \<and> sg_first_index sg + int k \<le> sg_last_index sg \<and> stored_at cd sg k e) \<and>
     (\<forall>j k. M j \<noteq> None \<and> M k \<noteq> None \<and> j \<noteq> k \<longrightarrow> s_fin sg j \<le> s_off sg k \<or> s_fin sg k \<le> s_off sg j)"

lemma seg_rep_new: "ck < 2 \<Longrightarrow> seg_rep cd (new_segment first ck) Map.empty"
  by (simp add: seg_rep_def new_segment_def)

lemma code_type_code [simp]: "code_type (type_code t) = t"
  by (cases t) (simp_all add: code_type_def)

lemma storable_term: "storable cd e payload \<Longrightarrow> le_term e \<noteq> 0"
  by (simp add: storable_def encodable_def)

text \<open>Reading: the entry at the position, or nothing.\<close>

lemma seg_get_stored:
  assumes st: "stored_at cd sg k e" and ck: "sg_checksum_type sg < 2"
    and k: "int k < array_size" "sg_first_index sg + int k \<le> sg_last_index sg"
  shows "seg_get cd (sg_first_index sg + int k) sg = Inr (Some e)"
proof -
  obtain payload where p: "storable cd e payload" "s_fin sg k = s_off sg k + (40 + length payload)"
    "take (40 + length payload) (drop (s_off sg k) (sg_file sg)) = encode_entry cd (sg_checksum_type sg) e payload"
    using st by (auto simp: stored_at_def)
  have enc: "encodable e payload" and t: "le_term e \<noteq> 0" using p(1) by (auto simp: storable_def encodable_def)
  have meta: "get_meta (sg_first_index sg + int k) sg = Inr (Some (s_off sg k, 40 + length payload, le_term e))"
    using st k t p(2) by (auto simp: get_meta_def stored_at_def Let_def)
  have off: "s_off sg k \<le> length (sg_file sg)" using st p(2) by (simp add: stored_at_def)
  have ld: "load_entry cd (sg_file sg) (s_off sg k) True (40 + length payload) =
      Load_ok (header_of (sg_checksum_type sg) e payload (checksum cd (sg_checksum_type sg) payload)) payload"
    by (rule load_encoded(2) [OF enc ck off p(3)])
  have idx: "le_index e = sg_first_index sg + int k" using st by (simp add: stored_at_def)
  obtain i t d ps os bs ty where e: "e = \<lparr>le_type = ty, le_id = LogId i t, le_dependency = d,
      le_peers = ps, le_old_peers = os, le_data = bs\<rparr>"
    by (cases e, rename_tac a b c x y z, case_tac b) auto
  show ?thesis
    using p(1) idx e
    by (cases ty; simp add: seg_get_def meta ld)
      (auto simp: storable_def header_of_def entry_payload_def new_log_entry_def code_type_def Let_def)
qed

lemma seg_get_rep:
  assumes rep: "seg_rep cd sg M" and i: "sg_first_index sg \<le> i" "i - sg_first_index sg < array_size"
  shows "seg_get cd i sg = Inr (if i \<le> sg_last_index sg then M (nat (i - sg_first_index sg)) else None)"
proof (cases "i \<le> sg_last_index sg")
  case True
  define k where "k = nat (i - sg_first_index sg)"
  have ik: "i = sg_first_index sg + int k" using i by (simp add: k_def)
  show ?thesis
  proof (cases "M k")
    case None
    then have "snd (sg_start sg k) = 0" using rep by (simp add: seg_rep_def)
    then show ?thesis using None True i ik by (simp add: seg_get_def get_meta_def Let_def)
  next
    case (Some e)
    then have "stored_at cd sg k e" "sg_checksum_type sg < 2" "int k < array_size"
      using rep by (auto simp: seg_rep_def)
    from seg_get_stored [OF this] True Some ik show ?thesis by simp
  qed
qed (simp add: seg_get_def get_meta_def)

lemma seg_get_term_rep:
  assumes rep: "seg_rep cd sg M" and i: "sg_first_index sg \<le> i" "i \<le> sg_last_index sg" "i - sg_first_index sg < array_size"
  shows "seg_get_term i sg = Inr (case M (nat (i - sg_first_index sg)) of None \<Rightarrow> 0 | Some e \<Rightarrow> le_term e)"
proof (cases "M (nat (i - sg_first_index sg))")
  case None
  then have "snd (sg_start sg (nat (i - sg_first_index sg))) = 0" using rep by (simp add: seg_rep_def)
  with None i show ?thesis by (simp add: seg_get_term_def get_meta_def Let_def)
next
  case (Some e)
  then have "stored_at cd sg (nat (i - sg_first_index sg)) e" using rep by (auto simp: seg_rep_def)
  moreover from this have "le_term e \<noteq> 0" by (auto simp: stored_at_def dest: storable_term)
  ultimately show ?thesis using Some i by (auto simp: seg_get_term_def get_meta_def Let_def stored_at_def)
qed

text \<open>Appending binds the entry's position, wherever it is; all other positions keep their entry.\<close>

definition appended :: "codec \<Rightarrow> log_entry \<Rightarrow> byte list \<Rightarrow> segment \<Rightarrow> segment" where
  "appended cd e payload sg =
     (let k = nat (le_index e - sg_first_index sg); fin = sg_bytes sg + int (40 + length payload)
      in sg\<lparr>sg_file := sg_file sg @ encode_entry cd (sg_checksum_type sg) e payload,
            sg_start := (sg_start sg)(k := (sg_bytes sg, le_term e)),
            sg_last_index := max (sg_last_index sg) (le_index e),
            sg_valid_entries := sg_valid_entries sg + 1,
            sg_bytes := fin,
            sg_end := (sg_end sg)(k := (fin, le_term e))\<rparr>)"

lemma seg_append_appended:
  assumes "storable cd e payload" "sg_checksum_type sg < 2" "sg_is_open sg" "io_write_fails io = None"
    "sg_first_index sg \<le> le_index e" "le_index e - sg_first_index sg < array_size"
  shows "seg_append cd io e sg =
     (let sg1 = appended cd e payload sg
      in Inr (if sg_pending_for_closing sg1 \<and> is_fullfilled sg1 then seg_close io True sg1 else (OK0, sg1)))"
proof -
  obtain h where h: "encode_header cd (sg_checksum_type sg) e payload = Inr h" "length h = 40"
    "h @ payload = encode_entry cd (sg_checksum_type sg) e payload"
    using encode_header_entry [OF assms(2)] by blast
  have "entry_payload cd e = Inr (Some payload)" using assms(1) by (simp add: storable_def)
  then show ?thesis
    using assms h by (simp add: seg_append_def appended_def Let_def)
qed

lemma appended_rep:
  assumes rep: "seg_rep cd sg M" and st: "storable cd e payload"
    and i: "sg_first_index sg \<le> le_index e" "le_index e - sg_first_index sg < array_size"
  shows "seg_rep cd (appended cd e payload sg) (M(nat (le_index e - sg_first_index sg) \<mapsto> e))"
proof -
  define k where "k = nat (le_index e - sg_first_index sg)"
  have ik: "le_index e = sg_first_index sg + int k" using i by (simp add: k_def)
  let ?sg = "appended cd e payload sg"
  have b: "sg_bytes sg = int (length (sg_file sg))" and ck: "sg_checksum_type sg < 2"
    using rep by (auto simp: seg_rep_def)
  have offs: "s_off ?sg j = (if j = k then length (sg_file sg) else s_off sg j)"
    "s_fin ?sg j = (if j = k then length (sg_file sg) + (40 + length payload) else s_fin sg j)" for j
    using b by (auto simp: s_off_def s_fin_def appended_def Let_def k_def [symmetric])
  have old: "s_fin sg j \<le> length (sg_file sg)" if "M j \<noteq> None" for j
    using that rep by (auto simp: seg_rep_def stored_at_def)
  have new: "stored_at cd ?sg k e"
    unfolding stored_at_def offs using b st ik by (auto simp: appended_def Let_def k_def [symmetric])
  have keep: "stored_at cd ?sg j e'" if "M j = Some e'" "j \<noteq> k" for j e'
  proof -
    have "stored_at cd sg j e'" using that rep by (auto simp: seg_rep_def)
    with that(2) show ?thesis
      by (auto simp: stored_at_def offs) (auto simp: appended_def Let_def k_def [symmetric])
  qed
  show ?thesis
    unfolding seg_rep_def k_def [symmetric]
  proof (intro conjI allI impI)
    show "sg_bytes ?sg = int (length (sg_file ?sg))" "sg_checksum_type ?sg < 2"
      using b ck by (simp_all add: appended_def Let_def)
    fix j
    show "snd (sg_start ?sg j) = 0" if "(M(k \<mapsto> e)) j = None"
      using that rep by (auto simp: seg_rep_def appended_def Let_def k_def [symmetric] split: if_splits)
    fix e' assume m: "(M(k \<mapsto> e)) j = Some e'"
    show "int j < array_size" "sg_first_index ?sg + int j \<le> sg_last_index ?sg"
      using m rep i ik by (auto simp: seg_rep_def appended_def Let_def split: if_splits) (fastforce)
    show "stored_at cd ?sg j e'" using m new keep by (auto split: if_splits)
  next
    fix j l assume "(M(k \<mapsto> e)) j \<noteq> None \<and> (M(k \<mapsto> e)) l \<noteq> None \<and> j \<noteq> l"
    then show "s_fin ?sg j \<le> s_off ?sg l \<or> s_fin ?sg l \<le> s_off ?sg j"
      using rep old by (auto simp: offs seg_rep_def split: if_splits)
  qed
qed

text \<open>Truncation removes exactly the positions beyond the kept index.\<close>

lemma take_drop_overwrite_before:
  "fin \<le> o2 \<Longrightarrow> o2 + length bs \<le> length file \<Longrightarrow> o1 + n \<le> fin \<Longrightarrow>
     take n (drop o1 (overwrite o2 bs file)) = take n (drop o1 file)"
  by (simp add: overwrite_def take_drop min_def)

lemma take_drop_overwrite_after:
  "o2 + length bs \<le> o1 \<Longrightarrow> o2 + length bs \<le> length file \<Longrightarrow>
     take n (drop o1 (overwrite o2 bs file)) = take n (drop o1 file)"
  by (simp add: overwrite_def)

lemma length_overwrite [simp]: "o2 + length bs \<le> length file \<Longrightarrow> length (overwrite o2 bs file) = length file"
  by (simp add: overwrite_def)

lemma truncate_mark_rep:
  assumes rep: "seg_rep cd sg M" and i: "sg_first_index sg \<le> i" "i - sg_first_index sg < array_size"
  obtains sg' where "truncate_mark i sg = Inr sg'" "seg_rep cd sg' (M(nat (i - sg_first_index sg) := None))"
    "sg_first_index sg' = sg_first_index sg" "sg_last_index sg' = sg_last_index sg" "sg_is_open sg' = sg_is_open sg"
proof -
  define k where "k = nat (i - sg_first_index sg)"
  have nk: "\<not> (i - sg_first_index sg < 0 \<or> i - sg_first_index sg \<ge> array_size)" using i by simp
  show thesis
  proof (cases "M k")
    case None
    then have "M(k := None) = M" by auto
    moreover from None have "snd (sg_start sg k) = 0" using rep by (simp add: seg_rep_def)
    ultimately show thesis
      using that [of sg] rep nk by (simp add: truncate_mark_def k_def [symmetric] Let_def)
  next
    case (Some e)
    then have st: "stored_at cd sg k e" using rep by (auto simp: seg_rep_def)
    obtain payload where p: "storable cd e payload" "s_fin sg k = s_off sg k + (40 + length payload)"
      using st by (auto simp: stored_at_def)
    have fin: "s_fin sg k \<le> length (sg_file sg)" and start: "sg_start sg k = (int (s_off sg k), le_term e)"
      using st by (auto simp: stored_at_def)
    let ?z = "pack 8 (0 :: 64 word)"
    let ?sg = "sg\<lparr>sg_file := overwrite (s_off sg k) ?z (sg_file sg), sg_valid_entries := sg_valid_entries sg - 1,
        sg_start := (sg_start sg)(k := (int (s_off sg k), 0))\<rparr>"
    have run: "truncate_mark i sg = Inr ?sg"
      using nk storable_term [OF p(1)] start by (simp add: truncate_mark_def k_def [symmetric] Let_def)
    have offs: "s_off ?sg j = s_off sg j" "s_fin ?sg j = s_fin sg j" for j
      using start by (auto simp: s_off_def s_fin_def)
    have keep: "stored_at cd ?sg j e'" if m: "M j = Some e'" "j \<noteq> k" for j e'
    proof -
      have sj: "stored_at cd sg j e'" and dj: "s_fin sg j \<le> s_off sg k \<or> s_fin sg k \<le> s_off sg j"
        using m Some rep by (auto simp: seg_rep_def)
      obtain pj where pj: "storable cd e' pj" "s_fin sg j = s_off sg j + (40 + length pj)"
        "take (40 + length pj) (drop (s_off sg j) (sg_file sg)) = encode_entry cd (sg_checksum_type sg) e' pj"
        using sj by (auto simp: stored_at_def)
      have "take (40 + length pj) (drop (s_off sg j) (overwrite (s_off sg k) ?z (sg_file sg))) =
          take (40 + length pj) (drop (s_off sg j) (sg_file sg))"
        using dj pj(2) p(2) fin
          take_drop_overwrite_before [of "s_fin sg j" "s_off sg k" ?z "sg_file sg" "s_off sg j" "40 + length pj"]
          take_drop_overwrite_after [of "s_off sg k" ?z "s_off sg j" "sg_file sg" "40 + length pj"]
        by auto
      with sj pj fin p(2) m(2) show ?thesis unfolding stored_at_def offs by auto
    qed
    have "seg_rep cd ?sg (M(k := None))"
      unfolding seg_rep_def offs using rep fin p(2) keep by (auto simp: seg_rep_def)
    with run that [of ?sg] show thesis by (simp add: k_def [symmetric])
  qed
qed

lemma truncate_marks_rep:
  assumes "seg_rep cd sg M" "\<forall>i \<in> set is. sg_first_index sg \<le> i \<and> i - sg_first_index sg < array_size"
  shows "\<exists>sg'. truncate_marks is sg = Inr sg' \<and>
     seg_rep cd sg' (\<lambda>k. if sg_first_index sg + int k \<in> set is then None else M k) \<and>
     sg_first_index sg' = sg_first_index sg \<and> sg_last_index sg' = sg_last_index sg \<and> sg_is_open sg' = sg_is_open sg"
  using assms
proof (induction "is" arbitrary: sg M)
  case (Cons i "is")
  then have i: "sg_first_index sg \<le> i" "i - sg_first_index sg < array_size" by auto
  obtain sg1 where s1: "truncate_mark i sg = Inr sg1" "seg_rep cd sg1 (M(nat (i - sg_first_index sg) := None))"
    "sg_first_index sg1 = sg_first_index sg" "sg_last_index sg1 = sg_last_index sg" "sg_is_open sg1 = sg_is_open sg"
    by (rule truncate_mark_rep [OF Cons.prems(1) i])
  have eq: "(\<lambda>k. if sg_first_index sg + int k \<in> set is then None else (M(nat (i - sg_first_index sg) := None)) k) =
      (\<lambda>k. if sg_first_index sg + int k \<in> set (i # is) then None else M k)"
    using i(1) by (auto simp: fun_eq_iff)
  have "\<forall>i \<in> set is. sg_first_index sg1 \<le> i \<and> i - sg_first_index sg1 < array_size" using Cons.prems(2) s1(3) by simp
  from Cons.IH [OF s1(2) this] show ?case using s1 eq by auto
qed simp

lemma seg_rep_relabel:
  "seg_rep cd sg M \<Longrightarrow> (\<And>k. M k \<noteq> None \<Longrightarrow> sg_first_index sg + int k \<le> l) \<Longrightarrow>
     seg_rep cd (sg\<lparr>sg_is_open := b, sg_last_index := l\<rparr>) M"
  by (fastforce simp: seg_rep_def stored_at_def s_off_def s_fin_def)

lemma seg_truncate_rep:
  assumes rep: "seg_rep cd sg M" and lo: "sg_first_index sg - 1 \<le> l"
    and size: "sg_last_index sg - sg_first_index sg < array_size"
  obtains sg' where "seg_truncate io l sg = Inr (if l < sg_last_index sg \<and> \<not> sg_is_open sg \<and> \<not> io_rename_ok io then NEG1 else OK0, sg')"
    "seg_rep cd sg' (\<lambda>k. if sg_first_index sg + int k \<le> l then M k else None)"
    "sg_first_index sg' = sg_first_index sg" "sg_last_index sg' = min l (sg_last_index sg)"
proof (cases "l \<ge> sg_last_index sg")
  case True
  have "(\<lambda>k. if sg_first_index sg + int k \<le> l then M k else None) = M"
  proof
    fix k
    show "(if sg_first_index sg + int k \<le> l then M k else None) = M k"
      using rep True by (cases "M k") (fastforce simp: seg_rep_def)+
  qed
  with True rep that [of sg] show thesis by (simp add: seg_truncate_def)
next
  case False
  let ?is = "[l + 1..sg_last_index sg]"
  have "\<forall>i \<in> set ?is. sg_first_index sg \<le> i \<and> i - sg_first_index sg < array_size" using lo size by auto
  from truncate_marks_rep [OF rep this] obtain sg1 where s1: "truncate_marks ?is sg = Inr sg1"
    "seg_rep cd sg1 (\<lambda>k. if sg_first_index sg + int k \<in> set ?is then None else M k)"
    "sg_first_index sg1 = sg_first_index sg" "sg_last_index sg1 = sg_last_index sg" "sg_is_open sg1 = sg_is_open sg"
    by auto
  have eq: "(\<lambda>k. if sg_first_index sg + int k \<in> set ?is then None else M k) =
      (\<lambda>k. if sg_first_index sg + int k \<le> l then M k else None)"
  proof
    fix k
    show "(if sg_first_index sg + int k \<in> set ?is then None else M k) =
        (if sg_first_index sg + int k \<le> l then M k else None)"
      using rep by (cases "M k") (fastforce simp: seg_rep_def)+
  qed
  have "seg_rep cd (sg1\<lparr>sg_is_open := True, sg_last_index := l\<rparr>)
      (\<lambda>k. if sg_first_index sg + int k \<le> l then M k else None)"
    using s1(2,3) unfolding eq by (intro seg_rep_relabel) (auto split: if_splits)
  with False s1 that [of "sg1\<lparr>sg_is_open := True, sg_last_index := l\<rparr>"] show thesis
    by (simp add: seg_truncate_def min_def)
qed

text \<open>
  C23. a segment is a faithful store under out-of-order appends: appending an entry at any position
  of the segment makes \<open>get\<close> return exactly that entry there, byte for byte, and leaves the answer
  for every other position as it was.
\<close>

theorem segment_append_get:
  assumes "seg_rep cd sg M" "storable cd e payload" "sg_is_open sg" "io_write_fails io = None"
    "\<not> sg_pending_for_closing sg"
    "sg_first_index sg \<le> le_index e" "le_index e - sg_first_index sg < array_size"
  shows "\<exists>sg'. seg_append cd io e sg = Inr (OK0, sg') \<and>
     seg_rep cd sg' (M(nat (le_index e - sg_first_index sg) \<mapsto> e)) \<and>
     seg_get cd (le_index e) sg' = Inr (Some e) \<and>
     (\<forall>i. sg_first_index sg \<le> i \<longrightarrow> i - sg_first_index sg < array_size \<longrightarrow> i \<noteq> le_index e \<longrightarrow>
        i \<le> sg_last_index sg \<or> le_index e < i \<longrightarrow> seg_get cd i sg' = seg_get cd i sg)"
proof -
  let ?sg = "appended cd e payload sg"
  have rep': "seg_rep cd ?sg (M(nat (le_index e - sg_first_index sg) \<mapsto> e))"
    by (rule appended_rep [OF assms(1,2,6,7)])
  have ck: "sg_checksum_type sg < 2" using assms(1) by (simp add: seg_rep_def)
  have run: "seg_append cd io e sg = Inr (OK0, ?sg)"
    using seg_append_appended [OF assms(2) ck assms(3,4,6,7)] assms(5) by (simp add: Let_def appended_def)
  have fl: "sg_first_index ?sg = sg_first_index sg" "sg_last_index ?sg = max (sg_last_index sg) (le_index e)"
    by (simp_all add: appended_def Let_def)
  have "seg_get cd i ?sg = seg_get cd i sg"
    if "sg_first_index sg \<le> i" "i - sg_first_index sg < array_size" "i \<noteq> le_index e"
      "i \<le> sg_last_index sg \<or> le_index e < i" for i
    using seg_get_rep [OF assms(1) that(1,2)] seg_get_rep [OF rep', of i] that assms(6) fl
    by (auto simp: nat_eq_iff max_def)
  moreover have "seg_get cd (le_index e) ?sg = Inr (Some e)"
    using seg_get_rep [OF rep', of "le_index e"] assms(6,7) fl by simp
  ultimately show ?thesis using run rep' by blast
qed

text \<open>
  Truncating a segment makes every index beyond the kept one unreadable and keeps every entry
  up to it readable, although the entries lie in the file in the order they arrived.
\<close>

theorem segment_truncate_get:
  assumes "seg_rep cd sg M" "sg_first_index sg - 1 \<le> l" "sg_last_index sg - sg_first_index sg < array_size"
    "io_rename_ok io" "sg_first_index sg \<le> i" "i - sg_first_index sg < array_size"
  shows "\<exists>sg'. seg_truncate io l sg = Inr (OK0, sg') \<and>
     seg_get cd i sg' = (if i \<le> l then seg_get cd i sg else Inr None)"
proof -
  obtain sg' where s: "seg_truncate io l sg = Inr (OK0, sg')"
    "seg_rep cd sg' (\<lambda>k. if sg_first_index sg + int k \<le> l then M k else None)"
    "sg_first_index sg' = sg_first_index sg" "sg_last_index sg' = min l (sg_last_index sg)"
    by (rule seg_truncate_rep [OF assms(1-3), of io]) (use assms(4) in auto)
  then show ?thesis
    using seg_get_rep [OF assms(1,5,6)] seg_get_rep [OF s(2), of i] assms(5,6) by auto
qed

section \<open>Restart\<close>

fun append_all :: "codec \<Rightarrow> io \<Rightarrow> log_entry list \<Rightarrow> segment \<Rightarrow> (rc \<times> segment) res" where
  "append_all cd io [] sg = Inr (OK0, sg)"
| "append_all cd io (e # es) sg =
     (case seg_append cd io e sg of
        Inl f \<Rightarrow> Inl f
      | Inr (r, sg1) \<Rightarrow> (if r = OK0 then append_all cd io es sg1 else Inr (r, sg1)))"

definition plain :: "codec \<Rightarrow> int64 \<Rightarrow> log_entry \<Rightarrow> bool" where
  "plain cd first e \<longleftrightarrow>
     (le_type e = ENTRY_TYPE_DATA \<and> le_peers e = None \<and> le_old_peers e = None \<or>
      le_type e = ENTRY_TYPE_NO_OP \<and> le_peers e = None \<and> le_old_peers e = None \<and> le_data e = []) \<and>
     encodable e (le_data e) \<and> first \<le> le_index e \<and> le_index e - first < array_size"

lemma plain_storable: "plain cd first e \<Longrightarrow> storable cd e (le_data e)"
  by (auto simp: plain_def storable_def entry_payload_def)

definition replay :: "codec \<Rightarrow> log_entry list \<Rightarrow> segment \<Rightarrow> segment" where
  "replay cd es sg = fold (\<lambda>e. appended cd e (le_data e)) es sg"

lemma appended_simps [simp]:
  "sg_first_index (appended cd e p sg) = sg_first_index sg"
  "sg_checksum_type (appended cd e p sg) = sg_checksum_type sg"
  "sg_is_open (appended cd e p sg) = sg_is_open sg"
  "sg_pending_for_closing (appended cd e p sg) = sg_pending_for_closing sg"
  "sg_file (appended cd e p sg) = sg_file sg @ encode_entry cd (sg_checksum_type sg) e p"
  "sg_bytes (appended cd e p sg) = sg_bytes sg + int (40 + length p)"
  "sg_last_index (appended cd e p sg) = max (sg_last_index sg) (le_index e)"
  by (simp_all add: appended_def Let_def)

lemma replay_simps [simp]: "replay cd [] sg = sg" "replay cd (e # es) sg = replay cd es (appended cd e (le_data e) sg)"
  by (simp_all add: replay_def)

lemma append_all_replay:
  "\<forall>e \<in> set es. plain cd (sg_first_index sg) e \<Longrightarrow> sg_checksum_type sg < 2 \<Longrightarrow> sg_is_open sg \<Longrightarrow>
     \<not> sg_pending_for_closing sg \<Longrightarrow> io_write_fails io = None \<Longrightarrow> append_all cd io es sg = Inr (OK0, replay cd es sg)"
proof (induction es arbitrary: sg)
  case (Cons e es)
  then have p: "plain cd (sg_first_index sg) e" by simp
  then have r: "sg_first_index sg \<le> le_index e" "le_index e - sg_first_index sg < array_size" by (auto simp: plain_def)
  have "seg_append cd io e sg = Inr (OK0, appended cd e (le_data e) sg)"
    using seg_append_appended [OF plain_storable [OF p] Cons.prems(2,3,5) r] Cons.prems(4) by (simp add: Let_def)
  with Cons show ?case by simp
qed simp

lemma replay_file: "\<exists>rest. sg_file (replay cd es sg) = sg_file sg @ rest"
proof (induction es arbitrary: sg)
  case (Cons e es)
  obtain rest where "sg_file (replay cd es (appended cd e (le_data e) sg)) = sg_file (appended cd e (le_data e) sg) @ rest"
    using Cons.IH by blast
  then show ?case by auto
qed simp

lemma load_loop_replay:
  assumes "\<forall>e \<in> set es. plain cd (sg_first_index sg) e" "sg_checksum_type sg < 2"
    "sg_bytes sg = int (length (sg_file sg))"
  shows "load_loop (length es) cd i (length (sg_file sg)) (sg_last_index sg)
      (sg\<lparr>sg_file := sg_file (replay cd es sg), sg_valid_entries := v, sg_last_index := l, sg_bytes := b\<rparr>) cm =
    Some (Inr (OK0, (replay cd es sg)\<lparr>sg_valid_entries := v, sg_last_index := l, sg_bytes := b\<rparr>, cm,
      length (sg_file (replay cd es sg)), sg_last_index (replay cd es sg)))"
  using assms
proof (induction es arbitrary: sg i)
  case Nil
  then show ?case by (subst load_loop.simps) simp
next
  case (Cons e es)
  let ?p = "le_data e" and ?ck = "sg_checksum_type sg" and ?off = "length (sg_file sg)"
  let ?sg1 = "appended cd e ?p sg" let ?F = "sg_file (replay cd es ?sg1)"
  have p: "plain cd (sg_first_index sg) e" using Cons.prems(1) by simp
  obtain rest where rest: "?F = (sg_file sg @ encode_entry cd ?ck e ?p) @ rest"
    using replay_file [of cd es ?sg1] by auto
  have enc: "encodable e ?p" using p by (simp add: plain_def)
  have ld: "load_entry cd ?F ?off False entry_header_size = Load_ok (header_of ?ck e ?p (checksum cd ?ck ?p)) []"
    by (rule load_encoded(1) [OF enc Cons.prems(2)]) (simp_all add: rest)
  have lt: "\<not> ?off \<ge> length ?F" "\<not> ?off + (40 + length ?p) > length ?F" using rest by simp_all
  have ty: "type_code (le_type e) \<noteq> 3" using p by (auto simp: plain_def)
  have rng: "\<not> (le_index e - sg_first_index sg < 0 \<or> le_index e - sg_first_index sg \<ge> array_size)"
    using p by (simp add: plain_def)
  have upd: "(sg\<lparr>sg_file := ?F, sg_valid_entries := v, sg_last_index := l, sg_bytes := b\<rparr>)
      \<lparr>sg_start := (sg_start sg)(nat (le_index e - sg_first_index sg) := (int ?off, le_term e)),
       sg_end := (sg_end sg)(nat (le_index e - sg_first_index sg) := (int (?off + (40 + length ?p)), le_term e))\<rparr> =
      ?sg1\<lparr>sg_file := ?F, sg_valid_entries := v, sg_last_index := l, sg_bytes := b\<rparr>"
    using Cons.prems(3) by (simp add: appended_def Let_def)
  have IH: "load_loop (length es) cd (i + 1) (length (sg_file ?sg1)) (sg_last_index ?sg1)
      (?sg1\<lparr>sg_file := ?F, sg_valid_entries := v, sg_last_index := l, sg_bytes := b\<rparr>) cm =
    Some (Inr (OK0, (replay cd es ?sg1)\<lparr>sg_valid_entries := v, sg_last_index := l, sg_bytes := b\<rparr>, cm,
      length ?F, sg_last_index (replay cd es ?sg1)))"
    by (rule Cons.IH) (use Cons.prems in auto)
  show ?case
    using lt ld ty rng upd IH
    by (subst load_loop.simps) (simp add: header_of_def entry_header_size_def Let_def max.commute add.assoc)
qed

lemma seg_load_replay:
  assumes "\<forall>e \<in> set es. plain cd first e" "ck < 2"
  shows "seg_load (length es) cd ((new_segment first ck)\<lparr>sg_file := sg_file (replay cd es (new_segment first ck))\<rparr>) cm =
     Some (Inr (OK0, (replay cd es (new_segment first ck))\<lparr>sg_valid_entries := 0\<rparr>, cm))"
proof -
  let ?n = "new_segment first ck" let ?r = "replay cd es ?n"
  have n: "sg_first_index ?n = first" "sg_last_index ?n = first - 1" "sg_file ?n = []" "sg_bytes ?n = 0"
    "sg_checksum_type ?n = ck" "sg_valid_entries ?n = 0" "sg_is_open ?n"
    by (simp_all add: new_segment_def)
  have same: "?n\<lparr>sg_file := sg_file ?r\<rparr> =
      ?n\<lparr>sg_file := sg_file ?r, sg_valid_entries := 0, sg_last_index := first - 1, sg_bytes := 0\<rparr>"
    by (simp add: new_segment_def)
  have loop: "load_loop (length es) cd first 0 (first - 1) (?n\<lparr>sg_file := sg_file ?r\<rparr>) cm =
      Some (Inr (OK0, ?r\<lparr>sg_valid_entries := 0, sg_last_index := first - 1, sg_bytes := 0\<rparr>, cm,
        length (sg_file ?r), sg_last_index ?r))"
    using load_loop_replay [of es cd ?n first 0 "first - 1" 0 cm] assms n same by simp
  have op: "sg_is_open (replay cd es sg) = sg_is_open sg" for sg
    by (induction es arbitrary: sg) auto
  have bts: "sg_bytes (replay cd es sg) = int (length (sg_file (replay cd es sg)))"
    if "sg_bytes sg = int (length (sg_file sg))" for sg
    using that by (induction es arbitrary: sg) auto
  have "?r\<lparr>sg_valid_entries := 0, sg_last_index := sg_last_index ?r, sg_bytes := int (length (sg_file ?r))\<rparr> =
      ?r\<lparr>sg_valid_entries := 0\<rparr>"
    using bts [of ?n] n by (cases ?r) simp
  then show ?thesis
    using loop n op [of ?n] by (simp add: seg_load_def Let_def)
qed

text \<open>
  Restarting loses nothing that was appended. Loading the file of an open segment rebuilds the
  offsets, terms, last index and size that the appends had built, in any order of the indexes, and
  the loop ends after one round per entry. Only \<open>_vaild_entries_counter\<close> is not rebuilt: it
  is 0 afterwards.
\<close>

theorem segment_restart:
  assumes "\<forall>e \<in> set es. plain cd first e" "ck < 2" "io_write_fails io = None"
  shows "\<exists>sg. append_all cd io es (new_segment first ck) = Inr (OK0, sg) \<and>
     seg_load (length es) cd ((new_segment first ck)\<lparr>sg_file := sg_file sg\<rparr>) cm =
       Some (Inr (OK0, sg\<lparr>sg_valid_entries := 0\<rparr>, cm))"
proof -
  have "append_all cd io es (new_segment first ck) = Inr (OK0, replay cd es (new_segment first ck))"
    by (rule append_all_replay) (use assms in \<open>simp_all add: new_segment_def\<close>)
  then show ?thesis using seg_load_replay [OF assms(1,2)] by blast
qed

lemma load_loop_void:
  "off < length (sg_file sg) \<Longrightarrow> load_entry cd (sg_file sg) off False entry_header_size = Load_void \<Longrightarrow>
     load_loop fuel cd i off alast sg cm = None"
proof (induction fuel arbitrary: i)
  case 0
  then show ?case by (subst load_loop.simps) simp
next
  case (Suc fuel)
  then show ?case by (subst load_loop.simps) simp
qed

lemma load_entry_zeroed:
  assumes "40 \<le> length file"
  shows "load_entry cd (overwrite 0 (pack 8 (0 :: 64 word)) file) 0 False entry_header_size = Load_void"
proof -
  have "eh_term (decode_header (take 40 (overwrite 0 (pack 8 (0 :: 64 word)) file))) = 0"
    by (simp add: decode_header_def overwrite_def Let_def)
  then show ?thesis using assms by (simp add: load_entry_def entry_header_size_def Let_def)
qed


text \<open>A concrete codec and entry for the witnesses.\<close>

definition demo_cd :: codec where
  "demo_cd = \<lparr>cd_murmurhash32 = (\<lambda>bs. word_of_nat (length bs)), cd_crc32 = (\<lambda>bs. 7),
     cd_ser = demo_ser, cd_par = demo_par, cd_to_s = (\<lambda>p. ''a''), cd_of_s = (\<lambda>s. PeerId 1 8000 0)\<rparr>"

definition data_entry :: "int64 \<Rightarrow> int64 \<Rightarrow> byte list \<Rightarrow> log_entry" where
  "data_entry index term bs =
     \<lparr>le_type = ENTRY_TYPE_DATA, le_id = LogId index term, le_dependency = 0, le_peers = None,
      le_old_peers = None, le_data = bs\<rparr>"

lemma plain_data_entry:
  "first \<le> i \<Longrightarrow> i - first < array_size \<Longrightarrow> fits64 t \<Longrightarrow> fits64 i \<Longrightarrow> t \<noteq> 0 \<Longrightarrow> length bs < 4294967296 \<Longrightarrow>
     plain cd first (data_entry i t bs)"
  by (simp add: plain_def data_entry_def encodable_def fits64_def)

theorem segment_append_get_witness:
  "\<exists>sg'. seg_append demo_cd io_fine (data_entry 7 2 [1, 2]) (new_segment 5 1) = Inr (OK0, sg') \<and>
     seg_get demo_cd 7 sg' = Inr (Some (data_entry 7 2 [1, 2]))"
proof -
  have "storable demo_cd (data_entry 7 2 [1, 2]) [1, 2]"
    using plain_storable [OF plain_data_entry [of 5 7 2 "[1, 2]" demo_cd]] by (simp add: data_entry_def fits64_def array_size_def)
  from segment_append_get [OF seg_rep_new [of 1 demo_cd 5] this, of io_fine]
  show ?thesis by (simp add: new_segment_def io_fine_def data_entry_def array_size_def) blast
qed

theorem segment_truncate_get_witness:
  "\<exists>sg'. seg_truncate io_fine 4 (new_segment 5 1) = Inr (OK0, sg') \<and> seg_get demo_cd 7 sg' = Inr None"
  using segment_truncate_get [OF seg_rep_new [of 1 demo_cd 5], of 4 io_fine 7]
  by (simp add: new_segment_def io_fine_def array_size_def)

theorem segment_restart_witness:
  "\<exists>sg. append_all demo_cd io_fine [data_entry 7 2 [1], data_entry 5 1 []] (new_segment 5 1) = Inr (OK0, sg) \<and>
     seg_load 2 demo_cd ((new_segment 5 1)\<lparr>sg_file := sg_file sg\<rparr>) new_configuration_manager =
       Some (Inr (OK0, sg\<lparr>sg_valid_entries := 0\<rparr>, new_configuration_manager))"
proof -
  have "\<forall>e \<in> set [data_entry 7 2 [1], data_entry 5 1 []]. plain demo_cd 5 e"
    by (simp add: plain_data_entry fits64_def array_size_def)
  from segment_restart [OF this, of 1 io_fine new_configuration_manager] show ?thesis
    by (simp add: io_fine_def numeral_2_eq_2)
qed


end
