(* ===== verification/Raft_Meta.thy ===== *)
theory Raft_Meta
  imports Configuration Bytes
begin

text \<open>
  \<open>src/cpp/protobuf_file.cc\<close> and \<open>raft_meta.h\<close>/\<open>raft_meta.cc\<close>: the durable term and vote of a node.
  A message is saved into a temporary file that is then renamed over the old one; the file is a
  4-byte big-endian length and the message bytes.

  Parameters: \<open>ser\<close>/\<open>par\<close> are the protobuf codec of \<open>StablePBMeta\<close> (\<open>par\<close> is what the message
  holds after \<open>ParseFromZeroCopyStream\<close>, whose result the code ignores), \<open>to_s\<close>/\<open>of_s\<close> are
  \<open>PeerId::to_string\<close> and \<open>PeerId::parse\<close>.
\<close>

section \<open>ProtoBufFile\<close>

type_synonym file_system = "string \<Rightarrow> byte list option"

text \<open>How far one \<open>save\<close> gets: which system call fails, with the bytes a short write left behind.\<close>

datatype save_outcome =
    Save_completes
  | Open_fails
  | Write_len_short nat
  | Write_body_short nat
  | Sync_fails
  | Rename_fails

definition pb_header :: "byte list \<Rightarrow> byte list" where
  "pb_header msg = pack 4 (word_of_nat (length msg) :: 32 word)"

definition pb_header_decode :: "byte list \<Rightarrow> int" where
  "pb_header_decode bs = sint (unpack bs :: 32 word)"

definition tmp_path :: "string \<Rightarrow> string" where
  "tmp_path path = path @ ''.tmp''"

definition pb_save :: "string \<Rightarrow> bool \<Rightarrow> byte list \<Rightarrow> save_outcome \<Rightarrow> file_system \<Rightarrow> rc \<times> file_system" where
  "pb_save path sync msg outcome fs =
     (let header = pb_header msg;
          opened = fs(tmp_path path \<mapsto> []);
          with_len = fs(tmp_path path \<mapsto> header);
          full = fs(tmp_path path \<mapsto> header @ msg)
      in case outcome of
           Open_fails \<Rightarrow> (NEG1, fs)
         | Write_len_short k \<Rightarrow> (NEG1, opened(tmp_path path \<mapsto> take (min k 3) header))
         | Write_body_short k \<Rightarrow>
             (if msg = [] then (OK0, full(tmp_path path := None, path \<mapsto> header @ msg))
              else (NEG1, with_len(tmp_path path \<mapsto> header @ take (min k (length msg - 1)) msg)))
         | Sync_fails \<Rightarrow>
             (if sync then (NEG1, full) else (OK0, full(tmp_path path := None, path \<mapsto> header @ msg)))
         | Rename_fails \<Rightarrow> (NEG1, full)
         | Save_completes \<Rightarrow> (OK0, full(tmp_path path := None, path \<mapsto> header @ msg)))"

text \<open>\<open>ProtoBufFile::load\<close>: the bytes of the message, or -1 with \<open>errno\<close> telling a missing file.\<close>

definition pb_load :: "string \<Rightarrow> bool \<Rightarrow> file_system \<Rightarrow> (bool, byte list) sum" where
  "pb_load path stale_enoent fs =
     (case fs path of
        None \<Rightarrow> Inl True
      | Some bytes \<Rightarrow>
          (if length bytes < 4 then Inl stale_enoent
           else (let left_len = pb_header_decode (take 4 bytes);
                     avail = (if left_len < 0 then drop 4 bytes else take (nat left_len) (drop 4 bytes))
                 in if left_len \<noteq> int (length avail) then Inl stale_enoent else Inr avail)))"

section \<open>LocalRaftMetaStorage\<close>

record raft_meta =
  rm_is_inited :: bool
  rm_term :: int64
  rm_votedfor :: peer_id

definition new_raft_meta :: raft_meta where
  "new_raft_meta = \<lparr>rm_is_inited = False, rm_term = 1, rm_votedfor = empty_peer\<rparr>"

type_synonym meta_codec = "(int64 \<times> string \<Rightarrow> byte list) \<times> (byte list \<Rightarrow> int64 \<times> string)"

definition raft_meta_file :: "string \<Rightarrow> string" where
  "raft_meta_file path = path @ ''/'' @ ''raft_meta''"

definition rm_save ::
    "meta_codec \<Rightarrow> (peer_id \<Rightarrow> string) \<Rightarrow> string \<Rightarrow> bool \<Rightarrow> save_outcome \<Rightarrow> raft_meta \<Rightarrow> file_system \<Rightarrow> rc \<times> file_system" where
  "rm_save codec to_s path sync outcome rm fs =
     pb_save (raft_meta_file path) sync (fst codec (rm_term rm, to_s (rm_votedfor rm))) outcome fs"

text \<open>\<open>parse\<close> resets the peer when the text is malformed; \<open>of_s\<close> gives \<open>None\<close> then.\<close>

definition rm_load ::
    "meta_codec \<Rightarrow> (string \<Rightarrow> peer_id option) \<Rightarrow> string \<Rightarrow> bool \<Rightarrow> file_system \<Rightarrow> raft_meta \<Rightarrow> rc \<times> raft_meta" where
  "rm_load codec of_s path stale_enoent fs rm =
     (case pb_load (raft_meta_file path) stale_enoent fs of
        Inr bytes \<Rightarrow>
          (let (term, votedfor) = snd codec bytes; rm1 = rm\<lparr>rm_term := term\<rparr>
           in case of_s votedfor of
                None \<Rightarrow> (NEG1, rm1\<lparr>rm_votedfor := empty_peer\<rparr>)
              | Some p \<Rightarrow> (OK0, rm1\<lparr>rm_votedfor := p\<rparr>))
      | Inl enoent \<Rightarrow> ((if enoent then OK0 else NEG1), rm))"

definition rm_init ::
    "meta_codec \<Rightarrow> (string \<Rightarrow> peer_id option) \<Rightarrow> string \<Rightarrow> bool \<Rightarrow> bool \<Rightarrow> file_system \<Rightarrow> raft_meta \<Rightarrow> rc \<times> raft_meta" where
  "rm_init codec of_s path mkdir_ok stale_enoent fs rm =
     (if rm_is_inited rm then (OK0, rm)
      else if \<not> mkdir_ok then (NEG1, rm)
      else (let (ret, rm1) = rm_load codec of_s path stale_enoent fs rm
            in (ret, if ret = OK0 then rm1\<lparr>rm_is_inited := True\<rparr> else rm1)))"

definition rm_set_term ::
    "meta_codec \<Rightarrow> (peer_id \<Rightarrow> string) \<Rightarrow> string \<Rightarrow> bool \<Rightarrow> save_outcome \<Rightarrow> int64 \<Rightarrow>
      raft_meta \<times> file_system \<Rightarrow> rc \<times> raft_meta \<times> file_system" where
  "rm_set_term codec to_s path sync outcome term s =
     (case s of (rm, fs) \<Rightarrow>
       if rm_is_inited rm then
         (let rm1 = rm\<lparr>rm_term := term\<rparr>; (ret, fs1) = rm_save codec to_s path sync outcome rm1 fs
          in (ret, rm1, fs1))
       else (NEG1, rm, fs))"

definition rm_get_term :: "raft_meta \<Rightarrow> int64" where
  "rm_get_term rm = (if rm_is_inited rm then rm_term rm else -1)"

definition rm_set_votedfor ::
    "meta_codec \<Rightarrow> (peer_id \<Rightarrow> string) \<Rightarrow> string \<Rightarrow> bool \<Rightarrow> save_outcome \<Rightarrow> peer_id \<Rightarrow>
      raft_meta \<times> file_system \<Rightarrow> rc \<times> raft_meta \<times> file_system" where
  "rm_set_votedfor codec to_s path sync outcome peer s =
     (case s of (rm, fs) \<Rightarrow>
       if rm_is_inited rm then
         (let rm1 = rm\<lparr>rm_votedfor := peer\<rparr>; (ret, fs1) = rm_save codec to_s path sync outcome rm1 fs
          in (ret, rm1, fs1))
       else (NEG1, rm, fs))"

definition rm_set_term_and_votedfor ::
    "meta_codec \<Rightarrow> (peer_id \<Rightarrow> string) \<Rightarrow> string \<Rightarrow> bool \<Rightarrow> save_outcome \<Rightarrow> int64 \<Rightarrow> peer_id \<Rightarrow>
      raft_meta \<times> file_system \<Rightarrow> rc \<times> raft_meta \<times> file_system" where
  "rm_set_term_and_votedfor codec to_s path sync outcome term peer s =
     (case s of (rm, fs) \<Rightarrow>
       if rm_is_inited rm then
         (let rm1 = rm\<lparr>rm_term := term, rm_votedfor := peer\<rparr>;
              (ret, fs1) = rm_save codec to_s path sync outcome rm1 fs
          in (ret, rm1, fs1))
       else (NEG1, rm, fs))"

definition rm_get_votedfor :: "raft_meta \<Rightarrow> rc \<times> peer_id option" where
  "rm_get_votedfor rm = (if rm_is_inited rm then (OK0, Some (rm_votedfor rm)) else (NEG1, None))"

section \<open>Atomic replacement\<close>

lemma pb_header_roundtrip: "length msg < 2147483648 \<Longrightarrow> pb_header_decode (pb_header msg) = int (length msg)"
  by (simp add: pb_header_decode_def pb_header_def sint_word_of_nat32)

lemma length_pb_header [simp]: "length (pb_header msg) = 4"
  by (simp add: pb_header_def)

lemma pb_load_saved:
  "length msg < 2147483648 \<Longrightarrow> fs path = Some (pb_header msg @ msg) \<Longrightarrow> pb_load path e fs = Inr msg"
  by (simp add: pb_load_def pb_header_roundtrip Let_def)

lemma tmp_path_neq [simp]: "tmp_path path \<noteq> path" "path \<noteq> tmp_path path"
  by (simp_all add: tmp_path_def)

lemma pb_save_atomic:
  assumes "length msg < 2147483648" "pb_save path sync msg outcome fs = (r, fs')"
  shows "r = OK0 \<and> fs' path = Some (pb_header msg @ msg) \<or> r = NEG1 \<and> fs' path = fs path"
  using assms by (auto simp: pb_save_def Let_def split: save_outcome.splits if_splits)

lemma rm_save_loads:
  assumes "snd codec (fst codec (rm_term rm, to_s (rm_votedfor rm))) = (rm_term rm, to_s (rm_votedfor rm))"
    and "of_s (to_s (rm_votedfor rm)) = Some (rm_votedfor rm)" and "length (fst codec (rm_term rm, to_s (rm_votedfor rm))) < 2147483648"
    and "rm_save codec to_s path sync Save_completes rm fs = (r, fs')"
  shows "rm_init codec of_s path True e fs' new_raft_meta =
     (OK0, \<lparr>rm_is_inited = True, rm_term = rm_term rm, rm_votedfor = rm_votedfor rm\<rparr>)"
proof -
  have "fs' (raft_meta_file path) = Some (pb_header (fst codec (rm_term rm, to_s (rm_votedfor rm))) @ fst codec (rm_term rm, to_s (rm_votedfor rm)))"
    using assms(4) by (auto simp: rm_save_def pb_save_def Let_def)
  then have "pb_load (raft_meta_file path) e fs' = Inr (fst codec (rm_term rm, to_s (rm_votedfor rm)))"
    using pb_load_saved [OF assms(3)] by blast
  then show ?thesis using assms(1,2) by (simp add: rm_init_def rm_load_def new_raft_meta_def)
qed

text \<open>
  C22. the term and vote of a node survive a restart atomically. Whatever system call fails while
  \<open>set_term_and_votedfor\<close> saves them, a restarted storage reads the new pair when the call
  returned 0 and reads exactly what it would have read before when the call returned -1.
\<close>

theorem term_and_vote_survive_restart:
  assumes codec: "snd codec (fst codec (term, to_s peer)) = (term, to_s peer)"
    and peer: "of_s (to_s peer) = Some peer"
    and size: "length (fst codec (term, to_s peer)) < 2147483648"
    and init: "rm_is_inited rm"
    and set: "rm_set_term_and_votedfor codec to_s path sync outcome term peer (rm, fs) = (r, rm', fs')"
  shows "r = OK0 \<and> rm_init codec of_s path True e fs' new_raft_meta =
            (OK0, \<lparr>rm_is_inited = True, rm_term = term, rm_votedfor = peer\<rparr>) \<or>
         r = NEG1 \<and> rm_init codec of_s path True e fs' new_raft_meta = rm_init codec of_s path True e fs new_raft_meta"
proof -
  let ?msg = "fst codec (term, to_s peer)" and ?p = "raft_meta_file path"
  have "pb_save ?p sync ?msg outcome fs = (r, fs')"
    using set init by (auto simp: rm_set_term_and_votedfor_def rm_save_def split: prod.splits)
  from pb_save_atomic [OF size this]
  consider "r = OK0" "fs' ?p = Some (pb_header ?msg @ ?msg)" | "r = NEG1" "fs' ?p = fs ?p" by blast
  then show ?thesis
  proof cases
    case 1
    then have "pb_load ?p e fs' = Inr ?msg" using pb_load_saved [OF size] by blast
    with 1(1) codec peer show ?thesis by (simp add: rm_init_def rm_load_def new_raft_meta_def)
  next
    case 2
    then show ?thesis by (simp add: rm_init_def rm_load_def pb_load_def)
  qed
qed

definition demo_codec :: meta_codec where
  "demo_codec = ((\<lambda>(t, s). [word_of_int t]), (\<lambda>bs. (uint (hd bs), ''a'')))"

theorem term_and_vote_survive_restart_witness:
  "rm_init demo_codec (\<lambda>s. Some (PeerId 1 8000 0)) ''d'' True False
     (snd (snd (rm_set_term_and_votedfor demo_codec (\<lambda>p. ''a'') ''d'' True Save_completes 5 (PeerId 1 8000 0)
       (new_raft_meta\<lparr>rm_is_inited := True\<rparr>, (\<lambda>p. None))))) new_raft_meta =
   (OK0, \<lparr>rm_is_inited = True, rm_term = 5, rm_votedfor = PeerId 1 8000 0\<rparr>)"
proof -
  let ?set = "rm_set_term_and_votedfor demo_codec (\<lambda>p. ''a'') ''d'' True Save_completes 5 (PeerId 1 8000 0)
       (new_raft_meta\<lparr>rm_is_inited := True\<rparr>, (\<lambda>p. None))"
  have "?set = (OK0, fst (snd ?set), snd (snd ?set))"
    by (simp add: rm_set_term_and_votedfor_def rm_save_def pb_save_def new_raft_meta_def Let_def)
  then show ?thesis
    using term_and_vote_survive_restart [of demo_codec 5 "\<lambda>p. ''a''" "PeerId 1 8000 0" "\<lambda>s. Some (PeerId 1 8000 0)"
        "new_raft_meta\<lparr>rm_is_inited := True\<rparr>" "''d''" True Save_completes "\<lambda>p. None" OK0 "fst (snd ?set)" "snd (snd ?set)" False]
    by (simp add: demo_codec_def)
qed

end
