(* ===== verification/Log_Storage.thy ===== *)
theory Log_Storage
  imports Segment Raft_Meta
begin

text \<open>
  The class \<open>SegmentLogStorage\<close> of \<open>src/cpp/log.h\<close> and \<open>log.cc\<close>: the durable log as closed segments,
  an open segment and the saved first log index. \<open>_segments\<close> is a map from first index to segment; it
  is the list of its segments in key order. Outcomes of system calls are inputs, as in the segment.
\<close>

section \<open>Model\<close>

record log_flags =
  lf_max_segment_size :: int64
  lf_max_segment_index_size :: int64
  lf_raft_sync :: bool

definition default_flags :: log_flags where
  "default_flags = \<lparr>lf_max_segment_size = 8388608, lf_max_segment_index_size = 1048576, lf_raft_sync = True\<rparr>"

record segment_log =
  sl_first_log_index :: int64
  sl_last_log_index :: int64
  sl_max_log_index :: int64
  sl_segments :: "segment list"
  sl_open_segment :: "segment option"
  sl_checksum_type :: nat
  sl_enable_sync :: bool
  sl_meta :: "int64 option"

text \<open>The constructor, for a directory whose meta file holds \<open>meta\<close>.\<close>

definition new_segment_log :: "bool \<Rightarrow> int64 option \<Rightarrow> segment_log" where
  "new_segment_log enable_sync meta =
     \<lparr>sl_first_log_index = 1, sl_last_log_index = 0, sl_max_log_index = 0, sl_segments = [],
      sl_open_segment = None, sl_checksum_type = 0, sl_enable_sync = enable_sync, sl_meta = meta\<rparr>"

text \<open>\<open>_segments[s->first_index()] = s\<close> and \<open>_segments.erase(first)\<close>.\<close>

fun seg_insert :: "segment \<Rightarrow> segment list \<Rightarrow> segment list" where
  "seg_insert s [] = [s]"
| "seg_insert s (t # ts) =
     (if sg_first_index s < sg_first_index t then s # t # ts
      else if sg_first_index s = sg_first_index t then s # ts
      else t # seg_insert s ts)"

definition seg_erase :: "int64 \<Rightarrow> segment list \<Rightarrow> segment list" where
  "seg_erase first ss = filter (\<lambda>s. sg_first_index s \<noteq> first) ss"

text \<open>\<open>save_meta\<close> keeps the old file when it fails (see the protobuf file).\<close>

definition save_meta :: "bool \<Rightarrow> int64 \<Rightarrow> segment_log \<Rightarrow> rc \<times> segment_log" where
  "save_meta save_ok log_index sl =
     (if save_ok then (OK0, sl\<lparr>sl_meta := Some log_index\<rparr>) else (NEG1, sl))"

definition load_meta :: "segment_log \<Rightarrow> rc \<times> segment_log" where
  "load_meta sl =
     (case sl_meta sl of
        None \<Rightarrow> (NEG1, sl)
      | Some first_log_index \<Rightarrow> (OK0, sl\<lparr>sl_first_log_index := first_log_index\<rparr>))"

text \<open>
  \<open>open_segment\<close>: create the open segment when there is none, and move a full one to the closed
  segments, where it stays pending until all its indexes are filled. \<open>False\<close> is a NULL result.
\<close>

definition open_segment :: "log_flags \<Rightarrow> io \<Rightarrow> bool \<Rightarrow> segment_log \<Rightarrow> bool \<times> segment_log" where
  "open_segment fl io create_ok sl =
     (let fresh = new_segment (sl_last_log_index sl + 1) (sl_checksum_type sl);
          sl1 = (if sl_open_segment sl = None \<and> create_ok then sl\<lparr>sl_open_segment := Some fresh\<rparr> else sl)
      in case sl_open_segment sl1 of
           None \<Rightarrow> (False, sl1)
         | Some op \<Rightarrow>
             (if sg_bytes op > lf_max_segment_size fl \<or>
                 sg_last_index op - sg_first_index op > lf_max_segment_index_size fl
              then (let prev = prepare_to_close op;
                        (ret, prev1) = (if is_fullfilled prev then seg_close io (sl_enable_sync sl1) prev else (OK0, prev))
                    in if ret = OK0 \<and> create_ok
                       then (True, sl1\<lparr>sl_segments := seg_insert prev1 (sl_segments sl1), sl_open_segment := Some fresh\<rparr>)
                       else (False, sl1\<lparr>sl_segments := seg_erase (sg_first_index prev1) (sl_segments sl1),
                                        sl_open_segment := Some prev1\<rparr>))
              else (True, sl1)))"

text \<open>Where a segment object lives: \<open>get_segment\<close> hands out a pointer into the storage.\<close>

datatype seg_loc = Loc_open | Loc_closed int64

definition get_segment :: "int64 \<Rightarrow> segment_log \<Rightarrow> seg_loc option res" where
  "get_segment index sl =
     (if sl_first_log_index sl = sl_last_log_index sl + 1 then Inr None
      else if index < sl_first_log_index sl \<or> index > sl_last_log_index sl then Inr None
      else (case sl_open_segment sl of
              Some op \<Rightarrow>
                (if index \<ge> sg_first_index op then Inr (Some Loc_open)
                 else (case filter (\<lambda>s. sg_first_index s \<le> index) (sl_segments sl) of
                         [] \<Rightarrow> Inl Out_of_range
                       | ss \<Rightarrow> Inr (Some (Loc_closed (sg_first_index (last ss))))))
            | None \<Rightarrow>
                (case filter (\<lambda>s. sg_first_index s \<le> index) (sl_segments sl) of
                   [] \<Rightarrow> Inl Out_of_range
                 | ss \<Rightarrow> Inr (Some (Loc_closed (sg_first_index (last ss)))))))"

definition segment_at :: "seg_loc \<Rightarrow> segment_log \<Rightarrow> segment option" where
  "segment_at loc sl =
     (case loc of
        Loc_open \<Rightarrow> sl_open_segment sl
      | Loc_closed f \<Rightarrow> find (\<lambda>s. sg_first_index s = f) (sl_segments sl))"

definition put_segment :: "seg_loc \<Rightarrow> segment \<Rightarrow> segment_log \<Rightarrow> segment_log" where
  "put_segment loc s sl =
     (case loc of
        Loc_open \<Rightarrow> sl\<lparr>sl_open_segment := Some s\<rparr>
      | Loc_closed f \<Rightarrow> sl\<lparr>sl_segments := map (\<lambda>t. if sg_first_index t = f then s else t) (sl_segments sl)\<rparr>)"

text \<open>
  One round of \<open>append_entries\<close>: the entry goes to the open segment, or to the segment that covers an
  older index. The result of \<open>get_segment\<close> is not checked: when it fails the entry stays with the
  open segment, whose array index is then negative.
\<close>

definition append_one :: "log_flags \<Rightarrow> codec \<Rightarrow> io \<Rightarrow> bool \<Rightarrow> log_entry \<Rightarrow> segment_log \<Rightarrow> (bool \<times> seg_loc \<times> segment_log) res" where
  "append_one fl cd io create_ok e sl =
     (let (ok, sl1) = open_segment fl io create_ok sl
      in case sl_open_segment sl1 of
           None \<Rightarrow> Inr (False, Loc_open, sl1)
         | Some op \<Rightarrow>
             (if \<not> ok then Inr (False, Loc_open, sl1)
              else (case (if le_index e < sg_first_index op then get_segment (le_index e) sl1 else Inr (Some Loc_open)) of
                      Inl f \<Rightarrow> Inl f
                    | Inr found \<Rightarrow>
                        (let loc = (case found of None \<Rightarrow> Loc_open | Some l \<Rightarrow> l)
                         in case segment_at loc sl1 of
                              None \<Rightarrow> Inl Null_deref
                            | Some s \<Rightarrow>
                                (case seg_append cd io e s of
                                   Inl f \<Rightarrow> Inl f
                                 | Inr (ret, s1) \<Rightarrow>
                                     (let sl2 = put_segment loc s1 sl1
                                      in if ret \<noteq> OK0 then Inr (False, loc, sl2)
                                         else Inr (True, loc, sl2\<lparr>sl_last_log_index := max (sl_last_log_index sl2) (le_index e)\<rparr>)))))))"

text \<open>\<open>append_entries\<close> returns how many entries were appended.\<close>

fun sl_append_loop :: "log_flags \<Rightarrow> codec \<Rightarrow> io \<Rightarrow> bool \<Rightarrow> log_entry list \<Rightarrow> nat \<Rightarrow> segment_log \<Rightarrow> (nat \<times> segment_log) res" where
  "sl_append_loop fl cd io create_ok [] n sl = Inr (n, sl)"
| "sl_append_loop fl cd io create_ok (e # es) n sl =
     (case append_one fl cd io create_ok e sl of
        Inl f \<Rightarrow> Inl f
      | Inr (True, _, sl1) \<Rightarrow> sl_append_loop fl cd io create_ok es (n + 1) sl1
      | Inr (False, _, sl1) \<Rightarrow> Inr (n, sl1))"

definition sl_append_entries :: "log_flags \<Rightarrow> codec \<Rightarrow> io \<Rightarrow> bool \<Rightarrow> log_entry list \<Rightarrow> segment_log \<Rightarrow> (nat \<times> segment_log) res" where
  "sl_append_entries fl cd io create_ok es sl =
     (if es = [] then Inr (0, sl) else sl_append_loop fl cd io create_ok es 0 sl)"

definition sl_append_entry :: "log_flags \<Rightarrow> codec \<Rightarrow> io \<Rightarrow> bool \<Rightarrow> log_entry \<Rightarrow> segment_log \<Rightarrow> (rc \<times> segment_log) res" where
  "sl_append_entry fl cd io create_ok e sl =
     (let (ok, sl1) = open_segment fl io create_ok sl
      in case sl_open_segment sl1 of
           None \<Rightarrow> Inr (EIO, sl1)
         | Some op \<Rightarrow>
             (if \<not> ok then Inr (EIO, sl1)
              else (case seg_append cd io e op of
                      Inl f \<Rightarrow> Inl f
                    | Inr (ret, op1) \<Rightarrow>
                        (let sl2 = sl1\<lparr>sl_open_segment := Some op1\<rparr>
                         in if ret \<noteq> OK0 then Inr (ret, sl2)
                            else Inr (seg_sync (lf_raft_sync fl) (sl_enable_sync sl2) (io_fsync_ok io) op1,
                                      sl2\<lparr>sl_last_log_index := max (sl_last_log_index sl2) (le_index e)\<rparr>)))))"

definition sl_get_entry :: "codec \<Rightarrow> int64 \<Rightarrow> segment_log \<Rightarrow> log_entry option res" where
  "sl_get_entry cd index sl =
     (case get_segment index sl of
        Inl f \<Rightarrow> Inl f
      | Inr None \<Rightarrow> Inr None
      | Inr (Some loc) \<Rightarrow> (case segment_at loc sl of None \<Rightarrow> Inl Null_deref | Some s \<Rightarrow> seg_get cd index s))"

definition sl_get_term :: "int64 \<Rightarrow> segment_log \<Rightarrow> int64 res" where
  "sl_get_term index sl =
     (case get_segment index sl of
        Inl f \<Rightarrow> Inl f
      | Inr None \<Rightarrow> Inr 0
      | Inr (Some loc) \<Rightarrow> (case segment_at loc sl of None \<Rightarrow> Inl Null_deref | Some s \<Rightarrow> seg_get_term index s))"

definition storage_max_log_index :: "segment_log \<Rightarrow> int64" where
  "storage_max_log_index sl = sl_last_log_index sl"

text \<open>
  \<open>pop_segments\<close> returns from inside its loop at the first segment that stays, so the open segment is
  only looked at when every closed one is popped.
\<close>

fun pop_while_below :: "int64 \<Rightarrow> segment list \<Rightarrow> segment list \<times> segment list" where
  "pop_while_below k [] = ([], [])"
| "pop_while_below k (s # ss) =
     (if sg_last_index s < k then (let (popped, rest) = pop_while_below k ss in (s # popped, rest)) else ([], s # ss))"

definition pop_segments :: "int64 \<Rightarrow> segment_log \<Rightarrow> segment list \<times> segment_log" where
  "pop_segments k sl =
     (let (popped, rest) = pop_while_below k (sl_segments sl);
          sl1 = sl\<lparr>sl_first_log_index := k, sl_segments := rest\<rparr>
      in if rest \<noteq> [] then (popped, sl1)
         else (case sl_open_segment sl1 of
                 None \<Rightarrow> (popped, sl1\<lparr>sl_last_log_index := k - 1\<rparr>)
               | Some op \<Rightarrow>
                   (if sg_last_index op < k
                    then (popped @ [op], sl1\<lparr>sl_open_segment := None, sl_last_log_index := k - 1\<rparr>)
                    else (popped, sl1))))"

definition sl_truncate_prefix :: "bool \<Rightarrow> int64 \<Rightarrow> segment_log \<Rightarrow> rc \<times> segment_log" where
  "sl_truncate_prefix save_ok first_index_kept sl =
     (if sl_first_log_index sl \<ge> first_index_kept then (OK0, sl)
      else (let (ret, sl1) = save_meta save_ok first_index_kept sl
            in if ret \<noteq> OK0 then (NEG1, sl1) else (OK0, snd (pop_segments first_index_kept sl1))))"

text \<open>\<open>pop_segments_from_back\<close>: the last segment that stays, and where it lives.\<close>

definition pop_segments_from_back :: "int64 \<Rightarrow> segment_log \<Rightarrow> seg_loc option \<times> segment_log" where
  "pop_segments_from_back k sl =
     (let sl1 = sl\<lparr>sl_last_log_index := k\<rparr>
      in case sl_open_segment sl1 of
           Some op \<Rightarrow>
             (if sg_first_index op \<le> k then (Some Loc_open, sl1)
              else (let kept = rev (dropWhile (\<lambda>s. sg_first_index s > k) (rev (sl_segments sl1)));
                        sl2 = sl1\<lparr>sl_open_segment := None, sl_segments := seg_erase (sg_first_index op) kept\<rparr>
                    in if sl_segments sl2 \<noteq> [] then (Some (Loc_closed (sg_first_index (last (sl_segments sl2)))), sl2)
                       else (None, sl2\<lparr>sl_first_log_index := k + 1\<rparr>)))
         | None \<Rightarrow>
             (let kept = rev (dropWhile (\<lambda>s. sg_first_index s > k) (rev (sl_segments sl1)));
                  sl2 = sl1\<lparr>sl_segments := kept\<rparr>
              in if kept \<noteq> [] then (Some (Loc_closed (sg_first_index (last kept))), sl2)
                 else (None, sl2\<lparr>sl_first_log_index := k + 1\<rparr>)))"

definition sl_truncate_suffix :: "io \<Rightarrow> int64 \<Rightarrow> segment_log \<Rightarrow> (rc \<times> segment_log) res" where
  "sl_truncate_suffix io last_index_kept sl =
     (let (loc, sl1) = pop_segments_from_back last_index_kept sl
      in case loc of
           None \<Rightarrow> Inr (OK0, sl1)
         | Some l \<Rightarrow>
             (if sl_first_log_index sl1 \<le> sl_last_log_index sl1
              then (case segment_at l sl1 of
                      None \<Rightarrow> Inl Null_deref
                    | Some s \<Rightarrow>
                        (case seg_truncate io last_index_kept s of
                           Inl f \<Rightarrow> Inl f
                         | Inr (ret, s1) \<Rightarrow> Inr (ret, put_segment l s1 sl1)))
              else (case l of
                      Loc_open \<Rightarrow>
                        (case sl_open_segment sl1 of
                           None \<Rightarrow> Inl Null_deref
                         | Some op \<Rightarrow> Inr (OK0, sl1\<lparr>sl_segments := seg_erase (sg_first_index op) (sl_segments sl1),
                                                    sl_open_segment := None\<rparr>))
                    | Loc_closed f \<Rightarrow> Inr (OK0, sl1\<lparr>sl_segments := seg_erase f (sl_segments sl1), sl_open_segment := None\<rparr>))))"

definition sl_reset :: "bool \<Rightarrow> int64 \<Rightarrow> segment_log \<Rightarrow> rc \<times> segment_log" where
  "sl_reset save_ok next_log_index sl =
     (if next_log_index \<le> 0 then (EINVAL, sl)
      else (let sl1 = sl\<lparr>sl_segments := [], sl_open_segment := None,
                         sl_first_log_index := next_log_index, sl_last_log_index := next_log_index - 1\<rparr>
            in save_meta save_ok next_log_index sl1))"

section \<open>Start-up\<close>

text \<open>
  A directory entry as \<open>list_segments\<close> classifies its name: a closed or an open segment with its
  indexes, a left-over temporary file, or anything else. In an empty log (no meta file) all
  \<open>log_\<close> files are removed.
\<close>

datatype dir_entry =
    Dir_closed int64 int64 "byte list"
  | Dir_open int64 "byte list"
  | Dir_tmp
  | Dir_other

fun scan_dir :: "bool \<Rightarrow> dir_entry list \<Rightarrow> segment_log \<Rightarrow> rc \<times> segment_log" where
  "scan_dir is_empty [] sl = (OK0, sl)"
| "scan_dir is_empty (Dir_tmp # ds) sl = scan_dir is_empty ds sl"
| "scan_dir is_empty (Dir_other # ds) sl = scan_dir is_empty ds sl"
| "scan_dir is_empty (Dir_closed f l bs # ds) sl =
     (if is_empty then scan_dir is_empty ds sl
      else scan_dir is_empty ds
             (sl\<lparr>sl_segments := seg_insert (closed_segment f l (sl_checksum_type sl) bs) (sl_segments sl)\<rparr>))"
| "scan_dir is_empty (Dir_open f bs # ds) sl =
     (if is_empty then scan_dir is_empty ds sl
      else if sl_open_segment sl = None
      then scan_dir is_empty ds (sl\<lparr>sl_open_segment := Some ((new_segment f (sl_checksum_type sl))\<lparr>sg_file := bs\<rparr>)\<rparr>)
      else (NEG1, sl))"

text \<open>The check of the closed segments; \<open>kept\<close> are those not discarded.\<close>

fun check_segments :: "int64 \<Rightarrow> int64 \<Rightarrow> segment list \<Rightarrow> (segment list \<times> int64) option" where
  "check_segments first_log_index last_log_index [] = Some ([], last_log_index)"
| "check_segments first_log_index last_log_index (s # ss) =
     (if sg_first_index s > sg_last_index s then None
      else if last_log_index \<noteq> -1 \<and> sg_first_index s \<noteq> last_log_index + 1 then None
      else if last_log_index = -1 \<and> first_log_index < sg_first_index s then None
      else if last_log_index = -1 \<and> first_log_index > sg_last_index s
      then check_segments first_log_index last_log_index ss
      else (case check_segments first_log_index (sg_last_index s) ss of
              None \<Rightarrow> None
            | Some (kept, l) \<Rightarrow> Some (s # kept, l)))"

definition list_segments :: "bool \<Rightarrow> dir_entry list option \<Rightarrow> segment_log \<Rightarrow> rc \<times> segment_log" where
  "list_segments is_empty dir sl =
     (case dir of
        None \<Rightarrow> (NEG1, sl)
      | Some ds \<Rightarrow>
          (let (ret, sl1) = scan_dir is_empty ds sl
           in if ret \<noteq> OK0 then (ret, sl1)
              else (case check_segments (sl_first_log_index sl1) (-1) (sl_segments sl1) of
                      None \<Rightarrow> (NEG1, sl1)
                    | Some (kept, _) \<Rightarrow> (OK0, sl1\<lparr>sl_segments := kept\<rparr>))))"

text \<open>\<open>load_segments\<close>; the fuel is that of \<open>Segment::load\<close>, and \<open>None\<close> means that a load does not end.\<close>

fun load_closed ::
    "nat \<Rightarrow> codec \<Rightarrow> segment list \<Rightarrow> int64 \<Rightarrow> configuration_manager \<Rightarrow>
      (rc \<times> segment list \<times> int64 \<times> configuration_manager) res option" where
  "load_closed fuel cd [] ll cm = Some (Inr (OK0, [], ll, cm))"
| "load_closed fuel cd (s # ss) ll cm =
     (case seg_load fuel cd s cm of
        None \<Rightarrow> None
      | Some (Inl f) \<Rightarrow> Some (Inl f)
      | Some (Inr (ret, s1, cm1)) \<Rightarrow>
          (if ret \<noteq> OK0 then Some (Inr (ret, s1 # ss, ll, cm1))
           else (case load_closed fuel cd ss (sg_last_index s1) cm1 of
                   None \<Rightarrow> None
                 | Some (Inl f) \<Rightarrow> Some (Inl f)
                 | Some (Inr (ret2, ss1, ll1, cm2)) \<Rightarrow> Some (Inr (ret2, s1 # ss1, ll1, cm2)))))"

definition load_segments ::
    "nat \<Rightarrow> codec \<Rightarrow> segment_log \<Rightarrow> configuration_manager \<Rightarrow> (rc \<times> segment_log \<times> configuration_manager) res option" where
  "load_segments fuel cd sl cm =
     (case load_closed fuel cd (sl_segments sl) (sl_last_log_index sl) cm of
        None \<Rightarrow> None
      | Some (Inl f) \<Rightarrow> Some (Inl f)
      | Some (Inr (ret, ss, ll, cm1)) \<Rightarrow>
          (let sl1 = sl\<lparr>sl_segments := ss, sl_last_log_index := ll\<rparr>;
               finish = (\<lambda>s c. Some (Inr (OK0, (if sl_last_log_index s = 0
                                               then s\<lparr>sl_last_log_index := sl_first_log_index s - 1\<rparr> else s), c)))
           in if ret \<noteq> OK0 then Some (Inr (ret, sl1, cm1))
              else (case sl_open_segment sl1 of
                      None \<Rightarrow> finish sl1 cm1
                    | Some op \<Rightarrow>
                        (case seg_load fuel cd op cm1 of
                           None \<Rightarrow> None
                         | Some (Inl f) \<Rightarrow> Some (Inl f)
                         | Some (Inr (ret2, op1, cm2)) \<Rightarrow>
                             (if ret2 \<noteq> OK0 then Some (Inr (ret2, sl1\<lparr>sl_open_segment := Some op1\<rparr>, cm2))
                              else if sl_first_log_index sl1 > sg_last_index op1
                              then finish (sl1\<lparr>sl_open_segment := None\<rparr>) cm2
                              else finish (sl1\<lparr>sl_open_segment := Some op1, sl_last_log_index := sg_last_index op1\<rparr>) cm2)))))"

definition sl_init ::
    "nat \<Rightarrow> codec \<Rightarrow> bool \<Rightarrow> bool \<Rightarrow> dir_entry list option \<Rightarrow> bool \<Rightarrow> segment_log \<Rightarrow> configuration_manager \<Rightarrow>
      (rc \<times> segment_log \<times> configuration_manager) res option" where
  "sl_init fuel cd mkdir_ok fast_crc dir save_ok sl cm =
     (if \<not> mkdir_ok then Some (Inr (NEG1, sl, cm))
      else (let (ret_meta, sl1) = load_meta (sl\<lparr>sl_checksum_type := (if fast_crc then 1 else 0)\<rparr>);
                is_empty = (ret_meta \<noteq> OK0);
                (ret_list, sl2) = list_segments is_empty dir sl1;
                finish = (\<lambda>ret s c. if is_empty
                   then (let (r, s1) = save_meta save_ok 1
                           (s\<lparr>sl_first_log_index := 1, sl_last_log_index := 0, sl_max_log_index := 0\<rparr>) in Some (Inr (r, s1, c)))
                   else Some (Inr (ret, s, c)))
            in if ret_list \<noteq> OK0 then finish ret_list sl2 cm
               else (case load_segments fuel cd sl2 cm of
                       None \<Rightarrow> None
                     | Some (Inl f) \<Rightarrow> Some (Inl f)
                     | Some (Inr (ret, sl3, cm1)) \<Rightarrow> finish ret sl3 cm1)))"

section \<open>Well-formed storage\<close>

text \<open>
  The segments cover the index range without holes: each closed segment ends where the next one
  begins, the open segment follows the last closed one, and \<open>_last_log_index\<close> is the last index of
  the last segment.
\<close>

fun contiguous :: "segment list \<Rightarrow> bool" where
  "contiguous [] = True"
| "contiguous [s] = (sg_first_index s \<le> sg_last_index s + 1)"
| "contiguous (s # t # ss) =
     (sg_first_index s \<le> sg_last_index s \<and> sg_last_index s + 1 = sg_first_index t \<and> contiguous (t # ss))"

definition all_segments :: "segment_log \<Rightarrow> segment list" where
  "all_segments sl = sl_segments sl @ (case sl_open_segment sl of None \<Rightarrow> [] | Some op \<Rightarrow> [op])"

definition sl_wf :: "segment_log \<Rightarrow> bool" where
  "sl_wf sl \<longleftrightarrow> contiguous (all_segments sl) \<and>
     (all_segments sl \<noteq> [] \<longrightarrow> sl_last_log_index sl = sg_last_index (last (all_segments sl))) \<and>
     (all_segments sl = [] \<longrightarrow> sl_last_log_index sl = sl_first_log_index sl - 1)"

lemma contiguous_tl: "contiguous (s # ss) \<Longrightarrow> contiguous ss"
  by (cases ss) auto

lemma contiguous_append: "contiguous (xs @ ys) \<Longrightarrow> contiguous ys"
  by (induction xs) (auto dest: contiguous_tl)

lemma contiguous_sorted: "contiguous ss \<Longrightarrow> sorted_wrt (\<lambda>s t. sg_first_index s < sg_first_index t \<and> sg_last_index s < sg_first_index t) ss"
proof (induction ss rule: contiguous.induct)
  case (3 s t ss)
  then have s: "sorted_wrt (\<lambda>s t. sg_first_index s < sg_first_index t \<and> sg_last_index s < sg_first_index t) (t # ss)"
    and "sg_first_index s \<le> sg_last_index s" "sg_last_index s + 1 = sg_first_index t" by auto
  then show ?case by (auto intro: order.strict_trans)
qed auto

text \<open>The segment that covers an index, as the lookup of \<open>get_segment\<close> finds it.\<close>

definition covering :: "int64 \<Rightarrow> segment list \<Rightarrow> segment option" where
  "covering i ss =
     (let ts = filter (\<lambda>s. sg_first_index s \<le> i) ss in if ts = [] then None else Some (last ts))"

lemma sorted_filter_prefix:
  assumes "sorted_wrt (\<lambda>s t. sg_first_index s < sg_first_index t \<and> sg_last_index s < sg_first_index t) (xs @ [op])"
    "sg_first_index op \<le> i"
  shows "filter (\<lambda>s. sg_first_index s \<le> i) (xs @ [op]) = xs @ [op]"
  using assms by (force simp: filter_id_conv sorted_wrt_append)

lemma find_first_index:
  assumes "sorted_wrt (\<lambda>s t. sg_first_index s < sg_first_index t \<and> Q s t) ss" "s \<in> set ss"
  shows "find (\<lambda>t. sg_first_index t = sg_first_index s) ss = Some s"
  using assms
proof (induction ss)
  case (Cons t ss)
  then show ?case by (cases "s = t") auto
qed simp

lemma last_filter_mem: "filter P xs \<noteq> [] \<Longrightarrow> last (filter P xs) \<in> set xs"
  using last_in_set [of "filter P xs"] by auto

lemma get_segment_covering:
  assumes wf: "sl_wf sl" and i: "sl_first_log_index sl \<le> i" "i \<le> sl_last_log_index sl"
  shows "(case get_segment i sl of Inl f \<Rightarrow> covering i (all_segments sl) = None
     | Inr None \<Rightarrow> False
     | Inr (Some loc) \<Rightarrow> segment_at loc sl = covering i (all_segments sl) \<and> segment_at loc sl \<noteq> None)"
proof -
  have srt: "sorted_wrt (\<lambda>s t. sg_first_index s < sg_first_index t \<and> sg_last_index s < sg_first_index t) (all_segments sl)"
    using wf contiguous_sorted by (simp add: sl_wf_def)
  let ?ts = "filter (\<lambda>s. sg_first_index s \<le> i) (sl_segments sl)"
  have at: "segment_at (Loc_closed (sg_first_index (last ?ts))) sl = Some (last ?ts)" if "?ts \<noteq> []"
    unfolding segment_at_def
    using find_first_index [of "\<lambda>s t. sg_last_index s < sg_first_index t" "sl_segments sl" "last ?ts"]
      last_filter_mem [OF that] srt
    by (simp add: all_segments_def sorted_wrt_append)
  have closed: "case get_segment i sl of Inl f \<Rightarrow> covering i (all_segments sl) = None | Inr None \<Rightarrow> False
     | Inr (Some loc) \<Rightarrow> segment_at loc sl = covering i (all_segments sl) \<and> segment_at loc sl \<noteq> None"
    if no: "\<forall>op. sl_open_segment sl = Some op \<longrightarrow> \<not> sg_first_index op \<le> i"
  proof -
    have c: "covering i (all_segments sl) = (if ?ts = [] then None else Some (last ?ts))"
      using no by (auto simp: covering_def all_segments_def split: option.splits)
    have "get_segment i sl = (if ?ts = [] then Inl Out_of_range else Inr (Some (Loc_closed (sg_first_index (last ?ts)))))"
      using i no by (auto simp: get_segment_def split: option.splits list.splits)
    then show ?thesis using c at by simp
  qed
  show ?thesis
  proof (cases "\<exists>op. sl_open_segment sl = Some op \<and> sg_first_index op \<le> i")
    case True
    then obtain op where op: "sl_open_segment sl = Some op" "sg_first_index op \<le> i" by blast
    have "filter (\<lambda>s. sg_first_index s \<le> i) (all_segments sl) = all_segments sl"
      using sorted_filter_prefix [of "sl_segments sl" op i] srt op by (simp add: all_segments_def)
    then have "covering i (all_segments sl) = Some op"
      unfolding covering_def using op by (simp add: all_segments_def)
    then show ?thesis using op i by (simp add: get_segment_def segment_at_def)
  next
    case False
    then show ?thesis using closed by blast
  qed
qed

text \<open>So the storage answers from the covering segment.\<close>

lemma sl_get_entry_covering:
  assumes "sl_wf sl"
  shows "sl_get_entry cd i sl =
    (if sl_first_log_index sl \<le> i \<and> i \<le> sl_last_log_index sl
     then (case covering i (all_segments sl) of None \<Rightarrow> Inl Out_of_range | Some s \<Rightarrow> seg_get cd i s) else Inr None)"
proof (cases "sl_first_log_index sl \<le> i \<and> i \<le> sl_last_log_index sl")
  case True
  then have i: "sl_first_log_index sl \<le> i" "i \<le> sl_last_log_index sl" by auto
  have f: "get_segment i sl = Inl f \<Longrightarrow> f = Out_of_range" for f
    by (auto simp: get_segment_def split: if_splits option.splits list.splits)
  show ?thesis
    using get_segment_covering [OF assms i] True f
    by (auto simp: sl_get_entry_def split: sum.splits option.splits)
next
  case False
  then show ?thesis by (auto simp: sl_get_entry_def get_segment_def)
qed

lemma covering_append:
  assumes "\<forall>s \<in> set ys. sg_first_index s \<le> i \<longrightarrow> True" "covering i ys \<noteq> None"
  shows "covering i (xs @ ys) = covering i ys"
  using assms by (auto simp: covering_def Let_def split: if_splits)

lemma contiguous_covers:
  "contiguous ss \<Longrightarrow> ss \<noteq> [] \<Longrightarrow> sg_first_index (hd ss) \<le> i \<Longrightarrow> i \<le> sg_last_index (last ss) \<Longrightarrow>
     \<exists>s \<in> set ss. covering i ss = Some s \<and> sg_first_index s \<le> i \<and> i \<le> sg_last_index s"
proof (induction ss rule: contiguous.induct)
  case (3 s t ss)
  show ?case
  proof (cases "sg_first_index t \<le> i")
    case True
    with 3 obtain u where "u \<in> set (t # ss)" "covering i (t # ss) = Some u" "sg_first_index u \<le> i" "i \<le> sg_last_index u"
      by auto
    moreover from this have "covering i ([s] @ t # ss) = covering i (t # ss)" by (intro covering_append) auto
    ultimately show ?thesis by auto
  next
    case False
    then have "filter (\<lambda>u. sg_first_index u \<le> i) (t # ss) = []"
      using contiguous_sorted [of "t # ss"] 3(2) by (auto simp: filter_empty_conv)
    then have "covering i (s # t # ss) = Some s" using 3(4) by (simp add: covering_def)
    moreover have "i \<le> sg_last_index s" using False 3(2) by simp
    ultimately show ?thesis using 3(4) by auto
  qed
qed (auto simp: covering_def)

lemma pop_while_below_split:
  "pop_while_below k ss = (popped, rest) \<Longrightarrow> ss = popped @ rest \<and> (\<forall>s \<in> set popped. sg_last_index s < k) \<and>
     (rest \<noteq> [] \<longrightarrow> k \<le> sg_last_index (hd rest))"
  by (induction ss arbitrary: popped rest) (auto split: if_splits prod.splits)

text \<open>Dropping a front part that ends before the index does not change the covering segment.\<close>

lemma covering_drop_front:
  assumes "contiguous (xs @ ys)" "ys \<noteq> []" "\<forall>s \<in> set xs. sg_last_index s < i" "i \<le> sg_last_index (last ys)"
    "sg_first_index (hd (xs @ ys)) \<le> i"
  shows "covering i (xs @ ys) = covering i ys"
proof -
  obtain s where s: "s \<in> set (xs @ ys)" "covering i (xs @ ys) = Some s" "sg_first_index s \<le> i" "i \<le> sg_last_index s"
    using contiguous_covers [OF assms(1), of i] assms by auto
  then have "s \<in> set ys" using assms(3) by fastforce
  then have "filter (\<lambda>t. sg_first_index t \<le> i) ys \<noteq> []" using s(3) by (auto simp: filter_empty_conv)
  then show ?thesis by (intro covering_append) (auto simp: covering_def)
qed

lemma pop_segments_split:
  obtains xs sl' where "pop_segments k sl = (xs, sl')" "all_segments sl = xs @ all_segments sl'"
    "\<forall>s \<in> set xs. sg_last_index s < k" "sl_first_log_index sl' = k" "sl_meta sl' = sl_meta sl"
    "all_segments sl' \<noteq> [] \<and> sl_last_log_index sl' = sl_last_log_index sl \<or>
     all_segments sl' = [] \<and> sl_last_log_index sl' = k - 1"
proof -
  obtain popped rest where p: "pop_while_below k (sl_segments sl) = (popped, rest)" by fastforce
  note sp = pop_while_below_split [OF p]
  show thesis
    by (rule that [of "fst (pop_segments k sl)" "snd (pop_segments k sl)"])
      (use p sp in \<open>auto simp: pop_segments_def all_segments_def Let_def split: option.splits if_splits\<close>)
qed

lemma pop_segments_wf:
  assumes wf: "sl_wf sl" and pop: "pop_segments k sl = (xs, sl')"
  shows "sl_wf sl'"
proof -
  obtain ys sl2 where "pop_segments k sl = (ys, sl2)" and a: "all_segments sl = ys @ all_segments sl2"
    "sl_first_log_index sl2 = k" "all_segments sl2 \<noteq> [] \<and> sl_last_log_index sl2 = sl_last_log_index sl \<or>
     all_segments sl2 = [] \<and> sl_last_log_index sl2 = k - 1"
    by (rule pop_segments_split)
  with pop have "sl2 = sl'" by simp
  then show ?thesis using wf a contiguous_append [of ys "all_segments sl2"] by (auto simp: sl_wf_def)
qed

lemma pop_segments_get:
  assumes wf: "sl_wf sl" and pop: "pop_segments k sl = (xs, sl')"
    and covered: "all_segments sl \<noteq> [] \<longrightarrow> sg_first_index (hd (all_segments sl)) \<le> k"
    and new: "sl_first_log_index sl < k"
  shows "sl_get_entry cd i sl' = (if k \<le> i then sl_get_entry cd i sl else Inr None)"
proof -
  obtain ys sl2 where "pop_segments k sl = (ys, sl2)" and a: "all_segments sl = ys @ all_segments sl2"
    "\<forall>s \<in> set ys. sg_last_index s < k" "sl_first_log_index sl2 = k"
    "all_segments sl2 \<noteq> [] \<and> sl_last_log_index sl2 = sl_last_log_index sl \<or>
     all_segments sl2 = [] \<and> sl_last_log_index sl2 = k - 1"
    by (rule pop_segments_split)
  with pop have eq: "sl2 = sl'" by simp
  have get: "sl_get_entry cd i sl' = (if k \<le> i \<and> i \<le> sl_last_log_index sl'
     then (case covering i (all_segments sl') of None \<Rightarrow> Inl Out_of_range | Some s \<Rightarrow> seg_get cd i s) else Inr None)"
    using sl_get_entry_covering [OF pop_segments_wf [OF wf pop]] a(3) eq by simp
  show ?thesis
  proof (cases "all_segments sl' = []")
    case True
    then have "sl_last_log_index sl' = k - 1" using a(4) eq by auto
    moreover have "sl_last_log_index sl < k"
      using a True eq wf new by (cases "ys = []") (auto simp: sl_wf_def)
    ultimately show ?thesis using get sl_get_entry_covering [OF wf, of cd i] by auto
  next
    case False
    then have l: "sl_last_log_index sl' = sl_last_log_index sl" using a(4) eq by auto
    have last: "sl_last_log_index sl = sg_last_index (last (all_segments sl'))"
      using wf False a(1) eq by (auto simp: sl_wf_def)
    have "covering i (all_segments sl) = covering i (all_segments sl')" if "k \<le> i" "i \<le> sl_last_log_index sl"
      using covering_drop_front [of ys "all_segments sl'" i] wf False a covered that eq last
      by (auto simp: sl_wf_def dest: less_le_trans)
    then show ?thesis using get sl_get_entry_covering [OF wf, of cd i] l new by auto
  qed
qed

text \<open>
  Truncating the prefix of a well-formed storage makes every index before the kept one
  unreadable and keeps the answer for every later index, whatever segments are unlinked; the kept
  index is on disk before any segment is dropped.
\<close>

theorem truncate_prefix_keeps_suffix:
  assumes wf: "sl_wf sl" and new: "sl_first_log_index sl < k"
    and covered: "all_segments sl \<noteq> [] \<longrightarrow> sg_first_index (hd (all_segments sl)) \<le> k"
  shows "\<exists>sl'. sl_truncate_prefix True k sl = (OK0, sl') \<and> sl_meta sl' = Some k \<and> sl_first_log_index sl' = k \<and>
     sl_get_entry cd i sl' = (if k \<le> i then sl_get_entry cd i sl else Inr None)"
proof -
  let ?sl = "sl\<lparr>sl_meta := Some k\<rparr>"
  have al: "all_segments ?sl = all_segments sl" by (simp add: all_segments_def)
  then have wf': "sl_wf ?sl" using wf by (simp add: sl_wf_def)
  have same: "all_segments ?sl = all_segments sl" "sl_wf ?sl" "sl_get_entry cd i ?sl = sl_get_entry cd i sl"
    using sl_get_entry_covering [OF wf, of cd i] sl_get_entry_covering [OF wf', of cd i] al wf' by simp_all
  obtain xs sl' where p: "pop_segments k ?sl = (xs, sl')" "sl_first_log_index sl' = k" "sl_meta sl' = Some k"
    by (rule pop_segments_split [of k ?sl]) simp
  have "sl_truncate_prefix True k sl = (OK0, sl')" using new p(1) by (simp add: sl_truncate_prefix_def save_meta_def)
  then show ?thesis
    using p pop_segments_get [OF same(2) p(1), of cd i] covered new same by simp
qed

lemma rev_dropWhile_filter:
  "sorted_wrt (\<lambda>s t. f s < (f t :: int)) ss \<Longrightarrow>
     rev (dropWhile (\<lambda>s. f s > k) (rev ss)) = filter (\<lambda>s. f s \<le> k) ss"
proof (induction ss rule: rev_induct)
  case (snoc s ss)
  show ?case
  proof (cases "f s > k")
    case False
    then have "filter (\<lambda>t. f t \<le> k) ss = ss" using snoc.prems by (force simp: filter_id_conv sorted_wrt_append)
    with False show ?thesis by simp
  qed (use snoc in \<open>auto simp: sorted_wrt_append\<close>)
qed simp

lemma seg_erase_absent: "first \<notin> sg_first_index ` set ss \<Longrightarrow> seg_erase first ss = ss"
  by (auto simp: seg_erase_def filter_id_conv)

lemma pop_back_shape:
  assumes wf: "sl_wf sl" and ne: "filter (\<lambda>s. sg_first_index s \<le> k) (all_segments sl) \<noteq> []"
  obtains loc sl1 where "pop_segments_from_back k sl = (Some loc, sl1)"
    "all_segments sl1 = filter (\<lambda>s. sg_first_index s \<le> k) (all_segments sl)"
    "sl_last_log_index sl1 = k" "sl_first_log_index sl1 = sl_first_log_index sl"
    "segment_at loc sl1 = Some (last (all_segments sl1))"
    "\<And>s1. sg_first_index s1 = sg_first_index (last (all_segments sl1)) \<Longrightarrow>
       all_segments (put_segment loc s1 sl1) = butlast (all_segments sl1) @ [s1]"
proof -
  have srt: "sorted_wrt (\<lambda>s t. sg_first_index s < sg_first_index t) (all_segments sl)"
    using contiguous_sorted [of "all_segments sl"] wf by (auto simp: sl_wf_def elim: sorted_wrt_mono_rel [rotated])
  have closed: "rev (dropWhile (\<lambda>s. sg_first_index s > k) (rev (sl_segments sl))) = filter (\<lambda>s. sg_first_index s \<le> k) (sl_segments sl)"
    using srt by (intro rev_dropWhile_filter) (simp add: all_segments_def sorted_wrt_append)
  let ?fs = "filter (\<lambda>s. sg_first_index s \<le> k) (sl_segments sl)"
  have put: "map (\<lambda>t. if sg_first_index t = sg_first_index s1 then s1 else t) ?fs = butlast ?fs @ [s1]"
    if fne: "?fs \<noteq> []" and f1: "sg_first_index s1 = sg_first_index (last ?fs)" for s1
  proof -
    have "sorted_wrt (\<lambda>s t. sg_first_index s < sg_first_index t) (butlast ?fs @ [last ?fs])"
      using srt fne by (simp add: all_segments_def sorted_wrt_append sorted_wrt_filter)
    then have "map (\<lambda>t. if sg_first_index t = sg_first_index s1 then s1 else t) (butlast ?fs @ [last ?fs]) = butlast ?fs @ [s1]"
      using f1 by (auto simp: sorted_wrt_append intro!: map_idI)
    then show ?thesis using fne by simp
  qed
  have at: "find (\<lambda>s. sg_first_index s = sg_first_index (last ?fs)) ?fs = Some (last ?fs)" if "?fs \<noteq> []"
    by (rule find_first_index [of "\<lambda>_ _. True", OF _ last_in_set [OF that]])
      (use srt in \<open>simp add: all_segments_def sorted_wrt_append sorted_wrt_filter\<close>)
  show thesis
  proof (cases "\<exists>op. sl_open_segment sl = Some op \<and> sg_first_index op \<le> k")
    case True
    then obtain op where op: "sl_open_segment sl = Some op" "sg_first_index op \<le> k" by blast
    have all: "filter (\<lambda>s. sg_first_index s \<le> k) (all_segments sl) = sl_segments sl @ [op]"
      using op srt by (force simp: all_segments_def filter_id_conv sorted_wrt_append)
    show thesis
      by (rule that [of Loc_open "sl\<lparr>sl_last_log_index := k\<rparr>"])
        (use op all in \<open>simp_all add: pop_segments_from_back_def all_segments_def segment_at_def put_segment_def\<close>)
  next
    case False
    then have fs: "filter (\<lambda>s. sg_first_index s \<le> k) (all_segments sl) = ?fs"
      by (auto simp: all_segments_def split: option.splits)
    then have fne: "?fs \<noteq> []" using ne by simp
    have er: "seg_erase (sg_first_index op) ?fs = ?fs" if "sl_open_segment sl = Some op" for op
      using that srt by (intro seg_erase_absent) (auto simp: all_segments_def sorted_wrt_append)
    let ?sl1 = "sl\<lparr>sl_last_log_index := k, sl_segments := ?fs, sl_open_segment := None\<rparr>"
    have run: "pop_segments_from_back k sl = (Some (Loc_closed (sg_first_index (last ?fs))), ?sl1)"
      using False fne closed er by (cases "sl_open_segment sl") (auto simp: pop_segments_from_back_def Let_def)
    show thesis
      by (rule that [OF run]) (use fs fne at put in \<open>simp_all add: all_segments_def segment_at_def put_segment_def\<close>)
  qed
qed

lemma contiguous_prefix: "contiguous (xs @ ys) \<Longrightarrow> contiguous xs"
proof (induction xs rule: contiguous.induct)
  case (2 s)
  then show ?case by (cases ys) auto
qed auto

lemma contiguous_replace_last:
  "contiguous (xs @ [s]) \<Longrightarrow> sg_first_index s' = sg_first_index s \<Longrightarrow> sg_first_index s' \<le> sg_last_index s' + 1 \<Longrightarrow>
     contiguous (xs @ [s'])"
proof (induction xs rule: contiguous.induct)
  case (3 a b ss)
  then show ?case by simp
qed auto

lemma sorted_filter_split:
  "sorted_wrt (\<lambda>s t. f s < (f t :: int)) ss \<Longrightarrow> \<exists>ys. ss = filter (\<lambda>s. f s \<le> k) ss @ ys \<and> (\<forall>y \<in> set ys. k < f y)"
proof (induction ss)
  case (Cons s ss)
  show ?case
  proof (cases "f s \<le> k")
    case True
    with Cons show ?thesis by auto
  next
    case False
    then have "filter (\<lambda>s. f s \<le> k) (s # ss) = []" using Cons.prems by (auto simp: filter_empty_conv)
    moreover have "\<forall>y \<in> set (s # ss). k < f y" using False Cons.prems by auto
    ultimately show ?thesis by (metis append_Nil)
  qed
qed simp

lemma covering_filter: "i \<le> k \<Longrightarrow> covering i (filter (\<lambda>s. sg_first_index s \<le> k) ss) = covering i ss"
  by (auto simp: covering_def Let_def intro!: arg_cong [where f = last] filter_cong) (metis (no_types, lifting) filter_cong order_trans)+

text \<open>
  C29. truncating the suffix of a well-formed storage makes every index beyond the kept one unreadable
  and keeps every entry up to it, across closed, open and re-opened segments.
\<close>

theorem truncate_suffix_keeps_prefix:
  assumes wf: "sl_wf sl" and k: "sl_first_log_index sl \<le> k" "k \<le> sl_last_log_index sl"
    and ne: "all_segments sl \<noteq> []" and first: "sg_first_index (hd (all_segments sl)) \<le> sl_first_log_index sl"
    and reps: "\<forall>s \<in> set (all_segments sl). (\<exists>M. seg_rep cd s M) \<and> sg_last_index s - sg_first_index s < array_size"
    and io: "io_rename_ok io"
  shows "\<exists>sl'. sl_truncate_suffix io k sl = Inr (OK0, sl') \<and> sl_wf sl' \<and> sl_last_log_index sl' = k \<and>
     (\<forall>i. sl_get_entry cd i sl' = (if i \<le> k then sl_get_entry cd i sl else Inr None))"
proof -
  let ?all = "all_segments sl" and ?fs = "filter (\<lambda>s. sg_first_index s \<le> k) (all_segments sl)"
  let ?s = "last ?fs"
  obtain u where u: "covering k ?all = Some u" "k \<le> sg_last_index u"
    using contiguous_covers [of ?all k] wf k ne first by (auto simp: sl_wf_def)
  then have fne: "?fs \<noteq> []" and us: "u = ?s" by (auto simp: covering_def Let_def split: if_splits)
  have s_in: "?s \<in> set ?all" and s_first: "sg_first_index ?s \<le> k" using last_in_set [OF fne] by auto
  obtain M where M: "seg_rep cd ?s M" and size: "sg_last_index ?s - sg_first_index ?s < array_size"
    using reps s_in by blast
  obtain s1 where s1: "seg_truncate io k ?s = Inr (OK0, s1)"
    "seg_rep cd s1 (\<lambda>j. if sg_first_index ?s + int j \<le> k then M j else None)"
    "sg_first_index s1 = sg_first_index ?s" "sg_last_index s1 = k"
    by (rule seg_truncate_rep [OF M _ size, of k io]) (use s_first io u(2) us in auto)
  obtain loc sl1 where b: "pop_segments_from_back k sl = (Some loc, sl1)" "all_segments sl1 = ?fs"
    "sl_last_log_index sl1 = k" "sl_first_log_index sl1 = sl_first_log_index sl" "segment_at loc sl1 = Some ?s"
    "\<And>t. sg_first_index t = sg_first_index ?s \<Longrightarrow> all_segments (put_segment loc t sl1) = butlast ?fs @ [t]"
    by (rule pop_back_shape [OF wf fne]) simp
  let ?sl = "put_segment loc s1 sl1"
  have run: "sl_truncate_suffix io k sl = Inr (OK0, ?sl)"
    using b s1(1) k(1) by (simp add: sl_truncate_suffix_def)
  have idx: "sl_last_log_index ?sl = k" "sl_first_log_index ?sl = sl_first_log_index sl"
    using b by (simp_all add: put_segment_def split: seg_loc.splits)
  have all': "all_segments ?sl = butlast ?fs @ [s1]" using b(6) s1(3) by simp
  have srt: "sorted_wrt (\<lambda>s t. sg_first_index s < sg_first_index t) ?all"
    using contiguous_sorted [of ?all] wf by (auto simp: sl_wf_def elim: sorted_wrt_mono_rel [rotated])
  then obtain ys where "?all = ?fs @ ys" using sorted_filter_split by blast
  then have "contiguous (butlast ?fs @ [?s])" using wf contiguous_prefix fne by (metis sl_wf_def append_butlast_last_id)
  then have "contiguous (butlast ?fs @ [s1])" by (rule contiguous_replace_last) (use s1 s_first in auto)
  then have wf': "sl_wf ?sl" using all' idx s1(4) by (simp add: sl_wf_def)
  have cov: "(case covering i (butlast ?fs @ [s1]) of None \<Rightarrow> Inl Out_of_range | Some s \<Rightarrow> seg_get cd i s) =
      (case covering i ?all of None \<Rightarrow> Inl Out_of_range | Some s \<Rightarrow> seg_get cd i s)" if i: "i \<le> k" for i
  proof (cases "sg_first_index ?s \<le> i")
    case True
    have "seg_get cd i s1 = seg_get cd i ?s"
      using seg_get_rep [OF M True] seg_get_rep [OF s1(2), of i] True i s1(3,4) size u(2) us by simp
    moreover have "covering i (butlast ?fs @ [s1]) = Some s1" "covering i (butlast ?fs @ [?s]) = Some ?s"
      using True s1(3) by (simp_all add: covering_def Let_def)
    ultimately show ?thesis using covering_filter [OF i, of ?all] fne by simp
  next
    case False
    have "covering i (butlast ?fs @ [s1]) = covering i (butlast ?fs @ [?s])"
      using False s1(3) by (simp add: covering_def Let_def)
    then show ?thesis using covering_filter [OF i, of ?all] fne by simp
  qed
  have "sl_get_entry cd i ?sl = (if i \<le> k then sl_get_entry cd i sl else Inr None)" for i
    using sl_get_entry_covering [OF wf, of cd i] sl_get_entry_covering [OF wf', of cd i] cov [of i] all' idx k(2) by auto
  then show ?thesis using run wf' idx by blast
qed

lemma replay_rep:
  "seg_rep cd sg M \<Longrightarrow> \<forall>e \<in> set es. plain cd (sg_first_index sg) e \<Longrightarrow> \<exists>M'. seg_rep cd (replay cd es sg) M'"
proof (induction es arbitrary: sg M)
  case (Cons e es)
  then have p: "plain cd (sg_first_index sg) e" by simp
  have "seg_rep cd (appended cd e (le_data e) sg) (M(nat (le_index e - sg_first_index sg) \<mapsto> e))"
    by (rule appended_rep [OF Cons.prems(1) plain_storable [OF p]]) (use p in \<open>auto simp: plain_def\<close>)
  from Cons.IH [OF this] Cons.prems(2) show ?case by simp
qed auto

text \<open>A storage with one open segment that received the indexes 1, 3, 2.\<close>

definition demo_entries :: "log_entry list" where
  "demo_entries = [data_entry 1 1 [], data_entry 3 1 [7], data_entry 2 1 [8, 9]]"

definition demo_segment :: segment where
  "demo_segment = replay demo_cd demo_entries (new_segment 1 1)"

definition demo_log :: segment_log where
  "demo_log = (new_segment_log True (Some 1))\<lparr>sl_last_log_index := 3, sl_open_segment := Some demo_segment\<rparr>"

lemma demo_segment_facts:
  "sg_first_index demo_segment = 1" "sg_last_index demo_segment = 3" "\<exists>M. seg_rep demo_cd demo_segment M"
proof -
  show "sg_first_index demo_segment = 1" "sg_last_index demo_segment = 3"
    by (simp_all add: demo_segment_def demo_entries_def data_entry_def new_segment_def)
  show "\<exists>M. seg_rep demo_cd demo_segment M"
    unfolding demo_segment_def
    by (rule replay_rep [OF seg_rep_new])
      (auto simp: demo_entries_def new_segment_def intro!: plain_data_entry simp: fits64_def array_size_def)
qed

lemma demo_log_facts: "sl_wf demo_log" "all_segments demo_log = [demo_segment]"
  "sl_first_log_index demo_log = 1" "sl_last_log_index demo_log = 3"
  using demo_segment_facts by (simp_all add: sl_wf_def all_segments_def demo_log_def new_segment_log_def)

theorem truncate_prefix_keeps_suffix_witness:
  "\<exists>sl'. sl_truncate_prefix True 2 demo_log = (OK0, sl') \<and>
     sl_get_entry demo_cd 3 sl' = sl_get_entry demo_cd 3 demo_log"
  using truncate_prefix_keeps_suffix [OF demo_log_facts(1), of 2 demo_cd 3] demo_log_facts demo_segment_facts by auto

theorem truncate_suffix_keeps_prefix_witness:
  "\<exists>sl'. sl_truncate_suffix io_fine 2 demo_log = Inr (OK0, sl') \<and>
     sl_get_entry demo_cd 2 sl' = sl_get_entry demo_cd 2 demo_log \<and> sl_get_entry demo_cd 3 sl' = Inr None"
proof -
  have "\<exists>sl'. sl_truncate_suffix io_fine 2 demo_log = Inr (OK0, sl') \<and> sl_wf sl' \<and> sl_last_log_index sl' = 2 \<and>
     (\<forall>i. sl_get_entry demo_cd i sl' = (if i \<le> 2 then sl_get_entry demo_cd i demo_log else Inr None))"
    by (rule truncate_suffix_keeps_prefix [OF demo_log_facts(1)])
      (use demo_log_facts demo_segment_facts in \<open>auto simp: array_size_def io_fine_def\<close>)
  then show ?thesis by auto
qed

text \<open>
  A segment that was loaded at start-up is never closed. \<open>load\<close> leaves \<open>_vaild_entries_counter\<close> at 0,
  so when the segment becomes too large, \<open>open_segment\<close> does not see it as filled: it keeps its
  in-progress file while the next in-progress file is created, and the following start-up finds two
  open segments and fails.
\<close>

theorem reloaded_segment_stays_open:
  assumes "sl_open_segment sl = Some op" "sg_valid_entries op = 0" "sg_first_index op \<le> sg_last_index op"
    "sg_is_open op" "sg_bytes op > lf_max_segment_size fl" "sl_segments sl = []"
  shows "\<exists>prev op' sl'. open_segment fl io True sl = (True, sl') \<and> sl_segments sl' = [prev] \<and>
     sl_open_segment sl' = Some op' \<and> sg_is_open prev \<and> sg_is_open op' \<and> sg_first_index prev = sg_first_index op \<and>
     fst (list_segments False (Some [Dir_open (sg_first_index prev) (sg_file prev), Dir_open (sg_first_index op') (sg_file op')])
       (new_segment_log True (Some (sl_first_log_index sl)))) = NEG1"
  using assms
  by (auto simp: open_segment_def prepare_to_close_def is_fullfilled_def new_segment_def list_segments_def
      new_segment_log_def Let_def)

definition reloaded_log :: segment_log where
  "reloaded_log = (new_segment_log True (Some 1))\<lparr>sl_last_log_index := 3, sl_open_segment := Some (demo_segment\<lparr>sg_valid_entries := 0\<rparr>)\<rparr>"

theorem reloaded_segment_stays_open_witness:
  "\<exists>prev op' sl'. open_segment (default_flags\<lparr>lf_max_segment_size := 100\<rparr>) io_fine True reloaded_log = (True, sl') \<and>
     sl_segments sl' = [prev] \<and> sl_open_segment sl' = Some op' \<and> sg_is_open prev \<and> sg_is_open op'"
proof -
  have "sg_is_open demo_segment" "sg_bytes demo_segment = 123"
    by (simp_all add: demo_segment_def demo_entries_def new_segment_def data_entry_def)
  then show ?thesis
    using reloaded_segment_stays_open [of reloaded_log "demo_segment\<lparr>sg_valid_entries := 0\<rparr>" "default_flags\<lparr>lf_max_segment_size := 100\<rparr>" io_fine]
      demo_segment_facts by (auto simp: reloaded_log_def new_segment_log_def)
qed

end
