(* ===== verification/Log_Manager.thy ===== *)
theory Log_Manager
  imports Log_Storage
begin

text \<open>
  \<open>src/cpp/log_manager.h\<close> and \<open>log_manager.cc\<close>: the in-memory tail of the log, the bitmap of received
  entries that out-of-order replication checks dependencies against, and the queue of the disk
  thread. \<open>_logs_in_memory\<close> is a list of optional entries, \<open>None\<close> for a slot that has not arrived.

  The mutex makes each operation one step. The disk thread runs the queued tasks in batches; the
  closures it runs, the waiters that are woken and the errors reported to the state machine caller
  are outputs. System-call outcomes of the storage are inputs (\<open>env\<close>).
\<close>

section \<open>State\<close>

text \<open>Tasks of the disk queue: \<open>StableClosure\<close> with its entries, and its four internal subclasses.\<close>

datatype 'c disk_task =
    Stable_closure 'c int64 "log_entry list"
  | Last_log_id_closure
  | Truncate_prefix_closure int64
  | Truncate_suffix_closure int64 int64
  | Reset_closure int64

text \<open>Effects that leave the log manager.\<close>

datatype ('c, 'w) lm_event =
    Run_closure 'c rc
  | Wake_waiter 'w rc
  | Report_error rc
  | Answer_last_log_id log_id

record ('c, 'w) log_manager =
  lm_storage :: segment_log
  lm_config_manager :: configuration_manager
  lm_wait_map :: "(int64 \<times> 'w) list"
  lm_stopped :: bool
  lm_has_error :: bool
  lm_next_wait_id :: int64
  lm_dependency_look_back :: int64
  lm_MAX_DEPENDENCY :: "1024 word"
  lm_disk_id :: log_id
  lm_applied_id :: log_id
  lm_logs_in_memory :: "log_entry option list"
  lm_first_log_index :: int64
  lm_last_log_index :: int64
  lm_max_log_index :: int64
  lm_dependency_bitmap :: "1024 word"
  lm_last_snapshot_id :: log_id
  lm_disk_queue :: "'c disk_task list"

record env =
  env_flags :: log_flags
  env_codec :: codec
  env_io :: io
  env_create_ok :: bool
  env_save_ok :: bool

definition new_log_manager :: "segment_log \<Rightarrow> configuration_manager \<Rightarrow> ('c, 'w) log_manager" where
  "new_log_manager storage cm =
     \<lparr>lm_storage = storage, lm_config_manager = cm, lm_wait_map = [], lm_stopped = False, lm_has_error = False,
      lm_next_wait_id = 0, lm_dependency_look_back = 0, lm_MAX_DEPENDENCY = 0, lm_disk_id = new_log_id,
      lm_applied_id = new_log_id, lm_logs_in_memory = [], lm_first_log_index = 0, lm_last_log_index = 0,
      lm_max_log_index = 0, lm_dependency_bitmap = 0, lm_last_snapshot_id = new_log_id, lm_disk_queue = []\<rparr>"

text \<open>\<open>init\<close>, after \<open>_log_storage->init\<close> gave \<open>ret\<close> and the storage and history \<open>sl\<close>, \<open>cm\<close>.\<close>

definition lm_init ::
    "(rc \<times> segment_log \<times> configuration_manager) option \<Rightarrow> bool \<Rightarrow> int64 \<Rightarrow> ('c, 'w) log_manager \<Rightarrow>
      (rc \<times> ('c, 'w) log_manager) res" where
  "lm_init storage map_ok look_back lm =
     (case storage of
        None \<Rightarrow> Inr (EINVAL, lm)
      | Some (ret, sl, cm) \<Rightarrow>
          (if \<not> map_ok then Inr (ENOMEM, lm)
           else (let lm1 = lm\<lparr>lm_dependency_look_back := look_back, lm_MAX_DEPENDENCY := mask (nat look_back),
                              lm_storage := sl, lm_config_manager := cm\<rparr>
                 in if ret \<noteq> OK0 then Inr (ret, lm1)
                    else (case sl_get_term (sl_last_log_index sl) sl of
                            Inl f \<Rightarrow> Inl f
                          | Inr term \<Rightarrow>
                              Inr (OK0, lm1\<lparr>lm_first_log_index := sl_first_log_index sl,
                                            lm_last_log_index := sl_last_log_index sl,
                                            lm_max_log_index := storage_max_log_index sl,
                                            lm_disk_id := LogId (sl_last_log_index sl) term\<rparr>)))))"

section \<open>Reading\<close>

text \<open>\<open>get_entry_from_memory\<close> dereferences the last slot.\<close>

definition get_entry_from_memory :: "int64 \<Rightarrow> ('c, 'w) log_manager \<Rightarrow> log_entry option res" where
  "get_entry_from_memory index lm =
     (let mem = lm_logs_in_memory lm
      in if mem = [] then Inr None
         else (case last mem of
                 None \<Rightarrow> Inl Null_deref
               | Some e \<Rightarrow>
                   (let first_index = le_index e - int (length mem) + 1
                    in if first_index \<le> index \<and> index \<le> le_index e
                       then Inr (mem ! nat (index - first_index)) else Inr None)))"

definition unsafe_get_term :: "int64 \<Rightarrow> ('c, 'w) log_manager \<Rightarrow> int64 res" where
  "unsafe_get_term index lm =
     (if index = 0 then Inr 0
      else if index > lm_max_log_index lm \<or> index < lm_first_log_index lm then Inr 0
      else (case get_entry_from_memory index lm of
              Inl f \<Rightarrow> Inl f
            | Inr (Some e) \<Rightarrow> Inr (le_term e)
            | Inr None \<Rightarrow> sl_get_term index (lm_storage lm)))"

text \<open>\<open>get_term\<close> is the same with its own locking.\<close>

definition lm_get_term :: "int64 \<Rightarrow> ('c, 'w) log_manager \<Rightarrow> int64 res" where
  "lm_get_term index lm = unsafe_get_term index lm"

definition lm_get_entry :: "codec \<Rightarrow> int64 \<Rightarrow> ('c, 'w) log_manager \<Rightarrow>
    (log_entry option \<times> ('c, 'w) lm_event list \<times> ('c, 'w) log_manager) res" where
  "lm_get_entry cd index lm =
     (if index > lm_max_log_index lm \<or> index < lm_first_log_index lm then Inr (None, [], lm)
      else (case get_entry_from_memory index lm of
              Inl f \<Rightarrow> Inl f
            | Inr (Some e) \<Rightarrow> Inr (Some e, [], lm)
            | Inr None \<Rightarrow>
                (case sl_get_entry cd index (lm_storage lm) of
                   Inl f \<Rightarrow> Inl f
                 | Inr (Some e) \<Rightarrow> Inr (Some e, [], lm)
                 | Inr None \<Rightarrow> Inr (None, [Report_error EIO], lm\<lparr>lm_has_error := True\<rparr>))))"

definition lm_last_log_id :: "('c, 'w) log_manager \<Rightarrow> log_id res" where
  "lm_last_log_id lm =
     (if lm_last_log_index lm \<ge> lm_first_log_index lm
      then (case unsafe_get_term (lm_last_log_index lm) lm of
              Inl f \<Rightarrow> Inl f
            | Inr term \<Rightarrow> Inr (LogId (lm_last_log_index lm) term))
      else Inr (lm_last_snapshot_id lm))"

definition check_and_set_configuration ::
    "configuration_entry \<Rightarrow> ('c, 'w) log_manager \<Rightarrow> bool \<times> configuration_entry" where
  "check_and_set_configuration current lm =
     (let last_conf = last_configuration (lm_config_manager lm)
      in if ce_id current \<noteq> ce_id last_conf then (True, last_conf) else (False, current))"

definition lm_get_configuration :: "int64 \<Rightarrow> ('c, 'w) log_manager \<Rightarrow> configuration_entry" where
  "lm_get_configuration index lm = cm_get index (lm_config_manager lm)"

definition lm_get_status :: "('c, 'w) log_manager \<Rightarrow> int64 \<times> int64 \<times> int64 \<times> int64" where
  "lm_get_status lm =
     (sl_first_log_index (lm_storage lm), sl_last_log_index (lm_storage lm),
      id_index (lm_disk_id lm), id_index (lm_applied_id lm))"

definition check_consistency :: "('c, 'w) log_manager \<Rightarrow> rc" where
  "check_consistency lm =
     (if lm_last_snapshot_id lm = LogId 0 0
      then (if lm_first_log_index lm = 1 then OK0 else EIO)
      else if id_index (lm_last_snapshot_id lm) \<ge> lm_first_log_index lm - 1 \<and>
              id_index (lm_last_snapshot_id lm) \<le> lm_last_log_index lm
      then OK0 else EIO)"

section \<open>Waiters\<close>

definition wakeup_all_waiter :: "('c, 'w) log_manager \<Rightarrow> ('c, 'w) lm_event list \<times> ('c, 'w) log_manager" where
  "wakeup_all_waiter lm =
     (if lm_wait_map lm = [] then ([], lm)
      else (map (\<lambda>(_, w). Wake_waiter w (if lm_stopped lm then ESTOP else OK0)) (lm_wait_map lm),
            lm\<lparr>lm_wait_map := []\<rparr>))"

definition notify_on_new_log :: "int64 \<Rightarrow> 'w \<Rightarrow> ('c, 'w) log_manager \<Rightarrow>
    int64 \<times> ('c, 'w) lm_event list \<times> ('c, 'w) log_manager" where
  "notify_on_new_log expected_last_log_index wm lm =
     (if expected_last_log_index \<noteq> lm_last_log_index lm \<or> lm_stopped lm
      then (0, [Wake_waiter wm (if lm_stopped lm then ESTOP else OK0)], lm)
      else (let next = (if lm_next_wait_id lm = 0 then 1 else lm_next_wait_id lm)
            in (next, [], lm\<lparr>lm_next_wait_id := next + 1,
                             lm_wait_map := (next, wm) # filter (\<lambda>(i, _). i \<noteq> next) (lm_wait_map lm)\<rparr>)))"

definition remove_waiter :: "int64 \<Rightarrow> ('c, 'w) log_manager \<Rightarrow> rc \<times> ('c, 'w) log_manager" where
  "remove_waiter wid lm =
     (if wid \<in> fst ` set (lm_wait_map lm)
      then (OK0, lm\<lparr>lm_wait_map := filter (\<lambda>(i, _). i \<noteq> wid) (lm_wait_map lm)\<rparr>)
      else (NEG1, lm))"

definition lm_shutdown :: "('c, 'w) log_manager \<Rightarrow> ('c, 'w) lm_event list \<times> ('c, 'w) log_manager" where
  "lm_shutdown lm = wakeup_all_waiter (lm\<lparr>lm_stopped := True\<rparr>)"

section \<open>Truncation\<close>

definition enqueue :: "'c disk_task \<Rightarrow> ('c, 'w) log_manager \<Rightarrow> ('c, 'w) log_manager" where
  "enqueue t lm = lm\<lparr>lm_disk_queue := lm_disk_queue lm @ [t]\<rparr>"

text \<open>The loops of \<open>truncate_prefix\<close> and \<open>unsafe_truncate_suffix\<close> dereference every slot they look at.\<close>

fun pop_memory_front :: "int64 \<Rightarrow> log_entry option list \<Rightarrow> log_entry option list res" where
  "pop_memory_front k [] = Inr []"
| "pop_memory_front k (None # mem) = Inl Null_deref"
| "pop_memory_front k (Some e # mem) = (if le_index e < k then pop_memory_front k mem else Inr (Some e # mem))"

fun pop_memory_back :: "int64 \<Rightarrow> log_entry option list \<Rightarrow> log_entry option list res" where
  "pop_memory_back k [] = Inr []"
| "pop_memory_back k (None # mem) = Inl Null_deref"
| "pop_memory_back k (Some e # mem) = (if le_index e > k then pop_memory_back k mem else Inr (Some e # mem))"

definition lm_truncate_prefix :: "int64 \<Rightarrow> ('c, 'w) log_manager \<Rightarrow> ('c, 'w) log_manager res" where
  "lm_truncate_prefix first_index_kept lm =
     (case pop_memory_front first_index_kept (lm_logs_in_memory lm) of
        Inl f \<Rightarrow> Inl f
      | Inr mem \<Rightarrow>
          Inr (enqueue (Truncate_prefix_closure first_index_kept)
                (lm\<lparr>lm_logs_in_memory := mem, lm_first_log_index := first_index_kept,
                    lm_last_log_index := (if first_index_kept > lm_last_log_index lm then first_index_kept - 1
                                          else lm_last_log_index lm),
                    lm_config_manager := cm_truncate_prefix first_index_kept (lm_config_manager lm)\<rparr>)))"

definition lm_reset :: "int64 \<Rightarrow> ('c, 'w) log_manager \<Rightarrow> ('c, 'w) log_manager" where
  "lm_reset next_log_index lm =
     enqueue (Reset_closure next_log_index)
       (lm\<lparr>lm_logs_in_memory := [], lm_first_log_index := next_log_index, lm_last_log_index := next_log_index - 1,
           lm_config_manager := cm_truncate_suffix (next_log_index - 1)
                                  (cm_truncate_prefix next_log_index (lm_config_manager lm))\<rparr>)"

text \<open>
  \<open>unsafe_truncate_suffix\<close>. It walks the deque from its back (the reversed list) and leaves
  \<open>_max_log_index\<close> and \<open>_dependency_bitmap\<close> as they are.
\<close>

definition unsafe_truncate_suffix :: "int64 \<Rightarrow> ('c, 'w) log_manager \<Rightarrow> ('c, 'w) log_manager res" where
  "unsafe_truncate_suffix last_index_kept lm =
     (if last_index_kept < id_index (lm_applied_id lm) then Inr lm
      else (case pop_memory_back last_index_kept (rev (lm_logs_in_memory lm)) of
              Inl f \<Rightarrow> Inl f
            | Inr rmem \<Rightarrow>
                (let lm1 = lm\<lparr>lm_logs_in_memory := rev rmem, lm_last_log_index := last_index_kept\<rparr>
                 in case unsafe_get_term last_index_kept lm1 of
                      Inl f \<Rightarrow> Inl f
                    | Inr last_term_kept \<Rightarrow>
                        Inr (enqueue (Truncate_suffix_closure last_index_kept last_term_kept)
                              (lm1\<lparr>lm_config_manager := cm_truncate_suffix last_index_kept (lm_config_manager lm1)\<rparr>)))))"

section \<open>Appending\<close>

text \<open>The fast path: push every entry, one new bit each.\<close>

definition push_received :: "log_entry \<Rightarrow> ('c, 'w) log_manager \<Rightarrow> ('c, 'w) log_manager" where
  "push_received e lm =
     lm\<lparr>lm_dependency_bitmap := set_bit 0 (push_bit 1 (lm_dependency_bitmap lm)),
        lm_logs_in_memory := lm_logs_in_memory lm @ [Some e], lm_max_log_index := lm_max_log_index lm + 1\<rparr>"

definition push_missing :: "('c, 'w) log_manager \<Rightarrow> ('c, 'w) log_manager" where
  "push_missing lm =
     lm\<lparr>lm_dependency_bitmap := push_bit 1 (lm_dependency_bitmap lm),
        lm_logs_in_memory := lm_logs_in_memory lm @ [None], lm_max_log_index := lm_max_log_index lm + 1\<rparr>"

text \<open>The loop that extends the deque to the last entry, for \<open>n\<close> more slots.\<close>

fun extend_slots :: "nat \<Rightarrow> log_entry list \<Rightarrow> ('c, 'w) log_manager \<Rightarrow> ('c, 'w) log_manager res" where
  "extend_slots 0 it lm = Inr lm"
| "extend_slots (Suc n) it lm =
     (case it of
        [] \<Rightarrow> Inl Out_of_range
      | e # es \<Rightarrow>
          (if le_index e = lm_max_log_index lm + 1 then extend_slots n es (push_received e lm)
           else extend_slots n it (push_missing lm)))"

text \<open>The search for the first conflicting entry; gives the entries before it and the rest.\<close>

fun split_conflict :: "bool \<Rightarrow> log_entry list \<Rightarrow> ('c, 'w) log_manager \<Rightarrow> (log_entry list \<times> log_entry list) res" where
  "split_conflict ooRep [] lm = Inr ([], [])"
| "split_conflict ooRep (e # es) lm =
     (case unsafe_get_term (le_index e) lm of
        Inl f \<Rightarrow> Inl f
      | Inr t \<Rightarrow>
          (if (\<not> ooRep \<and> t \<noteq> le_term e) \<or> (ooRep \<and> t \<noteq> 0 \<and> t \<noteq> le_term e) then Inr ([], e # es)
           else (case split_conflict ooRep es lm of
                   Inl f \<Rightarrow> Inl f
                 | Inr (pre, post) \<Rightarrow> Inr (e # pre, post))))"

fun assign_indexes :: "int64 \<Rightarrow> log_entry list \<Rightarrow> log_entry list" where
  "assign_indexes i [] = []"
| "assign_indexes i (e # es) = e\<lparr>le_id := LogId (i + 1) (le_term e)\<rparr> # assign_indexes (i + 1) es"

text \<open>
  \<open>check_and_resolve_conflict\<close> for a non-empty vector: return code, the entries that remain, the status
  with which \<open>done\<close> is run when the guard is not released, and the new state.
\<close>

definition check_and_resolve_conflict ::
    "log_entry list \<Rightarrow> bool \<Rightarrow> ('c, 'w) log_manager \<Rightarrow>
      (rc \<times> log_entry list \<times> rc option \<times> ('c, 'w) log_manager) res" where
  "check_and_resolve_conflict es ooRep lm =
     (let front = hd es; back = last es
      in if le_index front = 0
         then Inr (OK0, assign_indexes (lm_last_log_index lm) es, None,
                   lm\<lparr>lm_last_log_index := lm_last_log_index lm + int (length es)\<rparr>)
         else if \<not> ooRep \<and> le_index front > lm_last_log_index lm + 1 then Inr (NEG1, es, Some EINVAL, lm)
         else if le_index back \<le> id_index (lm_applied_id lm) then Inr (POS1, es, Some OK0, lm)
         else if le_index front = lm_max_log_index lm + 1
         then (let lm1 = fold push_received es lm
               in Inr (OK0, es, None, lm1\<lparr>lm_max_log_index := max (lm_max_log_index lm1) (le_index back)\<rparr>))
         else if le_index back > lm_max_log_index lm
         then (case extend_slots (nat (le_index back - lm_max_log_index lm)) es lm of
                 Inl f \<Rightarrow> Inl f
               | Inr lm1 \<Rightarrow> Inr (OK0, es, None, lm1))
         else (case split_conflict ooRep es lm of
                 Inl f \<Rightarrow> Inl f
               | Inr (pre, post) \<Rightarrow>
                   (case (if post \<noteq> [] \<and> le_index (hd post) \<le> lm_last_log_index lm
                          then unsafe_truncate_suffix (le_index (hd post) - 1) lm else Inr lm) of
                      Inl f \<Rightarrow> Inl f
                    | Inr lm1 \<Rightarrow>
                        (let es1 = (if \<not> ooRep \<or> post \<noteq> [] then post else es)
                         in Inr (OK0, es1, None,
                                 (if es1 \<noteq> [] then lm1\<lparr>lm_max_log_index := max (lm_max_log_index lm1) (le_index (last es1))\<rparr>
                                  else lm1))))))"

text \<open>Writing the entries into their slots; \<open>bitset::set\<close> throws beyond 1024.\<close>

fun place_entries :: "int64 \<Rightarrow> log_entry list \<Rightarrow> ('c, 'w) log_manager \<Rightarrow> ('c, 'w) log_manager res" where
  "place_entries first [] lm = Inr lm"
| "place_entries first (e # es) lm =
     (case put_index (lm_logs_in_memory lm) (le_index e - first) (Some e) of
        Inl f \<Rightarrow> Inl f
      | Inr mem \<Rightarrow>
          (let pos = lm_max_log_index lm - le_index e
           in if pos < 0 \<or> pos \<ge> 1024 then Inl Out_of_range
              else place_entries first es
                     (lm\<lparr>lm_logs_in_memory := mem, lm_dependency_bitmap := set_bit (nat pos) (lm_dependency_bitmap lm)\<rparr>)))"

text \<open>\<open>while (_last_log_index < _max_log_index && slot of the next index is filled) _last_log_index++\<close>.\<close>

fun advance_last :: "nat \<Rightarrow> int64 \<Rightarrow> ('c, 'w) log_manager \<Rightarrow> ('c, 'w) log_manager res" where
  "advance_last 0 first lm = Inr lm"
| "advance_last (Suc n) first lm =
     (case at_index (lm_logs_in_memory lm) (lm_last_log_index lm - first + 1) of
        Inl f \<Rightarrow> Inl f
      | Inr None \<Rightarrow> Inr lm
      | Inr (Some _) \<Rightarrow> advance_last n first (lm\<lparr>lm_last_log_index := lm_last_log_index lm + 1\<rparr>))"

fun add_configurations :: "log_entry list \<Rightarrow> configuration_manager \<Rightarrow> configuration_manager res" where
  "add_configurations [] cm = Inr cm"
| "add_configurations (e # es) cm =
     (if le_type e = ENTRY_TYPE_CONFIGURATION
      then (case configuration_entry_of e of Inl f \<Rightarrow> Inl f | Inr ce \<Rightarrow> add_configurations es (snd (cm_add ce cm)))
      else add_configurations es cm)"

definition fill_and_place :: "log_entry list \<Rightarrow> ('c, 'w) log_manager \<Rightarrow> ('c, 'w) log_manager res" where
  "fill_and_place es lm =
     (let lm1 = (push_missing ^^ nat (le_index (last es) - lm_max_log_index lm)) lm;
          first = lm_max_log_index lm1 - int (length (lm_logs_in_memory lm1)) + 1
      in case place_entries first es lm1 of
           Inl f \<Rightarrow> Inl f
         | Inr lm2 \<Rightarrow> advance_last (nat (lm_max_log_index lm2 - lm_last_log_index lm2)) first lm2)"

definition lm_append_entries ::
    "log_entry list \<Rightarrow> 'c \<Rightarrow> bool \<Rightarrow> ('c, 'w) log_manager \<Rightarrow>
      (('c, 'w) lm_event list \<times> ('c, 'w) log_manager) res" where
  "lm_append_entries es done_closure ooRep lm =
     (if lm_has_error lm then Inr ([Run_closure done_closure EIO], lm)
      else (case (if es = [] then Inr (OK0, [], None, lm) else check_and_resolve_conflict es ooRep lm) of
              Inl f \<Rightarrow> Inl f
            | Inr (ret, es1, run, lm1) \<Rightarrow>
                (if ret \<noteq> OK0
                 then Inr ((case run of None \<Rightarrow> [] | Some st \<Rightarrow> [Run_closure done_closure st]), lm1)
                 else (case add_configurations es1 (lm_config_manager lm1) of
                         Inl f \<Rightarrow> Inl f
                       | Inr cm \<Rightarrow>
                           (let lm2 = lm1\<lparr>lm_config_manager := cm\<rparr>
                            in case (if es1 = [] then Inr lm2 else fill_and_place es1 lm2) of
                                 Inl f \<Rightarrow> Inl f
                               | Inr lm3 \<Rightarrow>
                                   Inr (wakeup_all_waiter
                                         (enqueue (Stable_closure done_closure (if es1 = [] then 0 else le_index (hd es1)) es1) lm3)))))))"

section \<open>Dependencies\<close>

text \<open>\<open>std::bitset<1024> b(int64)\<close>: the 64-bit pattern, zero-extended.\<close>

definition bitset_of_int64 :: "int64 \<Rightarrow> 1024 word" where
  "bitset_of_int64 d = ucast (word_of_int d :: 64 word)"

definition lm_check_dependency :: "int64 \<Rightarrow> int64 \<Rightarrow> ('c, 'w) log_manager \<Rightarrow> bool" where
  "lm_check_dependency this_log_index dependency lm =
     (if dependency = 0 then True
      else (let d = bitset_of_int64 dependency
            in if this_log_index > lm_max_log_index lm
               then push_bit (nat (this_log_index - lm_max_log_index lm)) (lm_dependency_bitmap lm) AND d = d
               else if lm_max_log_index lm - this_log_index + lm_dependency_look_back lm \<ge> 1024 then True
               else drop_bit (nat (lm_max_log_index lm - this_log_index)) (lm_dependency_bitmap lm) AND d = d))"

section \<open>The disk thread\<close>

text \<open>\<open>clear_memory_logs\<close>: batches of 256, until a batch is not full.\<close>

fun clear_batch :: "nat \<Rightarrow> log_id \<Rightarrow> log_entry option list \<Rightarrow> nat \<times> log_entry option list" where
  "clear_batch n i [] = (0, [])"
| "clear_batch 0 i mem = (0, mem)"
| "clear_batch (Suc n) i (None # mem) = (0, None # mem)"
| "clear_batch (Suc n) i (Some e # mem) =
     (if le_id e > i then (0, Some e # mem)
      else (let (k, rest) = clear_batch n i mem in (Suc k, rest)))"

lemma clear_batch_length: "clear_batch n i mem = (k, rest) \<Longrightarrow> length mem = k + length rest \<and> k \<le> n"
  by (induction n i mem arbitrary: k rest rule: clear_batch.induct) (auto split: if_splits prod.splits)

function clear_memory_loop :: "log_id \<Rightarrow> log_entry option list \<Rightarrow> log_entry option list" where
  "clear_memory_loop i mem =
     (let (k, rest) = clear_batch 256 i mem in if k = 256 then clear_memory_loop i rest else rest)"
  by pat_completeness auto
termination
  by (relation "measure (\<lambda>(i, mem). length mem)") (auto dest!: clear_batch_length [OF sym])

declare clear_memory_loop.simps [simp del]

definition clear_memory_logs :: "log_id \<Rightarrow> ('c, 'w) log_manager \<Rightarrow> ('c, 'w) log_manager" where
  "clear_memory_logs i lm = lm\<lparr>lm_logs_in_memory := clear_memory_loop i (lm_logs_in_memory lm)\<rparr>"

definition set_disk_id :: "log_id \<Rightarrow> ('c, 'w) log_manager \<Rightarrow> ('c, 'w) log_manager" where
  "set_disk_id disk_id lm =
     (if disk_id < lm_disk_id lm then lm
      else clear_memory_logs (min disk_id (lm_applied_id lm)) (lm\<lparr>lm_disk_id := disk_id\<rparr>))"

definition set_applied_id :: "log_id \<Rightarrow> ('c, 'w) log_manager \<Rightarrow> ('c, 'w) log_manager" where
  "set_applied_id applied_id lm =
     (if applied_id < lm_applied_id lm then lm
      else clear_memory_logs (min (lm_disk_id lm) applied_id) (lm\<lparr>lm_applied_id := applied_id\<rparr>))"

definition append_to_storage ::
    "env \<Rightarrow> log_entry list \<Rightarrow> log_id \<Rightarrow> ('c, 'w) log_manager \<Rightarrow>
      (('c, 'w) lm_event list \<times> log_id \<times> ('c, 'w) log_manager) res" where
  "append_to_storage env to_append last_id lm =
     (if lm_has_error lm then Inr ([], last_id, lm)
      else (case sl_append_entries (env_flags env) (env_codec env) (env_io env) (env_create_ok env) to_append (lm_storage lm) of
              Inl f \<Rightarrow> Inl f
            | Inr (nappent, sl) \<Rightarrow>
                (let failed = (nappent \<noteq> length to_append)
                 in Inr (if failed then [Report_error EIO] else [],
                         if nappent > 0 then le_id (to_append ! (nappent - 1)) else last_id,
                         lm\<lparr>lm_storage := sl, lm_has_error := failed\<rparr>))))"

text \<open>\<open>AppendBatcher\<close>: the closures collected so far and their entries.\<close>

record 'c append_batcher =
  ab_storage :: "'c list"
  ab_buffer_size :: nat
  ab_to_append :: "log_entry list"

definition new_append_batcher :: "'c append_batcher" where
  "new_append_batcher = \<lparr>ab_storage = [], ab_buffer_size = 0, ab_to_append = []\<rparr>"

definition ab_flush ::
    "env \<Rightarrow> 'c append_batcher \<Rightarrow> log_id \<Rightarrow> ('c, 'w) log_manager \<Rightarrow>
      (('c, 'w) lm_event list \<times> 'c append_batcher \<times> log_id \<times> ('c, 'w) log_manager) res" where
  "ab_flush env ab last_id lm =
     (if ab_storage ab = [] then Inr ([], new_append_batcher\<lparr>ab_to_append := ab_to_append ab\<rparr>, last_id, lm)
      else (case append_to_storage env (ab_to_append ab) last_id lm of
              Inl f \<Rightarrow> Inl f
            | Inr (evs, last_id1, lm1) \<Rightarrow>
                Inr (evs @ map (\<lambda>c. Run_closure c (if lm_has_error lm1 then EIO else OK0)) (ab_storage ab),
                     new_append_batcher, last_id1, lm1)))"

definition max_append_buffer_size :: nat where
  "max_append_buffer_size = 262144"

definition ab_append ::
    "env \<Rightarrow> 'c \<Rightarrow> log_entry list \<Rightarrow> 'c append_batcher \<Rightarrow> log_id \<Rightarrow> ('c, 'w) log_manager \<Rightarrow>
      (('c, 'w) lm_event list \<times> 'c append_batcher \<times> log_id \<times> ('c, 'w) log_manager) res" where
  "ab_append env c es ab last_id lm =
     (case (if length (ab_storage ab) = 256 \<or> ab_buffer_size ab \<ge> max_append_buffer_size
            then ab_flush env ab last_id lm else Inr ([], ab, last_id, lm)) of
        Inl f \<Rightarrow> Inl f
      | Inr (evs, ab1, last_id1, lm1) \<Rightarrow>
          Inr (evs, ab1\<lparr>ab_storage := ab_storage ab1 @ [c], ab_to_append := ab_to_append ab1 @ es,
                        ab_buffer_size := ab_buffer_size ab1 + sum_list (map (\<lambda>e. length (le_data e)) es)\<rparr>, last_id1, lm1))"

text \<open>A task that is not an append: run on the storage after a flush.\<close>

definition disk_control ::
    "env \<Rightarrow> 'c disk_task \<Rightarrow> log_id \<Rightarrow> ('c, 'w) log_manager \<Rightarrow>
      (('c, 'w) lm_event list \<times> log_id \<times> ('c, 'w) log_manager) res" where
  "disk_control env t last_id lm =
     (let fail = (\<lambda>ret l. if ret = OK0 then ([], l) else ([Report_error ret], l\<lparr>lm_has_error := True\<rparr>))
      in case t of
           Stable_closure c _ _ \<Rightarrow> Inr ([Run_closure c OK0], last_id, lm)
         | Last_log_id_closure \<Rightarrow> Inr ([Answer_last_log_id last_id], last_id, lm)
         | Truncate_prefix_closure k \<Rightarrow>
             (let (ret, sl) = sl_truncate_prefix (env_save_ok env) k (lm_storage lm);
                  (evs, lm1) = fail ret (lm\<lparr>lm_storage := sl\<rparr>)
              in Inr (evs, last_id, lm1))
         | Truncate_suffix_closure k term \<Rightarrow>
             (case sl_truncate_suffix (env_io env) k (lm_storage lm) of
                Inl f \<Rightarrow> Inl f
              | Inr (ret, sl) \<Rightarrow>
                  (let (evs, lm1) = fail ret (lm\<lparr>lm_storage := sl\<rparr>)
                   in Inr (evs, if ret = OK0 then LogId k term else last_id, lm1)))
         | Reset_closure k \<Rightarrow>
             (let (ret, sl) = sl_reset (env_save_ok env) k (lm_storage lm);
                  (evs, lm1) = fail ret (lm\<lparr>lm_storage := sl\<rparr>)
              in Inr (evs, last_id, lm1)))"

fun disk_loop ::
    "env \<Rightarrow> 'c disk_task list \<Rightarrow> 'c append_batcher \<Rightarrow> log_id \<Rightarrow> ('c, 'w) lm_event list \<Rightarrow> ('c, 'w) log_manager \<Rightarrow>
      (('c, 'w) lm_event list \<times> log_id \<times> ('c, 'w) log_manager) res" where
  "disk_loop env [] ab last_id evs lm =
     (case ab_flush env ab last_id lm of
        Inl f \<Rightarrow> Inl f
      | Inr (evs1, _, last_id1, lm1) \<Rightarrow> Inr (evs @ evs1, last_id1, lm1))"
| "disk_loop env (t # ts) ab last_id evs lm =
     (case t of
        Stable_closure c i (e # es) \<Rightarrow>
          (case ab_append env c (e # es) ab last_id lm of
             Inl f \<Rightarrow> Inl f
           | Inr (evs1, ab1, last_id1, lm1) \<Rightarrow> disk_loop env ts ab1 last_id1 (evs @ evs1) lm1)
      | _ \<Rightarrow>
          (case ab_flush env ab last_id lm of
             Inl f \<Rightarrow> Inl f
           | Inr (evs1, ab1, last_id1, lm1) \<Rightarrow>
               (case disk_control env t last_id1 lm1 of
                  Inl f \<Rightarrow> Inl f
                | Inr (evs2, last_id2, lm2) \<Rightarrow> disk_loop env ts ab1 last_id2 (evs @ evs1 @ evs2) lm2)))"

text \<open>One execution of \<open>disk_thread\<close> over everything that is queued.\<close>

definition disk_thread :: "env \<Rightarrow> ('c, 'w) log_manager \<Rightarrow> (('c, 'w) lm_event list \<times> ('c, 'w) log_manager) res" where
  "disk_thread env lm =
     (case disk_loop env (lm_disk_queue lm) new_append_batcher (lm_disk_id lm) [] (lm\<lparr>lm_disk_queue := []\<rparr>) of
        Inl f \<Rightarrow> Inl f
      | Inr (evs, last_id, lm1) \<Rightarrow> Inr (evs, set_disk_id last_id lm1))"

section \<open>The log tail as a map of received entries\<close>

text \<open>
  \<open>tail_rep E b lm\<close>: the deque holds exactly the entries of \<open>E\<close> at the indexes from \<open>b\<close> to
  \<open>_max_log_index\<close>, nothing beyond was received, and bit \<open>j\<close> of the bitmap says whether the entry
  \<open>_max_log_index - j\<close> was received.
\<close>

type_synonym received = "int64 \<rightharpoonup> log_entry"

definition tail_rep :: "received \<Rightarrow> int64 \<Rightarrow> ('c, 'w) log_manager \<Rightarrow> bool" where
  "tail_rep E b lm \<longleftrightarrow>
     lm_logs_in_memory lm = map E [b..lm_max_log_index lm] \<and> b \<le> lm_max_log_index lm + 1 \<and>
     (\<forall>i e. E i = Some e \<longrightarrow> i \<le> lm_max_log_index lm \<and> i = le_index e) \<and>
     (\<forall>j < 1024. bit (lm_dependency_bitmap lm) j \<longleftrightarrow> E (lm_max_log_index lm - int j) \<noteq> None)"

definition last_rep :: "received \<Rightarrow> int64 \<Rightarrow> ('c, 'w) log_manager \<Rightarrow> bool" where
  "last_rep E b lm \<longleftrightarrow>
     b - 1 \<le> lm_last_log_index lm \<and> lm_last_log_index lm \<le> lm_max_log_index lm \<and>
     (\<forall>i. b \<le> i \<and> i \<le> lm_last_log_index lm \<longrightarrow> E i \<noteq> None) \<and>
     E (lm_last_log_index lm + 1) = None"

definition put_all :: "log_entry list \<Rightarrow> received \<Rightarrow> received" where
  "put_all es E = fold (\<lambda>e F. F(le_index e \<mapsto> e)) es E"

lemma put_all_simps [simp]: "put_all [] E = E" "put_all (e # es) E = put_all es (E(le_index e \<mapsto> e))"
  by (simp_all add: put_all_def)

lemma put_all_None: "put_all es E i = None \<longleftrightarrow> E i = None \<and> i \<notin> le_index ` set es"
  by (induction es arbitrary: E) auto

lemma put_all_in: "distinct (map le_index es) \<Longrightarrow> e \<in> set es \<Longrightarrow> put_all es E (le_index e) = Some e"
proof (induction es arbitrary: E)
  case (Cons a es)
  have keep: "put_all es F i = F i" if "i \<notin> le_index ` set es" for F i
    using that by (induction es arbitrary: F) auto
  show ?case using Cons by (auto simp: keep)
qed simp

lemma upto_snoc: "b \<le> m + 1 \<Longrightarrow> [b..m + 1] = [b..m] @ [m + 1]"
  by (simp add: upto_rec2)

lemma bit_push1: "bit (w * 2 :: 1024 word) j \<longleftrightarrow> 0 < j \<and> j < 1024 \<and> bit w (j - 1)"
  unfolding mult.commute [of w] by (auto simp: bit_double_iff)

lemma bit_set_bit1024: "bit (set_bit n (w :: 1024 word)) j \<longleftrightarrow> (j = n \<and> j < 1024) \<or> bit w j"
  unfolding bit_set_bit_iff possible_bit_word by (simp, blast)

lemma shift_index: "0 < j \<Longrightarrow> m + 1 - int j = m - int (j - 1)"
  by simp

lemma tail_rep_bit:
  "tail_rep E b lm \<Longrightarrow> j < 1024 \<Longrightarrow> bit (lm_dependency_bitmap lm) j \<longleftrightarrow> E (lm_max_log_index lm - int j) \<noteq> None"
  unfolding tail_rep_def by blast

lemma tail_rep_mem: "tail_rep E b lm \<Longrightarrow> lm_logs_in_memory lm = map E [b..lm_max_log_index lm]"
  unfolding tail_rep_def by blast

lemma tail_rep_le: "tail_rep E b lm \<Longrightarrow> b \<le> lm_max_log_index lm + 1"
  unfolding tail_rep_def by blast

lemma tail_rep_bound: "tail_rep E b lm \<Longrightarrow> E i = Some e \<Longrightarrow> i \<le> lm_max_log_index lm \<and> le_index e = i"
  unfolding tail_rep_def by blast

lemma tail_rep_beyond: "tail_rep E b lm \<Longrightarrow> lm_max_log_index lm < i \<Longrightarrow> E i = None"
  using tail_rep_bound [of E b lm i] by (cases "E i") auto

lemma tail_rep_cong:
  "tail_rep E b lm \<Longrightarrow> lm_logs_in_memory lm' = lm_logs_in_memory lm \<Longrightarrow> lm_max_log_index lm' = lm_max_log_index lm \<Longrightarrow>
     lm_dependency_bitmap lm' = lm_dependency_bitmap lm \<Longrightarrow> tail_rep E b lm'"
  unfolding tail_rep_def by simp

lemma tail_rep_push_received:
  assumes rep: "tail_rep E b lm" and e: "le_index e = lm_max_log_index lm + 1"
  shows "tail_rep (E(le_index e \<mapsto> e)) b (push_received e lm)"
proof -
  let ?m = "lm_max_log_index lm"
  let ?E = "E(?m + 1 \<mapsto> e)" and ?bm = "lm_dependency_bitmap lm"
  have f: "lm_logs_in_memory (push_received e lm) = lm_logs_in_memory lm @ [Some e]"
    "lm_max_log_index (push_received e lm) = ?m + 1" "lm_dependency_bitmap (push_received e lm) = set_bit 0 (?bm * 2)"
    by (simp_all add: push_received_def)
  note mem = tail_rep_mem [OF rep] and b = tail_rep_le [OF rep]
  show ?thesis
    unfolding tail_rep_def f e
  proof (intro conjI allI impI)
    show "lm_logs_in_memory lm @ [Some e] = map ?E [b..?m + 1]" using mem b by (simp add: upto_snoc)
    show "b \<le> ?m + 1 + 1" using b by simp
  next
    fix i d assume "?E i = Some d"
    then show "i \<le> ?m + 1" "i = le_index d" using tail_rep_bound [OF rep, of i d] e by (auto split: if_splits)
  next
    fix j :: nat assume j: "j < 1024"
    show "bit (set_bit 0 (?bm * 2)) j \<longleftrightarrow> ?E (?m + 1 - int j) \<noteq> None"
    proof (cases "j = 0")
      case False
      have "bit (set_bit 0 (?bm * 2)) j \<longleftrightarrow> bit ?bm (j - 1)"
        unfolding bit_set_bit1024 bit_push1 using False j by blast
      also have "\<dots> \<longleftrightarrow> E (?m - int (j - 1)) \<noteq> None" using tail_rep_bit [OF rep] j by simp
      also have "?m - int (j - 1) = ?m + 1 - int j" using False by simp
      finally show ?thesis using False by simp
    next
      case True
      then show ?thesis unfolding bit_set_bit1024 by simp
    qed
  qed
qed

lemma tail_rep_push_missing:
  assumes rep: "tail_rep E b lm"
  shows "tail_rep E b (push_missing lm)"
proof -
  let ?m = "lm_max_log_index lm"
  have none: "E (?m + 1) = None" using tail_rep_beyond [OF rep] by simp
  have f: "lm_logs_in_memory (push_missing lm) = lm_logs_in_memory lm @ [None]"
    "lm_max_log_index (push_missing lm) = ?m + 1" "lm_dependency_bitmap (push_missing lm) = lm_dependency_bitmap lm * 2"
    by (simp_all add: push_missing_def)
  note mem = tail_rep_mem [OF rep] and b = tail_rep_le [OF rep]
  show ?thesis
    unfolding tail_rep_def f
  proof (intro conjI allI impI)
    show "lm_logs_in_memory lm @ [None] = map E [b..?m + 1]" using mem none b by (simp add: upto_snoc)
    show "b \<le> ?m + 1 + 1" using b by simp
  next
    fix i d assume "E i = Some d"
    from tail_rep_bound [OF rep this] show "i \<le> ?m + 1" "i = le_index d" by auto
  next
    fix j :: nat assume j: "j < 1024"
    show "bit (lm_dependency_bitmap lm * 2) j \<longleftrightarrow> E (?m + 1 - int j) \<noteq> None"
    proof (cases "j = 0")
      case False
      then have "bit (lm_dependency_bitmap lm) (j - 1) \<longleftrightarrow> E (?m - int (j - 1)) \<noteq> None"
        using tail_rep_bit [OF rep] j by simp
      with False j show ?thesis by (simp add: bit_push1 shift_index)
    qed (simp add: none bit_push1)
  qed
qed

lemma tail_rep_place:
  assumes rep: "tail_rep E b lm" and i: "b \<le> le_index e" "le_index e \<le> lm_max_log_index lm"
    and near: "lm_max_log_index lm - le_index e < 1024"
  shows "tail_rep (E(le_index e \<mapsto> e)) b
     (lm\<lparr>lm_logs_in_memory := (lm_logs_in_memory lm)[nat (le_index e - b) := Some e],
         lm_dependency_bitmap := set_bit (nat (lm_max_log_index lm - le_index e)) (lm_dependency_bitmap lm)\<rparr>)"
proof -
  let ?m = "lm_max_log_index lm" and ?i = "le_index e"
  let ?E = "E(?i \<mapsto> e)" and ?bm = "lm_dependency_bitmap lm"
  let ?lm = "lm\<lparr>lm_logs_in_memory := (lm_logs_in_memory lm)[nat (?i - b) := Some e],
         lm_dependency_bitmap := set_bit (nat (?m - ?i)) ?bm\<rparr>"
  have f: "lm_logs_in_memory ?lm = (lm_logs_in_memory lm)[nat (?i - b) := Some e]" "lm_max_log_index ?lm = ?m"
    "lm_dependency_bitmap ?lm = set_bit (nat (?m - ?i)) ?bm" by simp_all
  note mem = tail_rep_mem [OF rep] and b = tail_rep_le [OF rep]
  show ?thesis
    unfolding tail_rep_def f
  proof (intro conjI allI impI)
    show "(lm_logs_in_memory lm)[nat (?i - b) := Some e] = map ?E [b..?m]"
      unfolding mem using i by (intro nth_equalityI) (auto simp: nth_list_update)
    show "b \<le> ?m + 1" by (rule b)
  next
    fix d a assume "?E d = Some a"
    then show "d \<le> ?m" "d = le_index a" using i(2) tail_rep_bound [OF rep, of d a] by (auto split: if_splits)
  next
    fix j :: nat assume j: "j < 1024"
    have "j = nat (?m - ?i) \<longleftrightarrow> ?m - int j = ?i" using i(2) by linarith
    then show "bit (set_bit (nat (?m - ?i)) ?bm) j \<longleftrightarrow> ?E (?m - int j) \<noteq> None"
      unfolding bit_set_bit1024 tail_rep_bit [OF rep j] using j by auto
  qed
qed

lemma place_entries_rep:
  assumes "tail_rep E b lm"
    "\<forall>e \<in> set es. b \<le> le_index e \<and> le_index e \<le> lm_max_log_index lm \<and> lm_max_log_index lm - le_index e < 1024"
  shows "\<exists>mem bm. place_entries b es lm = Inr (lm\<lparr>lm_logs_in_memory := mem, lm_dependency_bitmap := bm\<rparr>) \<and>
     tail_rep (put_all es E) b (lm\<lparr>lm_logs_in_memory := mem, lm_dependency_bitmap := bm\<rparr>)"
  using assms
proof (induction es arbitrary: lm E)
  case (Cons e es)
  let ?lm = "lm\<lparr>lm_logs_in_memory := (lm_logs_in_memory lm)[nat (le_index e - b) := Some e],
         lm_dependency_bitmap := set_bit (nat (lm_max_log_index lm - le_index e)) (lm_dependency_bitmap lm)\<rparr>"
  have i: "b \<le> le_index e" "le_index e \<le> lm_max_log_index lm" "lm_max_log_index lm - le_index e < 1024"
    using Cons.prems(2) by auto
  have rep: "tail_rep (E(le_index e \<mapsto> e)) b ?lm" by (rule tail_rep_place [OF Cons.prems(1) i])
  have len: "int (length (lm_logs_in_memory lm)) = lm_max_log_index lm - b + 1"
    using tail_rep_mem [OF Cons.prems(1)] tail_rep_le [OF Cons.prems(1)] by simp
  then have "place_entries b (e # es) lm = place_entries b es ?lm" using i by simp
  moreover have "\<forall>e \<in> set es. b \<le> le_index e \<and> le_index e \<le> lm_max_log_index ?lm \<and> lm_max_log_index ?lm - le_index e < 1024"
    using Cons.prems(2) by simp
  from Cons.IH [OF rep this] obtain mem bm where
    "place_entries b es ?lm = Inr (?lm\<lparr>lm_logs_in_memory := mem, lm_dependency_bitmap := bm\<rparr>)"
    "tail_rep (put_all es (E(le_index e \<mapsto> e))) b (?lm\<lparr>lm_logs_in_memory := mem, lm_dependency_bitmap := bm\<rparr>)" by blast
  ultimately show ?case by (intro exI [of _ mem] exI [of _ bm]) (simp only: put_all_simps, simp)
next
  case Nil
  then show ?case by (intro exI [of _ "lm_logs_in_memory lm"] exI [of _ "lm_dependency_bitmap lm"]) simp
qed

lemma advance_last_rep:
  assumes "tail_rep E b lm" "n = nat (lm_max_log_index lm - lm_last_log_index lm)"
    "b - 1 \<le> lm_last_log_index lm" "lm_last_log_index lm \<le> lm_max_log_index lm"
    "\<forall>i. b \<le> i \<and> i \<le> lm_last_log_index lm \<longrightarrow> E i \<noteq> None"
  shows "\<exists>l. advance_last n b lm = Inr (lm\<lparr>lm_last_log_index := l\<rparr>) \<and> last_rep E b (lm\<lparr>lm_last_log_index := l\<rparr>) \<and>
     lm_last_log_index lm \<le> l"
  using assms
proof (induction n arbitrary: lm)
  case 0
  then have "lm_last_log_index lm = lm_max_log_index lm" by simp
  with 0 tail_rep_beyond [OF 0(1)] show ?case by (intro exI [of _ "lm_last_log_index lm"]) (auto simp: last_rep_def)
next
  case (Suc n)
  let ?l = "lm_last_log_index lm" and ?m = "lm_max_log_index lm"
  have lt: "?l < ?m" using Suc.prems(2) by simp
  then have at: "at_index (lm_logs_in_memory lm) (?l - b + 1) = Inr (E (?l + 1))"
    using tail_rep_mem [OF Suc.prems(1)] Suc.prems(3) by (simp add: add.commute)
  show ?case
  proof (cases "E (?l + 1)")
    case None
    then have "last_rep E b (lm\<lparr>lm_last_log_index := ?l\<rparr>)" using Suc.prems lt by (simp add: last_rep_def)
    then show ?thesis using at None by (intro exI [of _ ?l]) simp
  next
    case (Some e)
    let ?lm = "lm\<lparr>lm_last_log_index := ?l + 1\<rparr>"
    have "tail_rep E b ?lm" using Suc.prems(1) by (rule tail_rep_cong) simp_all
    moreover have "E i \<noteq> None" if "b \<le> i" "i \<le> ?l + 1" for i
      using that Some Suc.prems(5) by (cases "i = ?l + 1") auto
    moreover have "n = nat (lm_max_log_index ?lm - lm_last_log_index ?lm)" using Suc.prems(2) lt by simp
    ultimately have "\<exists>l. advance_last n b ?lm = Inr (?lm\<lparr>lm_last_log_index := l\<rparr>) \<and>
        last_rep E b (?lm\<lparr>lm_last_log_index := l\<rparr>) \<and> lm_last_log_index ?lm \<le> l"
      by (intro Suc.IH) (use Suc.prems(3) lt in auto)
    then obtain l where "advance_last n b ?lm = Inr (?lm\<lparr>lm_last_log_index := l\<rparr>)"
      "last_rep E b (?lm\<lparr>lm_last_log_index := l\<rparr>)" "?l + 1 \<le> l" by auto
    moreover have "advance_last (Suc n) b lm = advance_last n b ?lm"
      unfolding advance_last.simps at Some by (simp only: sum.case option.case)
    ultimately have "advance_last (Suc n) b lm = Inr (lm\<lparr>lm_last_log_index := l\<rparr>)"
      "last_rep E b (lm\<lparr>lm_last_log_index := l\<rparr>)" "?l \<le> l" by simp_all
    then show ?thesis by blast
  qed
qed

text \<open>The fields that appending to the tail changes.\<close>

definition frame :: "('c, 'w) log_manager \<Rightarrow> ('c, 'w) log_manager" where
  "frame lm = lm\<lparr>lm_logs_in_memory := [], lm_dependency_bitmap := 0, lm_max_log_index := 0, lm_last_log_index := 0\<rparr>"

lemma frame_fields:
  assumes "frame lm' = frame lm"
  shows "lm_storage lm' = lm_storage lm" "lm_config_manager lm' = lm_config_manager lm" "lm_wait_map lm' = lm_wait_map lm"
    "lm_disk_queue lm' = lm_disk_queue lm" "lm_has_error lm' = lm_has_error lm" "lm_applied_id lm' = lm_applied_id lm"
    "lm_dependency_look_back lm' = lm_dependency_look_back lm" "lm_first_log_index lm' = lm_first_log_index lm"
    "lm_stopped lm' = lm_stopped lm"
  using assms by (cases lm, cases lm', simp add: frame_def)+

lemma frame_upd [simp]:
  "frame (lm\<lparr>lm_logs_in_memory := mem\<rparr>) = frame lm" "frame (lm\<lparr>lm_dependency_bitmap := bm\<rparr>) = frame lm"
  "frame (lm\<lparr>lm_max_log_index := i\<rparr>) = frame lm" "frame (lm\<lparr>lm_last_log_index := i\<rparr>) = frame lm"
  by (simp_all add: frame_def)

lemma push_fields [simp]:
  "frame (push_missing lm) = frame lm" "frame (push_received e lm) = frame lm"
  "lm_max_log_index (push_missing lm) = lm_max_log_index lm + 1"
  "lm_max_log_index (push_received e lm) = lm_max_log_index lm + 1"
  "lm_last_log_index (push_missing lm) = lm_last_log_index lm"
  "lm_last_log_index (push_received e lm) = lm_last_log_index lm"
  by (simp_all add: push_missing_def push_received_def frame_def)

lemma push_missing_pow [simp]:
  "frame ((push_missing ^^ n) lm) = frame lm" "lm_max_log_index ((push_missing ^^ n) lm) = lm_max_log_index lm + int n"
  "lm_last_log_index ((push_missing ^^ n) lm) = lm_last_log_index lm"
  by (induction n) auto

lemma tail_rep_push_missing_pow: "tail_rep E b lm \<Longrightarrow> tail_rep E b ((push_missing ^^ n) lm)"
  by (induction n) (auto intro: tail_rep_push_missing)

fun consecutive_from :: "int64 \<Rightarrow> log_entry list \<Rightarrow> bool" where
  "consecutive_from i [] \<longleftrightarrow> True"
| "consecutive_from i (e # es) \<longleftrightarrow> le_index e = i \<and> consecutive_from (i + 1) es"

lemma consecutive_indexes: "consecutive_from i es \<Longrightarrow> map le_index es = [i..i + int (length es) - 1]"
  by (induction es arbitrary: i) (auto simp: upto_rec1 algebra_simps)

lemma consecutive_distinct: "consecutive_from i es \<Longrightarrow> distinct (map le_index es)"
  using consecutive_indexes by simp

lemma consecutive_last: "consecutive_from i es \<Longrightarrow> es \<noteq> [] \<Longrightarrow> le_index (last es) = i + int (length es) - 1"
  by (induction es arbitrary: i) auto

lemma consecutive_mem: "consecutive_from i es \<Longrightarrow> e \<in> set es \<Longrightarrow> i \<le> le_index e \<and> le_index e \<le> i + int (length es) - 1"
  by (induction es arbitrary: i) force+

lemma put_all_twice: "put_all es (put_all es E) = put_all es E" if "distinct (map le_index es)"
proof
  fix i
  show "put_all es (put_all es E) i = put_all es E i"
  proof (cases "i \<in> le_index ` set es")
    case True
    then obtain e where "e \<in> set es" "i = le_index e" by blast
    then show ?thesis using put_all_in [OF that] by simp
  next
    case False
    have keep: "put_all es F i = F i" for F using False by (induction es arbitrary: F) auto
    show ?thesis by (simp add: keep)
  qed
qed

lemma fold_push_received:
  "tail_rep E b lm \<Longrightarrow> consecutive_from (lm_max_log_index lm + 1) es \<Longrightarrow>
     tail_rep (put_all es E) b (fold push_received es lm) \<and> frame (fold push_received es lm) = frame lm \<and>
     lm_max_log_index (fold push_received es lm) = lm_max_log_index lm + int (length es) \<and>
     lm_last_log_index (fold push_received es lm) = lm_last_log_index lm"
proof (induction es arbitrary: E lm)
  case (Cons e es)
  from Cons.prems have "tail_rep (E(le_index e \<mapsto> e)) b (push_received e lm)" by (intro tail_rep_push_received) auto
  from Cons.IH [OF this] Cons.prems(2) show ?case by (simp del: fun_upd_apply)
qed simp

lemma extend_overlap:
  "consecutive_from i es \<Longrightarrow> es \<noteq> [] \<Longrightarrow> i \<le> lm_max_log_index lm \<Longrightarrow>
     extend_slots n es lm = Inr ((push_missing ^^ n) lm)"
proof (induction n arbitrary: lm)
  case (Suc n)
  then obtain e es' where es: "es = e # es'" "le_index e = i" by (cases es) auto
  have "extend_slots (Suc n) es lm = extend_slots n es (push_missing lm)" using es Suc.prems(3) by simp
  then show ?case using Suc.IH [of "push_missing lm"] Suc.prems by (simp add: funpow_swap1)
qed simp

lemma extend_consecutive:
  "consecutive_from (lm_max_log_index lm + 1) es \<Longrightarrow> extend_slots (length es) es lm = Inr (fold push_received es lm)"
  by (induction es arbitrary: lm) auto

lemma extend_gap:
  "consecutive_from (lm_max_log_index lm + 1 + int g) es \<Longrightarrow> es \<noteq> [] \<Longrightarrow>
     extend_slots (g + n) es lm = extend_slots n es ((push_missing ^^ g) lm)"
proof (induction g arbitrary: lm)
  case (Suc g)
  then obtain e es' where es: "es = e # es'" "le_index e = lm_max_log_index lm + 2 + int g" by (cases es) auto
  have "extend_slots (Suc g + n) es lm = extend_slots (g + n) es (push_missing lm)" using es by simp
  also have "\<dots> = extend_slots n es ((push_missing ^^ g) (push_missing lm))"
    using Suc.prems by (intro Suc.IH) (simp_all add: algebra_simps)
  finally show ?case by (simp add: funpow_swap1)
qed simp

lemma extend_rep:
  assumes rep: "tail_rep E b lm" and es: "consecutive_from i es" "es \<noteq> []"
    and beyond: "lm_max_log_index lm < le_index (last es)"
  shows "\<exists>E1 lm1. extend_slots (nat (le_index (last es) - lm_max_log_index lm)) es lm = Inr lm1 \<and> tail_rep E1 b lm1 \<and>
     E1 \<in> {E, put_all es E} \<and> frame lm1 = frame lm \<and>
     lm_max_log_index lm1 = le_index (last es) \<and> lm_last_log_index lm1 = lm_last_log_index lm"
proof (cases "i \<le> lm_max_log_index lm")
  case True
  show ?thesis
    unfolding extend_overlap [OF es True]
    by (intro exI [of _ E] exI conjI, rule refl, rule tail_rep_push_missing_pow [OF rep]) (use beyond in auto)
next
  case False
  define g where "g = nat (i - lm_max_log_index lm - 1)"
  let ?lm = "(push_missing ^^ g) lm"
  have i: "i = lm_max_log_index lm + 1 + int g" using False by (simp add: g_def)
  have n: "nat (le_index (last es) - lm_max_log_index lm) = g + length es"
    using consecutive_last [OF es] i by simp
  have c: "consecutive_from (lm_max_log_index ?lm + 1) es" using es(1) i by (simp add: algebra_simps)
  have "extend_slots (g + length es) es lm = Inr (fold push_received es ?lm)"
    using extend_gap [of lm g es "length es"] es i extend_consecutive [OF c] by simp
  then show ?thesis
    unfolding n
    using fold_push_received [OF tail_rep_push_missing_pow [OF rep] c] consecutive_last [OF es] i by auto
qed

lemma fill_and_place_rep:
  assumes rep: "tail_rep E b lm" and es: "consecutive_from i es" "es \<noteq> []" and i: "b \<le> i"
    and near: "max (lm_max_log_index lm) (le_index (last es)) - i < 1024"
    and l: "b - 1 \<le> lm_last_log_index lm" "lm_last_log_index lm \<le> lm_max_log_index lm"
      "\<forall>i. b \<le> i \<and> i \<le> lm_last_log_index lm \<longrightarrow> E i \<noteq> None"
  shows "\<exists>lm'. fill_and_place es lm = Inr lm' \<and> tail_rep (put_all es E) b lm' \<and> last_rep (put_all es E) b lm' \<and>
     frame lm' = frame lm \<and> lm_max_log_index lm' = max (lm_max_log_index lm) (le_index (last es)) \<and>
     lm_last_log_index lm \<le> lm_last_log_index lm'"
proof -
  let ?lm1 = "(push_missing ^^ nat (le_index (last es) - lm_max_log_index lm)) lm"
  let ?m = "max (lm_max_log_index lm) (le_index (last es))"
  have rep1: "tail_rep E b ?lm1" by (rule tail_rep_push_missing_pow [OF rep])
  have m: "lm_max_log_index ?lm1 = ?m" by simp
  have first: "lm_max_log_index ?lm1 - int (length (lm_logs_in_memory ?lm1)) + 1 = b"
    using tail_rep_mem [OF rep1] tail_rep_le [OF rep1] by simp
  have "\<forall>e \<in> set es. b \<le> le_index e \<and> le_index e \<le> lm_max_log_index ?lm1 \<and> lm_max_log_index ?lm1 - le_index e < 1024"
    unfolding m using consecutive_mem [OF es(1)] consecutive_last [OF es] i near by force
  from place_entries_rep [OF rep1 this] obtain mem bm where
    place: "place_entries b es ?lm1 = Inr (?lm1\<lparr>lm_logs_in_memory := mem, lm_dependency_bitmap := bm\<rparr>)"
    and rep2: "tail_rep (put_all es E) b (?lm1\<lparr>lm_logs_in_memory := mem, lm_dependency_bitmap := bm\<rparr>)" by blast
  let ?lm2 = "?lm1\<lparr>lm_logs_in_memory := mem, lm_dependency_bitmap := bm\<rparr>"
  have "\<exists>l. advance_last (nat (lm_max_log_index ?lm2 - lm_last_log_index ?lm2)) b ?lm2 = Inr (?lm2\<lparr>lm_last_log_index := l\<rparr>) \<and>
     last_rep (put_all es E) b (?lm2\<lparr>lm_last_log_index := l\<rparr>) \<and> lm_last_log_index ?lm2 \<le> l"
    by (intro advance_last_rep [OF rep2]) (use l in \<open>auto simp: put_all_None\<close>)
  then obtain l where adv: "advance_last (nat (lm_max_log_index ?lm2 - lm_last_log_index ?lm2)) b ?lm2 = Inr (?lm2\<lparr>lm_last_log_index := l\<rparr>)"
    and last: "last_rep (put_all es E) b (?lm2\<lparr>lm_last_log_index := l\<rparr>)" and le: "lm_last_log_index lm \<le> l" by auto
  have "fill_and_place es lm = Inr (?lm2\<lparr>lm_last_log_index := l\<rparr>)"
    unfolding fill_and_place_def Let_def first place sum.case by (rule adv)
  moreover have "tail_rep (put_all es E) b (?lm2\<lparr>lm_last_log_index := l\<rparr>)"
    by (rule tail_rep_cong [OF rep2]) simp_all
  ultimately show ?thesis using last le by (intro exI [of _ "?lm2\<lparr>lm_last_log_index := l\<rparr>"]) simp
qed

section \<open>Appending out of order\<close>

text \<open>
  The invariant of the tail: representation, contiguous prefix, and a received entry in the last
  slot, which the code dereferences.
\<close>

definition tail_inv :: "received \<Rightarrow> int64 \<Rightarrow> ('c, 'w) log_manager \<Rightarrow> bool" where
  "tail_inv E b lm \<longleftrightarrow> tail_rep E b lm \<and> last_rep E b lm \<and> (b \<le> lm_max_log_index lm \<longrightarrow> E (lm_max_log_index lm) \<noteq> None)"

lemma tail_invD:
  assumes "tail_inv E b lm"
  shows "tail_rep E b lm" "last_rep E b lm" "b \<le> lm_max_log_index lm \<Longrightarrow> E (lm_max_log_index lm) \<noteq> None"
  using assms unfolding tail_inv_def by blast+

lemma last_repD:
  assumes "last_rep E b lm"
  shows "b - 1 \<le> lm_last_log_index lm" "lm_last_log_index lm \<le> lm_max_log_index lm"
    "\<forall>i. b \<le> i \<and> i \<le> lm_last_log_index lm \<longrightarrow> E i \<noteq> None"
  using assms unfolding last_rep_def by blast+

lemma get_entry_from_memory_rep:
  assumes inv: "tail_inv E b lm"
  shows "get_entry_from_memory i lm = Inr (if b \<le> i \<and> i \<le> lm_max_log_index lm then E i else None)"
proof (cases "b \<le> lm_max_log_index lm")
  case True
  let ?m = "lm_max_log_index lm"
  note rep = tail_invD(1) [OF inv]
  obtain e where e: "E ?m = Some e" using tail_invD(3) [OF inv True] by blast
  have mem: "lm_logs_in_memory lm = map E [b..?m]" by (rule tail_rep_mem [OF rep])
  have ie: "le_index e = ?m" using tail_rep_bound [OF rep e] by simp
  have last: "last (lm_logs_in_memory lm) = Some e" using True e by (simp add: mem last_map upto_rec2)
  have len: "le_index e - int (length (lm_logs_in_memory lm)) + 1 = b" using True by (simp add: mem ie)
  show ?thesis
    unfolding get_entry_from_memory_def Let_def last option.case len ie using True by (auto simp: mem)
next
  case False
  then show ?thesis using tail_rep_mem [OF tail_invD(1) [OF inv]] by (auto simp: get_entry_from_memory_def)
qed

text \<open>An entry agrees with the log when its slot holds its term, or nothing, in memory and on disk.\<close>

definition agrees :: "received \<Rightarrow> ('c, 'w) log_manager \<Rightarrow> log_entry \<Rightarrow> bool" where
  "agrees E lm e \<longleftrightarrow>
     (case E (le_index e) of
        Some d \<Rightarrow> le_term d = le_term e
      | None \<Rightarrow> sl_get_term (le_index e) (lm_storage lm) = Inr 0)"

lemma agrees_term:
  assumes inv: "tail_inv E b lm" and e: "agrees E lm e" "b \<le> le_index e"
  shows "\<exists>t. unsafe_get_term (le_index e) lm = Inr t \<and> (t = 0 \<or> t = le_term e)"
proof (cases "E (le_index e)")
  case None
  then show ?thesis using e(1)
    by (auto simp: unsafe_get_term_def agrees_def get_entry_from_memory_rep [OF inv])
next
  case (Some d)
  then have "le_term d = le_term e" "le_index e \<le> lm_max_log_index lm"
    using e(1) tail_rep_bound [OF tail_invD(1) [OF inv] Some] by (auto simp: agrees_def)
  then show ?thesis using e(2) Some by (auto simp: unsafe_get_term_def get_entry_from_memory_rep [OF inv])
qed

lemma split_conflict_agrees:
  "tail_inv E b lm \<Longrightarrow> \<forall>e \<in> set es. agrees E lm e \<and> b \<le> le_index e \<Longrightarrow> split_conflict True es lm = Inr (es, [])"
proof (induction es)
  case (Cons e es)
  have "agrees E lm e" "b \<le> le_index e" using Cons.prems(2) by simp_all
  from agrees_term [OF Cons.prems(1) this] obtain t where
    t: "unsafe_get_term (le_index e) lm = Inr t" "t = 0 \<or> t = le_term e" by blast
  have "split_conflict True es lm = Inr (es, [])" by (rule Cons.IH [OF Cons.prems(1)]) (use Cons.prems(2) in simp)
  then show ?case using t(2) by (simp add: t(1))
qed simp

lemma resolve_rep:
  assumes inv: "tail_inv E b lm" and es: "consecutive_from i es" "es \<noteq> []" and i: "b \<le> i" "i \<noteq> 0"
    and fresh: "id_index (lm_applied_id lm) < le_index (last es)" and ok: "\<forall>e \<in> set es. agrees E lm e"
  shows "\<exists>E1 lm1. check_and_resolve_conflict es True lm = Inr (OK0, es, None, lm1) \<and> tail_rep E1 b lm1 \<and>
     E1 \<in> {E, put_all es E} \<and> frame lm1 = frame lm \<and>
     lm_max_log_index lm1 = max (lm_max_log_index lm) (le_index (last es)) \<and> lm_last_log_index lm1 = lm_last_log_index lm"
proof -
  note rep = tail_invD(1) [OF inv] and bk = consecutive_last [OF es]
  have hd: "le_index (hd es) = i" using es by (cases es) auto
  consider (fast) "i = lm_max_log_index lm + 1" | (extend) "i \<noteq> lm_max_log_index lm + 1" "lm_max_log_index lm < le_index (last es)"
    | (overlap) "i \<noteq> lm_max_log_index lm + 1" "le_index (last es) \<le> lm_max_log_index lm" by linarith
  then show ?thesis
  proof cases
    case fast
    let ?lm = "fold push_received es lm"
    let ?lm1 = "?lm\<lparr>lm_max_log_index := max (lm_max_log_index ?lm) (le_index (last es))\<rparr>"
    have c: "consecutive_from (lm_max_log_index lm + 1) es" using es(1) fast by simp
    note f = fold_push_received [OF rep c]
    have m: "lm_max_log_index ?lm = le_index (last es)" using f bk fast by simp
    have "tail_rep (put_all es E) b ?lm1" by (rule tail_rep_cong [OF conjunct1 [OF f]]) (simp_all add: m)
    moreover have "check_and_resolve_conflict es True lm = Inr (OK0, es, None, ?lm1)"
      using hd i(2) fresh fast by (simp add: check_and_resolve_conflict_def Let_def)
    ultimately show ?thesis using f m es(2) bk fast by (intro exI [of _ "put_all es E"] exI [of _ ?lm1]) simp
  next
    case extend
    from extend_rep [OF rep es extend(2)] obtain E1 lm1 where
      *: "extend_slots (nat (le_index (last es) - lm_max_log_index lm)) es lm = Inr lm1" "tail_rep E1 b lm1"
        "E1 \<in> {E, put_all es E}" "frame lm1 = frame lm" "lm_max_log_index lm1 = le_index (last es)"
        "lm_last_log_index lm1 = lm_last_log_index lm" by blast
    then have "check_and_resolve_conflict es True lm = Inr (OK0, es, None, lm1)"
      using hd i(2) fresh extend by (simp add: check_and_resolve_conflict_def Let_def)
    with * extend(2) show ?thesis by (intro exI [of _ E1] exI [of _ lm1]) simp
  next
    case overlap
    have sc: "split_conflict True es lm = Inr (es, [])"
      using ok consecutive_mem [OF es(1)] i by (intro split_conflict_agrees [OF inv]) force
    have "check_and_resolve_conflict es True lm = Inr (OK0, es, None, lm)"
      using hd i(2) fresh overlap es(2) by (simp add: check_and_resolve_conflict_def Let_def sc max_absorb1)
    with rep overlap(2) show ?thesis by (intro exI [of _ E] exI [of _ lm]) (simp add: max_absorb1)
  qed
qed

lemma add_no_configurations:
  "\<forall>e \<in> set es. le_type e \<noteq> ENTRY_TYPE_CONFIGURATION \<Longrightarrow> add_configurations es cm = Inr cm"
  by (induction es) auto

lemma tail_inv_put_all:
  assumes rep: "tail_rep (put_all es E) b lm'" and last: "last_rep (put_all es E) b lm'"
    and inv: "tail_inv E b lm" and es: "es \<noteq> []" and m: "lm_max_log_index lm' = max (lm_max_log_index lm) (le_index (last es))"
    and b: "b \<le> le_index (last es)"
  shows "tail_inv (put_all es E) b lm'"
proof -
  have "put_all es E (lm_max_log_index lm') \<noteq> None"
  proof (cases "le_index (last es) \<ge> lm_max_log_index lm")
    case True
    then show ?thesis using es unfolding m put_all_None by (auto simp: max_absorb2)
  next
    case False
    then show ?thesis using tail_invD(3) [OF inv] b unfolding m put_all_None by (auto simp: max_absorb1)
  qed
  then show ?thesis using rep last unfolding tail_inv_def by blast
qed

lemma wakeup_all_waiter_eq:
  "wakeup_all_waiter lm =
     (map (\<lambda>(_, w). Wake_waiter w (if lm_stopped lm then ESTOP else OK0)) (lm_wait_map lm), lm\<lparr>lm_wait_map := []\<rparr>)"
  by (cases lm) (simp add: wakeup_all_waiter_def)

lemma tail_inv_cong:
  assumes "tail_inv E b lm" "lm_logs_in_memory lm' = lm_logs_in_memory lm" "lm_max_log_index lm' = lm_max_log_index lm"
    "lm_dependency_bitmap lm' = lm_dependency_bitmap lm" "lm_last_log_index lm' = lm_last_log_index lm"
  shows "tail_inv E b lm'"
  using assms unfolding tail_inv_def tail_rep_def last_rep_def by simp

text \<open>
  C8. Entries that arrive out of order are recorded: appending a run of consecutive entries, wherever it
  lies relative to what was received before (next to it, beyond a gap, or overlapping it without a term
  conflict), succeeds, leaves exactly the received entries plus the new ones in the tail and the
  bitmap, moves \<open>_last_log_index\<close> to the end of the contiguous prefix, and queues the whole run for
  the disk thread. The run must not reach further back than the 1024 bits of the bitmap.
\<close>

theorem append_records_received:
  assumes inv: "tail_inv E b lm" and es: "consecutive_from i es" "es \<noteq> []" and i: "b \<le> i" "i \<noteq> 0"
    and fresh: "id_index (lm_applied_id lm) < le_index (last es)"
    and near: "max (lm_max_log_index lm) (le_index (last es)) - i < 1024"
    and ok: "\<forall>e \<in> set es. agrees E lm e \<and> le_type e \<noteq> ENTRY_TYPE_CONFIGURATION" and err: "\<not> lm_has_error lm"
  shows "\<exists>lm'. lm_append_entries es c True lm =
      Inr (map (\<lambda>(_, w). Wake_waiter w (if lm_stopped lm then ESTOP else OK0)) (lm_wait_map lm), lm') \<and>
      tail_inv (put_all es E) b lm' \<and> lm_last_log_index lm \<le> lm_last_log_index lm' \<and>
      lm_disk_queue lm' = lm_disk_queue lm @ [Stable_closure c i es]"
proof -
  note l = last_repD [OF tail_invD(2) [OF inv]]
  have hd: "le_index (hd es) = i" using es by (cases es) auto
  have "\<forall>e \<in> set es. agrees E lm e" using ok by blast
  from resolve_rep [OF inv es i fresh this] obtain E1 lm1 where
    res: "check_and_resolve_conflict es True lm = Inr (OK0, es, None, lm1)" and rep1: "tail_rep E1 b lm1"
    and E1: "E1 \<in> {E, put_all es E}" and fr: "frame lm1 = frame lm"
    and m1: "lm_max_log_index lm1 = max (lm_max_log_index lm) (le_index (last es))"
    and l1: "lm_last_log_index lm1 = lm_last_log_index lm" by blast
  have E2: "put_all es E1 = put_all es E" using E1 put_all_twice [OF consecutive_distinct [OF es(1)]] by blast
  have E1': "E k \<noteq> None \<Longrightarrow> E1 k \<noteq> None" for k using E1 put_all_None [of es E k] by auto
  have "\<forall>k. b \<le> k \<and> k \<le> lm_last_log_index lm1 \<longrightarrow> E1 k \<noteq> None"
    unfolding l1 using l(3) E1' by blast
  moreover have "lm_last_log_index lm1 \<le> lm_max_log_index lm1" "b - 1 \<le> lm_last_log_index lm1"
    "max (lm_max_log_index lm1) (le_index (last es)) - i < 1024" unfolding l1 m1 using l near by auto
  ultimately obtain lm2 where
    fill: "fill_and_place es lm1 = Inr lm2" and rep2: "tail_rep (put_all es E) b lm2" "last_rep (put_all es E) b lm2"
    and fr2: "frame lm2 = frame lm1" and m2: "lm_max_log_index lm2 = max (lm_max_log_index lm) (le_index (last es))"
    and l2: "lm_last_log_index lm \<le> lm_last_log_index lm2"
    using fill_and_place_rep [OF rep1 es i(1)] unfolding E2 l1 m1 by auto
  have "b \<le> le_index (last es)" using consecutive_last [OF es] i es(2) by (cases es) auto
  then have inv2: "tail_inv (put_all es E) b lm2" by (intro tail_inv_put_all [OF rep2 inv es(2) m2])
  note ff = frame_fields [OF fr2 [unfolded fr]]
  have cm: "lm1\<lparr>lm_config_manager := lm_config_manager lm1\<rparr> = lm1" by simp
  let ?lm' = "(enqueue (Stable_closure c i es) lm2)\<lparr>lm_wait_map := []\<rparr>"
  have "lm_append_entries es c True lm =
      Inr (map (\<lambda>(_, w). Wake_waiter w (if lm_stopped lm then ESTOP else OK0)) (lm_wait_map lm), ?lm')"
    using err es(2) ok
    by (simp add: lm_append_entries_def res add_no_configurations cm fill wakeup_all_waiter_eq hd enqueue_def ff)
  moreover have "tail_inv (put_all es E) b ?lm'" by (rule tail_inv_cong [OF inv2]) (simp_all add: enqueue_def)
  ultimately show ?thesis using l2 ff by (intro exI [of _ ?lm']) (simp add: enqueue_def)
qed

section \<open>Dependencies\<close>

lemma bit_bitset_of_int64: "bit (bitset_of_int64 d) j \<longleftrightarrow> bit (word_of_int d :: 64 word) j"
  by (auto simp: bitset_of_int64_def bit_ucast_iff dest: bit_imp_le_length)

lemma and_eq_iff_bits: "(w AND d = d) \<longleftrightarrow> (\<forall>j. bit d j \<longrightarrow> bit (w :: 'a :: len word) j)"
  by (auto simp: bit_eq_iff bit_and_iff dest: bit_imp_le_length)

lemma check_dependency_received:
  assumes inv: "tail_inv E b lm" and bits: "\<forall>j. bit (word_of_int d :: 64 word) j \<longrightarrow> int j \<le> lm_dependency_look_back lm"
    and near: "lm_max_log_index lm - idx + lm_dependency_look_back lm < 1024"
  shows "lm_check_dependency idx d lm \<longleftrightarrow> (\<forall>j. bit (word_of_int d :: 64 word) j \<longrightarrow> E (idx - int j) \<noteq> None)"
proof (cases "d = 0")
  case False
  note rep = tail_invD(1) [OF inv]
  have len: "j < 64" if "bit (word_of_int d :: 64 word) j" for j
    using bit_imp_le_length [OF that] by simp
  show ?thesis
  proof (cases "idx > lm_max_log_index lm")
    case True
    define s where "s = nat (idx - lm_max_log_index lm)"
    have "bit (push_bit s (lm_dependency_bitmap lm)) j \<longleftrightarrow> E (idx - int j) \<noteq> None"
      if "bit (word_of_int d :: 64 word) j" for j
    proof (cases "s \<le> j")
      case s: True
      have eq: "lm_max_log_index lm - int (j - s) = idx - int j" using s True by (simp add: s_def)
      have "j - s < 1024" using len [OF that] by simp
      from tail_rep_bit [OF rep this] show ?thesis unfolding eq using s len [OF that] by (simp add: bit_push_bit_iff)
    next
      case False
      then have "lm_max_log_index lm < idx - int j" by (simp add: s_def)
      then show ?thesis using tail_rep_beyond [OF rep] False by (simp add: bit_push_bit_iff)
    qed
    then show ?thesis
      using True \<open>d \<noteq> 0\<close>
      by (simp only: lm_check_dependency_def Let_def if_False if_True and_eq_iff_bits bit_bitset_of_int64 flip: s_def) blast
  next
    case le: False
    define s where "s = nat (lm_max_log_index lm - idx)"
    have "bit (drop_bit s (lm_dependency_bitmap lm)) j \<longleftrightarrow> E (idx - int j) \<noteq> None"
      if "bit (word_of_int d :: 64 word) j" for j
    proof -
      have lt: "s + j < 1024" and eq: "lm_max_log_index lm - int (s + j) = idx - int j"
        using bits that near le by (force simp: s_def)+
      from tail_rep_bit [OF rep lt] show ?thesis unfolding eq by (simp add: bit_drop_bit_eq)
    qed
    moreover have "\<not> lm_max_log_index lm - idx + lm_dependency_look_back lm \<ge> 1024" using near by simp
    ultimately show ?thesis
      using le \<open>d \<noteq> 0\<close>
      by (simp only: lm_check_dependency_def Let_def if_False if_True and_eq_iff_bits bit_bitset_of_int64 flip: s_def) blast
  qed
qed (simp add: lm_check_dependency_def)


section \<open>Trimming memory\<close>

definition clearable :: "log_id \<Rightarrow> log_entry option \<Rightarrow> bool" where
  "clearable i s \<longleftrightarrow> (case s of None \<Rightarrow> False | Some e \<Rightarrow> le_id e \<le> i)"

lemma clear_batch_dropWhile:
  "clear_batch n i mem = (k, rest) \<Longrightarrow>
     rest = drop k mem \<and> (\<forall>s \<in> set (take k mem). clearable i s) \<and>
     (k < n \<longrightarrow> rest = [] \<or> \<not> clearable i (hd rest))"
proof (induction n i mem arbitrary: k rest rule: clear_batch.induct)
  case (4 n i e mem)
  show ?case
  proof (cases "le_id e > i")
    case False
    obtain k' rest' where r: "clear_batch n i mem = (k', rest')" by fastforce
    with 4 False show ?thesis by (auto simp: clearable_def)
  qed (use 4 in \<open>auto simp: clearable_def\<close>)
qed (auto simp: clearable_def)

lemma dropWhile_split:
  "\<forall>x \<in> set (take k xs). P x \<Longrightarrow> dropWhile P xs = dropWhile P (drop k xs)"
  by (metis append_take_drop_id dropWhile_append2)

lemma clear_memory_loop_dropWhile: "clear_memory_loop i mem = dropWhile (clearable i) mem"
proof (induction i mem rule: clear_memory_loop.induct)
  case (1 i mem)
  obtain k rest where r: "clear_batch 256 i mem = (k, rest)" by fastforce
  note d = clear_batch_dropWhile [OF r]
  have dw: "dropWhile (clearable i) mem = dropWhile (clearable i) rest" using d dropWhile_split by blast
  show ?case
  proof (cases "k = 256")
    case True
    have "clear_memory_loop i mem = clear_memory_loop i rest" by (subst clear_memory_loop.simps) (simp add: r True)
    also have "\<dots> = dropWhile (clearable i) rest" by (rule "1.IH" [OF r [symmetric] refl True])
    finally show ?thesis by (simp add: dw)
  next
    case False
    then have "k < 256" using clear_batch_length [OF r] by simp
    then have "rest = [] \<or> \<not> clearable i (hd rest)" using d by blast
    then have "dropWhile (clearable i) rest = rest" by (cases rest) simp_all
    then show ?thesis by (subst clear_memory_loop.simps) (simp add: r False dw)
  qed
qed

lemma dropWhile_map_upto:
  "\<exists>b'. b \<le> b' \<and> b' \<le> max b (m + 1) \<and> dropWhile P (map E [b..m]) = map E [b'..m] \<and>
     (\<forall>k. b \<le> k \<and> k < b' \<longrightarrow> P (E k))"
proof (induction "nat (m + 1 - b)" arbitrary: b)
  case 0
  then show ?case by (intro exI [of _ b]) auto
next
  case (Suc n)
  have b: "b \<le> m" and n: "n = nat (m + 1 - (b + 1))" using Suc(2) by auto
  show ?case
  proof (cases "P (E b)")
    case True
    from Suc(1) [OF n] obtain b' where
      b': "b + 1 \<le> b'" "b' \<le> max (b + 1) (m + 1)" "dropWhile P (map E [b + 1..m]) = map E [b'..m]"
        "\<forall>k. b + 1 \<le> k \<and> k < b' \<longrightarrow> P (E k)" by blast
    have "P (E k)" if "b \<le> k" "k < b'" for k using that b'(4) True by (cases "k = b") auto
    with b' b True show ?thesis by (intro exI [of _ b']) (auto simp: upto_rec1)
  qed (use b in \<open>auto simp: upto_rec1 intro!: exI [of _ b]\<close>)
qed

lemma clear_memory_logs_rep:
  assumes inv: "tail_inv E b lm"
  shows "\<exists>b'. b \<le> b' \<and> tail_inv E b' (clear_memory_logs i lm) \<and> (\<forall>k. b \<le> k \<and> k < b' \<longrightarrow> (\<exists>e. E k = Some e \<and> le_id e \<le> i))"
proof -
  let ?m = "lm_max_log_index lm" and ?l = "lm_last_log_index lm"
  note rep = tail_invD(1) [OF inv] and l = last_repD [OF tail_invD(2) [OF inv]]
  obtain b' where b': "b \<le> b'" "b' \<le> max b (?m + 1)"
    "dropWhile (clearable i) (map E [b..?m]) = map E [b'..?m]" "\<forall>k. b \<le> k \<and> k < b' \<longrightarrow> clearable i (E k)"
    using dropWhile_map_upto [of b ?m "clearable i" E] by blast
  have some: "\<exists>e. E k = Some e \<and> le_id e \<le> i" if "b \<le> k" "k < b'" for k
    using b'(4) that unfolding clearable_def by (cases "E k") auto
  have "E (?l + 1) = None" using tail_invD(2) [OF inv] unfolding last_rep_def by blast
  then have "b' \<le> ?l + 1" using some [of "?l + 1"] l(1) by fastforce
  moreover have f: "lm_logs_in_memory (clear_memory_logs i lm) = map E [b'..?m]"
    "lm_max_log_index (clear_memory_logs i lm) = ?m" "lm_last_log_index (clear_memory_logs i lm) = ?l"
    "lm_dependency_bitmap (clear_memory_logs i lm) = lm_dependency_bitmap lm"
    by (simp_all add: clear_memory_logs_def clear_memory_loop_dropWhile tail_rep_mem [OF rep] b'(3))
  ultimately have "tail_inv E b' (clear_memory_logs i lm)"
    using inv b'(1) tail_rep_le [OF rep] l(2) unfolding tail_inv_def tail_rep_def last_rep_def f by auto
  with b'(1) some show ?thesis by blast
qed


section \<open>A conflicting append\<close>

lemma pop_memory_back_one:
  "m - 1 \<le> k \<Longrightarrow> k < m \<Longrightarrow> b < m \<Longrightarrow> tail_inv E b lm \<Longrightarrow> lm_max_log_index lm = m \<Longrightarrow> E (m - 1) \<noteq> None \<Longrightarrow>
     pop_memory_back k (rev (lm_logs_in_memory lm)) = Inr (rev (map E [b..m - 1]))"
proof -
  assume k: "m - 1 \<le> k" "k < m" and b: "b < m" and inv: "tail_inv E b lm" and m: "lm_max_log_index lm = m"
    and prev: "E (m - 1) \<noteq> None"
  note rep = tail_invD(1) [OF inv]
  obtain d where d: "E m = Some d" using tail_invD(3) [OF inv] b m by auto
  obtain p where p: "E (m - 1) = Some p" using prev by blast
  have "[b..m] = [b..m - 2] @ [m - 1, m]" using b upto_rec2 [of b m] upto_rec2 [of b "m - 1"] by (simp add: algebra_simps)
  moreover have "[b..m - 1] = [b..m - 2] @ [m - 1]" using b upto_rec2 [of b "m - 1"] by (simp add: algebra_simps)
  moreover have "le_index d = m" "le_index p = m - 1" using tail_rep_bound [OF rep] d p by blast+
  ultimately show ?thesis using k d p tail_rep_mem [OF rep] by (simp add: m)
qed

text \<open>
  C38. After a conflict at the end of the log is truncated, the replacing entry is written one slot too low:
  \<open>unsafe_truncate_suffix\<close> shrinks the deque without lowering \<open>_max_log_index\<close>, from which
  \<open>append_entries\<close> computes the slot. The previous entry is overwritten in memory and its index now
  reads as the entry before it.
\<close>

theorem conflict_append_shifts_log:
  assumes inv: "tail_inv E b lm" and m: "lm_max_log_index lm = m" "lm_last_log_index lm = m" "b \<le> m - 2" "lm_first_log_index lm < m"
      "1 < m"
    and e: "le_index e = m" "le_type e \<noteq> ENTRY_TYPE_CONFIGURATION"
    and d: "E m = Some d" "le_term d \<noteq> 0" "le_term d \<noteq> le_term e"
    and a: "id_index (lm_applied_id lm) < m" and err: "\<not> lm_has_error lm"
  shows "\<exists>evs lm'. lm_append_entries [e] c ooRep lm = Inr (evs, lm') \<and> get_entry_from_memory m lm' = Inr (Some e) \<and>
     get_entry_from_memory (m - 1) lm' = Inr (E (m - 2))"
proof -
  note rep = tail_invD(1) [OF inv] and l = last_repD(3) [OF tail_invD(2) [OF inv]]
  have prev: "E (m - 1) \<noteq> None" using l m by auto
  then obtain p where p: "E (m - 1) = Some p" by blast
  have up: "[b..m - 1] = [b..m - 2] @ [m - 1]" using m(3) upto_rec2 [of b "m - 1"] by (simp add: algebra_simps)
  have t: "unsafe_get_term m lm = Inr (le_term d)"
    using m d by (simp add: unsafe_get_term_def get_entry_from_memory_rep [OF inv])
  have pop: "pop_memory_back (m - 1) (rev (lm_logs_in_memory lm)) = Inr (rev (map E [b..m - 1]))"
    by (rule pop_memory_back_one [OF _ _ _ inv m(1) prev]) (use m(3) in auto)
  let ?lm1 = "lm\<lparr>lm_logs_in_memory := map E [b..m - 1], lm_last_log_index := m - 1\<rparr>"
  have ip: "le_index p = m - 1" using tail_rep_bound [OF rep p] by simp
  have t1: "unsafe_get_term (m - 1) ?lm1 = Inr (le_term p)"
    using m ip by (simp add: unsafe_get_term_def get_entry_from_memory_def Let_def up p nth_append)
  let ?lm2 = "enqueue (Truncate_suffix_closure (m - 1) (le_term p))
    (?lm1\<lparr>lm_config_manager := cm_truncate_suffix (m - 1) (lm_config_manager lm)\<rparr>)"
  have tr: "unsafe_truncate_suffix (m - 1) lm = Inr ?lm2"
    using a t1 by (simp add: unsafe_truncate_suffix_def pop)
  have res: "check_and_resolve_conflict [e] ooRep lm = Inr (OK0, [e], None, ?lm2)"
    using m e d a by (simp add: check_and_resolve_conflict_def t tr enqueue_def)
  let ?lm3 = "?lm2\<lparr>lm_logs_in_memory := map E [b..m - 2] @ [Some e],
      lm_dependency_bitmap := set_bit 0 (lm_dependency_bitmap lm), lm_last_log_index := m\<rparr>"
  have fill: "fill_and_place [e] ?lm2 = Inr ?lm3"
    using m e by (simp add: fill_and_place_def enqueue_def up nth_append list_update_append numeral_2_eq_2 Let_def)
  have cm: "?lm2\<lparr>lm_config_manager := lm_config_manager ?lm2\<rparr> = ?lm2" by simp
  have run: "lm_append_entries [e] c ooRep lm = Inr (wakeup_all_waiter (enqueue (Stable_closure c m [e]) ?lm3))"
    unfolding lm_append_entries_def Let_def
    using err e by (simp only: res add_no_configurations cm fill if_False list.simps sum.case prod.case simp_thms
        ball_simps list.set ball_empty add_configurations.simps list.sel if_not_P)
  let ?lm4 = "(enqueue (Stable_closure c m [e]) ?lm3)\<lparr>lm_wait_map := []\<rparr>"
  have mem: "lm_logs_in_memory ?lm4 = map E [b..m - 2] @ [Some e]" by (simp add: enqueue_def)
  have "get_entry_from_memory m ?lm4 = Inr (Some e)" "get_entry_from_memory (m - 1) ?lm4 = Inr (E (m - 2))"
    unfolding get_entry_from_memory_def mem using m(3) e(1) by (simp_all add: Let_def nth_append)
  with run show ?thesis unfolding wakeup_all_waiter_eq by blast
qed

section \<open>Witnesses\<close>

definition demo_manager :: "(nat, nat) log_manager" where
  "demo_manager = new_log_manager (new_segment_log True (Some 1)) new_configuration_manager"

definition demo_manager3 :: "(nat, nat) log_manager" where
  "demo_manager3 = (fold push_received [data_entry 1 1 [], data_entry 2 1 [7], data_entry 3 1 [8]] demo_manager)
     \<lparr>lm_last_log_index := 3, lm_dependency_look_back := 63, lm_disk_id := LogId 3 1\<rparr>"

abbreviation demo_received :: received where
  "demo_received \<equiv> put_all [data_entry 1 1 [], data_entry 2 1 [7], data_entry 3 1 [8]] Map.empty"

lemma demo_manager_inv: "tail_inv Map.empty 1 demo_manager"
  by (simp add: tail_inv_def tail_rep_def last_rep_def demo_manager_def new_log_manager_def)

lemma demo_manager3_inv: "tail_inv demo_received 1 demo_manager3"
proof -
  have c: "consecutive_from (lm_max_log_index demo_manager + 1) [data_entry 1 1 [], data_entry 2 1 [7], data_entry 3 1 [8]]"
    by (simp add: demo_manager_def new_log_manager_def data_entry_def)
  note f = fold_push_received [OF tail_invD(1) [OF demo_manager_inv] c]
  have m: "lm_max_log_index demo_manager3 = 3"
    unfolding demo_manager3_def using f by (simp add: demo_manager_def new_log_manager_def)
  have rep: "tail_rep demo_received 1 demo_manager3"
    unfolding demo_manager3_def by (rule tail_rep_cong [OF conjunct1 [OF f]]) simp_all
  have l: "lm_last_log_index demo_manager3 = 3" by (simp add: demo_manager3_def)
  have "last_rep demo_received 1 demo_manager3"
    unfolding last_rep_def l m by (auto simp: data_entry_def)
  moreover have "demo_received 3 \<noteq> None" by (simp add: data_entry_def)
  ultimately show ?thesis using rep unfolding tail_inv_def m by blast
qed

lemma demo_manager3_fields: "lm_max_log_index demo_manager3 = 3" "lm_last_log_index demo_manager3 = 3"
  "lm_first_log_index demo_manager3 = 0" "lm_applied_id demo_manager3 = LogId 0 0" "\<not> lm_has_error demo_manager3"
  "lm_dependency_look_back demo_manager3 = 63" "lm_disk_id demo_manager3 = LogId 3 1"
  by (simp_all add: demo_manager3_def push_received_def demo_manager_def new_log_manager_def new_log_id_def)

text \<open>The entries 2 and 3 arrive first.\<close>

theorem append_records_received_witness:
  "\<exists>lm'. lm_append_entries [data_entry 2 1 [], data_entry 3 1 [7]] 5 True demo_manager = Inr ([], lm') \<and>
     tail_inv (put_all [data_entry 2 1 [], data_entry 3 1 [7]] Map.empty) 1 lm'"
proof -
  let ?es = "[data_entry 2 1 [], data_entry 3 1 [7]]"
  have st: "sl_get_term i (lm_storage demo_manager) = Inr 0" for i
    by (simp add: demo_manager_def new_log_manager_def sl_get_term_def get_segment_def new_segment_log_def)
  have "lm_wait_map demo_manager = []" by (simp add: demo_manager_def new_log_manager_def)
  moreover have "\<exists>lm'. lm_append_entries ?es 5 True demo_manager =
      Inr (map (\<lambda>(_, w). Wake_waiter w (if lm_stopped demo_manager then ESTOP else OK0)) (lm_wait_map demo_manager), lm') \<and>
      tail_inv (put_all ?es Map.empty) 1 lm' \<and> lm_last_log_index demo_manager \<le> lm_last_log_index lm' \<and>
      lm_disk_queue lm' = lm_disk_queue demo_manager @ [Stable_closure 5 2 ?es]"
    by (rule append_records_received [OF demo_manager_inv])
      (simp_all add: agrees_def st, simp_all add: data_entry_def demo_manager_def new_log_manager_def new_log_id_def)
  ultimately show ?thesis by (simp del: put_all_simps) blast
qed



text \<open>Entry 3 of term 1 is replaced by one of term 2; index 2 then reads as entry 1.\<close>

theorem conflict_append_shifts_log_witness:
  "\<exists>evs lm'. lm_append_entries [data_entry 3 2 []] 5 True demo_manager3 = Inr (evs, lm') \<and>
     get_entry_from_memory 2 lm' = Inr (Some (data_entry 1 1 []))"
proof -
  have "\<exists>evs lm'. lm_append_entries [data_entry 3 2 []] 5 True demo_manager3 = Inr (evs, lm') \<and>
      get_entry_from_memory 3 lm' = Inr (Some (data_entry 3 2 [])) \<and>
      get_entry_from_memory (3 - 1) lm' = Inr (demo_received (3 - 2))"
    by (rule conflict_append_shifts_log [OF demo_manager3_inv, where d = "data_entry 3 1 [8]"])
      (simp_all add: demo_manager3_fields, simp_all add: data_entry_def)
  then show ?thesis by (auto simp: data_entry_def)
qed

end
