(* ===== verification/Append_Cache.thy ===== *)
theory Append_Cache
  imports Log_Manager
begin

text \<open>
  The messages of \<open>src/protos/raft_message.proto\<close> and \<open>NodeImpl::AppendEntriesCache\<close> of
  \<open>src/cpp/node.cc\<close>: the requests a follower keeps until the entries they depend on have arrived.
  An rpc is identified by a value of type \<open>'r\<close>, which stands for the pointers to its controller, response and
  \<open>done\<close>. Starting the background thread and the timer may fail; whether they do is an input.
\<close>

section \<open>Messages\<close>

record entry_meta =
  em_term :: int64
  em_type :: entry_type
  em_peers :: "string list"
  em_data_len :: "int64 option"
  em_old_peers :: "string list"
  em_dependency :: int64

record append_request =
  ae_server_id :: string
  ae_term :: int64
  ae_prev_log_term :: int64
  ae_prev_log_index :: int64
  ae_entries :: "entry_meta list"
  ae_committed_index :: int64
  ae_committed_oo_index :: "int64 list"
  ae_dependency :: int64

record append_response =
  ar_term :: int64
  ar_success :: bool
  ar_last_log_index :: "int64 option"

section \<open>State\<close>

record 'r append_rpc =
  rpc_id :: 'r
  rpc_request :: append_request
  rpc_attachment :: "byte list"
  rpc_receive_time_ms :: int64

text \<open>
  \<open>_rpc_queue\<close> is an intrusive list of the rpcs, \<open>_rpc_map\<close> a \<open>std::map\<close> from \<open>prev_log_index\<close>: a list with
  increasing keys. \<open>_timer\<close> is set or not.
\<close>

record 'r append_cache =
  ac_rpc_queue :: "'r append_rpc list"
  ac_rpc_map :: "(int64 \<times> 'r append_rpc) list"
  ac_timer :: bool
  ac_cache_version :: int64
  ac_timer_version :: int64

record cache_env =
  ce_bthread_ok :: bool
  ce_timer_add_ok :: bool
  ce_timer_del_ok :: bool
  ce_max_cache_size :: nat

text \<open>Handing rpcs to a background thread, or answering each with an error when it does not start.\<close>

datatype 'r cache_event =
    Handle_from_cache "'r append_rpc list"
  | Ack_fail 'r

definition new_append_cache :: "'r append_cache" where
  "new_append_cache =
     \<lparr>ac_rpc_queue = [], ac_rpc_map = [], ac_timer = False, ac_cache_version = 0, ac_timer_version = 0\<rparr>"

definition ac_first_index :: "'r append_cache \<Rightarrow> int64 res" where
  "ac_first_index ac =
     (case ac_rpc_map ac of
        [] \<Rightarrow> Inl Empty_container
      | (_, rpc) # _ \<Rightarrow> Inr (ae_prev_log_index (rpc_request rpc) + 1))"

definition ac_empty :: "'r append_cache \<Rightarrow> bool" where
  "ac_empty ac \<longleftrightarrow> ac_rpc_map ac = []"

section \<open>Operations\<close>

definition start_to_handle :: "cache_env \<Rightarrow> 'r append_rpc list \<Rightarrow> 'r cache_event list" where
  "start_to_handle ce rpcs =
     (if ce_bthread_ok ce then [Handle_from_cache rpcs] else map (\<lambda>rpc. Ack_fail (rpc_id rpc)) rpcs)"

text \<open>\<open>start_timer\<close> reads the head of \<open>_rpc_queue\<close> for its due time.\<close>

definition ac_start_timer :: "cache_env \<Rightarrow> 'r append_cache \<Rightarrow> (bool \<times> 'r append_cache) res" where
  "ac_start_timer ce ac =
     (if ac_rpc_queue ac = [] then Inl Null_deref
      else Inr (ce_timer_add_ok ce,
                ac\<lparr>ac_timer_version := ac_timer_version ac + 1, ac_timer := ac_timer ac \<or> ce_timer_add_ok ce\<rparr>))"

definition ac_stop_timer :: "cache_env \<Rightarrow> 'r append_cache \<Rightarrow> 'r append_cache" where
  "ac_stop_timer ce ac =
     (if \<not> ac_timer ac then ac
      else ac\<lparr>ac_timer_version := ac_timer_version ac + 1, ac_timer := \<not> ce_timer_del_ok ce\<rparr>)"

text \<open>\<open>RemoveFromList\<close> of an rpc.\<close>

definition remove_rpc :: "'r \<Rightarrow> 'r append_rpc list \<Rightarrow> 'r append_rpc list" where
  "remove_rpc r rpcs = filter (\<lambda>rpc. rpc_id rpc \<noteq> r) rpcs"

definition ac_clear :: "cache_env \<Rightarrow> 'r append_cache \<Rightarrow> 'r cache_event list \<times> 'r append_cache" where
  "ac_clear ce ac =
     (let ac1 = ac_stop_timer ce ac
      in (start_to_handle ce (ac_rpc_queue ac1), ac1\<lparr>ac_rpc_queue := [], ac_rpc_map := []\<rparr>))"

text \<open>\<open>std::map::insert\<close> keeps the old value of a key that is present.\<close>

fun rpc_map_insert :: "int64 \<Rightarrow> 'r append_rpc \<Rightarrow> (int64 \<times> 'r append_rpc) list \<Rightarrow> (int64 \<times> 'r append_rpc) list" where
  "rpc_map_insert k rpc [] = [(k, rpc)]"
| "rpc_map_insert k rpc ((k', rpc') # m) =
     (if k < k' then (k, rpc) # (k', rpc') # m
      else if k = k' then (k', rpc') # m
      else (k', rpc') # rpc_map_insert k rpc m)"

text \<open>The loop that releases the rpcs with the largest keys until the map fits.\<close>

function release_excess :: "nat \<Rightarrow> 'r append_cache \<Rightarrow> 'r append_rpc list \<Rightarrow> 'r append_rpc list \<times> 'r append_cache" where
  "release_excess n ac rpcs =
     (if length (ac_rpc_map ac) > n then
        (let rpc = snd (last (ac_rpc_map ac))
         in release_excess n (ac\<lparr>ac_rpc_map := butlast (ac_rpc_map ac),
                                 ac_rpc_queue := remove_rpc (rpc_id rpc) (ac_rpc_queue ac)\<rparr>) (rpcs @ [rpc]))
      else (rpcs, ac))"
  by pat_completeness auto
termination
  by (relation "measure (\<lambda>(n, ac, rpcs). length (ac_rpc_map ac))") auto

declare release_excess.simps [simp del]

definition ac_store :: "cache_env \<Rightarrow> 'r append_rpc \<Rightarrow> 'r append_cache \<Rightarrow> ('r cache_event list \<times> 'r append_cache) res" where
  "ac_store ce rpc ac =
     (let ac1 = ac\<lparr>ac_rpc_queue := ac_rpc_queue ac @ [rpc],
                   ac_rpc_map := rpc_map_insert (ae_prev_log_index (rpc_request rpc)) rpc (ac_rpc_map ac)\<rparr>
      in case (if length (ac_rpc_map ac1) = 1 then ac_start_timer ce ac1 else Inr (True, ac1)) of
           Inl f \<Rightarrow> Inl f
         | Inr (ok, ac2) \<Rightarrow>
             (if \<not> ok then Inr (ac_clear ce ac2)
              else (let (rpcs, ac3) = release_excess (ce_max_cache_size ce) ac2 []
                    in Inr (if rpcs = [] then [] else start_to_handle ce rpcs, ac3))))"

text \<open>The test of \<open>process_runable_rpcs\<close>, negated: the dependencies of the rpc are in the bitmap.\<close>

definition runable :: "1024 word \<Rightarrow> int64 \<Rightarrow> 'r append_rpc \<Rightarrow> bool" where
  "runable dependency_bitmap last_log_index rpc =
     (let d = bitset_of_int64 (ae_dependency (rpc_request rpc));
          index = ae_prev_log_index (rpc_request rpc) + int (length (ae_entries (rpc_request rpc)));
          gap = last_log_index - index
      in if gap > 0 then drop_bit (nat gap) dependency_bitmap AND d = d
         else push_bit (nat (- gap)) dependency_bitmap AND d = d)"

fun split_runable ::
    "1024 word \<Rightarrow> int64 \<Rightarrow> (int64 \<times> 'r append_rpc) list \<Rightarrow> 'r append_rpc list \<times> (int64 \<times> 'r append_rpc) list" where
  "split_runable bm last_index [] = ([], [])"
| "split_runable bm last_index ((k, rpc) # m) =
     (let (rpcs, rest) = split_runable bm last_index m
      in if runable bm last_index rpc then (rpc # rpcs, rest) else (rpcs, (k, rpc) # rest))"

definition process_runable_rpcs ::
    "cache_env \<Rightarrow> 1024 word \<Rightarrow> int64 \<Rightarrow> 'r append_cache \<Rightarrow> 'r cache_event list \<times> 'r append_cache" where
  "process_runable_rpcs ce dependency_bitmap last_log_index ac =
     (if ac_rpc_map ac = [] \<or> ac_rpc_queue ac = [] then ([], ac)
      else (let (rpcs, rest) = split_runable dependency_bitmap last_log_index (ac_rpc_map ac);
                ac1 = ac\<lparr>ac_rpc_map := rest, ac_rpc_queue := fold (\<lambda>rpc. remove_rpc (rpc_id rpc)) rpcs (ac_rpc_queue ac)\<rparr>
            in (if rpcs = [] then [] else start_to_handle ce rpcs,
                if rest = [] then ac_stop_timer ce ac1 else ac1)))"

definition do_handle_append_entries_cache_timedout ::
    "cache_env \<Rightarrow> int64 \<Rightarrow> int64 \<Rightarrow> 'r append_cache \<Rightarrow> ('r cache_event list \<times> 'r append_cache) res" where
  "do_handle_append_entries_cache_timedout ce timer_version timer_start_ms ac =
     (if timer_version \<noteq> ac_timer_version ac then Inr ([], ac)
      else (case ac_rpc_queue ac of
              [] \<Rightarrow> Inl Null_deref
            | rpc # _ \<Rightarrow>
                (if rpc_receive_time_ms rpc \<le> timer_start_ms then Inr (ac_clear ce ac)
                 else (case ac_start_timer ce ac of
                         Inl f \<Rightarrow> Inl f
                       | Inr (ok, ac1) \<Rightarrow> Inr (if ok then ([], ac1) else ac_clear ce ac1)))))"

section \<open>What is released\<close>

definition rpc_index :: "'r append_rpc \<Rightarrow> int64" where
  "rpc_index rpc = ae_prev_log_index (rpc_request rpc) + int (length (ae_entries (rpc_request rpc)))"

lemma split_runable_eq:
  "split_runable bm l m = (map snd (filter (\<lambda>(_, rpc). runable bm l rpc) m), filter (\<lambda>(_, rpc). \<not> runable bm l rpc) m)"
  by (induction bm l m rule: split_runable.induct) auto

lemma runable_check_dependency:
  assumes "lm_max_log_index lm - rpc_index rpc + lm_dependency_look_back lm < 1024"
  shows "runable (lm_dependency_bitmap lm) (lm_max_log_index lm) rpc \<longleftrightarrow>
     lm_check_dependency (rpc_index rpc) (ae_dependency (rpc_request rpc)) lm"
proof -
  have zero: "bitset_of_int64 0 = 0" by (simp add: bitset_of_int64_def)
  have shift: "nat (- (lm_max_log_index lm - i)) = nat (i - lm_max_log_index lm)" for i by simp
  have "drop_bit 0 w = push_bit 0 (w :: 1024 word)" for w by simp
  then show ?thesis
    using assms unfolding runable_def lm_check_dependency_def Let_def rpc_index_def [symmetric] shift
    by (cases "lm_max_log_index lm = rpc_index rpc") (auto simp: zero)
qed


lemma process_keeps:
  assumes "process_runable_rpcs ce bm l ac = (evs, ac')" "(k, rpc) \<in> set (ac_rpc_map ac)" "\<not> runable bm l rpc"
  shows "(k, rpc) \<in> set (ac_rpc_map ac')"
proof -
  let ?rest = "filter (\<lambda>(_, rpc). \<not> runable bm l rpc) (ac_rpc_map ac)"
  have mem: "(k, rpc) \<in> set ?rest" using assms(2,3) by simp
  then have "?rest \<noteq> []" by (metis empty_iff empty_set)
  then have "ac_rpc_map ac' = ?rest \<or> ac_rpc_map ac' = ac_rpc_map ac"
    using assms(1) unfolding process_runable_rpcs_def split_runable_eq Let_def prod.case by (auto split: if_splits)
  with mem assms(2) show ?thesis by auto
qed

text \<open>
  A cached request that fell 1024 or more places behind is stuck: the log manager would accept it, since
  its dependencies are beyond the bitmap, but the cache shifts the bitmap to zero and keeps it.
\<close>

theorem cache_keeps_request_behind_window:
  assumes "(k, rpc) \<in> set (ac_rpc_map ac)" "lm_max_log_index lm - rpc_index rpc \<ge> 1024" "0 \<le> lm_dependency_look_back lm"
    "word_of_int (ae_dependency (rpc_request rpc)) \<noteq> (0 :: 64 word)"
    "process_runable_rpcs ce (lm_dependency_bitmap lm) (lm_max_log_index lm) ac = (evs, ac')"
  shows "lm_check_dependency (rpc_index rpc) (ae_dependency (rpc_request rpc)) lm \<and> (k, rpc) \<in> set (ac_rpc_map ac')"
proof -
  let ?d = "ae_dependency (rpc_request rpc)"
  obtain j where "bit (word_of_int ?d :: 64 word) j" using assms(4) by (auto simp: bit_eq_iff)
  then have "bitset_of_int64 ?d \<noteq> 0" using bit_bitset_of_int64 [of ?d j] by auto
  moreover have "drop_bit (nat (lm_max_log_index lm - rpc_index rpc)) (lm_dependency_bitmap lm) = 0"
    using assms(2) by (intro bit_word_eqI) (auto simp: bit_drop_bit_eq dest: bit_imp_le_length)
  ultimately have "\<not> runable (lm_dependency_bitmap lm) (lm_max_log_index lm) rpc"
    using assms(2) unfolding runable_def Let_def rpc_index_def by simp
  then have "(k, rpc) \<in> set (ac_rpc_map ac')" by (rule process_keeps [OF assms(5,1)])
  moreover have "lm_check_dependency (rpc_index rpc) ?d lm"
    using assms(2,3) by (simp add: lm_check_dependency_def Let_def)
  ultimately show ?thesis by blast
qed

section \<open>Retransmitted requests\<close>

datatype 'r cache_op = Cache_store "'r append_rpc" | Cache_process "1024 word" int64

fun cache_run :: "cache_env \<Rightarrow> 'r cache_op list \<Rightarrow> 'r append_cache \<Rightarrow> ('r cache_event list \<times> 'r append_cache) res" where
  "cache_run ce [] ac = Inr ([], ac)"
| "cache_run ce (op # ops) ac =
     (case (case op of Cache_store rpc \<Rightarrow> ac_store ce rpc ac | Cache_process bm l \<Rightarrow> Inr (process_runable_rpcs ce bm l ac)) of
        Inl f \<Rightarrow> Inl f
      | Inr (evs, ac1) \<Rightarrow>
          (case cache_run ce ops ac1 of Inl f \<Rightarrow> Inl f | Inr (evs2, ac2) \<Rightarrow> Inr (evs @ evs2, ac2)))"

definition map_ids :: "'r append_cache \<Rightarrow> 'r set" where
  "map_ids ac = rpc_id ` snd ` set (ac_rpc_map ac)"

fun event_ids :: "'r cache_event \<Rightarrow> 'r set" where
  "event_ids (Handle_from_cache rpcs) = rpc_id ` set rpcs"
| "event_ids (Ack_fail r) = {r}"

definition handled_ids :: "'r cache_event list \<Rightarrow> 'r set" where
  "handled_ids evs = (\<Union>e \<in> set evs. event_ids e)"

lemma handled_ids_simps [simp]:
  "handled_ids [] = {}" "handled_ids (xs @ ys) = handled_ids xs \<union> handled_ids ys"
  "handled_ids (start_to_handle ce rpcs) = rpc_id ` set rpcs"
  by (auto simp: handled_ids_def start_to_handle_def)

lemma rpc_map_insert_set: "set (rpc_map_insert k rpc m) \<subseteq> insert (k, rpc) (set m)"
  by (induction k rpc m rule: rpc_map_insert.induct) auto

lemma rpc_map_insert_present: "k \<in> fst ` set m \<Longrightarrow> sorted_wrt (<) (map fst m) \<Longrightarrow> rpc_map_insert k rpc m = m"
  by (induction k rpc m rule: rpc_map_insert.induct) fastforce+

lemma release_excess_ids:
  "release_excess n ac rpcs = (out, ac') \<Longrightarrow>
     rpc_id ` set out \<subseteq> rpc_id ` set rpcs \<union> map_ids ac \<and> map_ids ac' \<subseteq> map_ids ac"
proof (induction n ac rpcs arbitrary: out ac' rule: release_excess.induct)
  case (1 n ac rpcs)
  show ?case
  proof (cases "length (ac_rpc_map ac) > n")
    case True
    let ?rpc = "snd (last (ac_rpc_map ac))"
    let ?ac = "ac\<lparr>ac_rpc_map := butlast (ac_rpc_map ac), ac_rpc_queue := remove_rpc (rpc_id ?rpc) (ac_rpc_queue ac)\<rparr>"
    have run: "release_excess n ?ac (rpcs @ [?rpc]) = (out, ac')"
      using "1.prems" True by (subst (asm) release_excess.simps) (simp add: Let_def)
    have ne: "ac_rpc_map ac \<noteq> []" using True by auto
    then have "rpc_id ?rpc \<in> map_ids ac" "map_ids ?ac \<subseteq> map_ids ac" by (auto simp: map_ids_def dest: in_set_butlastD)
    with "1.IH" [OF True refl run] show ?thesis by auto
  next
    case False
    then show ?thesis using "1.prems" by (subst (asm) release_excess.simps) auto
  qed
qed

lemma store_ids:
  assumes "ac_store ce rpc ac = Inr (evs, ac')" "ce_timer_add_ok ce"
  shows "handled_ids evs \<subseteq> insert (rpc_id rpc) (map_ids ac) \<and> map_ids ac' \<subseteq> insert (rpc_id rpc) (map_ids ac)"
proof -
  let ?ac1 = "ac\<lparr>ac_rpc_queue := ac_rpc_queue ac @ [rpc],
                   ac_rpc_map := rpc_map_insert (ae_prev_log_index (rpc_request rpc)) rpc (ac_rpc_map ac)\<rparr>"
  have ids1: "map_ids ?ac1 \<subseteq> insert (rpc_id rpc) (map_ids ac)"
    using rpc_map_insert_set [of "ae_prev_log_index (rpc_request rpc)" rpc "ac_rpc_map ac"] by (fastforce simp: map_ids_def)
  obtain ac2 where ac2: "(if length (ac_rpc_map ?ac1) = 1 then ac_start_timer ce ?ac1 else Inr (True, ?ac1)) = Inr (True, ac2)"
      "map_ids ac2 = map_ids ?ac1"
    using assms(2) by (cases "length (ac_rpc_map ?ac1) = 1") (auto simp: ac_start_timer_def map_ids_def)
  obtain out ac3 where r: "release_excess (ce_max_cache_size ce) ac2 [] = (out, ac3)" by fastforce
  have "evs = (if out = [] then [] else start_to_handle ce out)" "ac' = ac3"
    using assms(1) unfolding ac_store_def Let_def ac2(1) by (auto simp: r)
  then show ?thesis using release_excess_ids [OF r] ac2(2) ids1 by auto
qed

lemma process_ids:
  assumes "process_runable_rpcs ce bm l ac = (evs, ac')"
  shows "handled_ids evs \<subseteq> map_ids ac \<and> map_ids ac' \<subseteq> map_ids ac"
  using assms unfolding process_runable_rpcs_def split_runable_eq Let_def
  by (auto simp: map_ids_def ac_stop_timer_def split: if_splits) (force+)?

lemma cache_run_ids:
  "cache_run ce ops ac = Inr (evs, ac') \<Longrightarrow> ce_timer_add_ok ce \<Longrightarrow> r \<notin> map_ids ac \<Longrightarrow>
     \<forall>rpc. Cache_store rpc \<in> set ops \<longrightarrow> rpc_id rpc \<noteq> r \<Longrightarrow> r \<notin> handled_ids evs"
proof (induction ops arbitrary: ac evs ac')
  case (Cons op ops)
  obtain evs1 ac1 evs2 ac2 where
    s: "(case op of Cache_store rpc \<Rightarrow> ac_store ce rpc ac | Cache_process bm l \<Rightarrow> Inr (process_runable_rpcs ce bm l ac)) = Inr (evs1, ac1)"
    and run: "cache_run ce ops ac1 = Inr (evs2, ac2)" and evs: "evs = evs1 @ evs2"
    using Cons.prems(1) by (auto split: sum.splits prod.splits)
  have "r \<notin> handled_ids evs1 \<and> r \<notin> map_ids ac1"
  proof (cases op)
    case (Cache_store rpc)
    then show ?thesis using s store_ids [of ce rpc ac evs1 ac1] Cons.prems by auto
  next
    case (Cache_process bm l)
    then show ?thesis using s process_ids [of ce bm l ac evs1 ac1] Cons.prems by auto
  qed
  moreover have "\<forall>rpc. Cache_store rpc \<in> set ops \<longrightarrow> rpc_id rpc \<noteq> r" using Cons.prems(4) by simp
  ultimately show ?case using Cons.IH [OF run Cons.prems(2)] evs by simp
qed simp

text \<open>
  A retransmitted request is never answered: when a request with the same \<open>prev_log_index\<close> is cached,
  \<open>store\<close> keeps the new one only in \<open>_rpc_queue\<close>. No later sequence of \<open>store\<close> and \<open>process_runable_rpcs\<close>
  hands it out, and the timer that would clear the cache does nothing.
\<close>

theorem retransmitted_request_never_handled:
  assumes key: "ae_prev_log_index (rpc_request rpc) \<in> fst ` set (ac_rpc_map ac)" "sorted_wrt (<) (map fst (ac_rpc_map ac))"
    and new: "rpc_id rpc \<notin> map_ids ac" and ok: "ce_timer_add_ok ce"
    and store: "ac_store ce rpc ac = Inr (evs, ac1)"
    and others: "\<forall>rpc'. Cache_store rpc' \<in> set ops \<longrightarrow> rpc_id rpc' \<noteq> rpc_id rpc"
    and run: "cache_run ce ops ac1 = Inr (evs', ac')"
  shows "rpc_id rpc \<notin> handled_ids evs \<and> rpc_id rpc \<notin> handled_ids evs'"
proof -
  let ?ac1 = "ac\<lparr>ac_rpc_queue := ac_rpc_queue ac @ [rpc]\<rparr>"
  have same: "rpc_map_insert (ae_prev_log_index (rpc_request rpc)) rpc (ac_rpc_map ac) = ac_rpc_map ac"
    by (rule rpc_map_insert_present [OF key])
  obtain ac2 where ac2: "(if length (ac_rpc_map ?ac1) = 1 then ac_start_timer ce ?ac1 else Inr (True, ?ac1)) = Inr (True, ac2)"
      "map_ids ac2 = map_ids ac"
    using ok by (cases "length (ac_rpc_map ?ac1) = 1") (auto simp: ac_start_timer_def map_ids_def)
  obtain out ac3 where r: "release_excess (ce_max_cache_size ce) ac2 [] = (out, ac3)" by fastforce
  have eq: "ac\<lparr>ac_rpc_queue := ac_rpc_queue ac @ [rpc], ac_rpc_map := ac_rpc_map ac\<rparr> = ?ac1" by simp
  have "evs = (if out = [] then [] else start_to_handle ce out)" "ac1 = ac3"
    using store unfolding ac_store_def Let_def same eq ac2(1) by (auto simp: r)
  then have "rpc_id rpc \<notin> handled_ids evs" "rpc_id rpc \<notin> map_ids ac1"
    using release_excess_ids [OF r] ac2(2) new by auto
  with cache_run_ids [OF run ok _ others] show ?thesis by blast
qed

section \<open>Witnesses\<close>

definition demo_request :: "int64 \<Rightarrow> int64 \<Rightarrow> append_request" where
  "demo_request prev d =
     \<lparr>ae_server_id = ''s'', ae_term = 1, ae_prev_log_term = 1, ae_prev_log_index = prev,
      ae_entries = [\<lparr>em_term = 1, em_type = ENTRY_TYPE_DATA, em_peers = [], em_data_len = None, em_old_peers = [],
                     em_dependency = d\<rparr>],
      ae_committed_index = 0, ae_committed_oo_index = [], ae_dependency = d\<rparr>"

definition demo_rpc :: "nat \<Rightarrow> int64 \<Rightarrow> int64 \<Rightarrow> nat append_rpc" where
  "demo_rpc r prev d = \<lparr>rpc_id = r, rpc_request = demo_request prev d, rpc_attachment = [], rpc_receive_time_ms = 0\<rparr>"

definition demo_env :: cache_env where
  "demo_env = \<lparr>ce_bthread_ok = True, ce_timer_add_ok = True, ce_timer_del_ok = True, ce_max_cache_size = 8\<rparr>"

definition demo_cache :: "nat append_cache" where
  "demo_cache = new_append_cache\<lparr>ac_rpc_queue := [demo_rpc 1 4 4, demo_rpc 2 5 2],
     ac_rpc_map := [(4, demo_rpc 1 4 4), (5, demo_rpc 2 5 2)], ac_timer := True\<rparr>"

lemma demo_dependency_bits:
  "bit (word_of_int 4 :: 64 word) j \<longleftrightarrow> j = 2" "bit (word_of_int 2 :: 64 word) j \<longleftrightarrow> j = 1"
  using bit_exp_iff [where 'a = "64 word", of 2 j] bit_exp_iff [where 'a = "64 word", of 1 j] by auto


definition demo_manager_far :: "(nat, nat) log_manager" where
  "demo_manager_far = demo_manager\<lparr>lm_max_log_index := 2000, lm_dependency_look_back := 63\<rparr>"

theorem cache_keeps_request_behind_window_witness:
  "(4, demo_rpc 1 4 4) \<in> set (ac_rpc_map (snd (process_runable_rpcs demo_env (lm_dependency_bitmap demo_manager_far)
       (lm_max_log_index demo_manager_far) demo_cache)))"
proof -
  let ?p = "process_runable_rpcs demo_env (lm_dependency_bitmap demo_manager_far) (lm_max_log_index demo_manager_far) demo_cache"
  have p: "?p = (fst ?p, snd ?p)" by simp
  have "lm_check_dependency (rpc_index (demo_rpc 1 4 4)) (ae_dependency (rpc_request (demo_rpc 1 4 4))) demo_manager_far \<and>
      (4, demo_rpc 1 4 4) \<in> set (ac_rpc_map (snd ?p))"
    by (rule cache_keeps_request_behind_window [OF _ _ _ _ p])
      (simp_all add: demo_cache_def demo_manager_far_def rpc_index_def demo_rpc_def demo_request_def)
  then show ?thesis by blast
qed

theorem retransmitted_request_never_handled_witness:
  "3 \<notin> handled_ids (case ac_store demo_env (demo_rpc 3 4 4) demo_cache of Inl _ \<Rightarrow> [] | Inr (evs, _) \<Rightarrow> evs)"
proof -
  obtain evs ac1 where s: "ac_store demo_env (demo_rpc 3 4 4) demo_cache = Inr (evs, ac1)"
    by (simp add: ac_store_def demo_cache_def demo_env_def demo_rpc_def demo_request_def release_excess.simps)
  have "rpc_id (demo_rpc 3 4 4) \<notin> handled_ids evs \<and> rpc_id (demo_rpc 3 4 4) \<notin> handled_ids []"
    by (rule retransmitted_request_never_handled [OF _ _ _ _ s, where ops = "[]"])
      (auto simp: demo_cache_def demo_env_def demo_rpc_def demo_request_def map_ids_def)
  then show ?thesis unfolding s by (simp add: demo_rpc_def)
qed

end
