(* ===== verification/Node.thy ===== *)
theory Node
  imports Peer_Text Append_Cache Ballot_Box
begin

text \<open>
  \<open>NodeImpl\<close> of \<open>src/cpp/node.h\<close> and \<open>node.cc\<close>: the state machine of a server. Each handler is a function on the
  node; calls that leave the node (timers, rpcs, replicators, closures) are events, in the order the code makes
  them. A handler that gives up the mutex in the middle to wait for the disk queue is split there: the first half
  returns what the second half needs, and other handlers may run in between.

  \<open>_current_term\<close> is an \<open>int\<close>: assignments to it truncate to 32 bits and incrementing it may overflow.
\<close>

section \<open>State\<close>

datatype state =
    STATE_LEADER
  | STATE_TRANSFERRING
  | STATE_CANDIDATE
  | STATE_FOLLOWER
  | STATE_ERROR
  | STATE_UNINITIALIZED
  | STATE_SHUTTING
  | STATE_SHUTDOWN

fun state_number :: "state \<Rightarrow> nat" where
  "state_number STATE_LEADER = 1"
| "state_number STATE_TRANSFERRING = 2"
| "state_number STATE_CANDIDATE = 3"
| "state_number STATE_FOLLOWER = 4"
| "state_number STATE_ERROR = 5"
| "state_number STATE_UNINITIALIZED = 6"
| "state_number STATE_SHUTTING = 7"
| "state_number STATE_SHUTDOWN = 8"

record vote_request =
  vr_server_id :: string
  vr_peer_id :: string
  vr_term :: int64
  vr_last_log_term :: int64
  vr_last_log_index :: int64

record vote_response =
  vp_term :: int64
  vp_granted :: bool

text \<open>The closures the node gives to the log manager: \<open>LeaderStableClosure\<close> and \<open>FollowerStableClosure\<close>.\<close>

datatype 'r stable_closure =
    Leader_stable nat
  | Follower_stable 'r append_request int64

datatype node_timer = Election_timer | Vote_timer | Stepdown_timer

datatype ('c, 'r, 'w) node_event =
    Start_timer node_timer
  | Stop_timer node_timer
  | Destroy_timer node_timer
  | Send_prevote peer_id int64 vote_request
  | Send_request_vote peer_id int64 vote_request
  | Reset_replicator_term int64
  | Add_replicator peer_id
  | Committed commit_event
  | Run_done 'c rc
  | Answer_append 'r append_response
  | Fail_append 'r
  | Cache_event "'r cache_event"
  | Log_event "('r stable_closure, 'w) lm_event"
  | Fsm_shutdown

record ('c, 'r, 'w) node =
  nd_server_id :: peer_id
  nd_peer_list :: configuration
  nd_leader_id :: peer_id
  nd_voted_id :: peer_id
  nd_current_term :: int
  nd_ballot_box :: "'c ballot_box"
  nd_prevote_ctx :: ballot
  nd_vote_ctx :: ballot
  nd_conf :: configuration_entry
  nd_last_leader_timestamp :: int64
  nd_state :: state
  nd_vote_triggered :: bool
  nd_log_manager :: "('r stable_closure, 'w) log_manager"
  nd_meta :: raft_meta
  nd_files :: file_system
  nd_dependency_id_queue :: "int64 list"
  nd_dependency_look_back :: int64
  nd_shutdown_continuations :: "'c list"
  nd_cache :: "'r append_cache option"
  nd_cache_version :: int64

text \<open>What the node depends on: flags, options, the outcome of the system calls and the address functions.\<close>

record node_env =
  ne_election_timeout_ms :: int64
  ne_step_down_when_vote_timedout :: bool
  ne_apply_batch :: nat
  ne_cache_enabled :: bool
  ne_oo_enabled :: bool
  ne_cache_env :: cache_env
  ne_str2ip :: "string \<Rightarrow> nat option"
  ne_endpoint2str :: "nat \<Rightarrow> int \<Rightarrow> string"
  ne_codec :: meta_codec
  ne_meta_path :: string
  ne_meta_sync :: bool
  ne_save_outcome :: save_outcome
  ne_channel_ok :: "peer_id \<Rightarrow> bool"

definition to_int32 :: "int64 \<Rightarrow> int" where
  "to_int32 t = sint (word_of_int t :: 32 word)"

definition int32_max :: int where
  "int32_max = 2147483647"

abbreviation old_conf_of :: "configuration_entry \<Rightarrow> configuration option" where
  "old_conf_of ce \<equiv> (if ce_stable ce then None else Some (ce_old_conf ce))"

definition node_set_term_and_votedfor ::
    "node_env \<Rightarrow> int64 \<Rightarrow> peer_id \<Rightarrow> ('c, 'r, 'w) node \<Rightarrow> ('c, 'r, 'w) node" where
  "node_set_term_and_votedfor ne term peer nd =
     (let (_, meta, files) = rm_set_term_and_votedfor (ne_codec ne) (peer_to_string (ne_endpoint2str ne)) (ne_meta_path ne)
                               (ne_meta_sync ne) (ne_save_outcome ne) term peer (nd_meta nd, nd_files nd)
      in nd\<lparr>nd_meta := meta, nd_files := files\<rparr>)"

definition node_set_votedfor :: "node_env \<Rightarrow> peer_id \<Rightarrow> ('c, 'r, 'w) node \<Rightarrow> ('c, 'r, 'w) node" where
  "node_set_votedfor ne peer nd =
     (let (_, meta, files) = rm_set_votedfor (ne_codec ne) (peer_to_string (ne_endpoint2str ne)) (ne_meta_path ne)
                               (ne_meta_sync ne) (ne_save_outcome ne) peer (nd_meta nd, nd_files nd)
      in nd\<lparr>nd_meta := meta, nd_files := files\<rparr>)"

section \<open>Stepping down\<close>

definition reset_leader_id :: "peer_id \<Rightarrow> ('c, 'r, 'w) node \<Rightarrow> ('c, 'r, 'w) node" where
  "reset_leader_id new_leader_id nd =
     (if is_empty_peer new_leader_id then nd\<lparr>nd_leader_id := empty_peer\<rparr> else nd\<lparr>nd_leader_id := new_leader_id\<rparr>)"

definition leave_state :: "('c, 'r, 'w) node \<Rightarrow> ('c, 'r, 'w) node_event list \<times> ('c, 'r, 'w) node" where
  "leave_state nd =
     (if nd_state nd = STATE_CANDIDATE then ([Stop_timer Vote_timer], nd)
      else if state_number (nd_state nd) \<le> state_number STATE_TRANSFERRING
      then (let (run, bb) = clear_pending_tasks (nd_ballot_box nd)
            in (Stop_timer Stepdown_timer # map (\<lambda>c. Run_done c EPERM) run, nd\<lparr>nd_ballot_box := bb\<rparr>))
      else ([], nd))"

definition step_down :: "node_env \<Rightarrow> int64 \<Rightarrow> ('c, 'r, 'w) node \<Rightarrow> ('c, 'r, 'w) node_event list \<times> ('c, 'r, 'w) node" where
  "step_down ne term nd =
     (let (evs, nd1) = leave_state (reset_leader_id empty_peer nd);
          nd2 = nd1\<lparr>nd_state := STATE_FOLLOWER\<rparr>
      in (evs @ [Start_timer Election_timer],
          if term > nd_current_term nd2
          then node_set_term_and_votedfor ne term empty_peer (nd2\<lparr>nd_current_term := to_int32 term, nd_voted_id := empty_peer\<rparr>)
          else nd2))"

definition check_step_down ::
    "node_env \<Rightarrow> int64 \<Rightarrow> peer_id \<Rightarrow> ('c, 'r, 'w) node \<Rightarrow> ('c, 'r, 'w) node_event list \<times> ('c, 'r, 'w) node" where
  "check_step_down ne request_term server_id nd =
     (let (evs, nd1) =
            (if request_term > nd_current_term nd then step_down ne request_term nd
             else if nd_state nd \<noteq> STATE_FOLLOWER then step_down ne request_term nd
             else if is_empty_peer (nd_leader_id nd) then step_down ne request_term nd
             else ([], nd))
      in (evs, if is_empty_peer (nd_leader_id nd1) then reset_leader_id server_id nd1 else nd1))"

definition increase_term_to ::
    "node_env \<Rightarrow> int64 \<Rightarrow> ('c, 'r, 'w) node \<Rightarrow> rc \<times> ('c, 'r, 'w) node_event list \<times> ('c, 'r, 'w) node" where
  "increase_term_to ne new_term nd =
     (if new_term \<le> nd_current_term nd then (EINVAL, [], nd)
      else (let (evs, nd1) = step_down ne new_term nd in (OK0, evs, nd1)))"

section \<open>Elections\<close>

text \<open>\<open>handle_prevote\<close>; \<open>last_log_id\<close> is the answer of the disk queue. The node does not change.\<close>

definition handle_prevote ::
    "node_env \<Rightarrow> vote_request \<Rightarrow> log_id \<Rightarrow> ('c, 'r, 'w) node \<Rightarrow> (rc \<times> vote_response option) res" where
  "handle_prevote ne request last_log_id nd =
     (case peer_parse (ne_str2ip ne) (vr_server_id request) of
        Inl f \<Rightarrow> Inl f
      | Inr None \<Rightarrow> Inr (EINVAL, None)
      | Inr (Some _) \<Rightarrow>
          Inr (OK0, Some \<lparr>vp_term = nd_current_term nd,
                          vp_granted = (vr_term request \<ge> nd_current_term nd \<and>
                             \<not> LogId (vr_last_log_index request) (vr_last_log_term request) < last_log_id)\<rparr>))"

text \<open>
  \<open>handle_request_vote\<close> up to the unlock: either the answer, or \<open>None\<close> with the candidate for the second half.
\<close>

definition vote_answer :: "vote_request \<Rightarrow> peer_id \<Rightarrow> ('c, 'r, 'w) node \<Rightarrow> vote_response" where
  "vote_answer request candidate_id nd =
     \<lparr>vp_term = nd_current_term nd,
      vp_granted = (vr_term request = nd_current_term nd \<and> nd_voted_id nd = candidate_id)\<rparr>"

datatype vote_step = Vote_bad_format | Vote_answered vote_response | Vote_wait peer_id

definition handle_request_vote_begin ::
    "node_env \<Rightarrow> vote_request \<Rightarrow> ('c, 'r, 'w) node \<Rightarrow>
      (vote_step \<times> ('c, 'r, 'w) node_event list \<times> ('c, 'r, 'w) node) res" where
  "handle_request_vote_begin ne request nd =
     (case peer_parse (ne_str2ip ne) (vr_server_id request) of
        Inl f \<Rightarrow> Inl f
      | Inr None \<Rightarrow> Inr (Vote_bad_format, [], nd)
      | Inr (Some candidate_id) \<Rightarrow>
          (if vr_term request \<ge> nd_current_term nd
           then (let (evs, nd1) = (if vr_term request > nd_current_term nd then step_down ne (vr_term request) nd else ([], nd))
                 in Inr (Vote_wait candidate_id, evs, nd1))
           else Inr (Vote_answered (vote_answer request candidate_id nd), [], nd)))"

definition handle_request_vote_end ::
    "node_env \<Rightarrow> vote_request \<Rightarrow> peer_id \<Rightarrow> log_id \<Rightarrow> ('c, 'r, 'w) node \<Rightarrow>
      vote_response \<times> ('c, 'r, 'w) node_event list \<times> ('c, 'r, 'w) node" where
  "handle_request_vote_end ne request candidate_id last_log_id nd =
     (if vr_term request \<noteq> nd_current_term nd then (vote_answer request candidate_id nd, [], nd)
      else if \<not> LogId (vr_last_log_index request) (vr_last_log_term request) < last_log_id \<and> is_empty_peer (nd_voted_id nd)
      then (let (evs, nd1) = step_down ne (vr_term request) nd;
                nd2 = node_set_votedfor ne candidate_id (nd1\<lparr>nd_voted_id := candidate_id\<rparr>)
            in (vote_answer request candidate_id nd2, evs, nd2))
      else (vote_answer request candidate_id nd, [], nd))"

definition prevote ::
    "node_env \<Rightarrow> ('c, 'r, 'w) node \<Rightarrow> (('c, 'r, 'w) node_event list \<times> ('c, 'r, 'w) node) res" where
  "prevote ne nd =
     (if peer_port (nd_server_id nd) \<noteq> 8000 then Inr ([], nd)
      else (case lm_last_log_id (nd_log_manager nd) of
              Inl f \<Rightarrow> Inl f
            | Inr last_id \<Rightarrow>
                (let peers = filter (\<lambda>p. p \<noteq> nd_server_id nd) (conf_list_peers (nd_peer_list nd));
                     ctx = ballot_init (ce_conf (nd_conf nd)) (old_conf_of (nd_conf nd))
                 in if peers \<noteq> [] \<and> nd_current_term nd \<ge> int32_max then Inl Signed_overflow
                    else Inr (map (\<lambda>p. Send_prevote p (nd_current_term nd)
                                 \<lparr>vr_server_id = peer_to_string (ne_endpoint2str ne) (nd_server_id nd),
                                  vr_peer_id = peer_to_string (ne_endpoint2str ne) p,
                                  vr_term = nd_current_term nd + 1,
                                  vr_last_log_term = id_term last_id, vr_last_log_index = id_index last_id\<rparr>) peers,
                              nd\<lparr>nd_prevote_ctx := grant_peer ctx (nd_server_id nd)\<rparr>))))"

definition become_leader :: "('c, 'r, 'w) node \<Rightarrow> ('c, 'r, 'w) node_event list \<times> ('c, 'r, 'w) node" where
  "become_leader nd =
     ([Stop_timer Vote_timer, Reset_replicator_term (nd_current_term nd)] @
        map Add_replicator (filter (\<lambda>p. p \<noteq> nd_server_id nd) (conf_list_peers (ce_list_peers (nd_conf nd)))) @
        [Start_timer Stepdown_timer],
      nd\<lparr>nd_state := STATE_LEADER, nd_leader_id := nd_server_id nd,
         nd_ballot_box := snd (reset_pending_index (lm_last_log_index (nd_log_manager nd) + 1) (nd_ballot_box nd))\<rparr>)"

text \<open>\<open>elect_self\<close> up to the unlock; \<open>Some old_term\<close> when the second half is to run.\<close>

definition elect_self_begin ::
    "('c, 'r, 'w) node \<Rightarrow> (int option \<times> ('c, 'r, 'w) node_event list \<times> ('c, 'r, 'w) node) res" where
  "elect_self_begin nd =
     (if \<not> ce_contains (nd_conf nd) (nd_server_id nd) then Inr (None, [], nd)
      else if nd_current_term nd \<ge> int32_max then Inl Signed_overflow
      else (let nd1 = (reset_leader_id empty_peer nd)\<lparr>nd_state := STATE_CANDIDATE,
                         nd_current_term := nd_current_term nd + 1, nd_voted_id := nd_server_id nd,
                         nd_vote_ctx := ballot_init (ce_conf (nd_conf nd)) (old_conf_of (nd_conf nd))\<rparr>
            in Inr (Some (nd_current_term nd1),
                    (if nd_state nd = STATE_FOLLOWER then [Stop_timer Election_timer] else []) @ [Start_timer Vote_timer],
                    nd1)))"

definition elect_self_end ::
    "node_env \<Rightarrow> int \<Rightarrow> log_id \<Rightarrow> ('c, 'r, 'w) node \<Rightarrow> ('c, 'r, 'w) node_event list \<times> ('c, 'r, 'w) node" where
  "elect_self_end ne old_term last_log_id nd =
     (if old_term \<noteq> nd_current_term nd then ([], nd)
      else (let peers = filter (\<lambda>p. p \<noteq> nd_server_id nd \<and> ne_channel_ok ne p) (conf_list_peers (ce_list_peers (nd_conf nd)));
                sends = map (\<lambda>p. Send_request_vote p (nd_current_term nd)
                                 \<lparr>vr_server_id = peer_to_string (ne_endpoint2str ne) (nd_server_id nd),
                                  vr_peer_id = peer_to_string (ne_endpoint2str ne) p,
                                  vr_term = nd_current_term nd,
                                  vr_last_log_term = id_term last_log_id, vr_last_log_index = id_index last_log_id\<rparr>) peers;
                nd1 = node_set_term_and_votedfor ne (nd_current_term nd) (nd_server_id nd) nd;
                nd2 = nd1\<lparr>nd_vote_ctx := grant_peer (nd_vote_ctx nd1) (nd_server_id nd1)\<rparr>
            in if granted (nd_vote_ctx nd2)
               then (let (evs, nd3) = become_leader nd2 in (sends @ evs, nd3))
               else (sends, nd2)))"

definition handle_pre_vote_response ::
    "node_env \<Rightarrow> peer_id \<Rightarrow> int64 \<Rightarrow> vote_response \<Rightarrow> ('c, 'r, 'w) node \<Rightarrow>
      (int option \<times> ('c, 'r, 'w) node_event list \<times> ('c, 'r, 'w) node) res" where
  "handle_pre_vote_response ne peer term response nd =
     (if nd_state nd \<noteq> STATE_FOLLOWER then Inr (None, [], nd)
      else if term \<noteq> nd_current_term nd then Inr (None, [], nd)
      else if vp_term response > nd_current_term nd
      then (let (evs, nd1) = step_down ne (vp_term response) nd in Inr (None, evs, nd1))
      else if vp_granted response
      then (let nd1 = nd\<lparr>nd_prevote_ctx := grant_peer (nd_prevote_ctx nd) peer\<rparr>
            in if granted (nd_prevote_ctx nd1) then elect_self_begin nd1 else Inr (None, [], nd1))
      else Inr (None, [], nd))"

definition handle_request_vote_response ::
    "node_env \<Rightarrow> peer_id \<Rightarrow> int64 \<Rightarrow> vote_response \<Rightarrow> ('c, 'r, 'w) node \<Rightarrow>
      ('c, 'r, 'w) node_event list \<times> ('c, 'r, 'w) node" where
  "handle_request_vote_response ne peer term response nd =
     (if nd_state nd \<noteq> STATE_CANDIDATE then ([], nd)
      else if term \<noteq> nd_current_term nd then ([], nd)
      else if vp_term response > nd_current_term nd then step_down ne (vp_term response) nd
      else if vp_granted response
      then (let nd1 = nd\<lparr>nd_vote_ctx := grant_peer (nd_vote_ctx nd) peer\<rparr>
            in if granted (nd_vote_ctx nd1) then become_leader nd1 else ([], nd1))
      else ([], nd))"

section \<open>Timeouts\<close>

definition handle_election_timeout ::
    "node_env \<Rightarrow> int64 \<Rightarrow> ('c, 'r, 'w) node \<Rightarrow> (('c, 'r, 'w) node_event list \<times> ('c, 'r, 'w) node) res" where
  "handle_election_timeout ne now nd =
     (if nd_state nd \<noteq> STATE_FOLLOWER then Inr ([], nd)
      else if \<not> nd_vote_triggered nd \<and> now - nd_last_leader_timestamp nd < ne_election_timeout_ms ne then Inr ([], nd)
      else prevote ne (reset_leader_id empty_peer (nd\<lparr>nd_vote_triggered := False\<rparr>)))"

definition handle_vote_timeout ::
    "node_env \<Rightarrow> ('c, 'r, 'w) node \<Rightarrow> (int option \<times> ('c, 'r, 'w) node_event list \<times> ('c, 'r, 'w) node) res" where
  "handle_vote_timeout ne nd =
     (if nd_state nd \<noteq> STATE_CANDIDATE then Inr (None, [], nd)
      else if ne_step_down_when_vote_timedout ne
      then (let (evs, nd1) = step_down ne (nd_current_term nd) nd
            in case prevote ne nd1 of
                 Inl f \<Rightarrow> Inl f
               | Inr (evs2, nd2) \<Rightarrow> Inr (None, evs @ evs2, nd2))
      else elect_self_begin nd)"

fun count_alive :: "node_env \<Rightarrow> int64 \<Rightarrow> (peer_id \<Rightarrow> int64) \<Rightarrow> peer_id \<Rightarrow> peer_id list \<Rightarrow> nat" where
  "count_alive ne now last_send self [] = 0"
| "count_alive ne now last_send self (p # ps) =
     (if p = self \<or> now - last_send p \<le> ne_election_timeout_ms ne then 1 else 0) + count_alive ne now last_send self ps"

definition check_dead_nodes ::
    "node_env \<Rightarrow> configuration \<Rightarrow> int64 \<Rightarrow> (peer_id \<Rightarrow> int64) \<Rightarrow> ('c, 'r, 'w) node \<Rightarrow>
      ('c, 'r, 'w) node_event list \<times> ('c, 'r, 'w) node" where
  "check_dead_nodes ne conf now last_send nd =
     (let peers = conf_list_peers conf
      in if count_alive ne now last_send (nd_server_id nd) peers \<ge> length peers div 2 + 1 then ([], nd)
         else step_down ne (nd_current_term nd) nd)"

definition handle_stepdown_timeout ::
    "node_env \<Rightarrow> int64 \<Rightarrow> (peer_id \<Rightarrow> int64) \<Rightarrow> ('c, 'r, 'w) node \<Rightarrow>
      ('c, 'r, 'w) node_event list \<times> ('c, 'r, 'w) node" where
  "handle_stepdown_timeout ne now last_send nd =
     (if state_number (nd_state nd) > state_number STATE_TRANSFERRING then ([], nd)
      else if \<not> conf_empty (ce_old_conf (nd_conf nd)) then check_dead_nodes ne (ce_old_conf (nd_conf nd)) now last_send nd
      else ([], nd))"

section \<open>Receiving entries\<close>

fun peers_of_strings :: "node_env \<Rightarrow> string list \<Rightarrow> peer_id list res" where
  "peers_of_strings ne [] = Inr []"
| "peers_of_strings ne (s # ss) =
     (case peer_of_string (ne_str2ip ne) s of
        Inl f \<Rightarrow> Inl f
      | Inr p \<Rightarrow> (case peers_of_strings ne ss of Inl f \<Rightarrow> Inl f | Inr ps \<Rightarrow> Inr (p # ps)))"

text \<open>\<open>int len = entry.data_len(); data_buf.cutn(&data, len)\<close>: a negative length converts to a huge \<open>size_t\<close>.\<close>

definition cut_length :: "int64 \<Rightarrow> byte list \<Rightarrow> nat" where
  "cut_length l buf = (if to_int32 l < 0 then length buf else min (nat (to_int32 l)) (length buf))"

definition entry_of_meta ::
    "node_env \<Rightarrow> int64 \<Rightarrow> entry_meta \<Rightarrow> byte list \<Rightarrow> (log_entry \<times> byte list) res" where
  "entry_of_meta ne index m buf =
     (case peers_of_strings ne (em_peers m) of
        Inl f \<Rightarrow> Inl f
      | Inr peers \<Rightarrow>
          (case (if em_peers m = [] then Inr [] else peers_of_strings ne (em_old_peers m)) of
             Inl f \<Rightarrow> Inl f
           | Inr old_peers \<Rightarrow>
               (let n = (case em_data_len m of None \<Rightarrow> 0 | Some l \<Rightarrow> cut_length l buf)
                in Inr (\<lparr>le_type = em_type m, le_id = LogId index (em_term m), le_dependency = em_dependency m,
                         le_peers = (if em_peers m = [] then None else Some peers),
                         le_old_peers = (if em_peers m = [] \<or> em_old_peers m = [] then None else Some old_peers),
                         le_data = take n buf\<rparr>, drop n buf))))"

text \<open>The loop over the entries of a request; entries of unknown type are skipped but take an index.\<close>

fun parse_entries :: "node_env \<Rightarrow> int64 \<Rightarrow> entry_meta list \<Rightarrow> byte list \<Rightarrow> log_entry list res" where
  "parse_entries ne index [] buf = Inr []"
| "parse_entries ne index (m # ms) buf =
     (if em_type m = ENTRY_TYPE_UNKNOWN then parse_entries ne (index + 1) ms buf
      else (case entry_of_meta ne (index + 1) m buf of
              Inl f \<Rightarrow> Inl f
            | Inr (e, buf1) \<Rightarrow>
                (case parse_entries ne (index + 1) ms buf1 of Inl f \<Rightarrow> Inl f | Inr es \<Rightarrow> Inr (e # es))))"

definition check_append_entries_cache ::
    "node_env \<Rightarrow> 1024 word \<Rightarrow> int64 \<Rightarrow> ('c, 'r, 'w) node \<Rightarrow> ('c, 'r, 'w) node_event list \<times> ('c, 'r, 'w) node" where
  "check_append_entries_cache ne dependency_bitmap last_log_index nd =
     (case nd_cache nd of
        None \<Rightarrow> ([], nd)
      | Some ac \<Rightarrow>
          (let (evs, ac1) = process_runable_rpcs (ne_cache_env ne) dependency_bitmap last_log_index ac
           in (map Cache_event evs, nd\<lparr>nd_cache := Some ac1\<rparr>)))"

definition handle_out_of_order_append_entries ::
    "node_env \<Rightarrow> int64 \<Rightarrow> 'r append_rpc \<Rightarrow> int64 \<Rightarrow> ('c, 'r, 'w) node \<Rightarrow>
      (bool \<times> ('c, 'r, 'w) node_event list \<times> ('c, 'r, 'w) node) res" where
  "handle_out_of_order_append_entries ne wall_ms rpc local_last_index nd =
     (if local_last_index \<ge> ae_prev_log_index (rpc_request rpc) \<or> ae_entries (rpc_request rpc) = []
      then Inr (False, [], nd)
      else (let (ac, version) = (case nd_cache nd of
                                   None \<Rightarrow> (new_append_cache, nd_cache_version nd + 1)
                                 | Some ac \<Rightarrow> (ac, nd_cache_version nd))
            in case ac_store (ne_cache_env ne) (rpc\<lparr>rpc_receive_time_ms := wall_ms\<rparr>) ac of
                 Inl f \<Rightarrow> Inl f
               | Inr (evs, ac1) \<Rightarrow>
                   Inr (True, map Cache_event evs, nd\<lparr>nd_cache := Some ac1, nd_cache_version := version\<rparr>)))"

text \<open>
  \<open>handle_append_entries_request\<close> after the sender was accepted as leader: the entries are rejected or cached
  when they do not fit, otherwise appended.
\<close>

definition append_accepted ::
    "node_env \<Rightarrow> int64 \<Rightarrow> bool \<Rightarrow> 'r append_rpc \<Rightarrow> ('c, 'r, 'w) node \<Rightarrow>
      (('c, 'r, 'w) node_event list \<times> ('c, 'r, 'w) node) res" where
  "append_accepted ne wall_ms from_cache rpc nd =
     (let req = rpc_request rpc; lm = nd_log_manager nd; last_index = lm_last_log_index lm;
          prev = ae_prev_log_index req
      in case lm_get_term prev lm of
           Inl f \<Rightarrow> Inl f
         | Inr local_prev_log_term \<Rightarrow>
             (if local_prev_log_term \<noteq> ae_prev_log_term req \<and> \<not> ne_oo_enabled ne \<or>
                 \<not> lm_check_dependency (prev + int (length (ae_entries req))) (ae_dependency req) lm
              then (case (if ne_cache_enabled ne \<and> \<not> from_cache
                          then handle_out_of_order_append_entries ne wall_ms rpc last_index nd
                          else Inr (False, [], nd)) of
                      Inl f \<Rightarrow> Inl f
                    | Inr (True, evs, nd1) \<Rightarrow> Inr (evs, nd1)
                    | Inr (False, evs, nd1) \<Rightarrow>
                        Inr ([Answer_append (rpc_id rpc) \<lparr>ar_term = nd_current_term nd, ar_success = False,
                                ar_last_log_index = Some last_index\<rparr>], nd1))
              else if ae_entries req = []
              then (let (_, ev, bb) = set_last_committed_index (min (ae_committed_index req) prev) [] (nd_ballot_box nd)
                    in Inr ((case ev of None \<Rightarrow> [] | Some e \<Rightarrow> [Committed e]) @
                            [Answer_append (rpc_id rpc) \<lparr>ar_term = nd_current_term nd, ar_success = True,
                                ar_last_log_index = Some last_index\<rparr>],
                            nd\<lparr>nd_ballot_box := bb\<rparr>))
              else (case parse_entries ne prev (ae_entries req) (rpc_attachment rpc) of
                      Inl f \<Rightarrow> Inl f
                    | Inr es \<Rightarrow>
                        (case lm_append_entries es (Follower_stable (rpc_id rpc) req (nd_current_term nd)) (ne_oo_enabled ne) lm of
                           Inl f \<Rightarrow> Inl f
                         | Inr (evs, lm1) \<Rightarrow>
                             (let nd1 = nd\<lparr>nd_log_manager := lm1\<rparr>;
                                  (evs2, nd2) = (if ne_cache_enabled ne
                                    then check_append_entries_cache ne (lm_dependency_bitmap lm1) (lm_max_log_index lm1) nd1
                                    else ([], nd1))
                              in Inr (map Log_event evs @ evs2,
                                      nd2\<lparr>nd_conf := snd (check_and_set_configuration (nd_conf nd2) (nd_log_manager nd2))\<rparr>))))))"

definition handle_append_entries_request ::
    "node_env \<Rightarrow> int64 \<Rightarrow> int64 \<Rightarrow> bool \<Rightarrow> 'r append_rpc \<Rightarrow> ('c, 'r, 'w) node \<Rightarrow>
      (('c, 'r, 'w) node_event list \<times> ('c, 'r, 'w) node) res" where
  "handle_append_entries_request ne now wall_ms from_cache rpc nd =
     (let req = rpc_request rpc
      in case peer_parse (ne_str2ip ne) (ae_server_id req) of
           Inl f \<Rightarrow> Inl f
         | Inr None \<Rightarrow> Inr ([Fail_append (rpc_id rpc)], nd)
         | Inr (Some server_id) \<Rightarrow>
             (if ae_term req < nd_current_term nd
              then Inr ([Answer_append (rpc_id rpc) \<lparr>ar_term = nd_current_term nd, ar_success = False,
                           ar_last_log_index = None\<rparr>], nd)
              else (let (evs1, nd1) = check_step_down ne (ae_term req) server_id nd
                    in if server_id \<noteq> nd_leader_id nd1
                       then (let (evs2, nd2) = step_down ne (ae_term req + 1) nd1
                             in Inr (evs1 @ evs2 @ [Answer_append (rpc_id rpc) \<lparr>ar_term = ae_term req + 1,
                                       ar_success = False, ar_last_log_index = None\<rparr>], nd2))
                       else (case append_accepted ne wall_ms from_cache rpc
                                    (if from_cache then nd1 else nd1\<lparr>nd_last_leader_timestamp := now\<rparr>) of
                               Inl f \<Rightarrow> Inl f
                             | Inr (evs2, nd2) \<Rightarrow> Inr (evs1 @ evs2, nd2)))))"

text \<open>\<open>handle_append_entries_from_cache\<close>: the rpcs in order.\<close>

fun handle_append_entries_from_cache ::
    "node_env \<Rightarrow> int64 \<Rightarrow> int64 \<Rightarrow> 'r append_rpc list \<Rightarrow> ('c, 'r, 'w) node \<Rightarrow>
      (('c, 'r, 'w) node_event list \<times> ('c, 'r, 'w) node) res" where
  "handle_append_entries_from_cache ne now wall_ms [] nd = Inr ([], nd)"
| "handle_append_entries_from_cache ne now wall_ms (rpc # rpcs) nd =
     (case handle_append_entries_request ne now wall_ms True rpc nd of
        Inl f \<Rightarrow> Inl f
      | Inr (evs, nd1) \<Rightarrow>
          (case handle_append_entries_from_cache ne now wall_ms rpcs nd1 of
             Inl f \<Rightarrow> Inl f
           | Inr (evs2, nd2) \<Rightarrow> Inr (evs @ evs2, nd2)))"

section \<open>Stable entries\<close>

text \<open>\<open>for (i = 1; i <= size; i++) oo_entries.push_back(_request->committed_oo_index(i))\<close>.\<close>

fun read_oo_indexes :: "int64 list \<Rightarrow> nat \<Rightarrow> nat \<Rightarrow> int64 list res" where
  "read_oo_indexes xs i 0 = Inr []"
| "read_oo_indexes xs i (Suc n) =
     (case at_index xs (int i) of
        Inl f \<Rightarrow> Inl f
      | Inr x \<Rightarrow> (case read_oo_indexes xs (Suc i) n of Inl f \<Rightarrow> Inl f | Inr ys \<Rightarrow> Inr (x # ys)))"

definition follower_stable_run ::
    "node_env \<Rightarrow> 'r \<Rightarrow> append_request \<Rightarrow> int64 \<Rightarrow> rc \<Rightarrow> ('c, 'r, 'w) node \<Rightarrow>
      (('c, 'r, 'w) node_event list \<times> ('c, 'r, 'w) node) res" where
  "follower_stable_run ne r req term status nd =
     (if status \<noteq> OK0 then Inr ([Fail_append r], nd)
      else if term \<noteq> nd_current_term nd
      then Inr ([Answer_append r \<lparr>ar_term = nd_current_term nd, ar_success = False, ar_last_log_index = None\<rparr>], nd)
      else (let lm = nd_log_manager nd;
                (evs, nd1) = check_append_entries_cache ne (lm_dependency_bitmap lm) (lm_max_log_index lm) nd
            in case read_oo_indexes (ae_committed_oo_index req) 1 (length (ae_committed_oo_index req)) of
                 Inl f \<Rightarrow> Inl f
               | Inr oo \<Rightarrow>
                   (let (_, ev, bb) = set_last_committed_index (ae_committed_index req) oo (nd_ballot_box nd1)
                    in Inr (evs @ (case ev of None \<Rightarrow> [] | Some e \<Rightarrow> [Committed e]) @
                            [Answer_append r \<lparr>ar_term = term, ar_success = True,
                               ar_last_log_index = Some (lm_last_log_index lm)\<rparr>],
                            nd1\<lparr>nd_ballot_box := bb\<rparr>))))"

definition leader_stable_run ::
    "int64 \<Rightarrow> nat \<Rightarrow> rc \<Rightarrow> ('c, 'r, 'w) node \<Rightarrow> (('c, 'r, 'w) node_event list \<times> ('c, 'r, 'w) node) res" where
  "leader_stable_run first_log_index nentries status nd =
     (if status \<noteq> OK0 then Inr ([], nd)
      else (case commit_at (nd_ballot_box nd) [first_log_index..first_log_index + int nentries - 1] (nd_server_id nd) of
              Inl f \<Rightarrow> Inl f
            | Inr (_, ev, bb) \<Rightarrow> Inr (case ev of None \<Rightarrow> [] | Some e \<Rightarrow> [Committed e], nd\<lparr>nd_ballot_box := bb\<rparr>)))"

section \<open>Applying tasks\<close>

record 'c apply_task =
  at_data :: "byte list"
  at_dependency_id :: int64
  at_done :: "'c option"
  at_expected_term :: int64

text \<open>\<open>check_dependency\<close>: bit \<open>j\<close> of the result stands for the task \<open>j\<close> places before.\<close>

fun dependency_bits :: "int64 \<Rightarrow> int64 list \<Rightarrow> 64 word \<Rightarrow> 64 word" where
  "dependency_bits d [] w = w"
| "dependency_bits d (x # q) w = dependency_bits d q (push_bit 1 (if x = d then w OR 1 else w))"

definition node_check_dependency :: "int64 \<Rightarrow> ('c, 'r, 'w) node \<Rightarrow> int64 \<times> ('c, 'r, 'w) node" where
  "node_check_dependency dependency_id nd =
     (let q = nd_dependency_id_queue nd;
          q1 = (if 0 \<le> nd_dependency_look_back nd \<and> int (length q) > nd_dependency_look_back nd then tl q else q)
      in (sint (dependency_bits dependency_id q1 0), nd\<lparr>nd_dependency_id_queue := q1 @ [dependency_id]\<rparr>))"

fun resolve_loop :: "nat \<Rightarrow> int64 \<Rightarrow> int64 \<Rightarrow> int64 \<Rightarrow> int64 \<Rightarrow> ('r, 'w) log_manager \<Rightarrow> bool res" where
  "resolve_loop 0 last_term last_index offset d lm = Inr True"
| "resolve_loop (Suc n) last_term last_index offset d lm =
     (if d \<le> 0 then Inr True
      else if d mod 2 \<noteq> 0
      then (case lm_get_term (last_index - (offset + 1)) lm of
              Inl f \<Rightarrow> Inl f
            | Inr t \<Rightarrow> (if t \<noteq> last_term then Inr False
                        else resolve_loop n last_term last_index (offset + 1) (d div 2) lm))
      else resolve_loop n last_term last_index (offset + 1) (d div 2) lm)"

text \<open>A positive 64-bit dependency is 0 after 63 halvings.\<close>

definition resolve_dependency :: "int64 \<Rightarrow> int64 \<Rightarrow> int64 \<Rightarrow> ('c, 'r, 'w) node \<Rightarrow> bool res" where
  "resolve_dependency last_term last_index dependency_id nd =
     resolve_loop 64 last_term last_index 0 dependency_id (nd_log_manager nd)"

fun apply_loop ::
    "'c apply_task list \<Rightarrow> ('c, 'r, 'w) node \<Rightarrow>
      ('c, 'r, 'w) node_event list \<times> log_entry list \<times> ('c, 'r, 'w) node" where
  "apply_loop [] nd = ([], [], nd)"
| "apply_loop (t # ts) nd =
     (if at_expected_term t \<noteq> - 1 \<and> at_expected_term t \<noteq> nd_current_term nd
      then (let (evs, es, nd1) = apply_loop ts nd
            in ((case at_done t of None \<Rightarrow> [] | Some c \<Rightarrow> [Run_done c EPERM]) @ evs, es, nd1))
      else (let (d, nd1) = node_check_dependency (at_dependency_id t) nd;
                e = (new_log_entry d)\<lparr>le_type := ENTRY_TYPE_DATA, le_id := LogId 0 (nd_current_term nd), le_data := at_data t\<rparr>;
                bb = snd (append_pending_task (ce_conf (nd_conf nd1)) (old_conf_of (nd_conf nd1)) (at_done t) (nd_ballot_box nd1));
                (evs, es, nd2) = apply_loop ts (nd1\<lparr>nd_ballot_box := bb\<rparr>)
            in (evs, e # es, nd2)))"

definition node_apply ::
    "'c apply_task list \<Rightarrow> ('c, 'r, 'w) node \<Rightarrow> (('c, 'r, 'w) node_event list \<times> ('c, 'r, 'w) node) res" where
  "node_apply tasks nd =
     (if nd_state nd \<noteq> STATE_LEADER
      then Inr (List.map_filter (\<lambda>t. map_option (\<lambda>c. Run_done c (if nd_state nd \<noteq> STATE_TRANSFERRING then EPERM else EBUSY))
                  (at_done t)) tasks, nd)
      else (let (evs, es, nd1) = apply_loop tasks nd
            in case lm_append_entries es (Leader_stable (length es)) False (nd_log_manager nd1) of
                 Inl f \<Rightarrow> Inl f
               | Inr (evs2, lm) \<Rightarrow>
                   Inr (evs @ map Log_event evs2,
                        nd1\<lparr>nd_log_manager := lm, nd_conf := snd (check_and_set_configuration (nd_conf nd1) lm)\<rparr>)))"

text \<open>\<open>execute_applying_tasks\<close>: the queue in batches of \<open>FLAGS_raft_apply_batch\<close>.\<close>

function execute_applying_tasks ::
    "nat \<Rightarrow> 'c apply_task list \<Rightarrow> ('c, 'r, 'w) node \<Rightarrow> (('c, 'r, 'w) node_event list \<times> ('c, 'r, 'w) node) res" where
  "execute_applying_tasks batch tasks nd =
     (if tasks = [] then Inr ([], nd)
      else if batch = 0 then Inl Out_of_range
      else (case node_apply (take batch tasks) nd of
              Inl f \<Rightarrow> Inl f
            | Inr (evs, nd1) \<Rightarrow>
                (case execute_applying_tasks batch (drop batch tasks) nd1 of
                   Inl f \<Rightarrow> Inl f
                 | Inr (evs2, nd2) \<Rightarrow> Inr (evs @ evs2, nd2))))"
  by pat_completeness auto
termination
  by (relation "measure (\<lambda>(batch, tasks, nd). length tasks)") auto

declare execute_applying_tasks.simps [simp del]

section \<open>Start and shutdown\<close>

text \<open>
  \<open>init_meta_storage\<close> with a storage that was just created. The saved peer is read by \<open>parse\<close>; a text that \<open>parse\<close>
  cannot convert is taken as malformed.
\<close>

definition peer_text :: "(string \<Rightarrow> nat option) \<Rightarrow> string \<Rightarrow> peer_id option" where
  "peer_text str2ip s = (case peer_parse str2ip s of Inr (Some p) \<Rightarrow> Some p | _ \<Rightarrow> None)"

definition init_meta_storage ::
    "node_env \<Rightarrow> bool \<Rightarrow> bool \<Rightarrow> ('c, 'r, 'w) node \<Rightarrow> rc \<times> ('c, 'r, 'w) node" where
  "init_meta_storage ne mkdir_ok stale_enoent nd =
     (let (ret, meta) = rm_init (ne_codec ne)
            (peer_text (ne_str2ip ne)) (ne_meta_path ne)
            mkdir_ok stale_enoent (nd_files nd) new_raft_meta;
          nd1 = nd\<lparr>nd_meta := meta\<rparr>
      in if ret \<noteq> OK0 then (ret, nd1)
         else (case rm_get_votedfor meta of
                 (ret2, Some v) \<Rightarrow> (ret2, nd1\<lparr>nd_current_term := to_int32 (rm_get_term meta), nd_voted_id := v\<rparr>)
               | (ret2, None) \<Rightarrow> (ret2, nd1\<lparr>nd_current_term := to_int32 (rm_get_term meta)\<rparr>)))"

definition node_shutdown :: "node_env \<Rightarrow> 'c option \<Rightarrow> ('c, 'r, 'w) node \<Rightarrow>
    ('c, 'r, 'w) node_event list \<times> ('c, 'r, 'w) node" where
  "node_shutdown ne done_closure nd =
     (let (evs, nd1) =
            (if state_number (nd_state nd) < state_number STATE_SHUTTING
             then (let (evs1, nd2) = (if state_number (nd_state nd) \<le> state_number STATE_FOLLOWER
                                      then step_down ne (nd_current_term nd) nd else ([], nd));
                       (levs, lm) = lm_shutdown (nd_log_manager nd2)
                   in (evs1 @ map Destroy_timer [Election_timer, Vote_timer, Stepdown_timer] @ map Log_event levs @ [Fsm_shutdown],
                       nd2\<lparr>nd_state := STATE_SHUTTING, nd_log_manager := lm\<rparr>))
             else ([], nd))
      in if nd_state nd1 \<noteq> STATE_SHUTDOWN
         then (evs, case done_closure of
                      None \<Rightarrow> nd1
                    | Some c \<Rightarrow> nd1\<lparr>nd_shutdown_continuations := nd_shutdown_continuations nd1 @ [c]\<rparr>)
         else (evs @ (case done_closure of None \<Rightarrow> [] | Some c \<Rightarrow> [Run_done c OK0]), nd1))"

text \<open>
  \<open>init\<close>: the options and flags, and what the storages, the state machine caller and the queue answer.
  \<open>io_log_storage\<close> is the outcome of \<open>_log_storage->init\<close>, \<open>None\<close> when the storage could not be created.
\<close>

record init_env =
  io_initial_conf :: configuration
  io_server_id :: peer_id
  io_look_back :: int64
  io_log_storage :: "(rc \<times> segment_log \<times> configuration_manager) option"
  io_wait_map_ok :: bool
  io_meta_created :: bool
  io_meta_mkdir_ok :: bool
  io_meta_stale_enoent :: bool
  io_fsm_caller_ret :: rc
  io_queue_ok :: bool

definition init_log_storage :: "init_env \<Rightarrow> (rc \<times> ('c, 'w) log_manager option) res" where
  "init_log_storage io =
     (case io_log_storage io of
        None \<Rightarrow> Inr (NEG1, None)
      | Some (ret, sl, cm) \<Rightarrow>
          (case lm_init (Some (ret, sl, cm)) (io_wait_map_ok io) (io_look_back io) (new_log_manager sl cm) of
             Inl f \<Rightarrow> Inl f
           | Inr (ret2, lm) \<Rightarrow> Inr (ret2, Some lm)))"

text \<open>The rest of \<open>init\<close>, after the storages: the ballot box, the cache and the state.\<close>

definition init_commit :: "('c, 'r, 'w) node \<Rightarrow> rc \<times> ('c, 'r, 'w) node" where
  "init_commit nd =
     (case ballot_box_init True (Some new_closure_queue) of
        (_, None) \<Rightarrow> (NEG1, nd)
      | (ret, Some bb) \<Rightarrow>
          (let nd1 = nd\<lparr>nd_ballot_box := bb\<rparr>
           in if ret \<noteq> OK0 then (NEG1, nd1)
              else (OK0, (case nd_cache nd1 of
                            Some _ \<Rightarrow> nd1
                          | None \<Rightarrow> nd1\<lparr>nd_cache := Some new_append_cache, nd_cache_version := nd_cache_version nd1 + 1\<rparr>)
                         \<lparr>nd_state := STATE_FOLLOWER\<rparr>)))"

definition node_init :: "node_env \<Rightarrow> init_env \<Rightarrow> ('c, 'r, 'w) node \<Rightarrow> (rc \<times> ('c, 'r, 'w) node) res" where
  "node_init ne io nd =
     (case init_log_storage io of
        Inl f \<Rightarrow> Inl f
      | Inr (ret, lm) \<Rightarrow>
          (let nd1 = nd\<lparr>nd_conf := (nd_conf nd)\<lparr>ce_id := new_log_id, ce_conf := io_initial_conf io\<rparr>,
                        nd_server_id := io_server_id io, nd_dependency_look_back := io_look_back io,
                        nd_peer_list := io_initial_conf io,
                        nd_log_manager := (case lm of None \<Rightarrow> nd_log_manager nd | Some m \<Rightarrow> m)\<rparr>
           in if ret \<noteq> OK0 then Inr (NEG1, nd1)
              else if \<not> io_meta_created io then Inr (NEG1, nd1)
              else (let (ret2, nd2) = init_meta_storage ne (io_meta_mkdir_ok io) (io_meta_stale_enoent io) nd1
                    in if ret2 \<noteq> OK0 \<or> io_fsm_caller_ret io \<noteq> OK0 \<or> \<not> io_queue_ok io then Inr (NEG1, nd2)
                       else Inr (init_commit nd2))))"

text \<open>\<open>start\<close>: only the server on port 8000 watches for a missing leader; the step-down timer is not initialised.\<close>

definition node_start :: "('c, 'r, 'w) node \<Rightarrow> ('c, 'r, 'w) node_event list" where
  "node_start nd = (if peer_port (nd_server_id nd) = 8000 then [Start_timer Election_timer] else [])"

section \<open>A node for examples\<close>

definition demo_node :: "nat \<Rightarrow> (nat, nat, nat) node" where
  "demo_node n =
     \<lparr>nd_server_id = peer_n n, nd_peer_list = conf3, nd_leader_id = empty_peer, nd_voted_id = empty_peer,
      nd_current_term = 1,
      nd_ballot_box = \<lparr>bb_last_committed_index = 0, bb_pending_index = 0, bb_pending_meta_queue = [],
        bb_committed_index_queue = [], bb_closure_queue = new_closure_queue\<rparr>,
      nd_prevote_ctx = new_ballot, nd_vote_ctx = new_ballot,
      nd_conf = \<lparr>ce_id = new_log_id, ce_conf = conf3, ce_old_conf = {||}\<rparr>,
      nd_last_leader_timestamp = 0, nd_state = STATE_FOLLOWER, nd_vote_triggered = False,
      nd_log_manager = (new_log_manager (new_segment_log True (Some 1)) new_configuration_manager)\<lparr>lm_first_log_index := 1\<rparr>,
      nd_meta = \<lparr>rm_is_inited = True, rm_term = 1, rm_votedfor = empty_peer\<rparr>, nd_files = (\<lambda>_. None),
      nd_dependency_id_queue = [], nd_dependency_look_back = 63, nd_shutdown_continuations = [],
      nd_cache = None, nd_cache_version = 0\<rparr>"

end
