(* ===== verification/Dependency.thy ===== *)
theory Dependency
  imports Node
begin

text \<open>
  The dependencies of \<open>NodeImpl::check_dependency\<close> and \<open>apply\<close>: the leader stamps every entry with the positions of
  the earlier tasks in its look-back window that have the same dependency id, and a follower takes an entry only when the
  stamped positions have arrived.
\<close>

section \<open>The stamp of one task\<close>

lemma bit_push_or_1:
  "bit (push_bit 1 (w OR 1) :: 64 word) j \<longleftrightarrow> j < 64 \<and> 1 \<le> j \<and> (j = 1 \<or> bit w (j - 1))"
  "bit (push_bit 1 w :: 64 word) j \<longleftrightarrow> j < 64 \<and> 1 \<le> j \<and> bit w (j - 1)"
  unfolding bit_push_bit_iff bit_or_iff bit_1_iff by (auto simp: le_Suc_eq)

lemma bit_0_push_1: "bit (push_bit 1 w :: 64 word) 0 = False"
  unfolding bit_push_bit_iff by simp

lemma bit_dependency_bits:
  "\<not> bit w 0 \<Longrightarrow> bit (dependency_bits d q w) j \<longleftrightarrow>
     j < 64 \<and> (1 \<le> j \<and> j \<le> length q \<and> q ! (length q - j) = d \<or> length q < j \<and> bit w (j - length q))"
proof (induction d q w rule: dependency_bits.induct)
  case (1 d w)
  then show ?case by (cases j) (auto dest: bit_imp_le_length)
next
  case (2 d x q w)
  let ?w = "push_bit 1 (if x = d then w OR 1 else w) :: 64 word"
  have "\<not> bit ?w 0" by (simp only: bit_0_push_1 not_False_eq_True)
  note IH = "2.IH" [OF this]
  have w: "bit ?w k \<longleftrightarrow> k < 64 \<and> 1 \<le> k \<and> (k = 1 \<and> x = d \<or> 1 < k \<and> bit w (k - 1))" for k
  proof (cases "x = d")
    case True
    then have eq: "bit ?w k \<longleftrightarrow> k < 64 \<and> 1 \<le> k \<and> (k = 1 \<or> bit w (k - 1))"
      by (simp only: refl if_True bit_push_or_1(1))
    show ?thesis unfolding eq using True by auto
  next
    case False
    then have eq: "bit ?w k \<longleftrightarrow> k < 64 \<and> 1 \<le> k \<and> bit w (k - 1)" by (simp only: if_False bit_push_or_1)
    show ?thesis unfolding eq using False "2.prems" by (cases "k = 1") auto
  qed
  have d: "bit (dependency_bits d (x # q) w) j \<longleftrightarrow> j < 64 \<and> (1 \<le> j \<and> j \<le> length q \<and> q ! (length q - j) = d \<or>
      length q < j \<and> (j - length q = 1 \<and> x = d \<or> 1 < j - length q \<and> bit w (j - length q - 1)))"
    unfolding dependency_bits.simps(2) IH w by auto
  consider "j \<le> length q" | "j = Suc (length q)" | "Suc (length q) < j" by linarith
  then show ?case
    unfolding d by cases (auto simp: Suc_diff_le)
qed

lemma check_dependency_stamp:
  assumes "0 \<le> nd_dependency_look_back nd" "int (length (nd_dependency_id_queue nd)) \<le> nd_dependency_look_back nd + 1"
    and "node_check_dependency d nd = (dep, nd')"
  shows "bit (word_of_int dep :: 64 word) j \<longleftrightarrow>
     1 \<le> j \<and> j < 64 \<and> int j \<le> nd_dependency_look_back nd \<and> j \<le> length (nd_dependency_id_queue nd) \<and>
     nd_dependency_id_queue nd ! (length (nd_dependency_id_queue nd) - j) = d"
    and "nd' = nd\<lparr>nd_dependency_id_queue :=
      (if int (length (nd_dependency_id_queue nd)) > nd_dependency_look_back nd then tl (nd_dependency_id_queue nd)
       else nd_dependency_id_queue nd) @ [d]\<rparr>"
proof -
  let ?q = "nd_dependency_id_queue nd" and ?L = "nd_dependency_look_back nd"
  let ?q1 = "if int (length ?q) > ?L then tl ?q else ?q"
  have dep: "dep = sint (dependency_bits d ?q1 0)" and nd': "nd' = nd\<lparr>nd_dependency_id_queue := ?q1 @ [d]\<rparr>"
    using assms by (auto simp: node_check_dependency_def Let_def)
  show "nd' = nd\<lparr>nd_dependency_id_queue := ?q1 @ [d]\<rparr>" by (rule nd')
  have "bit (word_of_int dep :: 64 word) j \<longleftrightarrow> j < 64 \<and> 1 \<le> j \<and> j \<le> length ?q1 \<and> ?q1 ! (length ?q1 - j) = d"
    unfolding dep using bit_dependency_bits [of 0 d ?q1 j] by auto
  moreover have "j \<le> length ?q1 \<longleftrightarrow> int j \<le> ?L \<and> j \<le> length ?q"
    using assms(1,2) by auto
  moreover have "?q1 ! (length ?q1 - j) = ?q ! (length ?q - j)" if "1 \<le> j" "j \<le> length ?q1"
  proof (cases "int (length ?q) > ?L")
    case True
    then have "length ?q - 1 - j < length (tl ?q)" and "Suc (length ?q - 1 - j) = length ?q - j"
      using that by auto
    then show ?thesis using True nth_tl [of "length ?q - 1 - j" ?q] by simp
  qed simp
  ultimately show "bit (word_of_int dep :: 64 word) j \<longleftrightarrow>
     1 \<le> j \<and> j < 64 \<and> int j \<le> ?L \<and> j \<le> length ?q \<and> ?q ! (length ?q - j) = d" by metis
qed

section \<open>The stamps of a run of tasks\<close>

text \<open>The queue is the end of the ids of all tasks so far, long enough for the look-back distance.\<close>

definition id_window :: "int64 list \<Rightarrow> ('c, 'r, 'w) node \<Rightarrow> bool" where
  "id_window h nd \<longleftrightarrow> (\<exists>pre. h = pre @ nd_dependency_id_queue nd) \<and> 0 \<le> nd_dependency_look_back nd \<and>
     int (length (nd_dependency_id_queue nd)) \<le> nd_dependency_look_back nd + 1 \<and>
     min (nd_dependency_look_back nd) (int (length h)) \<le> int (length (nd_dependency_id_queue nd))"

text \<open>Position \<open>m\<close> of the ids conflicts with the task \<open>j\<close> places before it, within the look-back distance \<open>l\<close>.\<close>

definition conflicts :: "int64 \<Rightarrow> int64 list \<Rightarrow> nat \<Rightarrow> nat \<Rightarrow> bool" where
  "conflicts l ids m j \<longleftrightarrow> 1 \<le> j \<and> j < 64 \<and> int j \<le> l \<and> j \<le> m \<and> ids ! (m - j) = ids ! m"

lemma check_dependency_window:
  assumes w: "id_window h nd" and run: "node_check_dependency d nd = (dep, nd')"
  shows "bit (word_of_int dep :: 64 word) j \<longleftrightarrow> conflicts (nd_dependency_look_back nd) (h @ [d]) (length h) j"
    and "id_window (h @ [d]) nd'" and "\<exists>q. nd' = nd\<lparr>nd_dependency_id_queue := q\<rparr>"
proof -
  obtain pre where h: "h = pre @ nd_dependency_id_queue nd" using w unfolding id_window_def by blast
  let ?q = "nd_dependency_id_queue nd"
  note len = w [unfolded id_window_def]
  note st = check_dependency_stamp [OF conjunct1 [OF conjunct2 [OF len]] conjunct1 [OF conjunct2 [OF conjunct2 [OF len]]] run]
  have "j \<le> length h \<longleftrightarrow> j \<le> length ?q" if "int j \<le> nd_dependency_look_back nd"
    using len that by (auto simp: h)
  moreover have "(h @ [d]) ! (length h - j) = ?q ! (length ?q - j)" if "1 \<le> j" "j \<le> length ?q"
  proof -
    have "length pre + length ?q - j = length pre + (length ?q - j)" "length ?q - j < length ?q" using that by simp_all
    then show ?thesis by (simp only: h length_append nth_append nth_append_length_plus append.assoc) simp
  qed
  ultimately show "bit (word_of_int dep :: 64 word) j \<longleftrightarrow> conflicts (nd_dependency_look_back nd) (h @ [d]) (length h) j"
    unfolding conflicts_def st(1) by (auto simp: nth_append)
  have "\<exists>pre'. h @ [d] = pre' @ nd_dependency_id_queue nd'"
  proof (cases "int (length ?q) > nd_dependency_look_back nd")
    case True
    then obtain x q where "?q = x # q" using len by (cases ?q) auto
    then have "h @ [d] = (pre @ [x]) @ nd_dependency_id_queue nd'" using True unfolding st(2) by (simp add: h)
    then show ?thesis by blast
  next
    case False
    then have "h @ [d] = pre @ nd_dependency_id_queue nd'" unfolding st(2) by (simp add: h)
    then show ?thesis by blast
  qed
  then show "id_window (h @ [d]) nd'" using len unfolding id_window_def st(2) by auto
  show "\<exists>q. nd' = nd\<lparr>nd_dependency_id_queue := q\<rparr>" using st(2) by blast
qed

lemma conflicts_prefix: "m < length xs \<Longrightarrow> conflicts l (xs @ ys) m j \<longleftrightarrow> conflicts l xs m j"
  by (auto simp: conflicts_def nth_append)

definition accepted :: "('c, 'r, 'w) node \<Rightarrow> 'c apply_task \<Rightarrow> bool" where
  "accepted nd t \<longleftrightarrow> at_expected_term t = - 1 \<or> at_expected_term t = nd_current_term nd"

lemma apply_loop_stamps:
  assumes "apply_loop ts nd = (evs, es, nd')" "id_window h nd" "\<forall>t \<in> set ts. accepted nd t"
  shows "length es = length ts \<and> id_window (h @ map at_dependency_id ts) nd' \<and>
     (\<forall>k < length ts. \<forall>j. bit (word_of_int (le_dependency (es ! k)) :: 64 word) j \<longleftrightarrow>
        conflicts (nd_dependency_look_back nd) (h @ map at_dependency_id ts) (length h + k) j)"
  using assms
proof (induction ts arbitrary: nd evs es nd' h)
  case (Cons t ts)
  obtain d nd1 where d: "node_check_dependency (at_dependency_id t) nd = (d, nd1)" by fastforce
  define nd2 where "nd2 = nd1\<lparr>nd_ballot_box :=
    snd (append_pending_task (ce_conf (nd_conf nd1)) (old_conf_of (nd_conf nd1)) (at_done t) (nd_ballot_box nd1))\<rparr>"
  obtain e2 es2 nd3 where r: "apply_loop ts nd2 = (e2, es2, nd3)" by (metis prod_cases3)
  have "\<not> (at_expected_term t \<noteq> - 1 \<and> at_expected_term t \<noteq> nd_current_term nd)"
    using Cons.prems(3) by (auto simp: accepted_def)
  then have es: "\<exists>e. le_dependency e = d \<and> es = e # es2" and nd': "nd' = nd3"
    using Cons.prems(1) r unfolding nd2_def by (auto simp: Let_def d new_log_entry_def)
  note w = check_dependency_window [OF Cons.prems(2) d]
  have keep: "nd_dependency_look_back nd2 = nd_dependency_look_back nd" "nd_current_term nd2 = nd_current_term nd"
    using w(3) by (auto simp: nd2_def)
  have "id_window (h @ [at_dependency_id t]) nd2" using w(2) by (simp add: nd2_def id_window_def)
  moreover have "\<forall>t \<in> set ts. accepted nd2 t" using Cons.prems(3) by (simp add: accepted_def keep)
  ultimately have IH: "length es2 = length ts" "id_window ((h @ [at_dependency_id t]) @ map at_dependency_id ts) nd'"
    "\<forall>k < length ts. \<forall>j. bit (word_of_int (le_dependency (es2 ! k)) :: 64 word) j \<longleftrightarrow>
        conflicts (nd_dependency_look_back nd) ((h @ [at_dependency_id t]) @ map at_dependency_id ts) (length (h @ [at_dependency_id t]) + k) j"
    using Cons.IH [OF r] unfolding nd' keep by blast+
  have "bit (word_of_int (le_dependency (es ! k)) :: 64 word) j \<longleftrightarrow>
      conflicts (nd_dependency_look_back nd) (h @ map at_dependency_id (t # ts)) (length h + k) j" if "k < length (t # ts)" for k j
  proof (cases k)
    case 0
    then show ?thesis
      using es w(1) conflicts_prefix [of "length h" "h @ [at_dependency_id t]" _ "map at_dependency_id ts" j] by auto
  next
    case (Suc i)
    then show ?thesis using es IH(3) that by auto
  qed
  then show ?case using es IH(1,2) by auto
qed simp

text \<open>
  The leader stamps exactly the conflicts: when a batch of tasks of the current term is applied, bit \<open>j\<close> of the
  dependency of an entry is set if and only if the task \<open>j\<close> places before it, in this batch or in an earlier one,
  has the same dependency id and lies within the look-back distance (at most 63). The id queue keeps enough of the past
  for the next batch.
\<close>

theorem leader_stamps_conflicts:
  assumes "apply_loop ts nd = (evs, es, nd')" "id_window h nd" "\<forall>t \<in> set ts. accepted nd t"
  shows "length es = length ts \<and> id_window (h @ map at_dependency_id ts) nd' \<and>
     (\<forall>k < length ts. \<forall>j. bit (word_of_int (le_dependency (es ! k)) :: 64 word) j \<longleftrightarrow>
        conflicts (nd_dependency_look_back nd) (h @ map at_dependency_id ts) (length h + k) j)"
  by (rule apply_loop_stamps [OF assms])


section \<open>A restart forgets what was received\<close>

text \<open>
  A restart empties the bitmap: whatever the log storage holds, the log manager that \<open>init\<close> sets up from it refuses
  every entry (up to 960 places behind the end of the log) that depends on an earlier one, even when that entry is on the disk.
\<close>

theorem restart_refuses_dependent_entries:
  assumes "lm_init (Some (OK0, sl, cm)) True look_back (new_log_manager sl0 cm0) = Inr (OK0, lm)"
    and "(word_of_int d :: 64 word) \<noteq> 0" "sl_last_log_index sl - i + look_back < 1024"
  shows "\<not> lm_check_dependency i d lm"
proof -
  have "lm_dependency_bitmap lm = 0" "lm_max_log_index lm = sl_last_log_index sl" "lm_dependency_look_back lm = look_back"
    using assms(1) by (auto simp: lm_init_def new_log_manager_def storage_max_log_index_def Let_def split: sum.splits)
  moreover obtain j where "bit (word_of_int d :: 64 word) j" using assms(2) by (metis bit_eqI bit_0_eq bot_apply bot_bool_def)
  then have "bitset_of_int64 d \<noteq> 0" by (metis bit_bitset_of_int64 bit_0_eq bot_apply bot_bool_def)
  moreover have "d \<noteq> 0" using assms(2) by auto
  ultimately show ?thesis using assms(3) by (simp add: lm_check_dependency_def Let_def)
qed

section \<open>Examples\<close>

text \<open>Three tasks with ids 7, 8, 7.\<close>

definition demo_tasks :: "nat apply_task list" where
  "demo_tasks = map (\<lambda>i. \<lparr>at_data = [], at_dependency_id = i, at_done = None, at_expected_term = - 1\<rparr>) [7, 8, 7]"

lemma demo_window: "id_window [] (demo_node 1)"
  by (simp add: id_window_def demo_node_def)

lemma demo_conflicts: "conflicts 63 ([] @ map at_dependency_id demo_tasks) (length ([] :: int list) + 2) j \<longleftrightarrow> j = 2"
proof -
  consider "j = 0" | "j = 1" | "j = 2" | "j > 2" by linarith
  then show ?thesis by cases (auto simp: conflicts_def demo_tasks_def)
qed

lemma demo_look_back: "nd_dependency_look_back (demo_node 1) = 63"
  by (simp add: demo_node_def)

lemma demo_accepted: "\<forall>t \<in> set demo_tasks. accepted (demo_node 1) t"
  by (simp add: demo_tasks_def accepted_def)

theorem leader_stamps_conflicts_witness:
  "\<forall>j. bit (word_of_int (le_dependency (fst (snd (apply_loop demo_tasks (demo_node 1))) ! 2)) :: 64 word) j \<longleftrightarrow> j = 2"
proof -
  obtain evs es nd' where r: "apply_loop demo_tasks (demo_node 1) = (evs, es, nd')" by (metis prod_cases3)
  have k: "2 < length demo_tasks" by (simp add: demo_tasks_def)
  note c = conjunct2 [OF conjunct2 [OF leader_stamps_conflicts [OF r demo_window demo_accepted]], rule_format, OF k]
  show ?thesis unfolding r fst_conv snd_conv c demo_look_back demo_conflicts by simp
qed


text \<open>The storage holds entries 1 to 3; entry 4 depends on entry 3.\<close>

theorem restart_refuses_dependent_entries_witness:
  "\<exists>lm :: (nat, nat) log_manager.
     lm_init (Some (OK0, demo_log, new_configuration_manager)) True 63 (new_log_manager demo_log new_configuration_manager) = Inr (OK0, lm) \<and>
     lm_last_log_index lm = 3 \<and> \<not> lm_check_dependency 4 2 lm"
proof -
  obtain t where "sl_get_term 3 demo_log = Inr t"
    by (cases "snd (sg_start demo_segment 2) = 0")
      (simp_all add: sl_get_term_def get_segment_def segment_at_def demo_log_def new_segment_log_def demo_segment_facts
        seg_get_term_def get_meta_def array_size_def Let_def)
  then obtain lm :: "(nat, nat) log_manager" where
    lm: "lm_init (Some (OK0, demo_log, new_configuration_manager)) True 63 (new_log_manager demo_log new_configuration_manager) = Inr (OK0, lm)"
      "lm_last_log_index lm = 3"
    by (simp add: lm_init_def demo_log_facts Let_def)
  have "(word_of_int 2 :: 64 word) \<noteq> 0" by simp
  from restart_refuses_dependent_entries [OF lm(1) this, of 4] lm show ?thesis by (auto simp: demo_log_facts)
qed

end
