(* ===== verification/Leader_Log.thy ===== *)
theory Leader_Log
  imports Dependency
begin

text \<open>
  How the tasks of a leader get into its log: \<open>NodeImpl::apply\<close> opens a ballot for every task and hands the entries to
  \<open>LogManager::append_entries\<close>, which gives them their indexes. Commits count on the two staying in step: the ballot
  of an entry is found from its index.
\<close>

section \<open>Appending entries without an index\<close>

lemma assign_indexes_consecutive: "consecutive_from (i + 1) (assign_indexes i es)"
  by (induction i es rule: assign_indexes.induct) auto

lemma assign_indexes_length [simp]: "length (assign_indexes i es) = length es"
  by (induction i es rule: assign_indexes.induct) auto

lemma assign_indexes_nth: "k < length es \<Longrightarrow> assign_indexes i es ! k = (es ! k)\<lparr>le_id := LogId (i + 1 + int k) (le_term (es ! k))\<rparr>"
proof (induction i es arbitrary: k rule: assign_indexes.induct)
  case (2 i e es)
  then show ?case by (cases k) (auto simp: algebra_simps)
qed simp

lemma assign_indexes_types: "le_type ` set (assign_indexes i es) = le_type ` set es"
  by (induction i es rule: assign_indexes.induct) auto

lemma assign_indexes_Nil [simp]: "assign_indexes i es = [] \<longleftrightarrow> es = []"
  by (cases es) auto

text \<open>What \<open>append_entries\<close> does after the indexes are assigned.\<close>

lemma lm_append_assigned:
  assumes es: "es \<noteq> []" "le_index (hd es) = 0" "\<forall>e \<in> set es. le_type e \<noteq> ENTRY_TYPE_CONFIGURATION" and err: "\<not> lm_has_error lm"
    and fill: "fill_and_place (assign_indexes (lm_last_log_index lm) es) (lm\<lparr>lm_last_log_index := lm_last_log_index lm + int (length es)\<rparr>) = Inr lm2"
  shows "\<exists>evs. lm_append_entries es c oo lm =
     Inr (evs, (enqueue (Stable_closure c (lm_last_log_index lm + 1) (assign_indexes (lm_last_log_index lm) es)) lm2)\<lparr>lm_wait_map := []\<rparr>)"
proof -
  let ?es = "assign_indexes (lm_last_log_index lm) es" and ?lm1 = "lm\<lparr>lm_last_log_index := lm_last_log_index lm + int (length es)\<rparr>"
  have "check_and_resolve_conflict es oo lm = Inr (OK0, ?es, None, ?lm1)"
    using es by (simp add: check_and_resolve_conflict_def)
  moreover have "le_type e \<noteq> ENTRY_TYPE_CONFIGURATION" if "e \<in> set ?es" for e
  proof -
    have "le_type e \<in> le_type ` set es" using that unfolding assign_indexes_types [of "lm_last_log_index lm" es, symmetric] by blast
    then show ?thesis using es(3) by auto
  qed
  then have "add_configurations ?es (lm_config_manager ?lm1) = Inr (lm_config_manager ?lm1)" by (intro add_no_configurations) blast
  moreover have "?lm1\<lparr>lm_config_manager := lm_config_manager ?lm1\<rparr> = ?lm1" by simp
  moreover have "le_index (hd ?es) = lm_last_log_index lm + 1" using es(1) by (cases es) auto
  ultimately show ?thesis
    using es(1) err fill by (simp add: lm_append_entries_def wakeup_all_waiter_eq enqueue_def)
qed

lemma place_assigned:
  assumes rep: "tail_rep E b lm" and b: "b \<le> i + 1" and m: "i + int (length es) \<le> lm_max_log_index lm" "lm_max_log_index lm - i < 1024"
  shows "\<exists>mem bm. place_entries b (assign_indexes i es) lm = Inr (lm\<lparr>lm_logs_in_memory := mem, lm_dependency_bitmap := bm\<rparr>) \<and>
     tail_rep (put_all (assign_indexes i es) E) b (lm\<lparr>lm_logs_in_memory := mem, lm_dependency_bitmap := bm\<rparr>)"
proof (rule place_entries_rep [OF rep], rule ballI)
  fix e
  assume "e \<in> set (assign_indexes i es)"
  then show "b \<le> le_index e \<and> le_index e \<le> lm_max_log_index lm \<and> lm_max_log_index lm - le_index e < 1024"
    using consecutive_mem [OF assign_indexes_consecutive] b m by fastforce
qed

text \<open>A log without gaps grows by the entries.\<close>

lemma leader_append:
  assumes inv: "tail_inv E b lm" and full: "lm_max_log_index lm = lm_last_log_index lm"
    and es: "es \<noteq> []" "le_index (hd es) = 0" "\<forall>e \<in> set es. le_type e \<noteq> ENTRY_TYPE_CONFIGURATION" "length es < 1024"
    and err: "\<not> lm_has_error lm"
  shows "\<exists>evs lm'. lm_append_entries es c oo lm = Inr (evs, lm') \<and> tail_inv (put_all (assign_indexes (lm_last_log_index lm) es) E) b lm' \<and>
     lm_last_log_index lm' = lm_last_log_index lm + int (length es) \<and> lm_max_log_index lm' = lm_last_log_index lm'"
proof -
  let ?l = "lm_last_log_index lm" and ?n = "int (length es)"
  let ?es = "assign_indexes ?l es" and ?lm1 = "lm\<lparr>lm_last_log_index := ?l + ?n\<rparr>"
  let ?lmp = "(push_missing ^^ length es) ?lm1" and ?E = "put_all (assign_indexes ?l es) E"
  note l = last_repD [OF tail_invD(2) [OF inv]]
  have last: "le_index (last ?es) = ?l + ?n" using consecutive_last [OF assign_indexes_consecutive [of ?l es]] es(1) by simp
  have rep1: "tail_rep E b ?lm1" by (rule tail_rep_cong [OF tail_invD(1) [OF inv]]) simp_all
  have rep2: "tail_rep E b ?lmp" by (rule tail_rep_push_missing_pow [OF rep1])
  have m: "lm_max_log_index ?lmp = ?l + ?n" "lm_last_log_index ?lmp = ?l + ?n" by (simp_all add: full)
  have first: "lm_max_log_index ?lmp - int (length (lm_logs_in_memory ?lmp)) + 1 = b"
    using tail_rep_mem [OF rep2] tail_rep_le [OF rep2] by simp
  have k: "nat (le_index (last ?es) - lm_max_log_index ?lm1) = length es" by (simp add: last full)
  have "\<exists>mem bm. place_entries b ?es ?lmp = Inr (?lmp\<lparr>lm_logs_in_memory := mem, lm_dependency_bitmap := bm\<rparr>) \<and>
     tail_rep ?E b (?lmp\<lparr>lm_logs_in_memory := mem, lm_dependency_bitmap := bm\<rparr>)"
    by (rule place_assigned [OF rep2]) (use l(1) es(4) m in auto)
  then obtain mem bm where p: "place_entries b ?es ?lmp = Inr (?lmp\<lparr>lm_logs_in_memory := mem, lm_dependency_bitmap := bm\<rparr>)"
    and rep3: "tail_rep ?E b (?lmp\<lparr>lm_logs_in_memory := mem, lm_dependency_bitmap := bm\<rparr>)" by blast
  let ?lm2 = "?lmp\<lparr>lm_logs_in_memory := mem, lm_dependency_bitmap := bm\<rparr>"
  have fill: "fill_and_place ?es ?lm1 = Inr ?lm2"
    unfolding fill_and_place_def Let_def k first p by (simp add: full)
  have idx: "le_index ` set ?es = {?l + 1..?l + ?n}"
    using arg_cong [OF consecutive_indexes [OF assign_indexes_consecutive [of ?l es]], of set] by simp
  have in_E: "?E i \<noteq> None" if "b \<le> i" "i \<le> ?l + ?n" for i
    using l(3) that unfolding put_all_None idx by (cases "i \<le> ?l") auto
  have "?E (?l + ?n + 1) = None" using tail_rep_beyond [OF rep3, of "?l + ?n + 1"] m by simp
  then have "last_rep ?E b ?lm2" using in_E l(1) m by (simp add: last_rep_def)
  then have "tail_inv ?E b ?lm2" using rep3 in_E [of "?l + ?n"] m by (simp add: tail_inv_def)
  then have "tail_inv ?E b ((enqueue (Stable_closure c (?l + 1) ?es) ?lm2)\<lparr>lm_wait_map := []\<rparr>)"
    by (rule tail_inv_cong) (simp_all add: enqueue_def)
  then show ?thesis
    using lm_append_assigned [OF es(1-3) err fill, of c oo] m by (auto simp: enqueue_def)
qed

text \<open>An entry received out of order beyond the gap joins the log as soon as the gap is filled.\<close>

lemma leader_append_stale:
  assumes inv: "tail_inv E b lm" and stale: "E (lm_last_log_index lm + 2) \<noteq> None" and near: "lm_max_log_index lm - lm_last_log_index lm < 1024"
    and e: "le_index e = 0" "le_type e \<noteq> ENTRY_TYPE_CONFIGURATION" and err: "\<not> lm_has_error lm"
  shows "\<exists>evs lm'. lm_append_entries [e] c oo lm = Inr (evs, lm') \<and> lm_last_log_index lm + 2 \<le> lm_last_log_index lm'"
proof -
  let ?l = "lm_last_log_index lm"
  let ?es = "assign_indexes ?l [e]" and ?lm1 = "lm\<lparr>lm_last_log_index := ?l + 1\<rparr>" and ?E = "put_all (assign_indexes ?l [e]) E"
  note l = last_repD [OF tail_invD(2) [OF inv]]
  have rep1: "tail_rep E b ?lm1" by (rule tail_rep_cong [OF tail_invD(1) [OF inv]]) simp_all
  have m: "?l + 2 \<le> lm_max_log_index lm" using tail_rep_beyond [OF tail_invD(1) [OF inv], of "?l + 2"] stale by (cases "lm_max_log_index lm < ?l + 2") auto
  have first: "lm_max_log_index ?lm1 - int (length (lm_logs_in_memory ?lm1)) + 1 = b"
    using tail_rep_mem [OF rep1] tail_rep_le [OF rep1] by simp
  have "\<exists>mem bm. place_entries b ?es ?lm1 = Inr (?lm1\<lparr>lm_logs_in_memory := mem, lm_dependency_bitmap := bm\<rparr>) \<and>
     tail_rep ?E b (?lm1\<lparr>lm_logs_in_memory := mem, lm_dependency_bitmap := bm\<rparr>)"
    by (rule place_assigned [OF rep1]) (use l(1) m near in auto)
  then obtain mem bm where p: "place_entries b ?es ?lm1 = Inr (?lm1\<lparr>lm_logs_in_memory := mem, lm_dependency_bitmap := bm\<rparr>)"
    and rep3: "tail_rep ?E b (?lm1\<lparr>lm_logs_in_memory := mem, lm_dependency_bitmap := bm\<rparr>)" by blast
  let ?lm2 = "?lm1\<lparr>lm_logs_in_memory := mem, lm_dependency_bitmap := bm\<rparr>"
  have in_E: "\<forall>i. b \<le> i \<and> i \<le> ?l + 1 \<longrightarrow> ?E i \<noteq> None" using l(3) by auto
  obtain k where k: "advance_last (nat (lm_max_log_index ?lm2 - lm_last_log_index ?lm2)) b ?lm2 = Inr (?lm2\<lparr>lm_last_log_index := k\<rparr>)"
    and last: "last_rep ?E b (?lm2\<lparr>lm_last_log_index := k\<rparr>)" "?l + 1 \<le> k"
    using advance_last_rep [OF rep3 refl] l(1) m in_E by auto
  have "?E (k + 1) = None" using last(1) by (simp add: last_rep_def)
  moreover have "?E (?l + 2) \<noteq> None" using stale by auto
  ultimately have "k \<noteq> ?l + 1" by (metis add.assoc one_add_one)
  then have ge: "?l + 2 \<le> k" using last(2) by simp
  have z: "nat (le_index (last ?es) - lm_max_log_index ?lm1) = 0" using m by simp
  have "fill_and_place ?es ?lm1 = Inr (?lm2\<lparr>lm_last_log_index := k\<rparr>)"
    unfolding fill_and_place_def Let_def z by (simp only: funpow.simps id_apply first p k sum.case)
  then show ?thesis
    using lm_append_assigned [of "[e]" lm _ c oo] e err ge by (auto simp: enqueue_def)
qed

lemma put_all_other: "i \<notin> le_index ` set es \<Longrightarrow> put_all es E i = E i"
  by (induction es arbitrary: E) auto

section \<open>The window of the leader\<close>

text \<open>The next ballot belongs to the next index of the log.\<close>

definition window_aligned :: "('c, 'r, 'w) node \<Rightarrow> bool" where
  "window_aligned nd \<longleftrightarrow>
     bb_pending_index (nd_ballot_box nd) + int (length (bb_pending_meta_queue (nd_ballot_box nd))) =
     lm_last_log_index (nd_log_manager nd) + 1"

lemma become_leader_aligned:
  assumes "bb_pending_meta_queue (nd_ballot_box nd) = []"
  shows "window_aligned (snd (become_leader nd))"
  using assms by (simp add: become_leader_def window_aligned_def reset_pending_index_def)

lemma apply_loop_window:
  assumes "apply_loop ts nd = (evs, es, nd')" "\<forall>t \<in> set ts. accepted nd t"
  shows "nd_log_manager nd' = nd_log_manager nd \<and> bb_pending_index (nd_ballot_box nd') = bb_pending_index (nd_ballot_box nd) \<and>
     length (bb_pending_meta_queue (nd_ballot_box nd')) = length (bb_pending_meta_queue (nd_ballot_box nd)) + length ts \<and>
     length es = length ts \<and> (\<forall>k < length ts. le_type (es ! k) = ENTRY_TYPE_DATA \<and> le_id (es ! k) = LogId 0 (nd_current_term nd) \<and>
       le_data (es ! k) = at_data (ts ! k))"
  using assms
proof (induction ts arbitrary: nd evs es nd')
  case (Cons t ts)
  obtain d nd1 where d: "node_check_dependency (at_dependency_id t) nd = (d, nd1)" by fastforce
  have nd1: "nd1 = nd\<lparr>nd_dependency_id_queue := nd_dependency_id_queue nd1\<rparr>"
    using d by (auto simp: node_check_dependency_def Let_def)
  define nd2 where "nd2 = nd1\<lparr>nd_ballot_box :=
    snd (append_pending_task (ce_conf (nd_conf nd1)) (old_conf_of (nd_conf nd1)) (at_done t) (nd_ballot_box nd1))\<rparr>"
  obtain e2 es2 nd3 where r: "apply_loop ts nd2 = (e2, es2, nd3)" by (metis prod_cases3)
  have "\<not> (at_expected_term t \<noteq> - 1 \<and> at_expected_term t \<noteq> nd_current_term nd)"
    using Cons.prems(2) by (auto simp: accepted_def)
  then have es: "es = (new_log_entry d)\<lparr>le_type := ENTRY_TYPE_DATA, le_id := LogId 0 (nd_current_term nd), le_data := at_data t\<rparr> # es2" and nd': "nd' = nd3"
    using Cons.prems(1) r unfolding nd2_def by (auto simp: Let_def d)
  have f: "nd_log_manager nd2 = nd_log_manager nd" "nd_current_term nd2 = nd_current_term nd"
    "bb_pending_index (nd_ballot_box nd2) = bb_pending_index (nd_ballot_box nd)"
    "length (bb_pending_meta_queue (nd_ballot_box nd2)) = length (bb_pending_meta_queue (nd_ballot_box nd)) + 1"
    by (simp_all add: nd2_def) (subst nd1, simp add: append_pending_task_def)+
  have "\<forall>t \<in> set ts. accepted nd2 t" using Cons.prems(2) by (simp add: accepted_def f)
  note IH = Cons.IH [OF r this]
  have "le_type (es ! k) = ENTRY_TYPE_DATA \<and> le_id (es ! k) = LogId 0 (nd_current_term nd) \<and> le_data (es ! k) = at_data ((t # ts) ! k)"
    if "k < length (t # ts)" for k
    using IH that unfolding es f by (cases k) auto
  then show ?case using IH unfolding nd' by (simp add: f es)
qed simp

text \<open>
  C16. A leader's tasks enter its log in order: for a leader whose log has no gap, applying a batch of tasks of the current term
  succeeds, gives the \<open>k\<close>-th task the \<open>k\<close>-th index after the end of the log, with the leader's term and the data of the
  task, and leaves one pending ballot per new index, so that the ballot box and the log stay in step.
\<close>

theorem leader_apply_extends_log:
  assumes lead: "nd_state nd = STATE_LEADER" and al: "window_aligned nd"
    and inv: "tail_inv E b (nd_log_manager nd)" and full: "lm_max_log_index (nd_log_manager nd) = lm_last_log_index (nd_log_manager nd)"
    and ts: "ts \<noteq> []" "length ts < 1024" "\<forall>t \<in> set ts. accepted nd t" and err: "\<not> lm_has_error (nd_log_manager nd)"
  shows "\<exists>evs nd' E'. node_apply ts nd = Inr (evs, nd') \<and> window_aligned nd' \<and> tail_inv E' b (nd_log_manager nd') \<and>
     lm_last_log_index (nd_log_manager nd') = lm_last_log_index (nd_log_manager nd) + int (length ts) \<and>
     lm_max_log_index (nd_log_manager nd') = lm_last_log_index (nd_log_manager nd') \<and>
     (\<forall>k < length ts. \<exists>e. E' (lm_last_log_index (nd_log_manager nd) + 1 + int k) = Some e \<and>
        le_id e = LogId (lm_last_log_index (nd_log_manager nd) + 1 + int k) (nd_current_term nd) \<and> le_data e = at_data (ts ! k)) \<and>
     (\<forall>i \<le> lm_last_log_index (nd_log_manager nd). E' i = E i)"
proof -
  let ?l = "lm_last_log_index (nd_log_manager nd)"
  obtain evs es nd1 where a: "apply_loop ts nd = (evs, es, nd1)" by (metis prod_cases3)
  note w = apply_loop_window [OF a ts(3)]
  have ty: "\<forall>e \<in> set es. le_type e \<noteq> ENTRY_TYPE_CONFIGURATION" using w by (auto simp: in_set_conv_nth)
  have es: "es \<noteq> []" "length es < 1024" using w ts(1,2) by auto
  have hd0: "le_index (hd es) = 0" using w ts(1) es(1) by (simp add: hd_conv_nth)
  let ?es = "assign_indexes ?l es" and ?E = "put_all (assign_indexes ?l es) E"
  obtain e2 lm' where ap: "lm_append_entries es (Leader_stable (length es)) False (nd_log_manager nd1) = Inr (e2, lm')"
    and inv': "tail_inv ?E b lm'" "lm_last_log_index lm' = ?l + int (length es)" "lm_max_log_index lm' = lm_last_log_index lm'"
    using leader_append [OF inv full es(1) hd0 ty es(2) err, of "Leader_stable (length es)" False] w by auto
  let ?nd' = "nd1\<lparr>nd_log_manager := lm', nd_conf := snd (check_and_set_configuration (nd_conf nd1) lm')\<rparr>"
  have run: "node_apply ts nd = Inr (evs @ map Log_event e2, ?nd')" using lead by (simp add: node_apply_def a ap)
  have al': "window_aligned ?nd'" using al w inv' by (simp add: window_aligned_def)
  have new: "\<exists>e. ?E (?l + 1 + int k) = Some e \<and> le_id e = LogId (?l + 1 + int k) (nd_current_term nd) \<and> le_data e = at_data (ts ! k)"
    if "k < length ts" for k
  proof -
    let ?e = "?es ! k"
    have k: "k < length es" using that w by simp
    have e: "le_id ?e = LogId (?l + 1 + int k) (nd_current_term nd)" "le_data ?e = at_data (ts ! k)"
      using w that k by (simp_all add: assign_indexes_nth)
    have "?E (le_index ?e) = Some ?e"
      by (rule put_all_in [OF consecutive_distinct [OF assign_indexes_consecutive]]) (simp add: k)
    then show ?thesis using e by simp
  qed
  have old: "?E i = E i" if "i \<le> ?l" for i
  proof -
    have "i \<notin> le_index ` set ?es" using consecutive_mem [OF assign_indexes_consecutive [of ?l es]] that by force
    then show ?thesis by (simp add: put_all_other)
  qed
  show ?thesis
    using run al' inv' new old w by (intro exI [of _ "evs @ map Log_event e2"] exI [of _ ?nd'] exI [of _ ?E]) simp
qed

text \<open>
  C40. A leader adopts entries it received out of order: when a node that holds an entry beyond a gap in its log becomes leader and
  applies a task, the task fills the gap and \<open>_last_log_index\<close> jumps past the old entry, for which no ballot
  was opened. From then on the ballots of the leader belong to other indexes than those they are looked up with.
\<close>

theorem leader_adopts_out_of_order_entry:
  assumes lead: "nd_state nd = STATE_LEADER" and al: "window_aligned nd" and inv: "tail_inv E b (nd_log_manager nd)"
    and stale: "E (lm_last_log_index (nd_log_manager nd) + 2) \<noteq> None"
    and near: "lm_max_log_index (nd_log_manager nd) - lm_last_log_index (nd_log_manager nd) < 1024"
    and t: "accepted nd t" and err: "\<not> lm_has_error (nd_log_manager nd)"
  shows "\<exists>evs nd'. node_apply [t] nd = Inr (evs, nd') \<and> \<not> window_aligned nd'"
proof -
  obtain evs es nd1 where a: "apply_loop [t] nd = (evs, es, nd1)" by (metis prod_cases3)
  have w: "nd_log_manager nd1 = nd_log_manager nd" "bb_pending_index (nd_ballot_box nd1) = bb_pending_index (nd_ballot_box nd)"
    "length (bb_pending_meta_queue (nd_ballot_box nd1)) = length (bb_pending_meta_queue (nd_ballot_box nd)) + 1"
    "length es = 1" "le_type (es ! 0) = ENTRY_TYPE_DATA" "le_id (es ! 0) = LogId 0 (nd_current_term nd)"
    using apply_loop_window [OF a] t by auto
  obtain e where e: "es = [e]" using w(4) by (cases es) auto
  obtain e2 lm' where ap: "lm_append_entries es (Leader_stable (length es)) False (nd_log_manager nd1) = Inr (e2, lm')"
    and l: "lm_last_log_index (nd_log_manager nd) + 2 \<le> lm_last_log_index lm'"
    using leader_append_stale [OF inv stale near _ _ err, of e "Leader_stable (length es)" False] w e by auto
  let ?nd' = "nd1\<lparr>nd_log_manager := lm', nd_conf := snd (check_and_set_configuration (nd_conf nd1) lm')\<rparr>"
  have "node_apply [t] nd = Inr (evs @ map Log_event e2, ?nd')" using lead a by (simp add: node_apply_def ap)
  moreover have "\<not> window_aligned ?nd'" using al w l by (simp add: window_aligned_def)
  ultimately show ?thesis by blast
qed

section \<open>Examples\<close>

definition demo_leader :: "(nat, nat, nat) node" where
  "demo_leader = (demo_node 1)\<lparr>nd_state := STATE_LEADER, nd_ballot_box := (nd_ballot_box (demo_node 1))\<lparr>bb_pending_index := 1\<rparr>\<rparr>"

lemma demo_leader_facts:
  "nd_state demo_leader = STATE_LEADER" "window_aligned demo_leader" "tail_inv Map.empty 1 (nd_log_manager demo_leader)"
  "lm_max_log_index (nd_log_manager demo_leader) = 0" "lm_last_log_index (nd_log_manager demo_leader) = 0"
  "\<not> lm_has_error (nd_log_manager demo_leader)" "\<forall>t \<in> set demo_tasks. accepted demo_leader t" "nd_current_term demo_leader = 1"
  by (simp_all add: demo_leader_def demo_node_def window_aligned_def new_log_manager_def tail_inv_def tail_rep_def last_rep_def
      accepted_def demo_tasks_def)

theorem leader_apply_extends_log_witness:
  "\<exists>evs nd'. node_apply demo_tasks demo_leader = Inr (evs, nd') \<and> lm_last_log_index (nd_log_manager nd') = 3 \<and> window_aligned nd'"
proof -
  have "demo_tasks \<noteq> []" "length demo_tasks < 1024" "length demo_tasks = 3" by (simp_all add: demo_tasks_def)
  then show ?thesis
    using leader_apply_extends_log [OF demo_leader_facts(1-3) _ _ _ demo_leader_facts(7,6)] demo_leader_facts(4,5) by fastforce
qed

text \<open>The leader holds entry 2 of an earlier term, received before entry 1.\<close>

definition stale_leader :: "(nat, nat, nat) node" where
  "stale_leader = demo_leader\<lparr>nd_log_manager := push_received (data_entry 2 1 []) (push_missing (nd_log_manager demo_leader))\<rparr>"

lemma stale_leader_facts:
  "tail_inv (Map.empty(2 \<mapsto> data_entry 2 1 [])) 1 (nd_log_manager stale_leader)" "lm_max_log_index (nd_log_manager stale_leader) = 2"
  "lm_last_log_index (nd_log_manager stale_leader) = 0" "\<not> lm_has_error (nd_log_manager stale_leader)" "window_aligned stale_leader"
proof -
  have i: "le_index (data_entry 2 1 []) = 2" by (simp add: data_entry_def)
  show m: "lm_max_log_index (nd_log_manager stale_leader) = 2" and l: "lm_last_log_index (nd_log_manager stale_leader) = 0"
    by (simp_all add: stale_leader_def demo_leader_facts)
  have "tail_rep Map.empty 1 (push_missing (nd_log_manager demo_leader))"
    by (rule tail_rep_push_missing [OF tail_invD(1) [OF demo_leader_facts(3)]])
  from tail_rep_push_received [OF this, of "data_entry 2 1 []"]
  have "tail_rep (Map.empty(2 \<mapsto> data_entry 2 1 [])) 1 (nd_log_manager stale_leader)"
    unfolding stale_leader_def i by (simp add: demo_leader_facts)
  then show "tail_inv (Map.empty(2 \<mapsto> data_entry 2 1 [])) 1 (nd_log_manager stale_leader)"
    using m l by (simp add: tail_inv_def last_rep_def)
  show "\<not> lm_has_error (nd_log_manager stale_leader)" using demo_leader_facts(6) by (simp add: stale_leader_def push_received_def push_missing_def)
  show "window_aligned stale_leader" using demo_leader_facts(2) by (simp add: window_aligned_def stale_leader_def)
qed

theorem leader_adopts_out_of_order_entry_witness:
  "\<exists>evs nd'. node_apply [hd demo_tasks] stale_leader = Inr (evs, nd') \<and> \<not> window_aligned nd'"
  by (rule leader_adopts_out_of_order_entry [OF _ stale_leader_facts(5,1)])
    (simp_all add: stale_leader_facts, simp_all add: stale_leader_def demo_leader_facts accepted_def demo_tasks_def)

end
