(* ===== verification/Election.thy ===== *)
theory Election
  imports Node
begin

text \<open>
  Elections in a cluster of nodes with a fixed configuration. The steps are the handlers of \<open>NodeImpl\<close>, with the
  points where a handler gives up the mutex as separate steps, messages that are delayed, lost or repeated, and
  nodes that crash and restart from their saved term and vote. The result is that no term has two leaders.
\<close>

section \<open>The environment\<close>

text \<open>
  What the elections rely on: the protobuf coding of the saved meta reads back, the address functions print and
  read the peers, and the saves complete. The flags, the timeouts and the reachability of peers are free.
\<close>

definition env_ok :: "node_env \<Rightarrow> (nat \<Rightarrow> string) \<Rightarrow> configuration \<Rightarrow> bool" where
  "env_ok ne ip2str C \<longleftrightarrow>
     (\<forall>p \<in> insert empty_peer (fset C). address_text (ne_str2ip ne) (ne_endpoint2str ne) ip2str (peer_ip p) \<and>
        fits_int (peer_port p) \<and> fits_int (peer_idx p)) \<and>
     (\<forall>t. 0 \<le> t \<and> t \<le> int32_max \<longrightarrow> (\<forall>p \<in> insert empty_peer (fset C).
        let s = peer_to_string (ne_endpoint2str ne) p
        in snd (ne_codec ne) (fst (ne_codec ne) (t, s)) = (t, s) \<and> length (fst (ne_codec ne) (t, s)) < 2147483648)) \<and>
     empty_peer |\<notin>| C"

definition step_env :: "node_env \<Rightarrow> node_env \<Rightarrow> bool" where
  "step_env ne0 ne \<longleftrightarrow>
     ne_str2ip ne = ne_str2ip ne0 \<and> ne_endpoint2str ne = ne_endpoint2str ne0 \<and> ne_codec ne = ne_codec ne0 \<and>
     ne_meta_path ne = ne_meta_path ne0 \<and> ne_save_outcome ne = Save_completes"

lemma env_ok_text:
  assumes "env_ok ne ip2str C" "p \<in> insert empty_peer (fset C)"
  shows "peer_parse (ne_str2ip ne) (peer_to_string (ne_endpoint2str ne) p) = Inr (Some p)"
  using assms peer_parse_to_string [of "ne_str2ip ne" "ne_endpoint2str ne" ip2str p] unfolding env_ok_def by blast

text \<open>What a restart would read.\<close>

definition stored :: "node_env \<Rightarrow> file_system \<Rightarrow> raft_meta \<Rightarrow> bool" where
  "stored ne files m \<longleftrightarrow>
     (\<forall>e. rm_init (ne_codec ne) (peer_text (ne_str2ip ne)) (ne_meta_path ne) True e files new_raft_meta = (OK0, m))"

definition meta_of :: "int64 \<Rightarrow> peer_id \<Rightarrow> raft_meta" where
  "meta_of t p = \<lparr>rm_is_inited = True, rm_term = t, rm_votedfor = p\<rparr>"

lemma rm_save_stored:
  assumes "env_ok ne0 ip2str C" "step_env ne0 ne" "rm_votedfor rm \<in> insert empty_peer (fset C)" "0 \<le> rm_term rm" "rm_term rm \<le> int32_max"
    and "rm_save (ne_codec ne) (peer_to_string (ne_endpoint2str ne)) (ne_meta_path ne) (ne_meta_sync ne) (ne_save_outcome ne) rm fs = (r, fs')"
  shows "stored ne0 fs' (meta_of (rm_term rm) (rm_votedfor rm))"
proof -
  have "peer_text (ne_str2ip ne0) (peer_to_string (ne_endpoint2str ne0) (rm_votedfor rm)) = Some (rm_votedfor rm)"
    using env_ok_text [OF assms(1,3)] by (simp add: peer_text_def)
  then show ?thesis
    using rm_save_loads [of "ne_codec ne0" rm "peer_to_string (ne_endpoint2str ne0)" "peer_text (ne_str2ip ne0)" "ne_meta_path ne0" "ne_meta_sync ne" fs r fs']
      assms unfolding env_ok_def step_env_def stored_def meta_of_def Let_def by auto
qed

section \<open>What a handler does to the election state of a node\<close>

text \<open>A node whose meta storage is in step with its files; \<open>t\<close> and \<open>v\<close> are the saved term and vote.\<close>

definition saved :: "node_env \<Rightarrow> ('c, 'r, 'w) node \<Rightarrow> int64 \<Rightarrow> peer_id \<Rightarrow> bool" where
  "saved ne0 nd t v \<longleftrightarrow> nd_meta nd = meta_of t v \<and> stored ne0 (nd_files nd) (meta_of t v)"

lemma set_term_and_votedfor_saved:
  assumes "env_ok ne0 ip2str C" "step_env ne0 ne" "saved ne0 nd t0 v0" "v \<in> insert empty_peer (fset C)" "0 \<le> t" "t \<le> int32_max"
  shows "saved ne0 (node_set_term_and_votedfor ne t v nd) t v"
    "\<exists>m f. node_set_term_and_votedfor ne t v nd = nd\<lparr>nd_meta := m, nd_files := f\<rparr>"
proof -
  let ?rm = "meta_of t v"
  obtain r f where f: "rm_save (ne_codec ne) (peer_to_string (ne_endpoint2str ne)) (ne_meta_path ne) (ne_meta_sync ne)
      (ne_save_outcome ne) ?rm (nd_files nd) = (r, f)" by fastforce
  have "(nd_meta nd)\<lparr>rm_term := t, rm_votedfor := v\<rparr> = ?rm" using assms(3) by (simp add: saved_def meta_of_def)
  then have eq: "node_set_term_and_votedfor ne t v nd = nd\<lparr>nd_meta := ?rm, nd_files := f\<rparr>"
    using assms(3) f by (simp add: node_set_term_and_votedfor_def rm_set_term_and_votedfor_def saved_def meta_of_def)
  show "saved ne0 (node_set_term_and_votedfor ne t v nd) t v"
    using rm_save_stored [OF assms(1,2) _ _ _ f] assms(4-6) unfolding eq saved_def by (simp add: meta_of_def)
  show "\<exists>m f. node_set_term_and_votedfor ne t v nd = nd\<lparr>nd_meta := m, nd_files := f\<rparr>" using eq by blast
qed

lemma set_votedfor_saved:
  assumes "env_ok ne0 ip2str C" "step_env ne0 ne" "saved ne0 nd t v0" "v \<in> insert empty_peer (fset C)" "0 \<le> t" "t \<le> int32_max"
  shows "saved ne0 (node_set_votedfor ne v nd) t v"
    "\<exists>m f. node_set_votedfor ne v nd = nd\<lparr>nd_meta := m, nd_files := f\<rparr>"
proof -
  let ?rm = "meta_of t v"
  obtain r f where f: "rm_save (ne_codec ne) (peer_to_string (ne_endpoint2str ne)) (ne_meta_path ne) (ne_meta_sync ne)
      (ne_save_outcome ne) ?rm (nd_files nd) = (r, f)" by fastforce
  have "(nd_meta nd)\<lparr>rm_votedfor := v\<rparr> = ?rm" using assms(3) by (simp add: saved_def meta_of_def)
  then have eq: "node_set_votedfor ne v nd = nd\<lparr>nd_meta := ?rm, nd_files := f\<rparr>"
    using assms(3) f by (simp add: node_set_votedfor_def rm_set_votedfor_def saved_def meta_of_def)
  show "saved ne0 (node_set_votedfor ne v nd) t v"
    using rm_save_stored [OF assms(1,2) _ _ _ f] assms(4-6) unfolding eq saved_def by (simp add: meta_of_def)
  show "\<exists>m f. node_set_votedfor ne v nd = nd\<lparr>nd_meta := m, nd_files := f\<rparr>" using eq by blast
qed

text \<open>
  A move of a node: it keeps its term and vote, or adopts a higher term and saves it without a vote. In both cases it
  becomes neither candidate nor leader by it.
\<close>

definition idle :: "state \<Rightarrow> bool" where
  "idle s \<longleftrightarrow> s \<noteq> STATE_CANDIDATE \<and> s \<noteq> STATE_LEADER"

definition same_identity :: "('c, 'r, 'w) node \<Rightarrow> ('c, 'r, 'w) node \<Rightarrow> bool" where
  "same_identity nd nd' \<longleftrightarrow>
     nd_server_id nd' = nd_server_id nd \<and> nd_conf nd' = nd_conf nd \<and> nd_vote_ctx nd' = nd_vote_ctx nd"

definition quiet :: "('c, 'r, 'w) node \<Rightarrow> ('c, 'r, 'w) node \<Rightarrow> bool" where
  "quiet nd nd' \<longleftrightarrow>
     nd_current_term nd' = nd_current_term nd \<and> nd_voted_id nd' = nd_voted_id nd \<and>
     nd_meta nd' = nd_meta nd \<and> nd_files nd' = nd_files nd \<and>
     (nd_state nd' = nd_state nd \<or> idle (nd_state nd'))"

definition bump :: "node_env \<Rightarrow> ('c, 'r, 'w) node \<Rightarrow> ('c, 'r, 'w) node \<Rightarrow> bool" where
  "bump ne0 nd nd' \<longleftrightarrow>
     nd_current_term nd < nd_current_term nd' \<and> nd_current_term nd' \<le> int32_max \<and> nd_voted_id nd' = empty_peer \<and>
     saved ne0 nd' (nd_current_term nd') empty_peer \<and> idle (nd_state nd')"

definition move :: "node_env \<Rightarrow> ('c, 'r, 'w) node \<Rightarrow> ('c, 'r, 'w) node \<Rightarrow> bool" where
  "move ne0 nd nd' \<longleftrightarrow> same_identity nd nd' \<and> (quiet nd nd' \<or> bump ne0 nd nd')"

lemma saved_quiet: "quiet nd nd' \<Longrightarrow> saved ne0 nd' t v \<longleftrightarrow> saved ne0 nd t v"
  by (simp add: quiet_def saved_def)

lemma move_refl [simp]: "move ne0 nd nd"
  by (simp add: move_def same_identity_def quiet_def)

lemma move_trans:
  assumes "move ne0 nd1 nd2" "move ne0 nd2 nd3"
  shows "move ne0 nd1 nd3"
  using assms unfolding move_def
proof (elim conjE disjE, goal_cases)
  case 2
  then show ?case by (auto simp: same_identity_def quiet_def bump_def)
next
  case 3
  then show ?case by (auto simp: same_identity_def bump_def saved_quiet) (auto simp: quiet_def)
qed (auto simp: same_identity_def quiet_def bump_def)

lemma to_int32_id: "- 2147483648 \<le> t \<Longrightarrow> t \<le> int32_max \<Longrightarrow> to_int32 t = t"
  unfolding to_int32_def int32_max_def sint_sbintrunc' by (simp add: signed_take_bit_int_eq_self)

definition healthy :: "node_env \<Rightarrow> ('c, 'r, 'w) node \<Rightarrow> bool" where
  "healthy ne0 nd \<longleftrightarrow> (\<exists>t v. saved ne0 nd t v) \<and> 0 \<le> nd_current_term nd"

lemma move_healthy: "move ne0 nd nd' \<Longrightarrow> healthy ne0 nd \<Longrightarrow> healthy ne0 nd'"
  unfolding move_def healthy_def by (fastforce simp: quiet_def bump_def saved_def)

lemma leave_state_fields:
  assumes "leave_state nd = (evs, nd')"
  shows "\<exists>bb. nd' = nd\<lparr>nd_ballot_box := bb\<rparr>"
proof (cases "clear_pending_tasks (nd_ballot_box nd)")
  case (Pair run bb)
  then show ?thesis
    using assms by (cases nd) (auto simp: leave_state_def split: if_splits)
qed

lemma step_down_move:
  assumes env: "env_ok ne0 ip2str C" "step_env ne0 ne" and h: "healthy ne0 nd" and t: "tm \<le> int32_max"
    and step: "step_down ne tm nd = (evs, nd')"
  shows "move ne0 nd nd'" "nd_state nd' = STATE_FOLLOWER" "nd_leader_id nd' = empty_peer"
proof -
  obtain e1 nd1 where l: "leave_state (reset_leader_id empty_peer nd) = (e1, nd1)" by fastforce
  then obtain bb where nd1: "nd1 = nd\<lparr>nd_leader_id := empty_peer, nd_ballot_box := bb\<rparr>"
    using leave_state_fields [OF l] by (auto simp: reset_leader_id_def is_empty_peer_iff)
  let ?nd2 = "nd\<lparr>nd_leader_id := empty_peer, nd_ballot_box := bb, nd_state := STATE_FOLLOWER\<rparr>"
  have "move ne0 nd nd' \<and> nd_state nd' = STATE_FOLLOWER \<and> nd_leader_id nd' = empty_peer"
  proof (cases "tm > nd_current_term nd")
    case True
    let ?nd3 = "?nd2\<lparr>nd_current_term := tm, nd_voted_id := empty_peer\<rparr>"
    have t0: "0 \<le> tm" using True h by (simp add: healthy_def)
    have id: "to_int32 tm = tm" using True h t by (intro to_int32_id) (auto simp: healthy_def)
    obtain t0 v0 where "saved ne0 nd t0 v0" using h unfolding healthy_def by blast
    then have s3: "saved ne0 ?nd3 t0 v0" by (simp add: saved_def)
    have nd': "nd' = node_set_term_and_votedfor ne tm empty_peer ?nd3"
      using step True by (simp add: step_down_def l nd1 id)
    have "saved ne0 nd' tm empty_peer" unfolding nd' by (rule set_term_and_votedfor_saved(1) [OF env s3 _ t0 t]) simp
    moreover obtain m f where "nd' = ?nd3\<lparr>nd_meta := m, nd_files := f\<rparr>"
      unfolding nd' using set_term_and_votedfor_saved(2) [OF env s3 _ t0 t, of empty_peer] by auto
    ultimately show ?thesis
      using True t by (auto simp: move_def same_identity_def bump_def idle_def)
  next
    case False
    then have "nd' = ?nd2" using step by (simp add: step_down_def l nd1)
    then show ?thesis by (auto simp: move_def same_identity_def quiet_def idle_def)
  qed
  then show "move ne0 nd nd'" "nd_state nd' = STATE_FOLLOWER" "nd_leader_id nd' = empty_peer" by auto
qed

text \<open>Changes of a node that have nothing to do with elections.\<close>

definition unrelated :: "('c, 'r, 'w) node \<Rightarrow> ('c, 'r, 'w) node \<Rightarrow> bool" where
  "unrelated nd nd' \<longleftrightarrow>
     nd_server_id nd' = nd_server_id nd \<and> nd_vote_ctx nd' = nd_vote_ctx nd \<and> nd_current_term nd' = nd_current_term nd \<and>
     nd_voted_id nd' = nd_voted_id nd \<and> nd_meta nd' = nd_meta nd \<and> nd_files nd' = nd_files nd \<and> nd_state nd' = nd_state nd"

lemma unrelated_move: "unrelated nd nd' \<Longrightarrow> nd_conf nd' = nd_conf nd \<Longrightarrow> move ne0 nd nd'"
  by (simp add: unrelated_def move_def same_identity_def quiet_def)

lemma unrelated_trans: "unrelated nd1 nd2 \<Longrightarrow> unrelated nd2 nd3 \<Longrightarrow> unrelated nd1 nd3"
  by (simp add: unrelated_def)

lemma check_step_down_move:
  assumes "env_ok ne0 ip2str C" "step_env ne0 ne" "healthy ne0 nd" "tm \<le> int32_max"
    and step: "check_step_down ne tm server nd = (evs, nd')"
  shows "move ne0 nd nd'"
proof -
  obtain e1 nd1 where s: "(if tm > nd_current_term nd then step_down ne tm nd
             else if nd_state nd \<noteq> STATE_FOLLOWER then step_down ne tm nd
             else if is_empty_peer (nd_leader_id nd) then step_down ne tm nd
             else ([], nd)) = (e1, nd1)" by fastforce
  then have "move ne0 nd nd1" using step_down_move(1) [OF assms(1-4)] by (auto split: if_splits)
  moreover have "move ne0 nd1 nd'"
    using step s by (intro unrelated_move) (auto simp: check_step_down_def reset_leader_id_def unrelated_def split: if_splits)
  ultimately show ?thesis by (rule move_trans)
qed

lemma cache_check_unrelated:
  assumes "check_append_entries_cache ne bm l nd = (evs, nd')"
  shows "unrelated nd nd' \<and> nd_conf nd' = nd_conf nd"
  using assms by (auto simp: check_append_entries_cache_def unrelated_def split: option.splits prod.splits)

lemma out_of_order_unrelated:
  assumes "handle_out_of_order_append_entries ne w rpc l nd = Inr (b, evs, nd')"
  shows "unrelated nd nd'"
  using assms
  by (auto simp: handle_out_of_order_append_entries_def unrelated_def Let_def split: if_splits option.splits sum.splits prod.splits)

lemma append_accepted_unrelated:
  assumes "append_accepted ne w fc rpc nd = Inr (evs, nd')"
  shows "unrelated nd nd'"
proof -
  let ?req = "rpc_request rpc" and ?lm = "nd_log_manager nd"
  obtain t where t: "lm_get_term (ae_prev_log_index ?req) ?lm = Inr t"
    using assms by (cases "lm_get_term (ae_prev_log_index ?req) ?lm") (auto simp: append_accepted_def Let_def)
  consider (refuse) "t \<noteq> ae_prev_log_term ?req \<and> \<not> ne_oo_enabled ne \<or>
       \<not> lm_check_dependency (ae_prev_log_index ?req + int (length (ae_entries ?req))) (ae_dependency ?req) ?lm"
    | (empty) "\<not> (t \<noteq> ae_prev_log_term ?req \<and> \<not> ne_oo_enabled ne \<or>
       \<not> lm_check_dependency (ae_prev_log_index ?req + int (length (ae_entries ?req))) (ae_dependency ?req) ?lm)" "ae_entries ?req = []"
    | (app) "\<not> (t \<noteq> ae_prev_log_term ?req \<and> \<not> ne_oo_enabled ne \<or>
       \<not> lm_check_dependency (ae_prev_log_index ?req + int (length (ae_entries ?req))) (ae_dependency ?req) ?lm)" "ae_entries ?req \<noteq> []"
    by blast
  then show ?thesis
  proof cases
    case refuse
    obtain b e nd1 where s: "(if ne_cache_enabled ne \<and> \<not> fc then handle_out_of_order_append_entries ne w rpc (lm_last_log_index ?lm) nd
          else Inr (False, [], nd)) = Inr (b, e, nd1)"
      using assms refuse
      by (cases "if ne_cache_enabled ne \<and> \<not> fc then handle_out_of_order_append_entries ne w rpc (lm_last_log_index ?lm) nd
          else Inr (False, [], nd)") (auto simp: append_accepted_def t Let_def)
    have "nd' = nd1" using assms refuse by (cases b) (simp_all add: append_accepted_def t Let_def s)
    then show ?thesis
      using s out_of_order_unrelated [of ne w rpc "lm_last_log_index ?lm" nd b e nd1] by (cases "ne_cache_enabled ne \<and> \<not> fc") (auto simp: unrelated_def)
  next
    case empty
    then show ?thesis using assms by (auto simp: append_accepted_def t Let_def unrelated_def split: prod.splits)
  next
    case app
    then obtain es where es: "parse_entries ne (ae_prev_log_index ?req) (ae_entries ?req) (rpc_attachment rpc) = Inr es"
      using assms by (cases "parse_entries ne (ae_prev_log_index ?req) (ae_entries ?req) (rpc_attachment rpc)")
        (auto simp: append_accepted_def t Let_def)
    then obtain e lm1 where lm1: "lm_append_entries es (Follower_stable (rpc_id rpc) ?req (nd_current_term nd)) (ne_oo_enabled ne) ?lm = Inr (e, lm1)"
      using assms app by (cases "lm_append_entries es (Follower_stable (rpc_id rpc) ?req (nd_current_term nd)) (ne_oo_enabled ne) ?lm")
        (auto simp: append_accepted_def t Let_def)
    let ?nd1 = "nd\<lparr>nd_log_manager := lm1\<rparr>"
    obtain e2 nd2 where c: "(if ne_cache_enabled ne then check_append_entries_cache ne (lm_dependency_bitmap lm1) (lm_max_log_index lm1) ?nd1
        else ([], ?nd1)) = (e2, nd2)" by fastforce
    have "nd' = nd2\<lparr>nd_conf := snd (check_and_set_configuration (nd_conf nd2) (nd_log_manager nd2))\<rparr>"
      using assms app by (simp add: append_accepted_def t Let_def es lm1 c)
    moreover have "unrelated ?nd1 nd2"
      using c cache_check_unrelated [of ne "lm_dependency_bitmap lm1" "lm_max_log_index lm1" ?nd1 e2 nd2]
      by (auto simp: unrelated_def split: if_splits)
    ultimately show ?thesis by (simp add: unrelated_def)
  qed
qed

lemma append_request_move:
  assumes env: "env_ok ne0 ip2str C" "step_env ne0 ne" and h: "healthy ne0 nd" and t: "ae_term (rpc_request rpc) + 1 \<le> int32_max"
    and run: "handle_append_entries_request ne now w fc rpc nd = Inr (evs, nd')" and conf: "nd_conf nd' = nd_conf nd"
  shows "move ne0 nd nd'"
proof -
  let ?req = "rpc_request rpc"
  show ?thesis
  proof (cases "peer_parse (ne_str2ip ne) (ae_server_id ?req)")
    case (Inr p)
    show ?thesis
    proof (cases p)
      case (Some server)
      show ?thesis
      proof (cases "ae_term ?req < nd_current_term nd")
        case False
        obtain e1 nd1 where c: "check_step_down ne (ae_term ?req) server nd = (e1, nd1)" by fastforce
        have m1: "move ne0 nd nd1" using check_step_down_move [OF env h _ c] t by simp
        show ?thesis
        proof (cases "server = nd_leader_id nd1")
          case True
          let ?nd2 = "if fc then nd1 else nd1\<lparr>nd_last_leader_timestamp := now\<rparr>"
          have "\<exists>e2. append_accepted ne w fc rpc ?nd2 = Inr (e2, nd')"
            using run Inr Some False c True
            by (auto simp: handle_append_entries_request_def Let_def split: sum.splits prod.splits)
          then have "unrelated ?nd2 nd'" using append_accepted_unrelated by blast
          then have "unrelated nd1 nd'" by (auto simp: unrelated_def split: if_splits)
          moreover have "nd_conf nd1 = nd_conf nd" using m1 by (simp add: move_def same_identity_def)
          ultimately have "move ne0 nd1 nd'" using conf by (intro unrelated_move) simp_all
          with m1 show ?thesis by (rule move_trans)
        next
          case False
          obtain e2 nd2 where s: "step_down ne (ae_term ?req + 1) nd1 = (e2, nd2)" by fastforce
          have "nd' = nd2" using run Inr Some \<open>\<not> ae_term ?req < nd_current_term nd\<close> c False s
            by (auto simp: handle_append_entries_request_def Let_def)
          then show ?thesis using move_trans [OF m1 step_down_move(1) [OF env move_healthy [OF m1 h] t s]] by simp
        qed
      qed (use run Inr Some in \<open>simp add: handle_append_entries_request_def Let_def\<close>)
    qed (use run Inr in \<open>simp add: handle_append_entries_request_def Let_def\<close>)
  qed (use run in \<open>simp add: handle_append_entries_request_def Let_def\<close>)
qed

lemma follower_stable_unrelated:
  assumes "follower_stable_run ne r req t st nd = Inr (evs, nd')"
  shows "unrelated nd nd' \<and> nd_conf nd' = nd_conf nd"
proof (cases "st \<noteq> OK0 \<or> t \<noteq> nd_current_term nd")
  case True
  then have "nd' = nd" using assms by (cases "st = OK0") (simp_all add: follower_stable_run_def)
  then show ?thesis by (simp add: unrelated_def)
next
  case False
  obtain e nd1 where c: "check_append_entries_cache ne (lm_dependency_bitmap (nd_log_manager nd)) (lm_max_log_index (nd_log_manager nd)) nd = (e, nd1)"
    by fastforce
  obtain oo where oo: "read_oo_indexes (ae_committed_oo_index req) 1 (length (ae_committed_oo_index req)) = Inr oo"
    using assms False by (cases "read_oo_indexes (ae_committed_oo_index req) 1 (length (ae_committed_oo_index req))")
      (simp_all add: follower_stable_run_def Let_def c)
  have "nd' = nd1\<lparr>nd_ballot_box := snd (snd (set_last_committed_index (ae_committed_index req) oo (nd_ballot_box nd1)))\<rparr>"
    using assms False by (simp add: follower_stable_run_def Let_def c oo [simplified] case_prod_beta)
  then show ?thesis using cache_check_unrelated [OF c] by (auto simp: unrelated_def)
qed

lemma leader_stable_unrelated:
  "leader_stable_run first n st nd = Inr (evs, nd') \<Longrightarrow> unrelated nd nd' \<and> nd_conf nd' = nd_conf nd"
  by (auto simp: leader_stable_run_def unrelated_def split: if_splits sum.splits prod.splits)

lemma apply_loop_unrelated: "apply_loop ts nd = (evs, es, nd') \<Longrightarrow> unrelated nd nd' \<and> nd_conf nd' = nd_conf nd"
proof (induction ts arbitrary: nd evs es nd')
  case (Cons t ts)
  show ?case
  proof (cases "at_expected_term t \<noteq> - 1 \<and> at_expected_term t \<noteq> nd_current_term nd")
    case True
    then show ?thesis using Cons by (auto split: prod.splits)
  next
    case False
    obtain d nd1 where d: "node_check_dependency (at_dependency_id t) nd = (d, nd1)" by fastforce
    define nd2 where "nd2 = nd1\<lparr>nd_ballot_box :=
      snd (append_pending_task (ce_conf (nd_conf nd1)) (old_conf_of (nd_conf nd1)) (at_done t) (nd_ballot_box nd1))\<rparr>"
    obtain e2 es2 nd3 where r: "apply_loop ts nd2 = (e2, es2, nd3)" by (metis prod_cases3)
    have "nd' = nd3" using Cons.prems False r unfolding nd2_def by (auto simp: Let_def d)
    moreover have "unrelated nd nd2 \<and> nd_conf nd2 = nd_conf nd"
      using d unfolding nd2_def by (auto simp: node_check_dependency_def Let_def unrelated_def)
    ultimately show ?thesis using Cons.IH [OF r] unrelated_trans by auto
  qed
qed (simp add: unrelated_def)

lemma node_apply_unrelated:
  assumes "node_apply ts nd = Inr (evs, nd')"
  shows "unrelated nd nd'"
proof (cases "nd_state nd = STATE_LEADER")
  case True
  obtain e es nd1 where a: "apply_loop ts nd = (e, es, nd1)" by (metis prod_cases3)
  have "\<exists>lm ce. nd' = nd1\<lparr>nd_log_manager := lm, nd_conf := ce\<rparr>"
    using assms True by (auto simp: node_apply_def a split: sum.splits prod.splits)
  then show ?thesis using apply_loop_unrelated [OF a] by (auto simp: unrelated_def)
qed (use assms in \<open>auto simp: node_apply_def unrelated_def\<close>)

lemma prevote_unrelated: "prevote ne nd = Inr (evs, nd') \<Longrightarrow> unrelated nd nd' \<and> nd_conf nd' = nd_conf nd"
  by (auto simp: prevote_def unrelated_def Let_def split: if_splits sum.splits)

lemma election_timeout_unrelated:
  assumes "handle_election_timeout ne now nd = Inr (evs, nd')"
  shows "unrelated nd nd' \<and> nd_conf nd' = nd_conf nd"
proof (cases "nd_state nd \<noteq> STATE_FOLLOWER \<or> \<not> nd_vote_triggered nd \<and> now - nd_last_leader_timestamp nd < ne_election_timeout_ms ne")
  case True
  then have "nd' = nd" using assms by (cases "nd_state nd = STATE_FOLLOWER") (simp_all add: handle_election_timeout_def)
  then show ?thesis by (simp add: unrelated_def)
next
  case False
  then have "prevote ne (reset_leader_id empty_peer (nd\<lparr>nd_vote_triggered := False\<rparr>)) = Inr (evs, nd')"
    using assms unfolding handle_election_timeout_def by metis
  from prevote_unrelated [OF this] show ?thesis by (auto simp: unrelated_def reset_leader_id_def is_empty_peer_iff)
qed

lemma stepdown_timeout_move:
  assumes "env_ok ne0 ip2str C" "step_env ne0 ne" "healthy ne0 nd" "nd_current_term nd \<le> int32_max"
    and "handle_stepdown_timeout ne now last_send nd = (evs, nd')"
  shows "move ne0 nd nd'"
  using assms(5) step_down_move(1) [OF assms(1-4)]
  by (auto simp: handle_stepdown_timeout_def check_dead_nodes_def Let_def split: if_splits)

lemma increase_term_move:
  assumes "env_ok ne0 ip2str C" "step_env ne0 ne" "healthy ne0 nd" "t \<le> int32_max"
    and "increase_term_to ne t nd = (ret, evs, nd')"
  shows "move ne0 nd nd'"
  using assms(5) step_down_move(1) [OF assms(1-4)] by (auto simp: increase_term_to_def split: if_splits prod.splits)

lemma shutdown_move:
  assumes env: "env_ok ne0 ip2str C" "step_env ne0 ne" and h: "healthy ne0 nd" "nd_current_term nd \<le> int32_max"
    and run: "node_shutdown ne d nd = (evs, nd')"
  shows "move ne0 nd nd'"
proof -
  obtain e nd1 where s: "(if state_number (nd_state nd) \<le> state_number STATE_FOLLOWER then step_down ne (nd_current_term nd) nd else ([], nd)) = (e, nd1)"
    by fastforce
  have m: "move ne0 nd nd1" using s step_down_move(1) [OF env h] by (auto split: if_splits)
  obtain le lm where l: "lm_shutdown (nd_log_manager nd1) = (le, lm)" by fastforce
  obtain e2 nd2 where f: "(if state_number (nd_state nd) < state_number STATE_SHUTTING
       then (let (evs1, nd2) = (if state_number (nd_state nd) \<le> state_number STATE_FOLLOWER
                                      then step_down ne (nd_current_term nd) nd else ([], nd));
                       (levs, lm) = lm_shutdown (nd_log_manager nd2)
                   in (evs1 @ map Destroy_timer [Election_timer, Vote_timer, Stepdown_timer] @ map Log_event levs @ [Fsm_shutdown],
                       nd2\<lparr>nd_state := STATE_SHUTTING, nd_log_manager := lm\<rparr>))
             else ([], nd)) = (e2, nd2)" by fastforce
  have "move ne0 nd1 (nd1\<lparr>nd_state := STATE_SHUTTING, nd_log_manager := lm\<rparr>)"
    by (simp add: move_def same_identity_def quiet_def idle_def)
  then have "move ne0 nd (nd1\<lparr>nd_state := STATE_SHUTTING, nd_log_manager := lm\<rparr>)" by (rule move_trans [OF m])
  then have m2: "move ne0 nd nd2" using f unfolding s Let_def by (auto simp: l split: if_splits)
  have "nd' = nd2 \<or> (\<exists>cs. nd' = nd2\<lparr>nd_shutdown_continuations := cs\<rparr>)"
    using run unfolding node_shutdown_def f by (auto split: if_splits option.splits)
  moreover have "move ne0 nd2 (nd2\<lparr>nd_shutdown_continuations := cs\<rparr>)" for cs
    by (rule unrelated_move) (simp_all add: unrelated_def)
  ultimately show ?thesis using m2 move_trans [OF m2] by metis
qed

end
