(* ===== verification/Cluster.thy ===== *)
theory Cluster
  imports Election
begin

text \<open>
  A cluster of nodes that run the handlers of \<open>NodeImpl\<close>, with messages that may be delayed, lost, repeated and
  reordered, and nodes that crash at any moment and restart from their files. The configuration \<open>C\<close> is fixed. The
  histories \<open>cl_votes\<close> and \<open>cl_won\<close> record the granted votes and the elections won; no step reads them.
\<close>

section \<open>Steps\<close>

text \<open>
  \<open>cl_requests\<close>: candidate, receiver, the term that \<open>OnRequestVoteRPCDone\<close> keeps, and the request.
  \<open>cl_waiting\<close>: \<open>handle_request_vote\<close> between its two halves, with the parsed candidate.
  \<open>cl_responses\<close>: the rpc that was answered and the answer. \<open>cl_electing\<close>: \<open>elect_self\<close> between its two halves.
\<close>

record ('c, 'r, 'w) cluster =
  cl_node :: "peer_id \<Rightarrow> ('c, 'r, 'w) node"
  cl_requests :: "(peer_id \<times> peer_id \<times> int64 \<times> vote_request) set"
  cl_waiting :: "(peer_id \<times> peer_id \<times> int64 \<times> vote_request \<times> peer_id) set"
  cl_responses :: "(peer_id \<times> peer_id \<times> int64 \<times> vote_response) set"
  cl_electing :: "(peer_id \<times> int) set"
  cl_votes :: "(peer_id \<times> int64 \<times> peer_id) set"
  cl_won :: "(peer_id \<times> int64) set"

definition set_node :: "peer_id \<Rightarrow> ('c, 'r, 'w) node \<Rightarrow> ('c, 'r, 'w) cluster \<Rightarrow> ('c, 'r, 'w) cluster" where
  "set_node n nd c = c\<lparr>cl_node := (cl_node c)(n := nd),
     cl_won := (if nd_state nd = STATE_LEADER then insert (n, nd_current_term nd) (cl_won c) else cl_won c)\<rparr>"

text \<open>The handlers that take no part in an election, for a fixed configuration.\<close>

inductive local_step :: "node_env \<Rightarrow> ('c, 'r, 'w) node \<Rightarrow> ('c, 'r, 'w) node \<Rightarrow> bool" for ne where
  append_entries: "handle_append_entries_request ne now w fc rpc nd = Inr (evs, nd') \<Longrightarrow>
     ae_term (rpc_request rpc) < int32_max \<Longrightarrow> nd_conf nd' = nd_conf nd \<Longrightarrow> local_step ne nd nd'"
| follower_stable: "follower_stable_run ne r req t st nd = Inr (evs, nd') \<Longrightarrow> local_step ne nd nd'"
| leader_stable: "leader_stable_run first k st nd = Inr (evs, nd') \<Longrightarrow> local_step ne nd nd'"
| apply_tasks: "node_apply ts nd = Inr (evs, nd') \<Longrightarrow> nd_conf nd' = nd_conf nd \<Longrightarrow> local_step ne nd nd'"
| election_timeout: "handle_election_timeout ne now nd = Inr (evs, nd') \<Longrightarrow> local_step ne nd nd'"
| stepdown_timeout: "handle_stepdown_timeout ne now last_send nd = (evs, nd') \<Longrightarrow> local_step ne nd nd'"
| increase_term: "increase_term_to ne t nd = (ret, evs, nd') \<Longrightarrow> t \<le> int32_max \<Longrightarrow> local_step ne nd nd'"
| shut_down: "node_shutdown ne d nd = (evs, nd') \<Longrightarrow> local_step ne nd nd'"
| log_thread: "local_step ne nd (nd\<lparr>nd_log_manager := lm\<rparr>)"
| commit_box: "local_step ne nd (nd\<lparr>nd_ballot_box := bb\<rparr>)"
| cache_timer: "local_step ne nd (nd\<lparr>nd_cache := cache\<rparr>)"

inductive cluster_step :: "node_env \<Rightarrow> configuration \<Rightarrow> ('c, 'r, 'w) cluster \<Rightarrow> ('c, 'r, 'w) cluster \<Rightarrow> bool" for ne0 C where
  vote_begin: "(m, n, t, req) \<in> cl_requests c \<Longrightarrow> step_env ne0 ne \<Longrightarrow>
     handle_request_vote_begin ne req (cl_node c n) = Inr (Vote_wait cand, evs, nd') \<Longrightarrow>
     cluster_step ne0 C c ((set_node n nd' c)\<lparr>cl_waiting := insert (n, m, t, req, cand) (cl_waiting c)\<rparr>)"
| vote_refuse: "(m, n, t, req) \<in> cl_requests c \<Longrightarrow> step_env ne0 ne \<Longrightarrow>
     handle_request_vote_begin ne req (cl_node c n) = Inr (Vote_answered resp, evs, nd') \<Longrightarrow>
     cluster_step ne0 C c ((set_node n nd' c)\<lparr>cl_responses := insert (m, n, t, resp) (cl_responses c)\<rparr>)"
| vote_end: "(n, m, t, req, cand) \<in> cl_waiting c \<Longrightarrow> step_env ne0 ne \<Longrightarrow>
     handle_request_vote_end ne req cand last_id (cl_node c n) = (resp, evs, nd') \<Longrightarrow>
     cluster_step ne0 C c ((set_node n nd' c)\<lparr>cl_waiting := cl_waiting c - {(n, m, t, req, cand)},
       cl_responses := insert (m, n, t, resp) (cl_responses c),
       cl_votes := (if vp_granted resp then insert (n, vr_term req, cand) (cl_votes c) else cl_votes c)\<rparr>)"
| vote_response: "(n, p, t, resp) \<in> cl_responses c \<Longrightarrow> step_env ne0 ne \<Longrightarrow>
     handle_request_vote_response ne p t resp (cl_node c n) = (evs, nd') \<Longrightarrow>
     cluster_step ne0 C c (set_node n nd' c)"
| prevote_response: "n |\<in>| C \<Longrightarrow> step_env ne0 ne \<Longrightarrow> vp_term resp \<le> int32_max \<Longrightarrow>
     handle_pre_vote_response ne p t resp (cl_node c n) = Inr (cont, evs, nd') \<Longrightarrow>
     cluster_step ne0 C c ((set_node n nd' c)\<lparr>cl_electing := Pair n ` set_option cont \<union> cl_electing c\<rparr>)"
| vote_timeout: "n |\<in>| C \<Longrightarrow> step_env ne0 ne \<Longrightarrow>
     handle_vote_timeout ne (cl_node c n) = Inr (cont, evs, nd') \<Longrightarrow>
     cluster_step ne0 C c ((set_node n nd' c)\<lparr>cl_electing := Pair n ` set_option cont \<union> cl_electing c\<rparr>)"
| elect_end: "(n, t) \<in> cl_electing c \<Longrightarrow> step_env ne0 ne \<Longrightarrow>
     elect_self_end ne t last_id (cl_node c n) = (evs, nd') \<Longrightarrow>
     cluster_step ne0 C c ((set_node n nd' c)\<lparr>cl_electing := cl_electing c - {(n, t)},
       cl_requests := {(n, p, t', req) | p t' req. Send_request_vote p t' req \<in> set evs} \<union> cl_requests c,
       cl_votes := (if t = nd_current_term (cl_node c n) then insert (n, t, n) (cl_votes c) else cl_votes c)\<rparr>)"
| local: "n |\<in>| C \<Longrightarrow> step_env ne0 ne \<Longrightarrow> local_step ne (cl_node c n) nd' \<Longrightarrow> cluster_step ne0 C c (set_node n nd' c)"
| restart: "n |\<in>| C \<Longrightarrow> step_env ne0 ne \<Longrightarrow> nd_files nd0 = nd_files (cl_node c n) \<Longrightarrow> ce_old_conf (nd_conf nd0) = {||} \<Longrightarrow>
     io_server_id io = n \<Longrightarrow> io_initial_conf io = C \<Longrightarrow> node_init ne io nd0 = Inr (OK0, nd') \<Longrightarrow>
     cluster_step ne0 C c ((set_node n nd' c)\<lparr>cl_electing := {e \<in> cl_electing c. fst e \<noteq> n},
       cl_waiting := {w \<in> cl_waiting c. fst w \<noteq> n}\<rparr>)"

text \<open>A cluster that starts: every node was initialised from some files, and nothing was sent.\<close>

definition cluster_init :: "node_env \<Rightarrow> configuration \<Rightarrow> ('c, 'r, 'w) cluster \<Rightarrow> bool" where
  "cluster_init ne0 C c \<longleftrightarrow>
     cl_requests c = {} \<and> cl_waiting c = {} \<and> cl_responses c = {} \<and> cl_electing c = {} \<and> cl_votes c = {} \<and> cl_won c = {} \<and>
     (\<forall>n \<in> fset C. \<exists>ne io nd0. step_env ne0 ne \<and> nd_files nd0 = Map.empty \<and> ce_old_conf (nd_conf nd0) = {||} \<and>
        io_server_id io = n \<and> io_initial_conf io = C \<and> node_init ne io nd0 = Inr (OK0, cl_node c n))"

section \<open>The invariant\<close>

text \<open>What node \<open>n\<close> has saved against what it holds in memory, and the votes it is bound by.\<close>

definition node_ok :: "node_env \<Rightarrow> configuration \<Rightarrow> peer_id \<Rightarrow> (int64 \<times> peer_id) set \<Rightarrow> ('c, 'r, 'w) node \<Rightarrow> bool" where
  "node_ok ne0 C n votes nd \<longleftrightarrow>
     nd_server_id nd = n \<and> ce_conf (nd_conf nd) = C \<and> ce_old_conf (nd_conf nd) = {||} \<and>
     0 \<le> nd_current_term nd \<and> nd_current_term nd \<le> int32_max \<and>
     (\<exists>pt pv. saved ne0 nd pt pv \<and> 0 \<le> pt \<and> pv \<in> insert empty_peer (fset C) \<and>
        (pt = nd_current_term nd \<and> nd_voted_id nd = pv \<or> pt < nd_current_term nd \<and> nd_voted_id nd = n) \<and>
        (\<forall>(t, x) \<in> votes. t \<le> pt \<and> (t = pt \<longrightarrow> x = pv) \<and> x \<in> fset C)) \<and>
     (\<forall>t x y. (t, x) \<in> votes \<and> (t, y) \<in> votes \<longrightarrow> x = y)"

definition votes_of :: "peer_id \<Rightarrow> ('c, 'r, 'w) cluster \<Rightarrow> (int64 \<times> peer_id) set" where
  "votes_of n c = {(t, x). (n, t, x) \<in> cl_votes c}"

definition voters :: "peer_id \<Rightarrow> int64 \<Rightarrow> ('c, 'r, 'w) cluster \<Rightarrow> peer_id set" where
  "voters n t c = {s. (s, t, n) \<in> cl_votes c}"

text \<open>What node \<open>n\<close> knows of its own election.\<close>

definition election_ok :: "configuration \<Rightarrow> peer_id \<Rightarrow> ('c, 'r, 'w) cluster \<Rightarrow> bool" where
  "election_ok C n c \<longleftrightarrow>
     (let nd = cl_node c n; t = nd_current_term nd
      in (\<forall>t'. (n, t') \<in> cl_electing c \<longrightarrow> t' \<le> t \<and> (t' = t \<longrightarrow> nd_voted_id nd = n)) \<and>
         (nd_state nd = STATE_CANDIDATE \<or> (n, t) \<in> cl_electing c \<longrightarrow>
            (\<exists>S. nd_vote_ctx nd = ballot_of C None S \<and> S \<subseteq> voters n t c)) \<and>
         (nd_state nd = STATE_LEADER \<longrightarrow> (n, t) \<in> cl_won c))"

definition request_ok :: "node_env \<Rightarrow> configuration \<Rightarrow> peer_id \<Rightarrow> peer_id \<Rightarrow> int64 \<Rightarrow> vote_request \<Rightarrow> bool" where
  "request_ok ne0 C m n t req \<longleftrightarrow>
     m |\<in>| C \<and> n |\<in>| C \<and> m \<noteq> n \<and> vr_term req = t \<and> t \<le> int32_max \<and>
     peer_parse (ne_str2ip ne0) (vr_server_id req) = Inr (Some m)"

definition messages_ok :: "node_env \<Rightarrow> configuration \<Rightarrow> ('c, 'r, 'w) cluster \<Rightarrow> bool" where
  "messages_ok ne0 C c \<longleftrightarrow>
     (\<forall>(m, n, t, req) \<in> cl_requests c. request_ok ne0 C m n t req) \<and>
     (\<forall>(n, m, t, req, cand) \<in> cl_waiting c. request_ok ne0 C m n t req \<and> cand = m) \<and>
     (\<forall>(m, n, t, resp) \<in> cl_responses c. m |\<in>| C \<and> vp_term resp \<le> int32_max \<and> (vp_granted resp \<longrightarrow> n \<in> voters m t c)) \<and>
     (\<forall>(n, t) \<in> cl_electing c. n |\<in>| C) \<and>
     (\<forall>(n, t) \<in> cl_won c. majority C (voters n t c))"

definition cluster_inv :: "node_env \<Rightarrow> configuration \<Rightarrow> ('c, 'r, 'w) cluster \<Rightarrow> bool" where
  "cluster_inv ne0 C c \<longleftrightarrow>
     (\<forall>n \<in> fset C. node_ok ne0 C n (votes_of n c) (cl_node c n) \<and> election_ok C n c) \<and> messages_ok ne0 C c"

section \<open>Preservation: one node\<close>

lemma meta_of_inject [simp]: "meta_of t v = meta_of t' v' \<longleftrightarrow> t = t' \<and> v = v'"
  by (simp add: meta_of_def)

lemma saved_unique: "saved ne0 nd t v \<Longrightarrow> saved ne0 nd t' v' \<Longrightarrow> t' = t \<and> v' = v"
  by (auto simp: saved_def)

lemma node_ok_healthy: "node_ok ne0 C n V nd \<Longrightarrow> healthy ne0 nd"
  by (auto simp: node_ok_def healthy_def)

lemma node_okE:
  assumes "node_ok ne0 C n V nd"
  obtains pt pv where "saved ne0 nd pt pv" "0 \<le> pt" "pv \<in> insert empty_peer (fset C)"
    "pt = nd_current_term nd \<and> nd_voted_id nd = pv \<or> pt < nd_current_term nd \<and> nd_voted_id nd = n"
    "\<forall>t x. (t, x) \<in> V \<longrightarrow> t \<le> pt \<and> (t = pt \<longrightarrow> x = pv) \<and> x \<in> fset C"
  using assms unfolding node_ok_def by fast

lemma node_okD:
  assumes "node_ok ne0 C n V nd"
  shows "nd_server_id nd = n" "ce_conf (nd_conf nd) = C" "ce_old_conf (nd_conf nd) = {||}"
    "0 \<le> nd_current_term nd" "nd_current_term nd \<le> int32_max"
    "\<And>t x y. (t, x) \<in> V \<Longrightarrow> (t, y) \<in> V \<Longrightarrow> x = y"
  using assms unfolding node_ok_def by blast+

lemma node_okI:
  assumes "nd_server_id nd = n" "ce_conf (nd_conf nd) = C" "ce_old_conf (nd_conf nd) = {||}"
    "0 \<le> nd_current_term nd" "nd_current_term nd \<le> int32_max"
    and "saved ne0 nd pt pv" "0 \<le> pt" "pv \<in> insert empty_peer (fset C)"
    "pt = nd_current_term nd \<and> nd_voted_id nd = pv \<or> pt < nd_current_term nd \<and> nd_voted_id nd = n"
    "\<And>t x. (t, x) \<in> V \<Longrightarrow> t \<le> pt \<and> (t = pt \<longrightarrow> x = pv) \<and> x \<in> fset C"
    "\<And>t x y. (t, x) \<in> V \<Longrightarrow> (t, y) \<in> V \<Longrightarrow> x = y"
  shows "node_ok ne0 C n V nd"
  using assms unfolding node_ok_def by (auto intro!: exI [of _ pt] exI [of _ pv])

lemma node_ok_move:
  assumes ok: "node_ok ne0 C n V nd" and m: "move ne0 nd nd'"
  shows "node_ok ne0 C n V nd'"
proof -
  note d = node_okD [OF ok]
  obtain pt pv where p: "saved ne0 nd pt pv" "0 \<le> pt" "pv \<in> insert empty_peer (fset C)"
    "pt = nd_current_term nd \<and> nd_voted_id nd = pv \<or> pt < nd_current_term nd \<and> nd_voted_id nd = n"
    and v: "\<forall>t x. (t, x) \<in> V \<longrightarrow> t \<le> pt \<and> (t = pt \<longrightarrow> x = pv) \<and> x \<in> fset C"
    by (rule node_okE [OF ok])
  have id: "nd_server_id nd' = n" "ce_conf (nd_conf nd') = C" "ce_old_conf (nd_conf nd') = {||}"
    using m d(1-3) by (auto simp: move_def same_identity_def)
  consider "quiet nd nd'" | "bump ne0 nd nd'" using m by (auto simp: move_def)
  then show ?thesis
  proof cases
    case 1
    then have "nd_current_term nd' = nd_current_term nd" "nd_voted_id nd' = nd_voted_id nd" "saved ne0 nd' pt pv"
      using p(1) saved_quiet [OF 1, of ne0 pt pv] by (simp_all add: quiet_def)
    then show ?thesis using id d(4-6) p v by (intro node_okI [of nd' n C ne0 pt pv]) simp_all
  next
    case 2
    have "t \<le> nd_current_term nd' \<and> t \<noteq> nd_current_term nd' \<and> x \<in> fset C" if "(t, x) \<in> V" for t x
      using v [rule_format, OF that] p(4) 2 by (auto simp: bump_def)
    then show ?thesis using id d(4,6) 2
      by (intro node_okI [of nd' n C ne0 "nd_current_term nd'" empty_peer]) (auto simp: bump_def)
  qed
qed

text \<open>A node that saved a vote for \<open>x\<close> in its current term, and had none or the same before.\<close>

lemma node_ok_vote:
  assumes ok: "node_ok ne0 C n V nd" and empty: "empty_peer |\<notin>| C"
    and same: "nd_server_id nd' = nd_server_id nd" "nd_conf nd' = nd_conf nd" "nd_current_term nd' = nd_current_term nd"
    and vote: "saved ne0 nd' (nd_current_term nd) x" "nd_voted_id nd' = x" "x |\<in>| C"
    and before: "nd_voted_id nd = empty_peer \<or> nd_voted_id nd = x"
  shows "node_ok ne0 C n (insert (nd_current_term nd, x) V) nd'"
proof -
  note d = node_okD [OF ok]
  obtain pt pv where p: "pt = nd_current_term nd \<and> nd_voted_id nd = pv \<or> pt < nd_current_term nd \<and> nd_voted_id nd = n"
    and v: "\<forall>t x. (t, x) \<in> V \<longrightarrow> t \<le> pt \<and> (t = pt \<longrightarrow> x = pv) \<and> x \<in> fset C"
    by (rule node_okE [OF ok])
  have old: "t \<le> nd_current_term nd \<and> (t = nd_current_term nd \<longrightarrow> y = x) \<and> y \<in> fset C" if "(t, y) \<in> V" for t y
    using v [rule_format, OF that] p before empty by auto
  show ?thesis
    by (rule node_okI [of nd' n C ne0 "nd_current_term nd" x]) (use d same vote old in auto)
qed

text \<open>The first half of \<open>elect_self\<close> raises the term before it is saved.\<close>

lemma node_ok_elect:
  assumes ok: "node_ok ne0 C n V nd" and run: "elect_self_begin nd = Inr (Some t, evs, nd')"
  shows "node_ok ne0 C n V nd'" "t = nd_current_term nd + 1" "nd_current_term nd' = t" "nd_voted_id nd' = n"
    "nd_vote_ctx nd' = ballot_of C None {}" "nd_state nd' = STATE_CANDIDATE"
proof -
  note d = node_okD [OF ok]
  obtain pt pv where p: "saved ne0 nd pt pv" "0 \<le> pt" "pv \<in> insert empty_peer (fset C)"
    "pt = nd_current_term nd \<and> nd_voted_id nd = pv \<or> pt < nd_current_term nd \<and> nd_voted_id nd = n"
    and v: "\<forall>t x. (t, x) \<in> V \<longrightarrow> t \<le> pt \<and> (t = pt \<longrightarrow> x = pv) \<and> x \<in> fset C"
    by (rule node_okE [OF ok])
  have st: "ce_stable (nd_conf nd)" using d(3) by (simp add: ce_stable_def conf_empty_def)
  have room: "nd_current_term nd < int32_max"
    and nd': "nd' = (reset_leader_id empty_peer nd)\<lparr>nd_state := STATE_CANDIDATE, nd_current_term := nd_current_term nd + 1,
      nd_voted_id := nd_server_id nd, nd_vote_ctx := ballot_init (ce_conf (nd_conf nd)) None\<rparr>"
    and t: "t = nd_current_term nd + 1"
    using run st by (auto simp: elect_self_begin_def Let_def split: if_splits)
  show "t = nd_current_term nd + 1" by (rule t)
  show f: "nd_current_term nd' = t" "nd_voted_id nd' = n" "nd_vote_ctx nd' = ballot_of C None {}" "nd_state nd' = STATE_CANDIDATE"
    unfolding nd' t by (simp_all add: d ballot_init_refines)
  have "saved ne0 nd' pt pv" using p(1) unfolding nd' by (simp add: saved_def reset_leader_id_def is_empty_peer_iff)
  moreover have "nd_server_id nd' = n" "nd_conf nd' = nd_conf nd"
    unfolding nd' by (simp_all add: d reset_leader_id_def is_empty_peer_iff)
  ultimately show "node_ok ne0 C n V nd'"
    using d p v room f t by (intro node_okI [of nd' n C ne0 pt pv]) auto
qed

text \<open>A restart falls back to what was saved.\<close>

lemma init_commit_fields:
  assumes "init_commit nd = (OK0, nd')"
  shows "nd_current_term nd' = nd_current_term nd" "nd_voted_id nd' = nd_voted_id nd" "nd_meta nd' = nd_meta nd"
    "nd_files nd' = nd_files nd" "nd_server_id nd' = nd_server_id nd" "nd_conf nd' = nd_conf nd" "nd_state nd' = STATE_FOLLOWER"
  using assms by (auto simp: init_commit_def ballot_box_init_def Let_def split: option.splits)

lemma init_meta_storage_restores:
  assumes env: "step_env ne0 ne" and s: "stored ne0 (nd_files nd) (meta_of t v)" "0 \<le> t" "t \<le> int32_max"
    and run: "init_meta_storage ne mk e nd = (OK0, nd')"
  shows "nd' = nd\<lparr>nd_meta := meta_of t v, nd_current_term := t, nd_voted_id := v\<rparr>"
proof (cases mk)
  case True
  then have "rm_init (ne_codec ne) (peer_text (ne_str2ip ne)) (ne_meta_path ne) mk e (nd_files nd) new_raft_meta = (OK0, meta_of t v)"
    using s(1) env unfolding stored_def step_env_def by simp
  then show ?thesis
    using run to_int32_id [of t] s(2,3) by (simp add: init_meta_storage_def rm_get_votedfor_def rm_get_term_def meta_of_def)
next
  case False
  then show ?thesis using run by (simp add: init_meta_storage_def rm_init_def new_raft_meta_def Let_def)
qed

lemma node_init_restores:
  assumes env: "step_env ne0 ne" and s: "stored ne0 (nd_files nd0) (meta_of t v)" "0 \<le> t" "t \<le> int32_max"
    and run: "node_init ne io nd0 = Inr (OK0, nd')"
  shows "nd_current_term nd' = t" "nd_voted_id nd' = v" "saved ne0 nd' t v" "nd_state nd' = STATE_FOLLOWER"
    "nd_server_id nd' = io_server_id io" "ce_conf (nd_conf nd') = io_initial_conf io"
    "ce_old_conf (nd_conf nd') = ce_old_conf (nd_conf nd0)"
proof -
  obtain ret lm where l: "init_log_storage io = (Inr (ret, lm) :: (rc \<times> ('b stable_closure, 'c) log_manager option) res)"
    using run by (cases "init_log_storage io :: (rc \<times> ('b stable_closure, 'c) log_manager option) res") (auto simp: node_init_def)
  define nd1 where "nd1 = nd0\<lparr>nd_conf := (nd_conf nd0)\<lparr>ce_id := new_log_id, ce_conf := io_initial_conf io\<rparr>,
    nd_server_id := io_server_id io, nd_dependency_look_back := io_look_back io, nd_peer_list := io_initial_conf io,
    nd_log_manager := (case lm of None \<Rightarrow> nd_log_manager nd0 | Some m \<Rightarrow> m)\<rparr>"
  obtain ret2 nd2 where m: "init_meta_storage ne (io_meta_mkdir_ok io) (io_meta_stale_enoent io) nd1 = (ret2, nd2)" by fastforce
  have "ret2 = OK0" and c: "init_commit nd2 = (OK0, nd')"
    using run unfolding node_init_def l Let_def sum.case prod.case nd1_def [symmetric] m by (auto split: if_splits)
  then have nd2: "nd2 = nd1\<lparr>nd_meta := meta_of t v, nd_current_term := t, nd_voted_id := v\<rparr>"
    using init_meta_storage_restores [OF env _ s(2,3), of nd1 v] m s(1) by (simp add: nd1_def)
  note f = init_commit_fields [OF c, unfolded nd2 nd1_def, simplified]
  show "nd_current_term nd' = t" "nd_voted_id nd' = v" "nd_state nd' = STATE_FOLLOWER"
    "nd_server_id nd' = io_server_id io" "ce_conf (nd_conf nd') = io_initial_conf io"
    "ce_old_conf (nd_conf nd') = ce_old_conf (nd_conf nd0)" "saved ne0 nd' t v"
    using f s(1) by (simp_all add: saved_def)
qed

lemma local_step_move:
  assumes env: "env_ok ne0 ip2str C" "step_env ne0 ne" and h: "healthy ne0 nd" "nd_current_term nd \<le> int32_max"
    and step: "local_step ne nd nd'"
  shows "move ne0 nd nd'"
  using step h
proof cases
  case (append_entries now w fc rpc evs)
  then show ?thesis by (intro append_request_move [OF env h(1)]) simp_all
next
  case (follower_stable r req t st evs)
  from follower_stable_unrelated [OF this(1)] show ?thesis by (simp add: unrelated_move)
next
  case (leader_stable first k st evs)
  from leader_stable_unrelated [OF this(1)] show ?thesis by (simp add: unrelated_move)
next
  case (apply_tasks ts evs)
  from node_apply_unrelated [OF this(1)] this(2) show ?thesis by (rule unrelated_move)
next
  case (election_timeout now evs)
  from election_timeout_unrelated [OF this(1)] show ?thesis by (simp add: unrelated_move)
next
  case (stepdown_timeout now last_send evs)
  then show ?thesis using stepdown_timeout_move [OF env h] by blast
next
  case (increase_term t ret evs)
  then show ?thesis using increase_term_move [OF env h(1)] by blast
next
  case (shut_down d evs)
  then show ?thesis using shutdown_move [OF env h] by blast
qed (auto intro!: unrelated_move simp: unrelated_def)

section \<open>Preservation: the cluster\<close>

lemma set_node_simps [simp]:
  "cl_node (set_node n nd c) = (cl_node c)(n := nd)" "cl_requests (set_node n nd c) = cl_requests c"
  "cl_waiting (set_node n nd c) = cl_waiting c" "cl_responses (set_node n nd c) = cl_responses c"
  "cl_electing (set_node n nd c) = cl_electing c" "cl_votes (set_node n nd c) = cl_votes c"
  "cl_won (set_node n nd c) = (if nd_state nd = STATE_LEADER then insert (n, nd_current_term nd) (cl_won c) else cl_won c)"
  by (simp_all add: set_node_def)

lemma voters_mono: "cl_votes c \<subseteq> cl_votes c' \<Longrightarrow> voters n t c \<subseteq> voters n t c'"
  by (auto simp: voters_def)

lemma inv_nodeD:
  assumes "cluster_inv ne0 C c" "n |\<in>| C"
  shows "node_ok ne0 C n (votes_of n c) (cl_node c n)" "election_ok C n c"
  using assms by (auto simp: cluster_inv_def)

lemma election_okD:
  assumes "election_ok C n c"
  shows "(n, t) \<in> cl_electing c \<Longrightarrow> t \<le> nd_current_term (cl_node c n)"
    and "(n, nd_current_term (cl_node c n)) \<in> cl_electing c \<Longrightarrow> nd_voted_id (cl_node c n) = n"
    and "nd_state (cl_node c n) = STATE_CANDIDATE \<or> (n, nd_current_term (cl_node c n)) \<in> cl_electing c \<Longrightarrow>
      \<exists>S. nd_vote_ctx (cl_node c n) = ballot_of C None S \<and> S \<subseteq> voters n (nd_current_term (cl_node c n)) c"
    and "nd_state (cl_node c n) = STATE_LEADER \<Longrightarrow> (n, nd_current_term (cl_node c n)) \<in> cl_won c"
  using assms unfolding election_ok_def Let_def by blast+

lemma messagesD:
  assumes "cluster_inv ne0 C c"
  shows "(m, n, t, req) \<in> cl_requests c \<Longrightarrow> request_ok ne0 C m n t req"
    and "(n, m, t, req, cand) \<in> cl_waiting c \<Longrightarrow> request_ok ne0 C m n t req \<and> cand = m"
    and "(m, n, t, resp) \<in> cl_responses c \<Longrightarrow> m |\<in>| C \<and> vp_term resp \<le> int32_max \<and> (vp_granted resp \<longrightarrow> n \<in> voters m t c)"
    and "(n, t) \<in> cl_electing c \<Longrightarrow> n |\<in>| C"
    and "(n, t) \<in> cl_won c \<Longrightarrow> majority C (voters n t c)"
  using assms unfolding cluster_inv_def messages_ok_def by blast+

text \<open>A step of one node.\<close>

lemma inv_set_node:
  assumes inv: "cluster_inv ne0 C c" and n: "n |\<in>| C" and ok: "node_ok ne0 C n (votes_of n c) nd"
    and electing: "\<And>t. (n, t) \<in> cl_electing c \<Longrightarrow> t \<le> nd_current_term nd \<and> (t = nd_current_term nd \<longrightarrow> nd_voted_id nd = n)"
    and ctx: "nd_state nd = STATE_CANDIDATE \<or> (n, nd_current_term nd) \<in> cl_electing c \<Longrightarrow>
      \<exists>S. nd_vote_ctx nd = ballot_of C None S \<and> S \<subseteq> voters n (nd_current_term nd) c"
    and leads: "nd_state nd = STATE_LEADER \<Longrightarrow> majority C (voters n (nd_current_term nd) c)"
  shows "cluster_inv ne0 C (set_node n nd c)"
proof -
  let ?c = "set_node n nd c"
  have v: "votes_of m ?c = votes_of m c" "voters m t ?c = voters m t c" for m t
    by (simp_all add: votes_of_def voters_def)
  have "node_ok ne0 C m (votes_of m ?c) (cl_node ?c m) \<and> election_ok C m ?c" if "m |\<in>| C" for m
  proof (cases "m = n")
    case True
    have "election_ok C n ?c" unfolding election_ok_def Let_def v using electing ctx by auto
    then show ?thesis using ok True by (simp add: v)
  next
    case False
    then show ?thesis using inv_nodeD [OF inv that] by (auto simp: v election_ok_def Let_def)
  qed
  moreover have "messages_ok ne0 C ?c"
    using inv leads unfolding cluster_inv_def messages_ok_def v by auto
  ultimately show ?thesis unfolding cluster_inv_def by blast
qed

lemma inv_move:
  assumes inv: "cluster_inv ne0 C c" and n: "n |\<in>| C" and m: "move ne0 (cl_node c n) nd"
  shows "cluster_inv ne0 C (set_node n nd c)"
proof -
  note ok = inv_nodeD(1) [OF inv n] and e = election_okD [OF inv_nodeD(2) [OF inv n]]
  have id: "nd_vote_ctx nd = nd_vote_ctx (cl_node c n)" using m by (simp add: move_def same_identity_def)
  consider (q) "quiet (cl_node c n) nd" | (b) "bump ne0 (cl_node c n) nd" using m by (auto simp: move_def)
  then show ?thesis
  proof cases
    case q
    then have eq: "nd_current_term nd = nd_current_term (cl_node c n)" "nd_voted_id nd = nd_voted_id (cl_node c n)"
      and st: "nd_state nd = nd_state (cl_node c n) \<or> idle (nd_state nd)" by (simp_all add: quiet_def)
    show ?thesis
    proof (rule inv_set_node [OF inv n node_ok_move [OF ok m]], unfold eq id)
      show "nd_state nd = STATE_LEADER \<Longrightarrow> majority C (voters n (nd_current_term (cl_node c n)) c)"
        using e(4) messagesD(5) [OF inv] st by (auto simp: idle_def)
    qed (use e st in \<open>auto simp: idle_def\<close>)
  next
    case b
    then have "nd_current_term (cl_node c n) < nd_current_term nd" "idle (nd_state nd)" by (simp_all add: bump_def)
    then show ?thesis
      using e(1) by (intro inv_set_node [OF inv n node_ok_move [OF ok m]]) (fastforce simp: idle_def)+
  qed
qed

text \<open>Steps of the messages and the histories.\<close>

lemma inv_cong:
  assumes "cluster_inv ne0 C c" "messages_ok ne0 C c'" "cl_node c' = cl_node c" "cl_electing c' \<subseteq> cl_electing c"
    "cl_votes c' = cl_votes c" "cl_won c' = cl_won c"
  shows "cluster_inv ne0 C c'"
  using assms unfolding cluster_inv_def election_ok_def votes_of_def voters_def Let_def by auto

lemma inv_waiting:
  assumes "cluster_inv ne0 C c" "\<And>n m t req cand. (n, m, t, req, cand) \<in> W \<Longrightarrow> request_ok ne0 C m n t req \<and> cand = m"
  shows "cluster_inv ne0 C (c\<lparr>cl_waiting := W\<rparr>)"
proof (rule inv_cong [OF assms(1)])
  have v: "voters n t (c\<lparr>cl_waiting := W\<rparr>) = voters n t c" for n t by (simp add: voters_def)
  show "messages_ok ne0 C (c\<lparr>cl_waiting := W\<rparr>)"
    using assms unfolding cluster_inv_def messages_ok_def v by auto
qed simp_all

lemma inv_response:
  assumes "cluster_inv ne0 C c" "m |\<in>| C" "vp_term resp \<le> int32_max" "vp_granted resp \<Longrightarrow> n \<in> voters m t c"
  shows "cluster_inv ne0 C (c\<lparr>cl_responses := insert (m, n, t, resp) (cl_responses c)\<rparr>)"
proof (rule inv_cong [OF assms(1)])
  have v: "voters n t (c\<lparr>cl_responses := R\<rparr>) = voters n t c" for n t R by (simp add: voters_def)
  show "messages_ok ne0 C (c\<lparr>cl_responses := insert (m, n, t, resp) (cl_responses c)\<rparr>)"
    using assms unfolding cluster_inv_def messages_ok_def v by auto
qed simp_all

lemma inv_requests:
  assumes "cluster_inv ne0 C c" "\<And>m n t req. (m, n, t, req) \<in> R \<Longrightarrow> request_ok ne0 C m n t req"
  shows "cluster_inv ne0 C (c\<lparr>cl_requests := R \<union> cl_requests c\<rparr>)"
proof (rule inv_cong [OF assms(1)])
  have v: "voters n t (c\<lparr>cl_requests := R'\<rparr>) = voters n t c" for n t R' by (simp add: voters_def)
  show "messages_ok ne0 C (c\<lparr>cl_requests := R \<union> cl_requests c\<rparr>)"
    using assms unfolding cluster_inv_def messages_ok_def v by auto
qed simp_all

lemma inv_fewer_electing:
  assumes "cluster_inv ne0 C c" "E \<subseteq> cl_electing c"
  shows "cluster_inv ne0 C (c\<lparr>cl_electing := E\<rparr>)"
proof (rule inv_cong [OF assms(1)])
  have v: "voters n t (c\<lparr>cl_electing := E\<rparr>) = voters n t c" for n t by (simp add: voters_def)
  show "messages_ok ne0 C (c\<lparr>cl_electing := E\<rparr>)"
    using assms unfolding cluster_inv_def messages_ok_def v by auto
qed (use assms in simp_all)

lemma inv_electing:
  assumes inv: "cluster_inv ne0 C c" and n: "n |\<in>| C"
    and e: "t = nd_current_term (cl_node c n)" "nd_voted_id (cl_node c n) = n" "nd_state (cl_node c n) = STATE_CANDIDATE"
  shows "cluster_inv ne0 C (c\<lparr>cl_electing := insert (n, t) (cl_electing c)\<rparr>)"
proof -
  let ?c = "c\<lparr>cl_electing := insert (n, t) (cl_electing c)\<rparr>"
  have v: "votes_of m ?c = votes_of m c" "voters m u ?c = voters m u c" for m u by (simp_all add: votes_of_def voters_def)
  have "election_ok C m ?c" if "m |\<in>| C" for m
    using inv_nodeD(2) [OF inv that] e unfolding election_ok_def Let_def v by (cases "m = n") auto
  moreover have "messages_ok ne0 C ?c" using inv n unfolding cluster_inv_def messages_ok_def v by auto
  ultimately show ?thesis using inv unfolding cluster_inv_def v by simp
qed

lemma inv_vote:
  assumes inv: "cluster_inv ne0 C c" and n: "n |\<in>| C" and ok: "node_ok ne0 C n (insert (t, x) (votes_of n c)) (cl_node c n)"
  shows "cluster_inv ne0 C (c\<lparr>cl_votes := insert (n, t, x) (cl_votes c)\<rparr>)"
proof -
  let ?c = "c\<lparr>cl_votes := insert (n, t, x) (cl_votes c)\<rparr>"
  have v: "votes_of n ?c = insert (t, x) (votes_of n c)" "m \<noteq> n \<Longrightarrow> votes_of m ?c = votes_of m c" for m
    by (auto simp: votes_of_def)
  have g: "voters m u c \<subseteq> voters m u ?c" for m u by (rule voters_mono) auto
  have "node_ok ne0 C m (votes_of m ?c) (cl_node ?c m) \<and> election_ok C m ?c" if "m |\<in>| C" for m
  proof
    show "node_ok ne0 C m (votes_of m ?c) (cl_node ?c m)"
      using inv_nodeD(1) [OF inv that] ok v by (cases "m = n") auto
    show "election_ok C m ?c"
      using inv_nodeD(2) [OF inv that] g [of m "nd_current_term (cl_node c m)"]
      unfolding election_ok_def Let_def by simp (meson order_trans)
  qed
  moreover have "messages_ok ne0 C ?c"
  proof -
    have "majority C (voters m u ?c)" if "(m, u) \<in> cl_won c" for m u
      using majority_mono [OF messagesD(5) [OF inv that] g] .
    then show ?thesis using inv g unfolding cluster_inv_def messages_ok_def by auto blast
  qed
  ultimately show ?thesis unfolding cluster_inv_def by blast
qed

section \<open>Preservation: the steps\<close>

lemma node_ok_fewer: "node_ok ne0 C n V nd \<Longrightarrow> V' \<subseteq> V \<Longrightarrow> node_ok ne0 C n V' nd"
  by (rule node_okE, assumption, rule node_okI) (auto dest: node_okD)

lemma step_down_quiet:
  assumes "\<not> tm > nd_current_term nd" "step_down ne tm nd = (evs, nd')"
  shows "same_identity nd nd'" "quiet nd nd'" "nd_state nd' = STATE_FOLLOWER"
proof -
  obtain e1 nd1 where l: "leave_state (reset_leader_id empty_peer nd) = (e1, nd1)" by fastforce
  then obtain bb where nd1: "nd1 = nd\<lparr>nd_leader_id := empty_peer, nd_ballot_box := bb\<rparr>"
    using leave_state_fields [OF l] by (auto simp: reset_leader_id_def is_empty_peer_iff)
  have "nd' = nd1\<lparr>nd_state := STATE_FOLLOWER\<rparr>" using assms by (simp add: step_down_def l nd1)
  then show "same_identity nd nd'" "quiet nd nd'" "nd_state nd' = STATE_FOLLOWER"
    unfolding nd1 by (simp_all add: same_identity_def quiet_def idle_def)
qed

lemma vote_begin_move:
  assumes env: "env_ok ne0 ip2str C" "step_env ne0 ne" and h: "healthy ne0 nd" and req: "request_ok ne0 C m n t req"
    and run: "handle_request_vote_begin ne req nd = Inr (st, evs, nd')"
  shows "move ne0 nd nd' \<and> (st = Vote_wait m \<or> st = Vote_answered (vote_answer req m nd) \<and> vr_term req < nd_current_term nd)"
proof -
  have p: "peer_parse (ne_str2ip ne) (vr_server_id req) = Inr (Some m)" and t: "vr_term req \<le> int32_max"
    using env(2) req by (simp_all add: step_env_def request_ok_def)
  show ?thesis
  proof (cases "vr_term req > nd_current_term nd")
    case True
    obtain e nd1 where s: "step_down ne (vr_term req) nd = (e, nd1)" by fastforce
    from step_down_move(1) [OF env h t s] show ?thesis
      using run True by (auto simp: handle_request_vote_begin_def p s)
  qed (use run in \<open>auto simp: handle_request_vote_begin_def p split: if_splits\<close>)
qed

lemma inv_vote_begin:
  assumes env: "env_ok ne0 ip2str C" "step_env ne0 ne" and inv: "cluster_inv ne0 C c" and req: "(m, n, t, req) \<in> cl_requests c"
    and run: "handle_request_vote_begin ne req (cl_node c n) = Inr (Vote_wait cand, evs, nd')"
  shows "cluster_inv ne0 C ((set_node n nd' c)\<lparr>cl_waiting := insert (n, m, t, req, cand) (cl_waiting c)\<rparr>)"
proof -
  note r = messagesD(1) [OF inv req]
  then have n: "n |\<in>| C" by (simp add: request_ok_def)
  note v = vote_begin_move [OF env node_ok_healthy [OF inv_nodeD(1) [OF inv n]] r run]
  have "cluster_inv ne0 C (set_node n nd' c)" using v by (intro inv_move [OF inv n]) blast
  then show ?thesis by (rule inv_waiting) (use v r messagesD(2) [OF inv] in auto)
qed

lemma inv_vote_refuse:
  assumes env: "env_ok ne0 ip2str C" "step_env ne0 ne" and inv: "cluster_inv ne0 C c" and req: "(m, n, t, req) \<in> cl_requests c"
    and run: "handle_request_vote_begin ne req (cl_node c n) = Inr (Vote_answered resp, evs, nd')"
  shows "cluster_inv ne0 C ((set_node n nd' c)\<lparr>cl_responses := insert (m, n, t, resp) (cl_responses c)\<rparr>)"
proof -
  note r = messagesD(1) [OF inv req]
  then have n: "n |\<in>| C" "m |\<in>| C" by (simp_all add: request_ok_def)
  note ok = inv_nodeD(1) [OF inv n(1)]
  note v = vote_begin_move [OF env node_ok_healthy [OF ok] r run]
  have "cluster_inv ne0 C (set_node n nd' c)" using v by (intro inv_move [OF inv n(1)]) blast
  from inv_response [OF this n(2), of resp n t] show ?thesis
    using v node_okD(5) [OF ok] by (auto simp: vote_answer_def)
qed

lemma vote_end_cases:
  assumes "handle_request_vote_end ne req cand last_id nd = (resp, evs, nd')"
  obtains (keep) "nd' = nd" "resp = vote_answer req cand nd"
  | (cast) e nd1 where "vr_term req = nd_current_term nd" "nd_voted_id nd = empty_peer"
      "step_down ne (nd_current_term nd) nd = (e, nd1)"
      "nd' = node_set_votedfor ne cand (nd1\<lparr>nd_voted_id := cand\<rparr>)" "resp = vote_answer req cand nd'"
proof (cases "vr_term req = nd_current_term nd \<and> \<not> LogId (vr_last_log_index req) (vr_last_log_term req) < last_id \<and> nd_voted_id nd = empty_peer")
  case True
  obtain e nd1 where s: "step_down ne (nd_current_term nd) nd = (e, nd1)" by fastforce
  show ?thesis using assms True s cast [OF _ _ s] by (auto simp: handle_request_vote_end_def is_empty_peer_iff Let_def)
next
  case False
  have "nd' = nd \<and> resp = vote_answer req cand nd"
    using assms False by (cases "vr_term req = nd_current_term nd") (auto simp: handle_request_vote_end_def is_empty_peer_iff Let_def split: if_splits)
  then show ?thesis using keep by blast
qed

text \<open>The vote of a node that is not its own is saved.\<close>

lemma node_ok_foreign_vote:
  assumes "node_ok ne0 C n V nd" "nd_voted_id nd = x" "x \<noteq> n"
  shows "saved ne0 nd (nd_current_term nd) x"
  by (rule node_okE [OF assms(1)]) (use assms(2,3) in auto)

lemma inv_vote_end:
  assumes env: "env_ok ne0 ip2str C" "step_env ne0 ne" and inv: "cluster_inv ne0 C c" and w: "(n, m, t, req, cand) \<in> cl_waiting c"
    and run: "handle_request_vote_end ne req cand last_id (cl_node c n) = (resp, evs, nd')"
  shows "cluster_inv ne0 C ((set_node n nd' c)\<lparr>cl_waiting := cl_waiting c - {(n, m, t, req, cand)},
       cl_responses := insert (m, n, t, resp) (cl_responses c),
       cl_votes := (if vp_granted resp then insert (n, vr_term req, cand) (cl_votes c) else cl_votes c)\<rparr>)"
proof -
  have r: "request_ok ne0 C m n t req" and cand: "cand = m" using messagesD(2) [OF inv w] by auto
  then have n: "n |\<in>| C" "m |\<in>| C" "m \<noteq> n" "vr_term req = t" by (simp_all add: request_ok_def)
  have empty: "empty_peer |\<notin>| C" using env(1) by (simp add: env_ok_def)
  note ok = inv_nodeD(1) [OF inv n(1)]
  let ?nd = "cl_node c n" and ?c1 = "set_node n nd' c"
  let ?c2 = "if vp_granted resp then ?c1\<lparr>cl_votes := insert (n, t, m) (cl_votes ?c1)\<rparr> else ?c1"
  have main: "cluster_inv ne0 C ?c2 \<and> vp_term resp \<le> int32_max"
    using run
  proof (cases rule: vote_end_cases)
    case keep
    have c1: "cluster_inv ne0 C ?c1" using keep by (intro inv_move [OF inv n(1)]) simp
    have "node_ok ne0 C n (insert (t, m) (votes_of n ?c1)) (cl_node ?c1 n)" if "vp_granted resp"
    proof -
      have g: "t = nd_current_term ?nd" "nd_voted_id ?nd = m" using that keep n(4) cand by (auto simp: vote_answer_def)
      from node_ok_vote [OF ok empty refl refl refl node_ok_foreign_vote [OF ok g(2) n(3)] g(2) n(2) disjI2 [OF g(2)]]
      show ?thesis using keep g by (simp add: votes_of_def)
    qed
    from inv_vote [OF c1 n(1) this] show ?thesis using c1 keep node_okD(5) [OF ok] by (auto simp: vote_answer_def)
  next
    case (cast e nd1)
    note q = step_down_quiet [OF _ cast(3), simplified]
    have v1: "nd_voted_id nd1 = empty_peer" "nd_current_term nd1 = nd_current_term ?nd"
      using q(2) cast(2) by (simp_all add: quiet_def)
    have "saved ne0 ?nd (nd_current_term ?nd) empty_peer"
      by (rule node_ok_foreign_vote [OF ok cast(2)]) (use empty n(1) in auto)
    then have s1: "saved ne0 (nd1\<lparr>nd_voted_id := cand\<rparr>) (nd_current_term ?nd) empty_peer"
      using q(2) by (simp add: quiet_def saved_def)
    note b = node_okD(4,5) [OF ok]
    note s = set_votedfor_saved [OF env s1 _ b, of cand]
    obtain mt f where nd': "nd' = nd1\<lparr>nd_voted_id := cand, nd_meta := mt, nd_files := f\<rparr>"
      using s(2) cast(4) n(2) cand by auto
    have same: "nd_server_id nd' = nd_server_id ?nd" "nd_conf nd' = nd_conf ?nd" "nd_current_term nd' = nd_current_term ?nd"
      using q(1) v1 unfolding nd' by (simp_all add: same_identity_def)
    have sv: "saved ne0 nd' (nd_current_term ?nd) m" using s(1) cast(4) n(2) cand by simp
    have vt: "nd_voted_id nd' = m" unfolding nd' by (simp add: cand)
    note ok' = node_ok_vote [OF ok empty same sv vt n(2) disjI1 [OF cast(2)]]
    have st: "nd_state nd' = STATE_FOLLOWER" using q(3) unfolding nd' by simp
    note el = election_okD [OF inv_nodeD(2) [OF inv n(1)]]
    have none: "(n, nd_current_term ?nd) \<notin> cl_electing c" using el(2) cast(2) empty n(1) by auto
    have c1: "cluster_inv ne0 C ?c1"
      by (rule inv_set_node [OF inv n(1) node_ok_fewer [OF ok']]) (use st same el(1) none in auto)
    have "node_ok ne0 C n (insert (t, m) (votes_of n ?c1)) (cl_node ?c1 n)"
      using ok' cast(1) n(4) by (simp add: votes_of_def)
    from inv_vote [OF c1 n(1) this] show ?thesis using c1 cast same b by (auto simp: vote_answer_def)
  qed
  have wt: "(n', m', t', req', cand') \<in> cl_waiting c - {(n, m, t, req, cand)} \<Longrightarrow> request_ok ne0 C m' n' t' req' \<and> cand' = m'" for n' m' t' req' cand'
    using messagesD(2) [OF inv] by blast
  have c3: "cluster_inv ne0 C (?c2\<lparr>cl_waiting := cl_waiting c - {(n, m, t, req, cand)}\<rparr>)" (is "cluster_inv _ _ ?c3")
    by (rule inv_waiting [OF conjunct1 [OF main] wt])
  have "cluster_inv ne0 C (?c3\<lparr>cl_responses := insert (m, n, t, resp) (cl_responses ?c3)\<rparr>)"
    by (rule inv_response [OF c3 n(2) conjunct2 [OF main]]) (simp add: voters_def)
  moreover have "?c3\<lparr>cl_responses := insert (m, n, t, resp) (cl_responses ?c3)\<rparr> =
      (set_node n nd' c)\<lparr>cl_waiting := cl_waiting c - {(n, m, t, req, cand)}, cl_responses := insert (m, n, t, resp) (cl_responses c),
       cl_votes := (if vp_granted resp then insert (n, vr_term req, cand) (cl_votes c) else cl_votes c)\<rparr>"
    by (rule cluster.equality) (simp_all add: n(4) cand)
  ultimately show ?thesis by simp
qed

lemma become_leader_fields:
  assumes "become_leader nd = (evs, nd')"
  shows "nd' = nd\<lparr>nd_state := STATE_LEADER, nd_leader_id := nd_server_id nd, nd_ballot_box := nd_ballot_box nd'\<rparr>"
    and "Send_request_vote p t req \<notin> set evs"
  using assms by (auto simp: become_leader_def)

text \<open>A vote is counted: the node stays candidate, or becomes leader when the voters are a majority.\<close>

lemma inv_count:
  assumes inv: "cluster_inv ne0 C c" and n: "n |\<in>| C"
    and ctx: "nd_vote_ctx (cl_node c n) = ballot_of C None S" "S \<subseteq> voters n (nd_current_term (cl_node c n)) c"
    and p: "p \<in> voters n (nd_current_term (cl_node c n)) c"
    and nd1: "nd1 = (cl_node c n)\<lparr>nd_vote_ctx := grant_peer (nd_vote_ctx (cl_node c n)) p\<rparr>"
    and run: "(if granted (nd_vote_ctx nd1) then become_leader nd1 else ([], nd1)) = (evs, nd')"
  shows "cluster_inv ne0 C (set_node n nd' c)"
proof -
  let ?nd = "cl_node c n" and ?t = "nd_current_term (cl_node c n)"
  note ok = inv_nodeD(1) [OF inv n] and e = election_okD [OF inv_nodeD(2) [OF inv n]]
  have ctx1: "nd_vote_ctx nd1 = ballot_of C None (insert p S)" by (simp add: nd1 ctx)
  have sub: "insert p S \<subseteq> voters n ?t c" using ctx p by simp
  obtain bb st l where nd': "nd' = nd1\<lparr>nd_state := st, nd_leader_id := l, nd_ballot_box := bb\<rparr>"
    and st: "st = nd_state ?nd \<or> granted (nd_vote_ctx nd1)"
  proof (cases "granted (nd_vote_ctx nd1)")
    case True
    then have "become_leader nd1 = (evs, nd')" using run by simp
    from become_leader_fields(1) [OF this] that True show ?thesis by blast
  next
    case False
    then have "nd' = nd1\<lparr>nd_state := nd_state ?nd, nd_leader_id := nd_leader_id ?nd, nd_ballot_box := nd_ballot_box ?nd\<rparr>"
      using run False by (intro node.equality) (simp_all add: nd1, auto)
    then show ?thesis using that by blast
  qed
  have same: "nd_server_id nd' = nd_server_id ?nd" "nd_conf nd' = nd_conf ?nd" "nd_current_term nd' = ?t" "nd_voted_id nd' = nd_voted_id ?nd"
    "nd_meta nd' = nd_meta ?nd" "nd_files nd' = nd_files ?nd" "nd_vote_ctx nd' = ballot_of C None (insert p S)" "nd_state nd' = st"
    using ctx1 by (simp_all add: nd' nd1)
  have "node_ok ne0 C n (votes_of n c) nd'" using ok same unfolding node_ok_def saved_def by simp
  then show ?thesis
  proof (rule inv_set_node [OF inv n], unfold same)
    show "majority C (voters n ?t c)" if "st = STATE_LEADER"
      using st
    proof
      assume "st = nd_state ?nd"
      then show ?thesis using that e(4) messagesD(5) [OF inv] by simp
    next
      assume "granted (nd_vote_ctx nd1)"
      then have "majority C (insert p S)" by (simp add: ctx1 granted_ballot_of)
      then show ?thesis using sub by (rule majority_mono)
    qed
  qed (use e sub in auto)
qed

lemma inv_vote_response:
  assumes env: "env_ok ne0 ip2str C" "step_env ne0 ne" and inv: "cluster_inv ne0 C c" and r: "(n, p, t, resp) \<in> cl_responses c"
    and run: "handle_request_vote_response ne p t resp (cl_node c n) = (evs, nd')"
  shows "cluster_inv ne0 C (set_node n nd' c)"
proof -
  let ?nd = "cl_node c n"
  have n: "n |\<in>| C" and tm: "vp_term resp \<le> int32_max" and g: "vp_granted resp \<Longrightarrow> p \<in> voters n t c"
    using messagesD(3) [OF inv r] by auto
  note ok = inv_nodeD(1) [OF inv n]
  consider (skip) "nd' = ?nd" | (down) "step_down ne (vp_term resp) ?nd = (evs, nd')"
    | (count) "nd_state ?nd = STATE_CANDIDATE" "t = nd_current_term ?nd" "vp_granted resp"
      "(if granted (grant_peer (nd_vote_ctx ?nd) p) then become_leader (?nd\<lparr>nd_vote_ctx := grant_peer (nd_vote_ctx ?nd) p\<rparr>)
        else ([], ?nd\<lparr>nd_vote_ctx := grant_peer (nd_vote_ctx ?nd) p\<rparr>)) = (evs, nd')"
    using run by (cases "nd_state ?nd = STATE_CANDIDATE"; cases "t = nd_current_term ?nd"; cases "vp_term resp > nd_current_term ?nd"; cases "vp_granted resp")
      (simp_all add: handle_request_vote_response_def Let_def)
  then show ?thesis
  proof cases
    case skip
    then show ?thesis by (intro inv_move [OF inv n]) simp
  next
    case down
    from step_down_move(1) [OF env node_ok_healthy [OF ok] tm down] show ?thesis by (rule inv_move [OF inv n])
  next
    case count
    obtain S where S: "nd_vote_ctx ?nd = ballot_of C None S" "S \<subseteq> voters n (nd_current_term ?nd) c"
      using election_okD(3) [OF inv_nodeD(2) [OF inv n]] count(1) by blast
    show ?thesis
      by (rule inv_count [OF inv n S _ refl]) (use count g in auto)
  qed
qed

lemma elect_begin_cases:
  assumes "elect_self_begin nd = Inr (cont, evs, nd')"
  shows "cont = None \<and> nd' = nd \<or> cont = Some (nd_current_term nd')"
  using assms by (auto simp: elect_self_begin_def Let_def split: if_splits)

lemma inv_elect_begin:
  assumes inv: "cluster_inv ne0 C c" and n: "n |\<in>| C"
    and pre: "unrelated (cl_node c n) nd1" "nd_conf nd1 = nd_conf (cl_node c n)"
    and run: "elect_self_begin nd1 = Inr (cont, evs, nd')"
  shows "cluster_inv ne0 C ((set_node n nd' c)\<lparr>cl_electing := Pair n ` set_option cont \<union> cl_electing c\<rparr>)"
proof -
  have m: "move ne0 (cl_node c n) nd1" using pre by (rule unrelated_move)
  note ok = node_ok_move [OF inv_nodeD(1) [OF inv n] m]
  show ?thesis
  proof (cases cont)
    case None
    then have "cluster_inv ne0 C (set_node n nd' c)"
      using elect_begin_cases [OF run] m by (intro inv_move [OF inv n]) auto
    moreover have "(set_node n nd' c)\<lparr>cl_electing := Pair n ` set_option cont \<union> cl_electing c\<rparr> = set_node n nd' c"
      using None by (intro cluster.equality) simp_all
    ultimately show ?thesis by simp
  next
    case (Some t)
    note e = node_ok_elect [OF ok run [unfolded Some]]
    have t: "nd_current_term nd1 = nd_current_term (cl_node c n)" using pre by (simp add: unrelated_def)
    note el = election_okD(1) [OF inv_nodeD(2) [OF inv n]]
    have c1: "cluster_inv ne0 C (set_node n nd' c)"
      by (rule inv_set_node [OF inv n e(1)]) (use e t el in \<open>fastforce+\<close>)
    have "cluster_inv ne0 C ((set_node n nd' c)\<lparr>cl_electing := insert (n, t) (cl_electing (set_node n nd' c))\<rparr>)"
      by (rule inv_electing [OF c1 n]) (use e in simp_all)
    then show ?thesis by (simp add: Some)
  qed
qed

text \<open>A handler that only moves the node.\<close>

lemma inv_move_electing:
  assumes "cluster_inv ne0 C c" "n |\<in>| C" "move ne0 (cl_node c n) nd'"
  shows "cluster_inv ne0 C ((set_node n nd' c)\<lparr>cl_electing := Pair n ` set_option None \<union> cl_electing c\<rparr>)"
proof -
  have "(set_node n nd' c)\<lparr>cl_electing := Pair n ` set_option None \<union> cl_electing c\<rparr> = set_node n nd' c"
    by (intro cluster.equality) simp_all
  then show ?thesis by (simp only: inv_move [OF assms])
qed

lemma prevote_response_cases:
  assumes "handle_pre_vote_response ne p t resp nd = Inr (cont, evs, nd')"
  shows "cont = None \<and> (nd' = nd \<or> nd' = snd (step_down ne (vp_term resp) nd) \<or> nd' = nd\<lparr>nd_prevote_ctx := grant_peer (nd_prevote_ctx nd) p\<rparr>) \<or>
     elect_self_begin (nd\<lparr>nd_prevote_ctx := grant_peer (nd_prevote_ctx nd) p\<rparr>) = Inr (cont, evs, nd')"
proof (cases "nd_state nd = STATE_FOLLOWER \<and> t = nd_current_term nd")
  case True
  show ?thesis
  proof (cases "vp_term resp > nd_current_term nd")
    case higher: True
    then show ?thesis using assms True by (simp add: handle_pre_vote_response_def case_prod_beta)
  next
    case False
    then show ?thesis
      using assms True by (cases "vp_granted resp"; cases "granted (grant_peer (nd_prevote_ctx nd) p)") (simp_all add: handle_pre_vote_response_def Let_def)
  qed
qed (use assms in \<open>auto simp: handle_pre_vote_response_def split: if_splits\<close>)

lemma inv_prevote_response:
  assumes env: "env_ok ne0 ip2str C" "step_env ne0 ne" and inv: "cluster_inv ne0 C c" and n: "n |\<in>| C" and tm: "vp_term resp \<le> int32_max"
    and run: "handle_pre_vote_response ne p t resp (cl_node c n) = Inr (cont, evs, nd')"
  shows "cluster_inv ne0 C ((set_node n nd' c)\<lparr>cl_electing := Pair n ` set_option cont \<union> cl_electing c\<rparr>)"
proof -
  let ?nd = "cl_node c n"
  let ?nd1 = "?nd\<lparr>nd_prevote_ctx := grant_peer (nd_prevote_ctx ?nd) p\<rparr>"
  note h = node_ok_healthy [OF inv_nodeD(1) [OF inv n]]
  obtain e nd2 where s: "step_down ne (vp_term resp) ?nd = (e, nd2)" by fastforce
  have u: "unrelated ?nd ?nd1" "nd_conf ?nd1 = nd_conf ?nd" by (simp_all add: unrelated_def)
  have "cont = None \<and> (nd' = ?nd \<or> nd' = nd2 \<or> nd' = ?nd1) \<or> elect_self_begin ?nd1 = Inr (cont, evs, nd')"
    using prevote_response_cases [OF run] by (simp only: s snd_conv)
  then consider (move) "cont = None" "nd' = ?nd \<or> nd' = nd2 \<or> nd' = ?nd1" | (elect) "elect_self_begin ?nd1 = Inr (cont, evs, nd')"
    by blast
  then show ?thesis
  proof cases
    case move
    have "move ne0 ?nd nd'"
      using move(2) step_down_move(1) [OF env h tm s] unrelated_move [OF u, of ne0] move_refl [of ne0 ?nd] by (elim disjE) (simp_all only:)
    from inv_move_electing [OF inv n this] show ?thesis by (simp only: move(1))
  next
    case elect
    then show ?thesis by (rule inv_elect_begin [OF inv n u])
  qed
qed

lemma inv_vote_timeout:
  assumes env: "env_ok ne0 ip2str C" "step_env ne0 ne" and inv: "cluster_inv ne0 C c" and n: "n |\<in>| C"
    and run: "handle_vote_timeout ne (cl_node c n) = Inr (cont, evs, nd')"
  shows "cluster_inv ne0 C ((set_node n nd' c)\<lparr>cl_electing := Pair n ` set_option cont \<union> cl_electing c\<rparr>)"
proof -
  let ?nd = "cl_node c n"
  note ok = inv_nodeD(1) [OF inv n]
  obtain e nd2 where s: "step_down ne (nd_current_term ?nd) ?nd = (e, nd2)" by fastforce
  consider (keep) "cont = None" "nd' = ?nd" | (pre) e3 where "cont = None" "prevote ne nd2 = Inr (e3, nd')"
    | (elect) "elect_self_begin ?nd = Inr (cont, evs, nd')"
    using run by (cases "nd_state ?nd = STATE_CANDIDATE"; cases "ne_step_down_when_vote_timedout ne"; cases "prevote ne nd2")
      (auto simp: handle_vote_timeout_def s)
  then show ?thesis
  proof cases
    case keep
    from inv_move_electing [OF inv n move_refl] show ?thesis by (simp only: keep)
  next
    case (pre e3)
    have m: "move ne0 ?nd nd2" by (rule step_down_move(1) [OF env node_ok_healthy [OF ok] node_okD(5) [OF ok] s])
    have u: "unrelated nd2 nd' \<and> nd_conf nd' = nd_conf nd2" by (rule prevote_unrelated [OF pre(2)])
    have "move ne0 nd2 nd'" using u by (simp add: unrelated_move)
    from move_trans [OF m this] have "move ne0 ?nd nd'" .
    from inv_move_electing [OF inv n this] show ?thesis by (simp only: pre(1))
  next
    case elect
    then show ?thesis by (intro inv_elect_begin [OF inv n]) (simp_all add: unrelated_def)
  qed
qed

lemma elect_end_cases:
  assumes run: "elect_self_end ne t last_id nd = (evs, nd')" and t: "t = nd_current_term nd"
  obtains nd1 e where "nd1 = node_set_term_and_votedfor ne t (nd_server_id nd) nd"
    "(if granted (grant_peer (nd_vote_ctx nd1) (nd_server_id nd1))
      then become_leader (nd1\<lparr>nd_vote_ctx := grant_peer (nd_vote_ctx nd1) (nd_server_id nd1)\<rparr>)
      else ([], nd1\<lparr>nd_vote_ctx := grant_peer (nd_vote_ctx nd1) (nd_server_id nd1)\<rparr>)) = (e, nd')"
    "\<And>p t' req. Send_request_vote p t' req \<in> set evs \<Longrightarrow> p \<noteq> nd_server_id nd \<and> p |\<in>| ce_list_peers (nd_conf nd) \<and> t' = t \<and>
       vr_term req = t \<and> vr_server_id req = peer_to_string (ne_endpoint2str ne) (nd_server_id nd)"
proof -
  define nd1 where "nd1 = node_set_term_and_votedfor ne t (nd_server_id nd) nd"
  have fold1: "node_set_term_and_votedfor ne (nd_current_term nd) (nd_server_id nd) nd = nd1" by (simp only: nd1_def t)
  let ?nd2 = "nd1\<lparr>nd_vote_ctx := grant_peer (nd_vote_ctx nd1) (nd_server_id nd1)\<rparr>"
  obtain e nd3 where b: "(if granted (grant_peer (nd_vote_ctx nd1) (nd_server_id nd1)) then become_leader ?nd2 else ([], ?nd2)) = (e, nd3)"
    by fastforce
  have "nd' = nd3"
    using run b t by (simp add: elect_self_end_def Let_def fold1 split: if_splits prod.splits)
  moreover have "p \<noteq> nd_server_id nd \<and> p |\<in>| ce_list_peers (nd_conf nd) \<and> t' = t \<and>
       vr_term req = t \<and> vr_server_id req = peer_to_string (ne_endpoint2str ne) (nd_server_id nd)"
    if s: "Send_request_vote p t' req \<in> set evs" for p t' req
  proof -
    have "become_leader ?nd2 = (e', nd'') \<Longrightarrow> Send_request_vote p t' req \<notin> set e'" for e' nd''
      by (rule become_leader_fields(2))
    then show ?thesis using run s t by (auto simp: elect_self_end_def Let_def fold1 split: if_splits prod.splits)
  qed
  ultimately show ?thesis using that [OF nd1_def] b by blast
qed

lemma inv_elect_end:
  assumes env: "env_ok ne0 ip2str C" "step_env ne0 ne" and inv: "cluster_inv ne0 C c" and el: "(n, t) \<in> cl_electing c"
    and run: "elect_self_end ne t last_id (cl_node c n) = (evs, nd')"
  shows "cluster_inv ne0 C ((set_node n nd' c)\<lparr>cl_electing := cl_electing c - {(n, t)},
       cl_requests := {(n, p, t', req) | p t' req. Send_request_vote p t' req \<in> set evs} \<union> cl_requests c,
       cl_votes := (if t = nd_current_term (cl_node c n) then insert (n, t, n) (cl_votes c) else cl_votes c)\<rparr>)"
    (is "cluster_inv ne0 C ?c'")
proof (cases "t = nd_current_term (cl_node c n)")
  case False
  have n: "n |\<in>| C" by (rule messagesD(4) [OF inv el])
  have r: "evs = []" "nd' = cl_node c n" using run False by (simp_all add: elect_self_end_def)
  have "cluster_inv ne0 C (set_node n nd' c)" using r by (intro inv_move [OF inv n]) simp
  then have "cluster_inv ne0 C ((set_node n nd' c)\<lparr>cl_electing := cl_electing c - {(n, t)}\<rparr>)" by (rule inv_fewer_electing) auto
  moreover have "?c' = (set_node n nd' c)\<lparr>cl_electing := cl_electing c - {(n, t)}\<rparr>"
    using False r by (intro cluster.equality) simp_all
  ultimately show ?thesis by simp
next
  case True
  let ?nd = "cl_node c n"
  have n: "n |\<in>| C" by (rule messagesD(4) [OF inv el])
  note ok = inv_nodeD(1) [OF inv n]
  note d = node_okD [OF ok] and e = election_okD [OF inv_nodeD(2) [OF inv n]]
  have empty: "empty_peer |\<notin>| C" using env(1) by (simp add: env_ok_def)
  obtain nd1 ev where nd1: "nd1 = node_set_term_and_votedfor ne t n ?nd"
    and fin: "(if granted (grant_peer (nd_vote_ctx nd1) (nd_server_id nd1))
      then become_leader (nd1\<lparr>nd_vote_ctx := grant_peer (nd_vote_ctx nd1) (nd_server_id nd1)\<rparr>)
      else ([], nd1\<lparr>nd_vote_ctx := grant_peer (nd_vote_ctx nd1) (nd_server_id nd1)\<rparr>)) = (ev, nd')"
    and sends: "\<And>p t' req. Send_request_vote p t' req \<in> set evs \<Longrightarrow> p \<noteq> n \<and> p |\<in>| ce_list_peers (nd_conf ?nd) \<and> t' = t \<and>
       vr_term req = t \<and> vr_server_id req = peer_to_string (ne_endpoint2str ne) n"
    using elect_end_cases [OF run True] unfolding d(1) by metis
  obtain t0 v0 where s0: "saved ne0 ?nd t0 v0" using node_ok_healthy [OF ok] by (auto simp: healthy_def)
  have tb: "0 \<le> t" "t \<le> int32_max" using True d(4,5) by simp_all
  note s = set_term_and_votedfor_saved [OF env s0 _ tb, of n]
  have sv: "saved ne0 nd1 (nd_current_term ?nd) n" using s(1) n unfolding nd1 True by simp
  obtain mt f where nd1': "nd1 = ?nd\<lparr>nd_meta := mt, nd_files := f\<rparr>" using s(2) n unfolding nd1 by auto
  have voted: "nd_voted_id ?nd = n" using e(2) el True by simp
  have ok1: "node_ok ne0 C n (insert (t, n) (votes_of n c)) nd1"
    using node_ok_vote [OF ok empty _ _ _ sv _ n] voted unfolding True by (simp add: nd1')
  have c1: "cluster_inv ne0 C (set_node n nd1 c)"
  proof (rule inv_set_node [OF inv n node_ok_fewer [OF ok1]])
    show "nd_state nd1 = STATE_LEADER \<Longrightarrow> majority C (voters n (nd_current_term nd1) c)"
      using e(4) messagesD(5) [OF inv] by (simp add: nd1')
  qed (use e in \<open>auto simp: nd1'\<close>)
  let ?c2 = "(set_node n nd1 c)\<lparr>cl_votes := insert (n, t, n) (cl_votes (set_node n nd1 c))\<rparr>"
  have c2: "cluster_inv ne0 C ?c2" using ok1 by (intro inv_vote [OF c1 n]) (simp add: votes_of_def)
  have f2: "cl_node ?c2 n = nd1" "nd_current_term nd1 = t" by (simp_all add: nd1' True)
  obtain S where S: "nd_vote_ctx nd1 = ballot_of C None S" "S \<subseteq> voters n t ?c2"
    using election_okD(3) [OF inv_nodeD(2) [OF c2 n]] el f2 by auto
  have "cluster_inv ne0 C (set_node n nd' ?c2)"
    by (rule inv_count [OF c2 n, unfolded f2, OF S _ refl, of "nd_server_id nd1" ev])
      (use fin d(1) in \<open>auto simp: voters_def nd1'\<close>)
  then have "cluster_inv ne0 C ((set_node n nd' ?c2)\<lparr>cl_electing := cl_electing c - {(n, t)}\<rparr>)" (is "cluster_inv _ _ ?c3")
    by (rule inv_fewer_electing) auto
  then have "cluster_inv ne0 C (?c3\<lparr>cl_requests := {(n, p, t', req) | p t' req. Send_request_vote p t' req \<in> set evs} \<union> cl_requests ?c3\<rparr>)"
  proof (rule inv_requests)
    fix m p t' req
    assume "(m, p, t', req) \<in> {(n, p, t', req) | p t' req. Send_request_vote p t' req \<in> set evs}"
    then have m: "m = n" and x: "Send_request_vote p t' req \<in> set evs" by auto
    have "ce_list_peers (nd_conf ?nd) = C" by (simp add: ce_list_peers_def append_peers_def d(2,3))
    moreover have "peer_parse (ne_str2ip ne0) (peer_to_string (ne_endpoint2str ne) n) = Inr (Some n)"
      using env_ok_text [OF env(1), of n] env(2) n by (simp add: step_env_def)
    ultimately show "request_ok ne0 C m p t' req" using sends [OF x] n tb m by (auto simp: request_ok_def)
  qed
  moreover have "?c' = ?c3\<lparr>cl_requests := {(n, p, t', req) | p t' req. Send_request_vote p t' req \<in> set evs} \<union> cl_requests ?c3\<rparr>"
  proof -
    have "insert (n, t) (cl_won c) = cl_won c" if "nd_state nd1 = STATE_LEADER"
      using that e(4) by (simp add: nd1' True insert_absorb)
    then have "cl_won ?c2 = cl_won c" by (simp add: f2)
    then show ?thesis using True by (intro cluster.equality) simp_all
  qed
  ultimately show ?thesis by simp
qed

text \<open>A start, from the files that a node left.\<close>

lemma node_ok_init:
  assumes env: "step_env ne0 ne" and s: "stored ne0 (nd_files nd0) (meta_of t v)" "0 \<le> t" "t \<le> int32_max"
    and io: "ce_old_conf (nd_conf nd0) = {||}" "io_server_id io = n" "io_initial_conf io = C"
    and run: "node_init ne io nd0 = Inr (OK0, nd')" and v: "v \<in> insert empty_peer (fset C)"
    and votes: "\<And>t' x. (t', x) \<in> V \<Longrightarrow> t' \<le> t \<and> (t' = t \<longrightarrow> x = v) \<and> x \<in> fset C"
      "\<And>t x y. (t, x) \<in> V \<Longrightarrow> (t, y) \<in> V \<Longrightarrow> x = y"
  shows "node_ok ne0 C n V nd'"
proof -
  note r = node_init_restores [OF env s run]
  show ?thesis by (rule node_okI [of nd' n C ne0 t v]) (use r io s v votes in auto)
qed

lemma inv_restart:
  assumes env: "step_env ne0 ne" and inv: "cluster_inv ne0 C c" and n: "n |\<in>| C"
    and io: "nd_files nd0 = nd_files (cl_node c n)" "ce_old_conf (nd_conf nd0) = {||}" "io_server_id io = n" "io_initial_conf io = C"
    and run: "node_init ne io nd0 = Inr (OK0, nd')"
  shows "cluster_inv ne0 C ((set_node n nd' c)\<lparr>cl_electing := {e \<in> cl_electing c. fst e \<noteq> n}, cl_waiting := {w \<in> cl_waiting c. fst w \<noteq> n}\<rparr>)"
    (is "cluster_inv ne0 C ?c'")
proof -
  note ok = inv_nodeD(1) [OF inv n]
  obtain pt pv where p: "saved ne0 (cl_node c n) pt pv" "0 \<le> pt" "pv \<in> insert empty_peer (fset C)"
    "pt = nd_current_term (cl_node c n) \<and> nd_voted_id (cl_node c n) = pv \<or> pt < nd_current_term (cl_node c n) \<and> nd_voted_id (cl_node c n) = n"
    and v: "\<forall>t x. (t, x) \<in> votes_of n c \<longrightarrow> t \<le> pt \<and> (t = pt \<longrightarrow> x = pv) \<and> x \<in> fset C"
    by (rule node_okE [OF ok])
  have st: "stored ne0 (nd_files nd0) (meta_of pt pv)" "pt \<le> int32_max" using p io(1) node_okD(5) [OF ok] by (auto simp: saved_def)
  note r = node_init_restores [OF env st(1) p(2) st(2) run]
  have ok': "node_ok ne0 C n (votes_of n c) nd'"
    by (rule node_ok_init [OF env st(1) p(2) st(2) io(2-4) run p(3)]) (use v node_okD(6) [OF ok] in auto)
  let ?c1 = "c\<lparr>cl_electing := {e \<in> cl_electing c. fst e \<noteq> n}\<rparr>"
  have "cluster_inv ne0 C ?c1" by (rule inv_fewer_electing [OF inv]) auto
  then have "cluster_inv ne0 C (set_node n nd' ?c1)"
    by (rule inv_set_node [OF _ n]) (use ok' r in \<open>auto simp: votes_of_def\<close>)
  then have "cluster_inv ne0 C ((set_node n nd' ?c1)\<lparr>cl_waiting := {w \<in> cl_waiting c. fst w \<noteq> n}\<rparr>)"
    by (rule inv_waiting) (use messagesD(2) [OF inv] in auto)
  moreover have "?c' = (set_node n nd' ?c1)\<lparr>cl_waiting := {w \<in> cl_waiting c. fst w \<noteq> n}\<rparr>"
    by (intro cluster.equality) simp_all
  ultimately show ?thesis by (simp only:)
qed

lemma cluster_step_inv:
  assumes env: "env_ok ne0 ip2str C" and step: "cluster_step ne0 C c c'" and inv: "cluster_inv ne0 C c"
  shows "cluster_inv ne0 C c'"
  using step
proof cases
  case (vote_begin m n t req ne cand evs nd')
  then show ?thesis using inv_vote_begin [OF env _ inv] by simp
next
  case (vote_refuse m n t req ne resp evs nd')
  then show ?thesis using inv_vote_refuse [OF env _ inv] by simp
next
  case (vote_end n m t req cand ne last_id resp evs nd')
  show ?thesis unfolding vote_end(1) by (rule inv_vote_end [OF env vote_end(3) inv vote_end(2,4)])
next
  case (vote_response n p t resp ne evs nd')
  then show ?thesis using inv_vote_response [OF env _ inv] by simp
next
  case (prevote_response n ne resp p t cont evs nd')
  show ?thesis unfolding prevote_response(1)
    by (rule inv_prevote_response [OF env prevote_response(3) inv prevote_response(2,4,5)])
next
  case (vote_timeout n ne cont evs nd')
  show ?thesis unfolding vote_timeout(1) by (rule inv_vote_timeout [OF env vote_timeout(3) inv vote_timeout(2,4)])
next
  case (elect_end n t ne last_id evs nd')
  show ?thesis unfolding elect_end(1) by (rule inv_elect_end [OF env elect_end(3) inv elect_end(2,4)])
next
  case (local n ne nd')
  note ok = inv_nodeD(1) [OF inv local(2)]
  have "move ne0 (cl_node c n) nd'"
    by (rule local_step_move [OF env local(3) node_ok_healthy [OF ok] node_okD(5) [OF ok] local(4)])
  then show ?thesis unfolding local(1) by (rule inv_move [OF inv local(2)])
next
  case (restart n ne nd0 io nd')
  show ?thesis unfolding restart(1) by (rule inv_restart [OF restart(3) inv restart(2,4-8)])
qed

section \<open>At most one leader per term\<close>

lemma stored_fresh: "stored ne Map.empty (meta_of 1 empty_peer)"
  by (simp add: stored_def rm_init_def rm_load_def pb_load_def new_raft_meta_def meta_of_def)

lemma cluster_init_inv:
  assumes "cluster_init ne0 C c"
  shows "cluster_inv ne0 C c"
proof -
  have none: "votes_of n c = {}" "voters n t c = {}" for n t
    using assms by (simp_all add: cluster_init_def votes_of_def voters_def)
  have "node_ok ne0 C n (votes_of n c) (cl_node c n) \<and> election_ok C n c" if "n |\<in>| C" for n
  proof -
    obtain ne io nd0 where i: "step_env ne0 ne" "nd_files nd0 = Map.empty" "ce_old_conf (nd_conf nd0) = {||}"
        "io_server_id io = n" "io_initial_conf io = C" "node_init ne io nd0 = Inr (OK0, cl_node c n)"
      using assms \<open>n |\<in>| C\<close> unfolding cluster_init_def by metis
    have st: "stored ne0 (nd_files nd0) (meta_of 1 empty_peer)" using stored_fresh i(2) by simp
    have "node_ok ne0 C n (votes_of n c) (cl_node c n)"
      by (rule node_ok_init [OF i(1) st _ _ i(3-6)]) (simp_all add: none int32_max_def)
    moreover have "nd_state (cl_node c n) = STATE_FOLLOWER"
      by (rule node_init_restores(4) [OF i(1) st _ _ i(6)]) (simp_all add: int32_max_def)
    ultimately show ?thesis using assms by (simp add: election_ok_def cluster_init_def Let_def)
  qed
  moreover have "messages_ok ne0 C c" using assms by (simp add: messages_ok_def cluster_init_def)
  ultimately show ?thesis by (simp add: cluster_inv_def)
qed

lemma cluster_steps_inv:
  assumes "(cluster_step ne0 C)\<^sup>*\<^sup>* c c'" "env_ok ne0 ip2str C" "cluster_inv ne0 C c"
  shows "cluster_inv ne0 C c'"
  using assms by (induction rule: rtranclp_induct) (auto intro: cluster_step_inv)

lemma cluster_step_won: "cluster_step ne0 C c c' \<Longrightarrow> cl_won c \<subseteq> cl_won c'"
  by (induction rule: cluster_step.induct) auto

lemma cluster_steps_won: "(cluster_step ne0 C)\<^sup>*\<^sup>* c c' \<Longrightarrow> cl_won c \<subseteq> cl_won c'"
  by (induction rule: rtranclp_induct) (auto dest: cluster_step_won)

lemma inv_one_vote:
  assumes inv: "cluster_inv ne0 C c" and "s |\<in>| C" "(s, t, a) \<in> cl_votes c" "(s, t, b) \<in> cl_votes c"
  shows "a = b"
  using node_okD(6) [OF inv_nodeD(1) [OF assms(1,2)]] assms(3,4) by (auto simp: votes_of_def)

lemma inv_one_winner:
  assumes inv: "cluster_inv ne0 C c" and won: "(n, t) \<in> cl_won c" "(m, t) \<in> cl_won c"
  shows "n = m"
proof -
  obtain s where "s \<in> fset C" "s \<in> voters n t c" "s \<in> voters m t c"
    using majority_quorum.meet [OF messagesD(5) [OF inv won(1)] messagesD(5) [OF inv won(2)]] by blast
  then show ?thesis using inv_one_vote [OF inv] by (auto simp: voters_def)
qed

text \<open>
  C1. At most one leader per term: in every run of a cluster with a fixed configuration, where messages are delayed, lost,
  repeated and reordered, handlers interleave at the points where they give up the mutex, and nodes crash and restart from
  their files, two nodes that are leaders of the same term, at the same time or at different times, are the same node. It
  is assumed that the saves of the term and vote complete and that the text and protobuf forms of the peers and of the
  saved meta read back.
\<close>

theorem at_most_one_leader_per_term:
  assumes env: "env_ok ne0 ip2str C" and init: "cluster_init ne0 C c0"
    and run: "(cluster_step ne0 C)\<^sup>*\<^sup>* c0 c" "(cluster_step ne0 C)\<^sup>*\<^sup>* c c'"
    and n: "n |\<in>| C" "nd_state (cl_node c n) = STATE_LEADER"
    and m: "m |\<in>| C" "nd_state (cl_node c' m) = STATE_LEADER"
    and t: "nd_current_term (cl_node c n) = nd_current_term (cl_node c' m)"
  shows "n = m"
proof -
  have inv: "cluster_inv ne0 C c" by (rule cluster_steps_inv [OF run(1) env cluster_init_inv [OF init]])
  have inv': "cluster_inv ne0 C c'" by (rule cluster_steps_inv [OF run(2) env inv])
  have "(n, nd_current_term (cl_node c' m)) \<in> cl_won c'"
    using election_okD(4) [OF inv_nodeD(2) [OF inv n(1)] n(2)] cluster_steps_won [OF run(2)] unfolding t by blast
  moreover have "(m, nd_current_term (cl_node c' m)) \<in> cl_won c'"
    by (rule election_okD(4) [OF inv_nodeD(2) [OF inv' m(1)] m(2)])
  ultimately show ?thesis by (rule inv_one_winner [OF inv'])
qed

text \<open>
  C13. A node never takes back a vote: in every run, the votes that \<open>handle_request_vote\<close> answers and that
  \<open>elect_self\<close> gives to itself are at most one per node and term, across crashes and restarts, and every leader has the votes of
  a majority of the configuration in its term.
\<close>

theorem one_vote_per_term:
  assumes env: "env_ok ne0 ip2str C" and init: "cluster_init ne0 C c0" and run: "(cluster_step ne0 C)\<^sup>*\<^sup>* c0 c" and n: "n |\<in>| C"
  shows "((n, t, a) \<in> cl_votes c \<and> (n, t, b) \<in> cl_votes c \<longrightarrow> a = b) \<and>
     (nd_state (cl_node c n) = STATE_LEADER \<longrightarrow> majority C {s. (s, nd_current_term (cl_node c n), n) \<in> cl_votes c})"
proof -
  have inv: "cluster_inv ne0 C c" by (rule cluster_steps_inv [OF run env cluster_init_inv [OF init]])
  show ?thesis
    using inv_one_vote [OF inv n] messagesD(5) [OF inv election_okD(4) [OF inv_nodeD(2) [OF inv n]]] by (auto simp: voters_def)
qed

end
