(* ===== verification/Cluster_Example.thy ===== *)
theory Cluster_Example
  imports Cluster
begin

text \<open>
  A run of three servers in which the first is elected leader of term 2: it shows that the hypotheses of the election
  theorems can be met, with concrete address functions and a concrete coding of the saved meta.
\<close>

section \<open>The environment\<close>

definition demo_ip :: "nat \<Rightarrow> string" where
  "demo_ip n = (if n = 0 then ''0.0.0.0'' else if n = 1 then ''10.0.0.1'' else if n = 2 then ''10.0.0.2'' else ''10.0.0.3'')"

definition demo_ip_of :: "string \<Rightarrow> nat option" where
  "demo_ip_of s = find (\<lambda>n. demo_ip n = s) [0, 1, 2, 3]"

definition demo_endpoint :: "nat \<Rightarrow> int \<Rightarrow> string" where
  "demo_endpoint ip port = demo_ip ip @ '':'' @ show_int port"

abbreviation demo_text :: "peer_id \<Rightarrow> string" where
  "demo_text \<equiv> peer_to_string demo_endpoint"

definition demo_peers :: "peer_id list" where
  "demo_peers = [empty_peer, peer_n 1, peer_n 2, peer_n 3]"

text \<open>A 32-bit term, most significant byte first, and a byte for the peer.\<close>

definition demo_tag :: "string \<Rightarrow> byte" where
  "demo_tag s = (if s = demo_text (peer_n 1) then 1 else if s = demo_text (peer_n 2) then 2
     else if s = demo_text (peer_n 3) then 3 else 0)"

definition demo_untag :: "byte \<Rightarrow> string" where
  "demo_untag b = (if b = 1 then demo_text (peer_n 1) else if b = 2 then demo_text (peer_n 2)
     else if b = 3 then demo_text (peer_n 3) else demo_text empty_peer)"

definition demo_meta_codec :: meta_codec where
  "demo_meta_codec = ((\<lambda>(t, s). pack 4 (word_of_int t :: 32 word) @ [demo_tag s]),
     (\<lambda>bs. (sint (unpack (take 4 bs) :: 32 word), demo_untag (last bs))))"

definition demo_env :: node_env where
  "demo_env = \<lparr>ne_election_timeout_ms = 1000, ne_step_down_when_vote_timedout = True, ne_apply_batch = 64,
     ne_cache_enabled = True, ne_oo_enabled = False, ne_cache_env = \<lparr>ce_bthread_ok = True, ce_timer_add_ok = True, ce_timer_del_ok = True,
       ce_max_cache_size = 8\<rparr>,
     ne_str2ip = demo_ip_of, ne_endpoint2str = demo_endpoint, ne_codec = demo_meta_codec, ne_meta_path = ''/data'',
     ne_meta_sync = True, ne_save_outcome = Save_completes, ne_channel_ok = (\<lambda>_. True)\<rparr>"

lemma demo_address3: "n \<in> {0, 1, 2, 3} \<Longrightarrow> address_text demo_ip_of demo_endpoint demo_ip n"
  by (auto simp: address_text_def demo_ip_of_def demo_endpoint_def demo_ip_def)

lemma demo_address_peers:
  assumes "p \<in> set demo_peers"
  shows "address_text demo_ip_of demo_endpoint demo_ip (peer_ip p) \<and> fits_int (peer_port p) \<and> fits_int (peer_idx p)"
proof -
  have "peer_ip p \<in> {0, 1, 2, 3}" "fits_int (peer_port p)" "fits_int (peer_idx p)"
    using assms by (auto simp: demo_peers_def peer_n_def empty_peer_def fits_int_def)
  then show ?thesis using demo_address3 by blast
qed

lemma demo_parse:
  assumes "p \<in> set demo_peers"
  shows "peer_parse demo_ip_of (demo_text p) = Inr (Some p)"
  using peer_parse_to_string [of demo_ip_of demo_endpoint demo_ip p] demo_address_peers [OF assms] by blast

lemma demo_text_inject:
  assumes "p \<in> set demo_peers" "q \<in> set demo_peers"
  shows "demo_text p = demo_text q \<longleftrightarrow> p = q"
  using demo_parse [OF assms(1)] demo_parse [OF assms(2)] by (metis option.inject sum.inject(2))

lemma demo_untag_tag:
  assumes "p \<in> set demo_peers"
  shows "demo_untag (demo_tag (demo_text p)) = demo_text p"
proof -
  have in4: "empty_peer \<in> set demo_peers" "peer_n 1 \<in> set demo_peers" "peer_n 2 \<in> set demo_peers" "peer_n 3 \<in> set demo_peers"
    by (simp_all add: demo_peers_def)
  have tag: "demo_tag (demo_text p) = (if p = peer_n 1 then 1 else if p = peer_n 2 then 2 else if p = peer_n 3 then 3 else 0)"
    unfolding demo_tag_def demo_text_inject [OF assms in4(2)] demo_text_inject [OF assms in4(3)] demo_text_inject [OF assms in4(4)] ..
  have "p = empty_peer \<or> p = peer_n 1 \<or> p = peer_n 2 \<or> p = peer_n 3" using assms by (simp add: demo_peers_def)
  then show ?thesis unfolding tag by (elim disjE) (simp_all add: demo_untag_def empty_peer_def peer_n_def)
qed

lemma env_ok_demo: "env_ok demo_env demo_ip conf3"
proof -
  have peers: "insert empty_peer (fset conf3) = set demo_peers" by (simp add: demo_peers_def)
  have codec: "snd demo_meta_codec (fst demo_meta_codec (t, demo_text p)) = (t, demo_text p)"
    if "0 \<le> t" "t \<le> int32_max" "p \<in> set demo_peers" for t p
    using to_int32_id [of t] that by (simp add: demo_meta_codec_def demo_untag_tag to_int32_def)
  have "empty_peer |\<notin>| conf3" by (simp add: peer_n_def empty_peer_def)
  moreover have "length (fst demo_meta_codec (t, s)) < 2147483648" for t s by (simp add: demo_meta_codec_def)
  ultimately show ?thesis unfolding env_ok_def peers using codec demo_address_peers by (simp add: demo_env_def Let_def)
qed

lemma step_env_demo: "step_env demo_env demo_env"
  by (simp add: step_env_def demo_env_def)

section \<open>The start\<close>

definition demo_io :: "nat \<Rightarrow> init_env" where
  "demo_io k = \<lparr>io_initial_conf = conf3, io_server_id = peer_n k, io_look_back = 63,
     io_log_storage = Some (OK0, new_segment_log True (Some 1), new_configuration_manager), io_wait_map_ok = True,
     io_meta_created = True, io_meta_mkdir_ok = True, io_meta_stale_enoent = False, io_fsm_caller_ret = OK0, io_queue_ok = True\<rparr>"

definition demo_started :: "nat \<Rightarrow> (nat, nat, nat) node" where
  "demo_started k = (case node_init demo_env (demo_io k) (demo_node k) of Inr (_, nd) \<Rightarrow> nd)"

lemma demo_init: "\<exists>nd. node_init demo_env (demo_io k) (demo_node k) = Inr (OK0, nd) \<and>
    nd_log_manager nd = (new_log_manager (new_segment_log True (Some 1)) new_configuration_manager)
      \<lparr>lm_dependency_look_back := 63, lm_MAX_DEPENDENCY := mask 63, lm_first_log_index := 1\<rparr> \<and> nd_peer_list nd = conf3 \<and> nd_files nd = (\<lambda>_. None)"
proof -
  have t: "sl_get_term 0 (new_segment_log True (Some 1)) = Inr 0"
    by (simp add: sl_get_term_def get_segment_def new_segment_log_def)
  have l: "init_log_storage (demo_io k) = (Inr (OK0, Some ((new_log_manager (new_segment_log True (Some 1)) new_configuration_manager)
      \<lparr>lm_dependency_look_back := 63, lm_MAX_DEPENDENCY := mask 63, lm_first_log_index := 1\<rparr>)) :: (rc \<times> (nat stable_closure, nat) log_manager option) res)"
    using t by (simp add: init_log_storage_def demo_io_def lm_init_def Let_def new_log_manager_def new_segment_log_def
        storage_max_log_index_def new_log_id_def)
  have m: "rm_init (ne_codec demo_env) f (ne_meta_path demo_env) True e (\<lambda>_. None) new_raft_meta = (OK0, meta_of 1 empty_peer)" for f e
    by (simp add: rm_init_def rm_load_def pb_load_def new_raft_meta_def meta_of_def)
  have io: "io_initial_conf (demo_io k) = conf3" "io_meta_created (demo_io k)" "io_meta_mkdir_ok (demo_io k)"
      "io_fsm_caller_ret (demo_io k) = OK0" "io_queue_ok (demo_io k)" by (simp_all add: demo_io_def)
  show ?thesis
    unfolding node_init_def l
    by (simp add: Let_def io init_meta_storage_def demo_node_def m rm_get_votedfor_def rm_get_term_def init_commit_def ballot_box_init_def meta_of_def)
qed

lemma demo_started_init: "node_init demo_env (demo_io k) (demo_node k) = Inr (OK0, demo_started k)"
  and demo_started_log: "nd_log_manager (demo_started k) = (new_log_manager (new_segment_log True (Some 1)) new_configuration_manager)
      \<lparr>lm_dependency_look_back := 63, lm_MAX_DEPENDENCY := mask 63, lm_first_log_index := 1\<rparr>"
  and demo_started_peers: "nd_peer_list (demo_started k) = conf3"
  and demo_started_files: "nd_files (demo_started k) = (\<lambda>_. None)"
proof -
  obtain nd where i: "node_init demo_env (demo_io k) (demo_node k) = Inr (OK0, nd)"
    and nd: "nd_log_manager nd = (new_log_manager (new_segment_log True (Some 1)) new_configuration_manager)
      \<lparr>lm_dependency_look_back := 63, lm_MAX_DEPENDENCY := mask 63, lm_first_log_index := 1\<rparr>" "nd_peer_list nd = conf3" "nd_files nd = (\<lambda>_. None)"
    using demo_init [of k] by blast
  have eq: "demo_started k = nd" unfolding demo_started_def i by simp
  show "node_init demo_env (demo_io k) (demo_node k) = Inr (OK0, demo_started k)" unfolding eq by (rule i)
  show "nd_log_manager (demo_started k) = (new_log_manager (new_segment_log True (Some 1)) new_configuration_manager)
      \<lparr>lm_dependency_look_back := 63, lm_MAX_DEPENDENCY := mask 63, lm_first_log_index := 1\<rparr>"
    "nd_peer_list (demo_started k) = conf3" "nd_files (demo_started k) = (\<lambda>_. None)" unfolding eq by (rule nd)+
qed

lemma demo_started_fields:
  "nd_current_term (demo_started k) = 1" "nd_voted_id (demo_started k) = empty_peer" "saved demo_env (demo_started k) 1 empty_peer"
  "nd_state (demo_started k) = STATE_FOLLOWER" "nd_server_id (demo_started k) = peer_n k" "ce_conf (nd_conf (demo_started k)) = conf3"
  "ce_old_conf (nd_conf (demo_started k)) = {||}"
proof -
  have f: "nd_files (demo_node k) = Map.empty" "ce_old_conf (nd_conf (demo_node k)) = {||}" by (simp_all add: demo_node_def)
  note r = node_init_restores [OF step_env_demo stored_fresh [of demo_env, folded f(1)] _ _ demo_started_init, simplified]
  show "nd_current_term (demo_started k) = 1" "nd_voted_id (demo_started k) = empty_peer" "saved demo_env (demo_started k) 1 empty_peer"
    "nd_state (demo_started k) = STATE_FOLLOWER" "nd_server_id (demo_started k) = peer_n k" "ce_conf (nd_conf (demo_started k)) = conf3"
    "ce_old_conf (nd_conf (demo_started k)) = {||}"
    using r f(2) by (simp_all add: int32_max_def demo_io_def)
qed

definition demo_cluster :: "(nat, nat, nat) cluster" where
  "demo_cluster = \<lparr>cl_node = (\<lambda>p. demo_started (peer_ip p)), cl_requests = {}, cl_waiting = {}, cl_responses = {}, cl_electing = {},
     cl_votes = {}, cl_won = {}\<rparr>"

lemma demo_cluster_node: "cl_node demo_cluster (peer_n k) = demo_started k"
  by (simp add: demo_cluster_def peer_n_def)

lemma demo_cluster_init: "cluster_init demo_env conf3 demo_cluster"
proof -
  have "\<exists>ne io nd0. step_env demo_env ne \<and> nd_files nd0 = Map.empty \<and> ce_old_conf (nd_conf nd0) = {||} \<and>
      io_server_id io = peer_n k \<and> io_initial_conf io = conf3 \<and> node_init ne io nd0 = Inr (OK0, cl_node demo_cluster (peer_n k))" for k
    using step_env_demo demo_started_init [of k] unfolding demo_cluster_node
    by (intro exI [of _ demo_env] exI [of _ "demo_io k"] exI [of _ "demo_node k"]) (simp add: demo_io_def demo_node_def)
  then show ?thesis unfolding cluster_init_def by (simp add: demo_cluster_def)
qed

section \<open>The run\<close>

text \<open>Server 1 misses a leader, asks for pre-votes, gets one from server 2, and starts an election.\<close>

lemma demo_last_log_id: "lm_last_log_id (nd_log_manager (demo_started k)) = Inr (LogId 0 0)"
  unfolding demo_started_log
  by (simp add: lm_last_log_id_def new_log_manager_def new_log_id_def)

definition asking :: "(nat, nat, nat) node" where
  "asking = (demo_started 1)\<lparr>nd_vote_triggered := False, nd_leader_id := empty_peer, nd_prevote_ctx := ballot_of conf3 None {peer_n 1}\<rparr>"

definition standing :: "(nat, nat, nat) node" where
  "standing = asking\<lparr>nd_prevote_ctx := ballot_of conf3 None {peer_n 2, peer_n 1}, nd_state := STATE_CANDIDATE, nd_current_term := 2,
     nd_voted_id := peer_n 1, nd_vote_ctx := ballot_of conf3 None {}\<rparr>"

lemma demo_conf_stable: "ce_stable (nd_conf (demo_started k))"
  by (simp add: ce_stable_def conf_empty_def demo_started_fields)

lemma demo_asks:
  "\<exists>evs. handle_election_timeout demo_env (nd_last_leader_timestamp (demo_started 1) + 1000) (demo_started 1) = Inr (evs, asking)"
proof -
  have port: "peer_port (peer_n k) = 8000" for k by (simp add: peer_n_def)
  let ?nd = "(demo_started 1)\<lparr>nd_vote_triggered := False, nd_leader_id := empty_peer\<rparr>"
  have "\<exists>evs. prevote demo_env ?nd = Inr (evs, asking)"
    using demo_last_log_id [of 1] demo_conf_stable [of 1]
    by (simp add: prevote_def port demo_started_fields Let_def ballot_init_refines asking_def int32_max_def del: One_nat_def)
  then show ?thesis
    by (simp add: handle_election_timeout_def demo_started_fields demo_env_def reset_leader_id_def is_empty_peer_iff del: One_nat_def)
qed

lemma demo_stands:
  "\<exists>evs. handle_pre_vote_response demo_env (peer_n 2) 1 \<lparr>vp_term = 1, vp_granted = True\<rparr> asking = Inr (Some 2, evs, standing)"
proof -
  have "granted (ballot_of conf3 None {peer_n 2, peer_n 1})" by (simp add: granted_ballot_of majority_def)
  moreover have "ce_contains (nd_conf (demo_started 1)) (peer_n 1)"
    by (simp add: ce_contains_def conf_contains_def demo_started_fields del: One_nat_def)
  ultimately show ?thesis
    using demo_conf_stable [of 1]
    by (simp add: handle_pre_vote_response_def asking_def standing_def demo_started_fields Let_def elect_self_begin_def int32_max_def
        ballot_init_refines reset_leader_id_def is_empty_peer_iff del: One_nat_def)
qed

text \<open>The requests for votes go out, and server 2 grants its vote.\<close>

definition demo_request :: vote_request where
  "demo_request = \<lparr>vr_server_id = demo_text (peer_n 1), vr_peer_id = demo_text (peer_n 2), vr_term = 2, vr_last_log_term = 0, vr_last_log_index = 0\<rparr>"

lemma node_set_fields:
  "nd_current_term (node_set_term_and_votedfor ne t v nd) = nd_current_term nd" "nd_voted_id (node_set_term_and_votedfor ne t v nd) = nd_voted_id nd"
  "nd_current_term (node_set_votedfor ne v nd) = nd_current_term nd" "nd_voted_id (node_set_votedfor ne v nd) = nd_voted_id nd"
  by (simp_all add: node_set_term_and_votedfor_def node_set_votedfor_def case_prod_beta)

lemma demo_elects:
  "\<exists>evs m f. elect_self_end demo_env 2 (LogId 0 0) standing =
     (evs, standing\<lparr>nd_meta := m, nd_files := f, nd_vote_ctx := ballot_of conf3 None {peer_n 1}\<rparr>) \<and>
     Send_request_vote (peer_n 2) 2 demo_request \<in> set evs"
proof -
  have "saved demo_env standing 1 empty_peer" using demo_started_fields(3) [of 1] by (simp add: standing_def asking_def saved_def del: One_nat_def)
  from set_term_and_votedfor_saved(2) [OF env_ok_demo step_env_demo this, of "peer_n 1" 2] obtain m f
    where n: "node_set_term_and_votedfor demo_env 2 (peer_n 1) standing = standing\<lparr>nd_meta := m, nd_files := f\<rparr>"
    by (auto simp: int32_max_def)
  have st: "nd_current_term standing = 2" "nd_server_id standing = peer_n 1" "nd_vote_ctx standing = ballot_of conf3 None {}"
    "ce_list_peers (nd_conf standing) = conf3"
    by (simp_all add: standing_def asking_def demo_started_fields ce_list_peers_def append_peers_def del: One_nat_def)
  have "\<not> granted (ballot_of conf3 None {peer_n 1})" by (simp add: granted_ballot_of majority_def del: One_nat_def)
  moreover have "ne_channel_ok demo_env p" "ne_endpoint2str demo_env = demo_endpoint" for p by (simp_all add: demo_env_def)
  ultimately show ?thesis by (simp add: elect_self_end_def st n Let_def demo_request_def image_iff del: One_nat_def) blast
qed

lemma demo_steps_down:
  obtains evs nd where "step_down demo_env 2 (demo_started 2) = (evs, nd)" "nd_current_term nd = 2" "nd_voted_id nd = empty_peer"
proof -
  obtain evs nd where s: "step_down demo_env 2 (demo_started 2) = (evs, nd)" by fastforce
  obtain e1 nd1 where l: "leave_state (reset_leader_id empty_peer (demo_started 2)) = (e1, nd1)" by fastforce
  have "nd_current_term nd1 = 1"
    using leave_state_fields [OF l] demo_started_fields(1) [of 2] by (auto simp: reset_leader_id_def)
  then have "nd_current_term nd = 2" "nd_voted_id nd = empty_peer"
    using s to_int32_id [of 2] by (auto simp: step_down_def l node_set_fields int32_max_def)
  then show ?thesis using that s by blast
qed

lemma demo_votes:
  assumes "nd_current_term nd = 2" "nd_voted_id nd = empty_peer"
  shows "\<exists>evs nd'. handle_request_vote_end demo_env demo_request (peer_n 1) (LogId 0 0) nd = (\<lparr>vp_term = 2, vp_granted = True\<rparr>, evs, nd')"
proof -
  obtain e nd1 where s: "step_down demo_env 2 nd = (e, nd1)" by fastforce
  have "nd_current_term nd1 = 2" using step_down_quiet(2) [OF _ s] assms by (simp add: quiet_def)
  then show ?thesis
    using assms s by (simp add: handle_request_vote_end_def demo_request_def is_empty_peer_iff vote_answer_def node_set_fields Let_def)
qed

lemma demo_wins:
  assumes "nd_state nd = STATE_CANDIDATE" "nd_current_term nd = 2" "nd_vote_ctx nd = ballot_of conf3 None {peer_n 1}"
  shows "\<exists>evs nd'. handle_request_vote_response demo_env (peer_n 2) 2 \<lparr>vp_term = 2, vp_granted = True\<rparr> nd = (evs, nd') \<and>
     nd_state nd' = STATE_LEADER \<and> nd_current_term nd' = 2"
proof -
  have "granted (ballot_of conf3 None {peer_n 2, peer_n 1})" by (simp add: granted_ballot_of majority_def)
  then show ?thesis using assms by (simp add: handle_request_vote_response_def become_leader_def Let_def)
qed

lemma demo_run:
  "\<exists>c. (cluster_step demo_env conf3)\<^sup>*\<^sup>* demo_cluster c \<and> nd_state (cl_node c (peer_n 1)) = STATE_LEADER \<and>
     nd_current_term (cl_node c (peer_n 1)) = 2"
proof -
  let ?n = "peer_n 1" and ?p = "peer_n 2"
  have in3: "?n |\<in>| conf3" by simp
  obtain e1 where r1: "handle_election_timeout demo_env (nd_last_leader_timestamp (demo_started 1) + 1000) (cl_node demo_cluster ?n) = Inr (e1, asking)"
    using demo_asks unfolding demo_cluster_node by blast
  define c1 where "c1 = set_node ?n asking demo_cluster"
  have s1: "cluster_step demo_env conf3 demo_cluster c1"
    unfolding c1_def by (rule cluster_step.local [OF in3 step_env_demo local_step.election_timeout [OF r1]])
  obtain e2 where r2: "handle_pre_vote_response demo_env ?p 1 \<lparr>vp_term = 1, vp_granted = True\<rparr> (cl_node c1 ?n) = Inr (Some 2, e2, standing)"
    using demo_stands by (auto simp: c1_def)
  define c2 where "c2 = (set_node ?n standing c1)\<lparr>cl_electing := Pair ?n ` set_option (Some 2) \<union> cl_electing c1\<rparr>"
  have s2: "cluster_step demo_env conf3 c1 c2"
    unfolding c2_def by (rule cluster_step.prevote_response [OF in3 step_env_demo _ r2]) (simp add: int32_max_def)
  obtain e3 m f where r3: "elect_self_end demo_env 2 (LogId 0 0) (cl_node c2 ?n) =
      (e3, standing\<lparr>nd_meta := m, nd_files := f, nd_vote_ctx := ballot_of conf3 None {?n}\<rparr>)"
    and sent: "Send_request_vote ?p 2 demo_request \<in> set e3"
    using demo_elects by (auto simp: c2_def)
  let ?nd3 = "standing\<lparr>nd_meta := m, nd_files := f, nd_vote_ctx := ballot_of conf3 None {?n}\<rparr>"
  obtain c3 where s3: "cluster_step demo_env conf3 c2 c3" and n3: "cl_node c3 = (cl_node c2)(?n := ?nd3)"
    and q3: "(?n, ?p, 2, demo_request) \<in> cl_requests c3"
  proof -
    have "(?n, 2) \<in> cl_electing c2" by (simp add: c2_def)
    from cluster_step.elect_end [OF this step_env_demo r3, of conf3] sent that show ?thesis by auto
  qed
  have p3: "cl_node c3 ?p = demo_started 2" using n3 demo_cluster_node [of 2] by (simp add: c2_def c1_def)
  obtain e4 nd4 where d: "step_down demo_env 2 (demo_started 2) = (e4, nd4)" and nd4: "nd_current_term nd4 = 2" "nd_voted_id nd4 = empty_peer"
    by (rule demo_steps_down)
  have r4: "handle_request_vote_begin demo_env demo_request (cl_node c3 ?p) = Inr (Vote_wait ?n, e4, nd4)"
  proof -
    have "ne_str2ip demo_env = demo_ip_of" by (simp add: demo_env_def)
    then have "peer_parse (ne_str2ip demo_env) (vr_server_id demo_request) = Inr (Some ?n)"
      using demo_parse [of ?n] by (simp add: demo_peers_def demo_request_def del: One_nat_def)
    then show ?thesis
      using d demo_started_fields(1) [of 2] unfolding p3 by (simp add: handle_request_vote_begin_def demo_request_def del: One_nat_def)
  qed
  define c4 where "c4 = (set_node ?p nd4 c3)\<lparr>cl_waiting := insert (?p, ?n, 2, demo_request, ?n) (cl_waiting c3)\<rparr>"
  have s4: "cluster_step demo_env conf3 c3 c4" unfolding c4_def by (rule cluster_step.vote_begin [OF q3 step_env_demo r4])
  obtain e5 nd5 where r5: "handle_request_vote_end demo_env demo_request ?n (LogId 0 0) (cl_node c4 ?p) = (\<lparr>vp_term = 2, vp_granted = True\<rparr>, e5, nd5)"
    using demo_votes [OF nd4] by (auto simp: c4_def)
  obtain c5 where s5: "cluster_step demo_env conf3 c4 c5" and n5: "cl_node c5 = (cl_node c4)(?p := nd5)"
    and q5: "(?n, ?p, 2, \<lparr>vp_term = 2, vp_granted = True\<rparr>) \<in> cl_responses c5"
  proof -
    have "(?p, ?n, 2, demo_request, ?n) \<in> cl_waiting c4" by (simp add: c4_def)
    from cluster_step.vote_end [OF this step_env_demo r5, of conf3] that show ?thesis by auto
  qed
  have "cl_node c5 ?n = ?nd3" using n5 n3 by (simp add: c4_def)
  moreover have "nd_state ?nd3 = STATE_CANDIDATE" "nd_current_term ?nd3 = 2" by (simp_all add: standing_def)
  ultimately obtain e6 nd6 where r6: "handle_request_vote_response demo_env ?p 2 \<lparr>vp_term = 2, vp_granted = True\<rparr> (cl_node c5 ?n) = (e6, nd6)"
    and nd6: "nd_state nd6 = STATE_LEADER" "nd_current_term nd6 = 2"
    using demo_wins [of ?nd3] by auto
  have s6: "cluster_step demo_env conf3 c5 (set_node ?n nd6 c5)" by (rule cluster_step.vote_response [OF q5 step_env_demo r6])
  have "(cluster_step demo_env conf3)\<^sup>*\<^sup>* demo_cluster (set_node ?n nd6 c5)"
    using s1 s2 s3 s4 s5 s6 by (meson converse_rtranclp_into_rtranclp r_into_rtranclp)
  then show ?thesis using nd6 by (intro exI [of _ "set_node ?n nd6 c5"]) simp
qed

text \<open>The only node of the configuration that leads term 2, then or later, is server 1.\<close>

theorem at_most_one_leader_per_term_witness:
  "\<exists>c. (cluster_step demo_env conf3)\<^sup>*\<^sup>* demo_cluster c \<and>
     {m \<in> fset conf3. \<exists>c'. (cluster_step demo_env conf3)\<^sup>*\<^sup>* c c' \<and> nd_state (cl_node c' m) = STATE_LEADER \<and>
        nd_current_term (cl_node c' m) = 2} = {peer_n 1}"
proof -
  obtain c where run: "(cluster_step demo_env conf3)\<^sup>*\<^sup>* demo_cluster c"
    and lead: "nd_state (cl_node c (peer_n 1)) = STATE_LEADER" and t: "nd_current_term (cl_node c (peer_n 1)) = 2"
    using demo_run by blast
  have in3: "peer_n 1 |\<in>| conf3" by simp
  have "peer_n 1 = m" if "m |\<in>| conf3" "(cluster_step demo_env conf3)\<^sup>*\<^sup>* c c'" "nd_state (cl_node c' m) = STATE_LEADER"
      "nd_current_term (cl_node c' m) = 2" for m c'
    by (rule at_most_one_leader_per_term [OF env_ok_demo demo_cluster_init run that(2) in3 lead that(1,3)]) (simp only: t that(4))
  then have "{m \<in> fset conf3. \<exists>c'. (cluster_step demo_env conf3)\<^sup>*\<^sup>* c c' \<and> nd_state (cl_node c' m) = STATE_LEADER \<and>
        nd_current_term (cl_node c' m) = 2} = {peer_n 1}" using in3 lead t by blast
  then show ?thesis using run by blast
qed

theorem one_vote_per_term_witness:
  "\<exists>c. (cluster_step demo_env conf3)\<^sup>*\<^sup>* demo_cluster c \<and> majority conf3 {s. (s, 2, peer_n 1) \<in> cl_votes c}"
proof -
  obtain c where run: "(cluster_step demo_env conf3)\<^sup>*\<^sup>* demo_cluster c"
    and lead: "nd_state (cl_node c (peer_n 1)) = STATE_LEADER" and t: "nd_current_term (cl_node c (peer_n 1)) = 2"
    using demo_run by blast
  have in3: "peer_n 1 |\<in>| conf3" by simp
  from one_vote_per_term [OF env_ok_demo demo_cluster_init run in3] lead t have "majority conf3 {s. (s, 2, peer_n 1) \<in> cl_votes c}" by simp
  then show ?thesis using run by blast
qed

end
