(* ===== verification/Follower.thy ===== *)
theory Follower
  imports Cluster_Example
begin

text \<open>
  The follower's side of replication: which leader a node follows in a term, what it answers, what happens to
  a vote whose save fails, and where \<open>FollowerStableClosure::run\<close> reads outside the request.
\<close>

section \<open>One leader per term, as a follower sees it\<close>

text \<open>What \<open>append_accepted\<close> keeps: everything but the log, the cache, the configuration and the commit index.\<close>

definition same_role :: "('c, 'r, 'w) node \<Rightarrow> ('c, 'r, 'w) node \<Rightarrow> bool" where
  "same_role nd nd' \<longleftrightarrow> nd_leader_id nd' = nd_leader_id nd \<and> nd_current_term nd' = nd_current_term nd \<and> nd_state nd' = nd_state nd \<and>
     nd_voted_id nd' = nd_voted_id nd"

lemma cache_check_role: "check_append_entries_cache ne bm l nd = (evs, nd') \<Longrightarrow> same_role nd nd'"
  by (auto simp: check_append_entries_cache_def same_role_def split: option.splits prod.splits)

lemma out_of_order_role: "handle_out_of_order_append_entries ne w rpc l nd = Inr (b, evs, nd') \<Longrightarrow> same_role nd nd'"
  by (auto simp: handle_out_of_order_append_entries_def same_role_def Let_def split: if_splits option.splits sum.splits prod.splits)

text \<open>The answers of a follower to an accepted sender carry its own term.\<close>

lemma append_accepted_cases:
  assumes run: "append_accepted ne w fc rpc nd = Inr (evs, nd')"
  obtains (refused) "same_role nd nd'" "nd_log_manager nd' = nd_log_manager nd"
  | (committed) bb where "nd' = nd\<lparr>nd_ballot_box := bb\<rparr>" "ae_entries (rpc_request rpc) = []"
  | (appended) es e lm1 e2 nd2 where "parse_entries ne (ae_prev_log_index (rpc_request rpc)) (ae_entries (rpc_request rpc)) (rpc_attachment rpc) = Inr es"
      "lm_check_dependency (ae_prev_log_index (rpc_request rpc) + int (length (ae_entries (rpc_request rpc)))) (ae_dependency (rpc_request rpc)) (nd_log_manager nd)"
      "lm_append_entries es (Follower_stable (rpc_id rpc) (rpc_request rpc) (nd_current_term nd)) (ne_oo_enabled ne) (nd_log_manager nd) = Inr (e, lm1)"
      "same_role nd nd2" "nd_log_manager nd2 = lm1" "nd' = nd2\<lparr>nd_conf := snd (check_and_set_configuration (nd_conf nd2) lm1)\<rparr>"
proof -
  let ?req = "rpc_request rpc" and ?lm = "nd_log_manager nd"
  obtain t where t: "lm_get_term (ae_prev_log_index ?req) ?lm = Inr t"
    using assms by (cases "lm_get_term (ae_prev_log_index ?req) ?lm") (auto simp: append_accepted_def Let_def)
  let ?bad = "t \<noteq> ae_prev_log_term ?req \<and> \<not> ne_oo_enabled ne \<or>
       \<not> lm_check_dependency (ae_prev_log_index ?req + int (length (ae_entries ?req))) (ae_dependency ?req) ?lm"
  consider (bad) ?bad | (empty) "\<not> ?bad" "ae_entries ?req = []" | (app) "\<not> ?bad" "ae_entries ?req \<noteq> []" by blast
  then show thesis
  proof cases
    case bad
    obtain b e nd1 where s: "(if ne_cache_enabled ne \<and> \<not> fc then handle_out_of_order_append_entries ne w rpc (lm_last_log_index ?lm) nd
          else Inr (False, [], nd)) = Inr (b, e, nd1)"
      using run bad
      by (cases "if ne_cache_enabled ne \<and> \<not> fc then handle_out_of_order_append_entries ne w rpc (lm_last_log_index ?lm) nd
          else Inr (False, [], nd)") (auto simp: append_accepted_def t Let_def)
    have r: "nd' = nd1" using run bad by (cases b) (simp_all add: append_accepted_def t Let_def s)
    have "same_role nd nd1"
      using s out_of_order_role [of ne w rpc "lm_last_log_index ?lm" nd b e nd1] by (cases "ne_cache_enabled ne \<and> \<not> fc") (auto simp: same_role_def)
    moreover have "nd_log_manager nd1 = nd_log_manager nd"
      using s by (cases "ne_cache_enabled ne \<and> \<not> fc")
        (auto simp: handle_out_of_order_append_entries_def Let_def split: if_splits option.splits sum.splits prod.splits)
    ultimately show ?thesis using r refused by simp
  next
    case empty
    obtain r ev bb where c: "set_last_committed_index (min (ae_committed_index ?req) (ae_prev_log_index ?req)) [] (nd_ballot_box nd) = (r, ev, bb)"
      by (metis prod_cases3)
    have "nd' = nd\<lparr>nd_ballot_box := bb\<rparr>"
      using run unfolding append_accepted_def Let_def t sum.case if_not_P [OF empty(1)] by (simp add: empty(2) c)
    then show ?thesis using committed empty(2) by blast
  next
    case app
    then obtain es where es: "parse_entries ne (ae_prev_log_index ?req) (ae_entries ?req) (rpc_attachment rpc) = Inr es"
      using run by (cases "parse_entries ne (ae_prev_log_index ?req) (ae_entries ?req) (rpc_attachment rpc)")
        (auto simp: append_accepted_def t Let_def)
    then obtain e lm1 where lm1: "lm_append_entries es (Follower_stable (rpc_id rpc) ?req (nd_current_term nd)) (ne_oo_enabled ne) ?lm = Inr (e, lm1)"
      using run app by (cases "lm_append_entries es (Follower_stable (rpc_id rpc) ?req (nd_current_term nd)) (ne_oo_enabled ne) ?lm")
        (auto simp: append_accepted_def t Let_def)
    let ?nd1 = "nd\<lparr>nd_log_manager := lm1\<rparr>"
    obtain e2 nd2 where c: "(if ne_cache_enabled ne then check_append_entries_cache ne (lm_dependency_bitmap lm1) (lm_max_log_index lm1) ?nd1
        else ([], ?nd1)) = (e2, nd2)" by fastforce
    have "same_role ?nd1 nd2" using c cache_check_role [of ne _ _ ?nd1] by (cases "ne_cache_enabled ne") (auto simp: same_role_def)
    moreover have l2: "nd_log_manager nd2 = lm1"
      using c by (cases "ne_cache_enabled ne") (auto simp: check_append_entries_cache_def split: option.splits prod.splits)
    moreover have "nd' = nd2\<lparr>nd_conf := snd (check_and_set_configuration (nd_conf nd2) lm1)\<rparr>"
      using run app by (simp add: append_accepted_def t Let_def es lm1 c l2)
    ultimately show ?thesis using appended [OF es _ lm1] app(1) by (auto simp: same_role_def)
  qed
qed

lemma append_accepted_role:
  assumes "append_accepted ne w fc rpc nd = Inr (evs, nd')"
  shows "same_role nd nd'"
  using assms by (cases rule: append_accepted_cases) (auto simp: same_role_def)

lemma step_down_term:
  assumes "step_down ne tm nd = (evs, nd')" "0 \<le> nd_current_term nd" "tm \<le> int32_max"
  shows "nd_current_term nd' = max (nd_current_term nd) tm" "nd_state nd' = STATE_FOLLOWER" "nd_leader_id nd' = empty_peer"
    "nd_log_manager nd' = nd_log_manager nd"
proof -
  obtain e1 nd1 where l: "leave_state (reset_leader_id empty_peer nd) = (e1, nd1)" by fastforce
  then obtain bb where nd1: "nd1 = nd\<lparr>nd_leader_id := empty_peer, nd_ballot_box := bb\<rparr>"
    using leave_state_fields [OF l] by (auto simp: reset_leader_id_def is_empty_peer_iff)
  have keep: "nd_state (node_set_term_and_votedfor ne t v m) = nd_state m" "nd_leader_id (node_set_term_and_votedfor ne t v m) = nd_leader_id m"
    "nd_log_manager (node_set_term_and_votedfor ne t v m) = nd_log_manager m" for t v m
    by (simp_all add: node_set_term_and_votedfor_def case_prod_beta)
  show "nd_current_term nd' = max (nd_current_term nd) tm" "nd_state nd' = STATE_FOLLOWER" "nd_leader_id nd' = empty_peer"
    "nd_log_manager nd' = nd_log_manager nd"
    using assms to_int32_id [of tm] by (cases "tm > nd_current_term nd"; force simp: step_down_def l nd1 node_set_fields keep)+
qed

lemma check_step_down_follows:
  assumes run: "check_step_down ne tm server nd = (evs, nd1)" and t: "0 \<le> nd_current_term nd" "nd_current_term nd \<le> tm" "tm \<le> int32_max"
    and server: "server \<noteq> empty_peer"
  shows "nd_current_term nd1 = tm" "nd_state nd1 = STATE_FOLLOWER" "nd_log_manager nd1 = nd_log_manager nd"
    "nd_leader_id nd1 = (if tm = nd_current_term nd \<and> nd_state nd = STATE_FOLLOWER \<and> nd_leader_id nd \<noteq> empty_peer then nd_leader_id nd else server)"
proof -
  obtain e2 nd2 where s: "step_down ne tm nd = (e2, nd2)" by fastforce
  note d = step_down_term [OF s t(1,3)]
  have m: "max (nd_current_term nd) tm = tm" using t by simp
  have r: "nd_current_term (reset_leader_id p m) = nd_current_term m" "nd_state (reset_leader_id p m) = nd_state m"
    "nd_leader_id (reset_leader_id p m) = p" "nd_log_manager (reset_leader_id p m) = nd_log_manager m" for p m
    by (simp_all add: reset_leader_id_def is_empty_peer_iff)
  consider (down) "tm > nd_current_term nd \<or> nd_state nd \<noteq> STATE_FOLLOWER \<or> nd_leader_id nd = empty_peer"
    | (keep) "tm = nd_current_term nd" "nd_state nd = STATE_FOLLOWER" "nd_leader_id nd \<noteq> empty_peer" using t by force
  then have "nd_current_term nd1 = tm \<and> nd_state nd1 = STATE_FOLLOWER \<and> nd_log_manager nd1 = nd_log_manager nd \<and>
    nd_leader_id nd1 = (if tm = nd_current_term nd \<and> nd_state nd = STATE_FOLLOWER \<and> nd_leader_id nd \<noteq> empty_peer then nd_leader_id nd else server)"
  proof cases
    case down
    then have "evs = e2" "nd1 = reset_leader_id server nd2"
      using run s d(3) by (auto simp: check_step_down_def is_empty_peer_iff split: if_splits)
    then have "nd_current_term nd1 = tm" "nd_state nd1 = STATE_FOLLOWER" "nd_leader_id nd1 = server"
        "nd_log_manager nd1 = nd_log_manager nd"
      by (simp_all only: r d m not_False_eq_True)
    then show ?thesis using down by auto
  next
    case keep
    then have "evs = []" "nd1 = nd" using run by (simp_all add: check_step_down_def is_empty_peer_iff)
    then show ?thesis using keep by simp
  qed
  then show "nd_current_term nd1 = tm" "nd_state nd1 = STATE_FOLLOWER" "nd_log_manager nd1 = nd_log_manager nd"
    "nd_leader_id nd1 = (if tm = nd_current_term nd \<and> nd_state nd = STATE_FOLLOWER \<and> nd_leader_id nd \<noteq> empty_peer then nd_leader_id nd else server)"
    by auto
qed


section \<open>A vote whose save fails\<close>

lemma stored_cong: "fs' (raft_meta_file (ne_meta_path ne)) = fs (raft_meta_file (ne_meta_path ne)) \<Longrightarrow> stored ne fs' m \<longleftrightarrow> stored ne fs m"
  by (simp add: stored_def rm_init_def rm_load_def pb_load_def)

text \<open>
  A vote is granted even when it could not be saved: \<open>handle_request_vote\<close> ignores the result of \<open>set_votedfor\<close>. When the file
  cannot be opened or renamed, the answer still grants the vote, and after a restart the node is in the same term without
  a vote, free to vote for another candidate.
\<close>

theorem unsaved_vote_is_forgotten:
  assumes s: "saved ne nd (nd_current_term nd) empty_peer" "nd_voted_id nd = empty_peer" "0 \<le> nd_current_term nd" "nd_current_term nd \<le> int32_max"
    and req: "vr_term req = nd_current_term nd" "\<not> LogId (vr_last_log_index req) (vr_last_log_term req) < last_id"
    and out: "ne_save_outcome ne \<in> {Open_fails, Rename_fails}"
    and run: "handle_request_vote_end ne req cand last_id nd = (resp, evs, nd')"
    and restart: "nd_files nd0 = nd_files nd'" "node_init (ne\<lparr>ne_save_outcome := Save_completes\<rparr>) io nd0 = Inr (OK0, nd2)"
  shows "vp_granted resp \<and> nd_voted_id nd2 = empty_peer \<and> nd_current_term nd2 = nd_current_term nd"
proof -
  obtain e nd1 where d: "step_down ne (nd_current_term nd) nd = (e, nd1)" by fastforce
  note q = step_down_quiet [OF _ d, simplified]
  let ?nd1 = "nd1\<lparr>nd_voted_id := cand\<rparr>"
  have nd': "nd' = node_set_votedfor ne cand ?nd1" and resp: "resp = vote_answer req cand nd'"
    using run req s(2) d by (auto simp: handle_request_vote_end_def is_empty_peer_iff Let_def)
  have f1: "nd_meta nd1 = nd_meta nd" "nd_files nd1 = nd_files nd" "nd_current_term nd1 = nd_current_term nd" using q(2) by (simp_all add: quiet_def)
  have "nd_files nd' (raft_meta_file (ne_meta_path ne)) = nd_files nd (raft_meta_file (ne_meta_path ne))"
    using out s(1) unfolding nd'
    by (auto simp: node_set_votedfor_def rm_set_votedfor_def rm_save_def pb_save_def f1 saved_def meta_of_def Let_def)
  then have "stored ne (nd_files nd0) (meta_of (nd_current_term nd) empty_peer)"
    using s(1) stored_cong [of "nd_files nd'" ne "nd_files nd"] restart(1) by (simp add: saved_def)
  moreover have "step_env ne (ne\<lparr>ne_save_outcome := Save_completes\<rparr>)" by (simp add: step_env_def)
  ultimately have "nd_voted_id nd2 = empty_peer" "nd_current_term nd2 = nd_current_term nd"
    using node_init_restores(1,2) [OF _ _ s(3,4) restart(2)] by auto
  moreover have "vp_granted resp" unfolding resp nd' using req(1) f1 by (simp add: vote_answer_def node_set_fields)
  ultimately show ?thesis by blast
qed

section \<open>Committed indexes out of range\<close>

lemma read_oo_indexes_faults: "0 < n \<Longrightarrow> length xs < i + n \<Longrightarrow> read_oo_indexes xs i n = Inl Out_of_range"
proof (induction n arbitrary: i)
  case (Suc n)
  show ?case
  proof (cases "i < length xs")
    case True
    then have "0 < n" "length xs < Suc i + n" using Suc.prems by simp_all
    from Suc.IH [OF this] True show ?thesis by (simp add: at_index_def)
  qed (simp add: at_index_def)
qed simp

text \<open>
  Out-of-order commits never reach a follower: as soon as a request carries an out-of-order committed index, the closure that
  runs when its entries are on the disk reads one element past the end of that field, because its loop counts from 1 to
  the size.
\<close>

theorem follower_reads_past_oo_indexes:
  assumes "ae_committed_oo_index req \<noteq> []"
  shows "follower_stable_run ne r req (nd_current_term nd) OK0 nd = Inl Out_of_range"
  using assms read_oo_indexes_faults [of "length (ae_committed_oo_index req)" "ae_committed_oo_index req" 1]
  by (simp add: follower_stable_run_def Let_def case_prod_beta)

text \<open>The step-down check of a leader looks only at the old configuration, which is empty outside a change.\<close>

lemma stable_leader_never_steps_down:
  "ce_stable (nd_conf nd) \<Longrightarrow> handle_stepdown_timeout ne now last_send nd = ([], nd)"
  by (simp add: handle_stepdown_timeout_def ce_stable_def)

section \<open>Examples\<close>

definition demo_append :: "nat append_rpc" where
  "demo_append = \<lparr>rpc_id = 0, rpc_request = \<lparr>ae_server_id = demo_text (peer_n 3), ae_term = 1, ae_prev_log_term = 0, ae_prev_log_index = 0,
     ae_entries = [], ae_committed_index = 0, ae_committed_oo_index = [], ae_dependency = 0\<rparr>, rpc_attachment = [], rpc_receive_time_ms = 0\<rparr>"

text \<open>Server 1 follows server 2 in term 1 when server 3 claims to lead term 1 too.\<close>

definition demo_follower :: "(nat, nat, nat) node" where
  "demo_follower = (demo_node 1)\<lparr>nd_leader_id := peer_n 2\<rparr>"

lemma demo_follower_fields: "nd_leader_id demo_follower = peer_n 2" "nd_current_term demo_follower = 1" "nd_state demo_follower = STATE_FOLLOWER"
  by (simp_all add: demo_follower_def demo_node_def)


theorem follower_reads_past_oo_indexes_witness:
  "follower_stable_run demo_env 0 ((rpc_request demo_append)\<lparr>ae_committed_oo_index := [7]\<rparr>) (nd_current_term demo_follower) OK0 demo_follower =
     Inl Out_of_range"
  by (rule follower_reads_past_oo_indexes) simp

theorem unsaved_vote_is_forgotten_witness:
  "\<exists>resp evs nd' nd2. handle_request_vote_end (demo_env\<lparr>ne_save_outcome := Open_fails\<rparr>) (demo_request\<lparr>vr_term := 1\<rparr>) (peer_n 1) (LogId 0 0)
       (demo_started 2) = (resp, evs, nd') \<and> vp_granted resp \<and>
     node_init demo_env (demo_io 2) ((demo_node 2)\<lparr>nd_files := nd_files nd'\<rparr>) = Inr (OK0, nd2) \<and> nd_voted_id nd2 = empty_peer"
proof -
  let ?ne = "demo_env\<lparr>ne_save_outcome := Open_fails\<rparr>" and ?req = "demo_request\<lparr>vr_term := 1\<rparr>"
  obtain resp evs nd' where run: "handle_request_vote_end ?ne ?req (peer_n 1) (LogId 0 0) (demo_started 2) = (resp, evs, nd')"
    by (metis prod_cases3)
  obtain e nd1 where d: "step_down ?ne 1 (demo_started 2) = (e, nd1)" by fastforce
  have q: "nd_meta nd1 = nd_meta (demo_started 2)" "nd_files nd1 = nd_files (demo_started 2)"
    using step_down_quiet(2) [OF _ d] by (simp_all add: demo_started_fields quiet_def)
  have "nd' = node_set_votedfor ?ne (peer_n 1) (nd1\<lparr>nd_voted_id := peer_n 1\<rparr>)"
    using run d by (simp add: handle_request_vote_end_def demo_request_def demo_started_fields is_empty_peer_iff Let_def del: One_nat_def)
  then have files: "nd_files nd' = (\<lambda>_. None)"
    using demo_started_fields(3) [of 2] q demo_started_files [of 2]
    by (simp add: node_set_votedfor_def rm_set_votedfor_def rm_save_def pb_save_def saved_def meta_of_def Let_def)
  have nd0: "(demo_node 2)\<lparr>nd_files := nd_files nd'\<rparr> = demo_node 2" unfolding files by (simp add: demo_node_def)
  have ne: "?ne\<lparr>ne_save_outcome := Save_completes\<rparr> = demo_env" by (simp add: demo_env_def)
  have s: "saved ?ne (demo_started 2) (nd_current_term (demo_started 2)) empty_peer"
    using demo_started_fields(1,3) [of 2] by (simp add: saved_def stored_def)
  have fin: "node_init (?ne\<lparr>ne_save_outcome := Save_completes\<rparr>) (demo_io 2) (demo_node 2) = Inr (OK0, demo_started 2)"
    unfolding ne by (rule demo_started_init)
  have "vp_granted resp \<and> nd_voted_id (demo_started 2) = empty_peer \<and> nd_current_term (demo_started 2) = nd_current_term (demo_started 2)"
    by (rule unsaved_vote_is_forgotten [OF s _ _ _ _ _ _ run _ fin])
      (simp_all add: demo_started_fields int32_max_def demo_request_def log_id_order_defs files, simp add: demo_node_def)
  then show ?thesis using run nd0 demo_started_init [of 2] by auto
qed

end
