(* ===== verification/Replicator.thy ===== *)
theory Replicator
  imports Append_Cache Ballot_Box
begin

text \<open>
  \<open>src/cpp/replicator.h\<close> and \<open>replicator.cc\<close>: how a leader replicates its log to one follower. A handler runs with the id of the
  replicator locked; \<open>rp_locked\<close> says whether it is still locked when the handler returns, \<open>rp_destroyed\<close> whether the object was
  deleted. A handler works on the replicator, the log manager and the ballot box of the node and returns the calls that leave the component.
  The call id of a new rpc, the outcome of starting or deleting a timer and the wall clock are inputs. Snapshots are never installed by
  this code, so their fields are left out.
\<close>

section \<open>State\<close>

record replicator_options =
  ro_server_id :: peer_id
  ro_peer_id :: peer_id
  ro_term :: int64

datatype rep_state = IDLE | BLOCKING | APPENDING_ENTRIES | INSTALLING_SNAPSHOT

record rep_stat =
  rs_st :: rep_state
  rs_first_log_index :: int64
  rs_last_log_index :: int64

record flying_rpc =
  fl_log_index :: int64
  fl_entries_size :: int
  fl_call_id :: nat

record 'd catchup_closure =
  cc_done :: 'd
  cc_max_margin :: int64
  cc_has_timer :: bool
  cc_error_was_set :: bool
  cc_status :: rc

record ('d, 'w) replicator =
  rp_next_index :: int64
  rp_oo_committed_entries :: "bool list"
  rp_oo_start_index :: int64
  rp_flying_append_entries_size :: int64
  rp_consecutive_error_times :: int
  rp_has_succeeded :: bool
  rp_timeout_now_index :: int64
  rp_last_rpc_send_timestamp :: int64
  rp_heartbeat_counter :: int64
  rp_append_entries_counter :: int64
  rp_readonly_index :: int64
  rp_st :: rep_stat
  rp_append_entries_in_fly :: "flying_rpc list"
  rp_status_append_entries_in_fly :: "bool list"
  rp_heartbeat_in_fly :: nat
  rp_timeout_now_in_fly :: nat
  rp_wait_id :: int64
  rp_is_waiter_canceled :: bool
  rp_options :: replicator_options
  rp_catchup_closure :: "'d catchup_closure option"
  rp_waiter :: 'w
  rp_locked :: bool
  rp_destroyed :: bool

text \<open>The constructor, with the options and the argument of the waiter (\<open>_id\<close>).\<close>

definition new_replicator :: "replicator_options \<Rightarrow> 'w \<Rightarrow> ('d, 'w) replicator" where
  "new_replicator options waiter =
     \<lparr>rp_next_index = 0, rp_oo_committed_entries = [], rp_oo_start_index = 1, rp_flying_append_entries_size = 0,
      rp_consecutive_error_times = 0, rp_has_succeeded = False, rp_timeout_now_index = 0, rp_last_rpc_send_timestamp = 0,
      rp_heartbeat_counter = 0, rp_append_entries_counter = 0, rp_readonly_index = 0,
      rp_st = \<lparr>rs_st = IDLE, rs_first_log_index = 0, rs_last_log_index = 0\<rparr>,
      rp_append_entries_in_fly = [], rp_status_append_entries_in_fly = [], rp_heartbeat_in_fly = 0, rp_timeout_now_in_fly = 0,
      rp_wait_id = 0, rp_is_waiter_canceled = False, rp_options = options, rp_catchup_closure = None, rp_waiter = waiter,
      rp_locked = False, rp_destroyed = False\<rparr>"

text \<open>The flags, the codec of the log and the text form of peers.\<close>

record rep_env =
  re_codec :: codec
  re_to_s :: "peer_id \<Rightarrow> string"
  re_max_entries_size :: int
  re_max_parallel_rpc_num :: nat
  re_max_body_size :: nat
  re_retry_interval_ms :: int
  re_heartbeat_timeout_ms :: int

record ('b, 'l, 'w, 'd) rep_world =
  rw_rep :: "('d, 'w) replicator"
  rw_log :: "('l, 'w) log_manager"
  rw_box :: "'b ballot_box"

datatype ('l, 'w, 'd) rep_event =
    Send_append nat append_request "byte list"
  | Send_heartbeat nat append_request
  | Send_timeout_now nat int64 bool int
  | Cancel_rpc nat
  | Start_heartbeat_timer
  | Heartbeat_at_once
  | Spawn_heartbeat
  | Delete_heartbeat_timer
  | Start_block_timer int
  | Start_catchup_timer
  | Delete_catchup_timer
  | Run_catchup 'd rc
  | Increase_term_to int64
  | Post_error rc
  | Rep_committed commit_event
  | Rep_log_event "('l, 'w) lm_event"

type_synonym ('b, 'l, 'w, 'd) rep_result = "(('l, 'w, 'd) rep_event list \<times> ('b, 'l, 'w, 'd) rep_world) res"

text \<open>Doing one thing after another, with the events in order.\<close>

definition then_do :: "('e list \<times> 's) res \<Rightarrow> ('s \<Rightarrow> ('e list \<times> 's) res) \<Rightarrow> ('e list \<times> 's) res" where
  "then_do r k =
     (case r of
        Inl f \<Rightarrow> Inl f
      | Inr (evs, s) \<Rightarrow> (case k s of Inl f \<Rightarrow> Inl f | Inr (evs', s') \<Rightarrow> Inr (evs @ evs', s')))"

lemma then_do_simps [simp]:
  "then_do (Inl f) k = Inl f"
  "then_do (Inr (evs, s)) k = (case k s of Inl f \<Rightarrow> Inl f | Inr (evs', s') \<Rightarrow> Inr (evs @ evs', s'))"
  by (simp_all add: then_do_def)

abbreviation upd_rep :: "(('d, 'w) replicator \<Rightarrow> ('d, 'w) replicator) \<Rightarrow> ('b, 'l, 'w, 'd) rep_world \<Rightarrow> ('b, 'l, 'w, 'd) rep_world" where
  "upd_rep f w \<equiv> w\<lparr>rw_rep := f (rw_rep w)\<rparr>"

abbreviation rp_unlock :: "('b, 'l, 'w, 'd) rep_world \<Rightarrow> ('b, 'l, 'w, 'd) rep_world" where
  "rp_unlock w \<equiv> upd_rep (\<lambda>r. r\<lparr>rp_locked := False\<rparr>) w"

text \<open>\<open>bthread_id_lock\<close>: it fails for a destroyed id; a handler that meets a locked id waits, so it only runs on an unlocked one.\<close>

definition with_lock ::
    "(('b, 'l, 'w, 'd) rep_world \<Rightarrow> ('b, 'l, 'w, 'd) rep_result) \<Rightarrow> ('b, 'l, 'w, 'd) rep_world \<Rightarrow> ('b, 'l, 'w, 'd) rep_result" where
  "with_lock f w = (if rp_destroyed (rw_rep w) then Inr ([], w) else f (upd_rep (\<lambda>r. r\<lparr>rp_locked := True\<rparr>) w))"

section \<open>Small operations\<close>

definition min_flying_index :: "('d, 'w) replicator \<Rightarrow> int64 res" where
  "min_flying_index r = (case rp_append_entries_in_fly r of [] \<Rightarrow> Inl Empty_container | f # _ \<Rightarrow> Inr (fl_log_index f))"

definition is_catchup :: "int64 \<Rightarrow> ('b, 'l, 'w, 'd) rep_world \<Rightarrow> bool res" where
  "is_catchup max_margin w =
     (if rp_next_index (rw_rep w) < lm_first_log_index (rw_log w) then Inr False
      else (case min_flying_index (rw_rep w) of
              Inl f \<Rightarrow> Inl f
            | Inr i \<Rightarrow> Inr (\<not> i - 1 + max_margin < lm_last_log_index (rw_log w))))"

definition run_catchup :: "'d catchup_closure \<Rightarrow> ('b, 'l, 'w, 'd) rep_world \<Rightarrow> ('b, 'l, 'w, 'd) rep_result" where
  "run_catchup c w = Inr ([Run_catchup (cc_done c) (cc_status c)], upd_rep (\<lambda>r. r\<lparr>rp_catchup_closure := None\<rparr>) w)"

text \<open>\<open>timer_runs\<close>: \<open>bthread_timer_del\<close> returned 1, the timer task is running.\<close>

definition notify_on_caught_up ::
    "bool \<Rightarrow> rc \<Rightarrow> bool \<Rightarrow> ('b, 'l, 'w, 'd) rep_world \<Rightarrow> ('b, 'l, 'w, 'd) rep_result" where
  "notify_on_caught_up timer_runs error_code before_destroy w =
     (case rp_catchup_closure (rw_rep w) of
        None \<Rightarrow> Inr ([], w)
      | Some c \<Rightarrow>
          if error_code \<noteq> ETIMEDOUT \<and> error_code \<noteq> EPERM
          then (case is_catchup (cc_max_margin c) w of
                  Inl f \<Rightarrow> Inl f
                | Inr caught_up \<Rightarrow>
                    if \<not> caught_up \<or> cc_error_was_set c then Inr ([], w)
                    else (let c1 = c\<lparr>cc_error_was_set := True, cc_status := (if error_code \<noteq> OK0 then error_code else cc_status c)\<rparr>;
                              del = (if cc_has_timer c \<and> \<not> before_destroy then [Delete_catchup_timer] else [])
                          in then_do (Inr (del, upd_rep (\<lambda>r. r\<lparr>rp_catchup_closure := Some c1\<rparr>) w))
                               (if cc_has_timer c \<and> \<not> before_destroy \<and> timer_runs then (\<lambda>w. Inr ([], w)) else run_catchup c1)))
          else run_catchup (if cc_error_was_set c then c else c\<lparr>cc_status := error_code\<rparr>) w)"

definition cancel_append_entries_rpcs :: "('b, 'l, 'w, 'd) rep_world \<Rightarrow> ('b, 'l, 'w, 'd) rep_result" where
  "cancel_append_entries_rpcs w =
     Inr (map (\<lambda>f. Cancel_rpc (fl_call_id f)) (rp_append_entries_in_fly (rw_rep w)),
          upd_rep (\<lambda>r. r\<lparr>rp_append_entries_in_fly := [], rp_status_append_entries_in_fly := []\<rparr>) w)"

text \<open>The loop at the start of \<open>_reset_next_index\<close>: the answered rpcs leave at the front.\<close>

fun drop_answered :: "flying_rpc list \<Rightarrow> bool list \<Rightarrow> flying_rpc list res" where
  "drop_answered [] ss = Inr []"
| "drop_answered (f # fs) [] = Inl Empty_container"
| "drop_answered (f # fs) (s # ss) = (if s then Inr (f # fs) else drop_answered fs ss)"

definition reset_next_index :: "('b, 'l, 'w, 'd) rep_world \<Rightarrow> ('b, 'l, 'w, 'd) rep_result" where
  "reset_next_index w =
     (case drop_answered (rp_append_entries_in_fly (rw_rep w)) (rp_status_append_entries_in_fly (rw_rep w)) of
        Inl f \<Rightarrow> Inl f
      | Inr fly \<Rightarrow>
          then_do
            (cancel_append_entries_rpcs
               (upd_rep (\<lambda>r. r\<lparr>rp_append_entries_in_fly := fly,
                                rp_next_index := (case fly of [] \<Rightarrow> rp_next_index r | f # _ \<Rightarrow> fl_log_index f),
                                rp_flying_append_entries_size := 0\<rparr>) w))
            (\<lambda>w1. let wid = rp_wait_id (rw_rep w1); w2 = upd_rep (\<lambda>r. r\<lparr>rp_is_waiter_canceled := True\<rparr>) w1
                  in if wid \<noteq> 0
                     then Inr ([], (upd_rep (\<lambda>r. r\<lparr>rp_wait_id := 0\<rparr>) w2)\<lparr>rw_log := snd (remove_waiter wid (rw_log w2))\<rparr>)
                     else Inr ([], w2)))"

definition start_heartbeat_timer :: "bool \<Rightarrow> ('l, 'w, 'd) rep_event list" where
  "start_heartbeat_timer added = (if added then [Start_heartbeat_timer] else [Heartbeat_at_once])"

definition rep_destroy :: "('b, 'l, 'w, 'd) rep_world \<Rightarrow> ('b, 'l, 'w, 'd) rep_world" where
  "rep_destroy w = upd_rep (\<lambda>r. r\<lparr>rp_locked := False, rp_destroyed := True\<rparr>) w"

section \<open>Sending\<close>

text \<open>
  \<open>_fill_common_fields\<close>: the announced commit index is \<open>_pending_index\<close> of the ballot box unless the follower is behind it; an out-of-order
  index is announced when the follower acknowledged it. The difference of indexes is compared as an unsigned number.
\<close>

definition fill_common_fields ::
    "rep_env \<Rightarrow> int64 \<Rightarrow> bool \<Rightarrow> ('b, 'l, 'w, 'd) rep_world \<Rightarrow> append_request option res" where
  "fill_common_fields env prev_log_index is_heartbeat w =
     (case lm_get_term prev_log_index (rw_log w) of
        Inl f \<Rightarrow> Inl f
      | Inr prev_log_term \<Rightarrow>
          if prev_log_term = 0 \<and> prev_log_index \<noteq> 0 \<and> \<not> is_heartbeat then Inr None
          else (let r = rw_rep w; (pending, oo) = oo_commited_indexes (rw_box w)
                in Inr (Some \<lparr>ae_server_id = re_to_s env (ro_server_id (rp_options r)), ae_term = ro_term (rp_options r),
                              ae_prev_log_term = prev_log_term,
                              ae_prev_log_index = (if prev_log_term = 0 then 0 else prev_log_index),
                              ae_entries = [],
                              ae_committed_index = (if rp_oo_start_index r < pending then rp_oo_start_index r - 1 else pending),
                              ae_committed_oo_index =
                                filter (\<lambda>i. 0 \<le> i - rp_oo_start_index r \<and>
                                            i - rp_oo_start_index r < int (length (rp_oo_committed_entries r)) \<and>
                                            rp_oo_committed_entries r ! nat (i - rp_oo_start_index r)) oo,
                              ae_dependency = 0\<rparr>)))"

text \<open>When \<open>_fill_common_fields\<close> fails, the function returns with the id locked.\<close>

definition send_empty_entries ::
    "rep_env \<Rightarrow> nat \<Rightarrow> bool \<Rightarrow> ('b, 'l, 'w, 'd) rep_world \<Rightarrow> ('b, 'l, 'w, 'd) rep_result" where
  "send_empty_entries env cid is_heartbeat w =
     (case fill_common_fields env (rp_next_index (rw_rep w) - 1) is_heartbeat w of
        Inl f \<Rightarrow> Inl f
      | Inr None \<Rightarrow> Inr ([], w)
      | Inr (Some request) \<Rightarrow>
          if is_heartbeat
          then Inr ([Send_heartbeat cid request],
                    rp_unlock (upd_rep (\<lambda>r. r\<lparr>rp_heartbeat_in_fly := cid, rp_heartbeat_counter := rp_heartbeat_counter r + 1\<rparr>) w))
          else Inr ([Send_append cid request []],
                    rp_unlock (upd_rep (\<lambda>r. r\<lparr>
                      rp_st := \<lparr>rs_st = APPENDING_ENTRIES, rs_first_log_index = rp_next_index r, rs_last_log_index = rp_next_index r - 1\<rparr>,
                      rp_append_entries_in_fly := rp_append_entries_in_fly r @
                        [\<lparr>fl_log_index = rp_next_index r, fl_entries_size = 0, fl_call_id = cid\<rparr>],
                      rp_status_append_entries_in_fly := rp_status_append_entries_in_fly r @ [True],
                      rp_append_entries_counter := rp_append_entries_counter r + 1\<rparr>) w)))"

definition prepare_entry ::
    "rep_env \<Rightarrow> int \<Rightarrow> byte list \<Rightarrow> ('b, 'l, 'w, 'd) rep_world \<Rightarrow>
      (rc \<times> entry_meta option \<times> byte list \<times> ('l, 'w, 'd) rep_event list \<times> ('b, 'l, 'w, 'd) rep_world) res" where
  "prepare_entry env offset data w =
     (if length data \<ge> re_max_body_size env then Inr (ERANGE, None, data, [], w)
      else (case lm_get_entry (re_codec env) (rp_next_index (rw_rep w) + offset) (rw_log w) of
              Inl f \<Rightarrow> Inl f
            | Inr (None, levs, lm) \<Rightarrow> Inr (ENOENT, None, data, map Rep_log_event levs, w\<lparr>rw_log := lm\<rparr>)
            | Inr (Some e, levs, lm) \<Rightarrow>
                Inr (OK0, Some \<lparr>em_term = le_term e, em_type = le_type e,
                                em_peers = (case le_peers e of None \<Rightarrow> [] | Some ps \<Rightarrow> map (re_to_s env) ps),
                                em_data_len = Some (int (length (le_data e))),
                                em_old_peers = (case le_peers e of None \<Rightarrow> []
                                                | Some _ \<Rightarrow> (case le_old_peers e of None \<Rightarrow> [] | Some os \<Rightarrow> map (re_to_s env) os)),
                                em_dependency = le_dependency e\<rparr>,
                     data @ le_data e, map Rep_log_event levs, w\<lparr>rw_log := lm\<rparr>)))"

text \<open>
  The loop of \<open>_send_entries\<close> over the offsets \<open>i, \<dots>\<close> for \<open>n\<close> entries; it is called for one entry. The dependencies of several entries
  would be shifted together.
\<close>

fun prepare_entries ::
    "rep_env \<Rightarrow> int \<Rightarrow> nat \<Rightarrow> entry_meta list \<Rightarrow> byte list \<Rightarrow> int64 \<Rightarrow> ('b, 'l, 'w, 'd) rep_world \<Rightarrow>
      (entry_meta list \<times> byte list \<times> int64 \<times> ('l, 'w, 'd) rep_event list \<times> ('b, 'l, 'w, 'd) rep_world) res" where
  "prepare_entries env i 0 ems data dep w = Inr (ems, data, dep, [], w)"
| "prepare_entries env i (Suc n) ems data dep w =
     (case prepare_entry env i data w of
        Inl f \<Rightarrow> Inl f
      | Inr (_, None, data', evs, w') \<Rightarrow> Inr (ems, data', dep, evs, w')
      | Inr (_, Some em, data', evs, w') \<Rightarrow>
          (case prepare_entries env (i + 1) n (ems @ [em]) data' (or (push_bit 1 dep) (em_dependency em)) w' of
             Inl f \<Rightarrow> Inl f
           | Inr (ems', data'', dep', evs', w'') \<Rightarrow> Inr (ems', data'', dep', evs @ evs', w'')))"

definition wait_more_entries :: "rep_env \<Rightarrow> ('b, 'l, 'w, 'd) rep_world \<Rightarrow> ('b, 'l, 'w, 'd) rep_result" where
  "wait_more_entries env w =
     (let r = rw_rep w;
          (evs, w1) =
            (if rp_wait_id r = 0 \<and> re_max_entries_size env > rp_flying_append_entries_size r \<and>
                re_max_parallel_rpc_num env > length (rp_append_entries_in_fly r)
             then (let (wid, levs, lm) = notify_on_new_log (rp_next_index r - 1) (rp_waiter r) (rw_log w)
                   in (map Rep_log_event levs,
                       (upd_rep (\<lambda>r. r\<lparr>rp_wait_id := wid, rp_is_waiter_canceled := False\<rparr>) w)\<lparr>rw_log := lm\<rparr>))
             else ([], w))
      in Inr (evs, rp_unlock (upd_rep (\<lambda>r. if rp_flying_append_entries_size r = 0
                                           then r\<lparr>rp_st := (rp_st r)\<lparr>rs_st := IDLE\<rparr>\<rparr> else r) w1)))"

text \<open>The part of \<open>_send_entries\<close> after the entries were collected.\<close>

definition grow_oo :: "('d, 'w) replicator \<Rightarrow> ('d, 'w) replicator" where
  "grow_oo r =
     r\<lparr>rp_oo_committed_entries := rp_oo_committed_entries r @
         replicate (nat (rp_next_index r - (rp_oo_start_index r + int (length (rp_oo_committed_entries r))))) False\<rparr>"

definition record_sent :: "nat \<Rightarrow> int \<Rightarrow> ('d, 'w) replicator \<Rightarrow> ('d, 'w) replicator" where
  "record_sent cid n r =
     (let r1 = r\<lparr>rp_append_entries_in_fly := rp_append_entries_in_fly r @
                   [\<lparr>fl_log_index = rp_next_index r, fl_entries_size = n, fl_call_id = cid\<rparr>],
                 rp_status_append_entries_in_fly := rp_status_append_entries_in_fly r @ [True],
                 rp_append_entries_counter := rp_append_entries_counter r + 1,
                 rp_next_index := rp_next_index r + n,
                 rp_flying_append_entries_size := rp_flying_append_entries_size r + n\<rparr>;
          r2 = grow_oo r1
      in r2\<lparr>rp_st := \<lparr>rs_st = APPENDING_ENTRIES, rs_first_log_index = fl_log_index (hd (rp_append_entries_in_fly r2)),
                      rs_last_log_index = rp_next_index r2 - 1\<rparr>\<rparr>)"

definition send_entries :: "rep_env \<Rightarrow> nat \<Rightarrow> ('b, 'l, 'w, 'd) rep_world \<Rightarrow> ('b, 'l, 'w, 'd) rep_result" where
  "send_entries env cid w =
     (let r = rw_rep w
      in if rp_flying_append_entries_size r \<ge> re_max_entries_size env \<or>
            int (length (rp_status_append_entries_in_fly r)) \<ge> re_max_entries_size env \<or>
            length (rp_append_entries_in_fly r) \<ge> re_max_parallel_rpc_num env \<or> rs_st (rp_st r) = BLOCKING
         then Inr ([], rp_unlock w)
         else (case fill_common_fields env (rp_next_index r - 1) False w of
                 Inl f \<Rightarrow> Inl f
               | Inr None \<Rightarrow> reset_next_index w
               | Inr (Some request) \<Rightarrow>
                   (case prepare_entries env 0 1 [] [] 0 w of
                      Inl f \<Rightarrow> Inl f
                    | Inr (ems, data, dep, evs, w1) \<Rightarrow>
                        if ems = []
                        then then_do (Inr (evs, w1))
                               (if rp_next_index r < lm_first_log_index (rw_log w1) then reset_next_index else wait_more_entries env)
                        else then_do (Inr (evs @ [Send_append cid (request\<lparr>ae_entries := ems, ae_dependency := dep\<rparr>) data],
                                           upd_rep (record_sent cid (int (length ems))) w1))
                               (wait_more_entries env))))"

definition rep_block :: "rep_env \<Rightarrow> nat \<Rightarrow> bool \<Rightarrow> rc \<Rightarrow> ('b, 'l, 'w, 'd) rep_world \<Rightarrow> ('b, 'l, 'w, 'd) rep_result" where
  "rep_block env cid timer_added error_code w =
     (if rs_st (rp_st (rw_rep w)) = BLOCKING then Inr ([], rp_unlock w)
      else if timer_added
      then Inr ([Start_block_timer (if error_code = EBUSY \<or> error_code = EINTR then re_retry_interval_ms env else re_heartbeat_timeout_ms env)],
                rp_unlock (upd_rep (\<lambda>r. r\<lparr>rp_st := (rp_st r)\<lparr>rs_st := BLOCKING\<rparr>\<rparr>) w))
      else send_empty_entries env cid False w)"

section \<open>Answers to AppendEntries\<close>

text \<open>The search for the rpc in flight that is answered; the answer marks it.\<close>

fun find_flying :: "int64 \<Rightarrow> nat \<Rightarrow> flying_rpc list \<Rightarrow> bool list \<Rightarrow> nat option res" where
  "find_flying first cid [] ss = Inr None"
| "find_flying first cid (f # fs) ss =
     (if fl_log_index f > first then Inr None
      else (case ss of
              [] \<Rightarrow> if fl_call_id f = cid then Inl Out_of_range else find_flying first cid fs []
            | s # ss' \<Rightarrow>
                if fl_call_id f = cid \<and> s then Inr (Some 0)
                else (case find_flying first cid fs ss' of Inl e \<Rightarrow> Inl e | Inr None \<Rightarrow> Inr None | Inr (Some k) \<Rightarrow> Inr (Some (Suc k)))))"

text \<open>
  The indexes to report to the ballot box. First every index below the last log index of the follower leaves the window; an index
  that was not reported yet is.
\<close>

fun drop_acked :: "int64 \<Rightarrow> int64 \<Rightarrow> bool list \<Rightarrow> int64 list \<Rightarrow> (int64 \<times> bool list \<times> int64 list) res" where
  "drop_acked last_log_index start [] out = (if start < last_log_index then Inl Empty_container else Inr (start, [], out))"
| "drop_acked last_log_index start (b # fs) out =
     (if start < last_log_index then drop_acked last_log_index (start + 1) fs (if b then out else out @ [start])
      else Inr (start, b # fs, out))"

text \<open>Then the indexes of the request itself.\<close>

fun mark_acked :: "int64 \<Rightarrow> int64 list \<Rightarrow> bool list \<Rightarrow> int64 list \<Rightarrow> (bool list \<times> int64 list) res" where
  "mark_acked start [] fs out = Inr (fs, out)"
| "mark_acked start (i # is) fs out =
     (case at_index fs (i - start) of
        Inl f \<Rightarrow> Inl f
      | Inr True \<Rightarrow> mark_acked start is fs out
      | Inr False \<Rightarrow> mark_acked start is (fs[nat (i - start) := True]) (out @ [i]))"

definition collect_acked :: "int64 \<Rightarrow> int64 \<Rightarrow> int \<Rightarrow> int64 \<Rightarrow> bool list \<Rightarrow> (int64 \<times> bool list \<times> int64 list) res" where
  "collect_acked last_log_index prev n start fs =
     (case drop_acked last_log_index start fs [] of
        Inl f \<Rightarrow> Inl f
      | Inr (start', fs', out) \<Rightarrow>
          if prev + n \<ge> start'
          then (case mark_acked start' [max start' (prev + 1)..prev + n] fs' out of
                  Inl f \<Rightarrow> Inl f
                | Inr (fs'', out') \<Rightarrow> Inr (start', fs'', out'))
          else Inr (start', fs', out))"

text \<open>The window is popped up to the first index that is not acknowledged.\<close>

fun pop_acked :: "int64 \<Rightarrow> bool list \<Rightarrow> int64 \<times> bool list" where
  "pop_acked start (True # fs) = pop_acked (start + 1) fs"
| "pop_acked start fs = (start, fs)"

definition report_acked ::
    "int64 \<Rightarrow> int64 \<Rightarrow> int \<Rightarrow> ('b, 'l, 'w, 'd) rep_world \<Rightarrow> ('b, 'l, 'w, 'd) rep_result" where
  "report_acked last_log_index prev n w =
     (if n \<le> 0 then Inr ([], w)
      else (case collect_acked last_log_index prev n (rp_oo_start_index (rw_rep w)) (rp_oo_committed_entries (rw_rep w)) of
              Inl f \<Rightarrow> Inl f
            | Inr (start, fs, commit_indexes) \<Rightarrow>
                (case commit_at (rw_box w) commit_indexes (ro_peer_id (rp_options (rw_rep w))) of
                   Inl f \<Rightarrow> Inl f
                 | Inr (_, ev, bb) \<Rightarrow>
                     (let (start', fs') = pop_acked start fs
                      in Inr (case ev of None \<Rightarrow> [] | Some e \<Rightarrow> [Rep_committed e],
                              (upd_rep (\<lambda>r. r\<lparr>rp_oo_start_index := start', rp_oo_committed_entries := fs'\<rparr>) w)\<lparr>rw_box := bb\<rparr>)))))"

text \<open>The answered rpc is erased; at the front, answered rpcs and those whose entries were all acknowledged leave.\<close>

fun pop_flying :: "int64 \<Rightarrow> flying_rpc list \<Rightarrow> bool list \<Rightarrow> int64 \<Rightarrow> (flying_rpc list \<times> bool list \<times> int64) res" where
  "pop_flying start [] ss n = Inr ([], ss, n)"
| "pop_flying start (f # fs) [] n = Inl Empty_container"
| "pop_flying start (f # fs) (s # ss) n =
     (if \<not> s \<or> fl_log_index f + fl_entries_size f \<le> start then pop_flying start fs ss (n - fl_entries_size f)
      else Inr (f # fs, s # ss, n))"

definition erase_at :: "nat \<Rightarrow> 'a list \<Rightarrow> 'a list" where
  "erase_at k xs = take k xs @ drop (Suc k) xs"

definition finish_rpc :: "nat \<Rightarrow> int \<Rightarrow> ('b, 'l, 'w, 'd) rep_world \<Rightarrow> ('b, 'l, 'w, 'd) rep_result" where
  "finish_rpc k n w =
     (let r = rw_rep w
      in case pop_flying (rp_oo_start_index r) (erase_at k (rp_append_entries_in_fly r))
                (erase_at k (rp_status_append_entries_in_fly r)) (rp_flying_append_entries_size r - n) of
           Inl f \<Rightarrow> Inl f
         | Inr (fly, ss, sz) \<Rightarrow>
             Inr ([], upd_rep (\<lambda>r. r\<lparr>rp_append_entries_in_fly := fly, rp_status_append_entries_in_fly := ss,
                                      rp_flying_append_entries_size := sz, rp_has_succeeded := True\<rparr>) w))"

definition send_timeout_now ::
    "nat \<Rightarrow> bool \<Rightarrow> bool \<Rightarrow> int \<Rightarrow> ('b, 'l, 'w, 'd) rep_world \<Rightarrow> ('b, 'l, 'w, 'd) rep_result" where
  "send_timeout_now cid unlock_id stop_after_finish timeout_ms w =
     (let w1 = (if stop_after_finish then w
                else upd_rep (\<lambda>r. r\<lparr>rp_timeout_now_in_fly := cid, rp_timeout_now_index := 0\<rparr>) w)
      in Inr ([Send_timeout_now cid (ro_term (rp_options (rw_rep w))) stop_after_finish timeout_ms],
              if unlock_id then rp_unlock w1 else w1))"

definition timeout_now_if_reached :: "nat \<Rightarrow> ('b, 'l, 'w, 'd) rep_world \<Rightarrow> ('b, 'l, 'w, 'd) rep_result" where
  "timeout_now_if_reached cid w =
     (if rp_timeout_now_index (rw_rep w) > 0
      then (case min_flying_index (rw_rep w) of
              Inl f \<Rightarrow> Inl f
            | Inr i \<Rightarrow> if rp_timeout_now_index (rw_rep w) < i then send_timeout_now cid False False (-1) w else Inr ([], w))
      else Inr ([], w))"

text \<open>What is not decided by the state: error code of the rpc, timers, clocks and the ids of the next rpcs.\<close>

record rpc_outcome =
  oc_error :: "rc option"
  oc_send_time :: int64
  oc_timer_added :: bool
  oc_catchup_timer_runs :: bool
  oc_next_cid :: nat
  oc_timeout_cid :: nat

definition touch_timestamp :: "int64 \<Rightarrow> ('d, 'w) replicator \<Rightarrow> ('d, 'w) replicator" where
  "touch_timestamp t r = (if t > rp_last_rpc_send_timestamp r then r\<lparr>rp_last_rpc_send_timestamp := t\<rparr> else r)"

definition last_log_index_of :: "append_response \<Rightarrow> int64" where
  "last_log_index_of res = (case ar_last_log_index res of None \<Rightarrow> 0 | Some i \<Rightarrow> i)"

text \<open>A refused request: a higher term ends the replicator, otherwise the next index moves back and is probed.\<close>

definition on_rpc_refused ::
    "rep_env \<Rightarrow> rpc_outcome \<Rightarrow> append_response \<Rightarrow> ('b, 'l, 'w, 'd) rep_world \<Rightarrow> ('b, 'l, 'w, 'd) rep_result" where
  "on_rpc_refused env oc response w =
     (if ar_term response > ro_term (rp_options (rw_rep w))
      then then_do (then_do (reset_next_index w) (notify_on_caught_up (oc_catchup_timer_runs oc) EPERM True))
             (\<lambda>w1. Inr ([Increase_term_to (ar_term response)], rep_destroy w1))
      else then_do (reset_next_index (upd_rep (touch_timestamp (oc_send_time oc)) w))
             (\<lambda>w1. send_empty_entries env (oc_next_cid oc) False
                     (upd_rep (\<lambda>r. r\<lparr>rp_next_index :=
                        (if last_log_index_of response + 1 < rp_next_index r then last_log_index_of response + 1
                         else if rp_next_index r > 1 then rp_next_index r - 1 else rp_next_index r)\<rparr>) w1)))"

definition on_rpc_accepted ::
    "rep_env \<Rightarrow> rpc_outcome \<Rightarrow> nat \<Rightarrow> append_request \<Rightarrow> append_response \<Rightarrow> ('b, 'l, 'w, 'd) rep_world \<Rightarrow> ('b, 'l, 'w, 'd) rep_result" where
  "on_rpc_accepted env oc k request response w =
     (let n = int (length (ae_entries request))
      in if ar_term response \<noteq> ro_term (rp_options (rw_rep w))
         then then_do (reset_next_index w) (\<lambda>w1. Inr ([], rp_unlock w1))
         else then_do (then_do (then_do (then_do
                (report_acked (last_log_index_of response) (ae_prev_log_index request) n
                   (upd_rep (touch_timestamp (oc_send_time oc)) w))
                (finish_rpc k n))
                (notify_on_caught_up (oc_catchup_timer_runs oc) OK0 False))
                (timeout_now_if_reached (oc_timeout_cid oc)))
                (send_entries env (oc_next_cid oc)))"

text \<open>\<open>_on_rpc_returned\<close>: \<open>_min_flying_index\<close> is read before the rpc is looked up.\<close>

definition on_rpc_returned ::
    "rep_env \<Rightarrow> rpc_outcome \<Rightarrow> nat \<Rightarrow> append_request \<Rightarrow> append_response \<Rightarrow> ('b, 'l, 'w, 'd) rep_world \<Rightarrow> ('b, 'l, 'w, 'd) rep_result" where
  "on_rpc_returned env oc cid request response =
     with_lock (\<lambda>w.
       case min_flying_index (rw_rep w) of
         Inl f \<Rightarrow> Inl f
       | Inr _ \<Rightarrow>
           (case find_flying (ae_prev_log_index request + 1) cid (rp_append_entries_in_fly (rw_rep w))
                   (rp_status_append_entries_in_fly (rw_rep w)) of
              Inl f \<Rightarrow> Inl f
            | Inr None \<Rightarrow> Inr ([], rp_unlock w)
            | Inr (Some k) \<Rightarrow>
                (let w1 = upd_rep (\<lambda>r. r\<lparr>rp_status_append_entries_in_fly := (rp_status_append_entries_in_fly r)[k := False]\<rparr>) w
                 in case oc_error oc of
                      Some e \<Rightarrow>
                        then_do (reset_next_index (upd_rep (\<lambda>r. r\<lparr>rp_consecutive_error_times := rp_consecutive_error_times r + 1\<rparr>) w1))
                          (rep_block env (oc_next_cid oc) (oc_timer_added oc) e)
                    | None \<Rightarrow>
                        (let w2 = upd_rep (\<lambda>r. r\<lparr>rp_consecutive_error_times := 0\<rparr>) w1
                         in if \<not> ar_success response then on_rpc_refused env oc response w2
                            else on_rpc_accepted env oc k request response w2))))"

definition on_heartbeat_returned ::
    "rpc_outcome \<Rightarrow> append_response \<Rightarrow> ('b, 'l, 'w, 'd) rep_world \<Rightarrow> ('b, 'l, 'w, 'd) rep_result" where
  "on_heartbeat_returned oc response =
     with_lock (\<lambda>w.
       case oc_error oc of
         Some e \<Rightarrow>
           Inr (start_heartbeat_timer (oc_timer_added oc),
                rp_unlock (upd_rep (\<lambda>r. r\<lparr>rp_consecutive_error_times := rp_consecutive_error_times r + 1\<rparr>) w))
       | None \<Rightarrow>
           (let w1 = upd_rep (\<lambda>r. r\<lparr>rp_consecutive_error_times := 0\<rparr>) w
            in if ar_term response > ro_term (rp_options (rw_rep w1))
               then then_do (notify_on_caught_up (oc_catchup_timer_runs oc) EPERM True w1)
                      (\<lambda>w2. Inr ([Increase_term_to (ar_term response)], rep_destroy w2))
               else Inr (start_heartbeat_timer (oc_timer_added oc), rp_unlock (upd_rep (touch_timestamp (oc_send_time oc)) w1))))"

section \<open>Timers and the waiter\<close>

text \<open>
  \<open>_continue_sending\<close>: called by the waiter of the log manager and by the block timer (\<open>ETIMEDOUT\<close>). In the latter case, with a waiter
  registered, it returns without unlocking.
\<close>

definition continue_sending :: "rep_env \<Rightarrow> nat \<Rightarrow> rc \<Rightarrow> ('b, 'l, 'w, 'd) rep_world \<Rightarrow> ('b, 'l, 'w, 'd) rep_result" where
  "continue_sending env cid error_code =
     with_lock (\<lambda>w.
       if error_code = ETIMEDOUT
       then (if rp_wait_id (rw_rep w) \<noteq> 0 then Inr ([], w) else send_empty_entries env cid False w)
       else if error_code \<noteq> ESTOP \<and> \<not> rp_is_waiter_canceled (rw_rep w)
       then send_entries env cid (upd_rep (\<lambda>r. r\<lparr>rp_wait_id := 0\<rparr>) w)
       else Inr ([], rp_unlock w))"

definition send_heartbeat :: "rep_env \<Rightarrow> nat \<Rightarrow> ('b, 'l, 'w, 'd) rep_world \<Rightarrow> ('b, 'l, 'w, 'd) rep_result" where
  "send_heartbeat env cid = with_lock (send_empty_entries env cid True)"

text \<open>\<open>_on_error\<close>, run with the id locked when an error was posted: \<open>ESTOP\<close> by \<open>stop\<close>, \<open>ETIMEDOUT\<close> by the heartbeat timer.\<close>

definition rep_on_error :: "rc \<Rightarrow> ('b, 'l, 'w, 'd) rep_world \<Rightarrow> ('b, 'l, 'w, 'd) rep_result" where
  "rep_on_error error_code =
     with_lock (\<lambda>w.
       if error_code = ESTOP
       then then_do (then_do (then_do
              (Inr ([Cancel_rpc (rp_heartbeat_in_fly (rw_rep w)), Cancel_rpc (rp_timeout_now_in_fly (rw_rep w))], w))
              cancel_append_entries_rpcs)
              (\<lambda>w1. then_do (Inr ([Delete_heartbeat_timer], w1\<lparr>rw_log := snd (remove_waiter (rp_wait_id (rw_rep w1)) (rw_log w1))\<rparr>))
                      (notify_on_caught_up False error_code True)))
              (\<lambda>w2. Inr ([], rep_destroy (upd_rep (\<lambda>r. r\<lparr>rp_wait_id := 0\<rparr>) w2)))
       else if error_code = ETIMEDOUT then Inr ([Spawn_heartbeat], rp_unlock w)
       else Inr ([], rp_unlock w))"

definition on_catch_up_timedout :: "('b, 'l, 'w, 'd) rep_world \<Rightarrow> ('b, 'l, 'w, 'd) rep_result" where
  "on_catch_up_timedout = with_lock (\<lambda>w. then_do (notify_on_caught_up False ETIMEDOUT False w) (\<lambda>w1. Inr ([], rp_unlock w1)))"

definition on_timeout_now_returned ::
    "rpc_outcome \<Rightarrow> int64 \<Rightarrow> bool \<Rightarrow> ('b, 'l, 'w, 'd) rep_world \<Rightarrow> ('b, 'l, 'w, 'd) rep_result" where
  "on_timeout_now_returned oc response_term stop_after_finish =
     with_lock (\<lambda>w.
       let stop = (\<lambda>w. if stop_after_finish
                       then then_do (notify_on_caught_up (oc_catchup_timer_runs oc) ESTOP True w) (\<lambda>w1. Inr ([], rep_destroy w1))
                       else Inr ([], rp_unlock w))
       in case oc_error oc of
            Some _ \<Rightarrow> stop w
          | None \<Rightarrow>
              if response_term > ro_term (rp_options (rw_rep w))
              then then_do (notify_on_caught_up (oc_catchup_timer_runs oc) EPERM True w)
                     (\<lambda>w1. Inr ([Increase_term_to response_term], rep_destroy w1))
              else stop w)"

section \<open>Operations of the leader\<close>

text \<open>
  \<open>start\<close>: whether the pointers of the options are set, the channel was initialised and the id was created are inputs.
\<close>

definition rep_start ::
    "rep_env \<Rightarrow> bool \<Rightarrow> bool \<Rightarrow> bool \<Rightarrow> bool \<Rightarrow> nat \<Rightarrow> int64 \<Rightarrow> replicator_options \<Rightarrow> 'w \<Rightarrow> ('l, 'w) log_manager \<Rightarrow> 'b ballot_box \<Rightarrow>
      (rc \<times> ('l, 'w, 'd) rep_event list \<times> ('b, 'l, 'w, 'd) rep_world option) res" where
  "rep_start env options_ok channel_ok id_ok timer_added cid now options waiter lm bb =
     (if \<not> options_ok \<or> \<not> channel_ok \<or> \<not> id_ok then Inr (NEG1, [], None)
      else (case send_empty_entries env cid False
                   \<lparr>rw_rep = (new_replicator options waiter)\<lparr>rp_next_index := lm_last_log_index lm + 1,
                       rp_last_rpc_send_timestamp := now, rp_locked := True\<rparr>, rw_log = lm, rw_box = bb\<rparr> of
              Inl f \<Rightarrow> Inl f
            | Inr (evs, w) \<Rightarrow> Inr (OK0, start_heartbeat_timer timer_added @ evs, Some w)))"

text \<open>\<open>stop\<close> ends with \<open>bthread_id_error\<close>, which runs \<open>_on_error\<close> with \<open>ESTOP\<close>.\<close>

definition rep_stop :: "bool \<Rightarrow> ('b, 'l, 'w, 'd) rep_world \<Rightarrow> ('b, 'l, 'w, 'd) rep_result" where
  "rep_stop timer_runs =
     with_lock (\<lambda>w. then_do (notify_on_caught_up timer_runs EPERM True w) (\<lambda>w1. Inr ([Post_error ESTOP], rp_unlock w1)))"

definition rep_last_rpc_send_timestamp :: "('b, 'l, 'w, 'd) rep_world \<Rightarrow> int64" where
  "rep_last_rpc_send_timestamp w = (if rp_destroyed (rw_rep w) then 0 else rp_last_rpc_send_timestamp (rw_rep w))"

definition wait_for_caught_up ::
    "int64 \<Rightarrow> bool \<Rightarrow> bool \<Rightarrow> 'd \<Rightarrow> ('b, 'l, 'w, 'd) rep_world \<Rightarrow> ('b, 'l, 'w, 'd) rep_result" where
  "wait_for_caught_up max_margin has_due_time timer_added done w0 =
     (if rp_destroyed (rw_rep w0) then Inr ([Run_catchup done EINVAL], w0)
      else with_lock (\<lambda>w.
        if rp_catchup_closure (rw_rep w) \<noteq> None then Inr ([Run_catchup done EINVAL], rp_unlock w)
        else (case (if rp_has_succeeded (rw_rep w) then is_catchup max_margin w else Inr False) of
                Inl f \<Rightarrow> Inl f
              | Inr True \<Rightarrow> Inr ([Run_catchup done OK0], rp_unlock w)
              | Inr False \<Rightarrow>
                  if has_due_time \<and> \<not> timer_added then Inr ([Run_catchup done EINVAL], rp_unlock w)
                  else Inr (if has_due_time then [Start_catchup_timer] else [],
                            rp_unlock (upd_rep (\<lambda>r. r\<lparr>rp_catchup_closure := Some \<lparr>cc_done = done, cc_max_margin = max_margin,
                              cc_has_timer = has_due_time, cc_error_was_set = False, cc_status = OK0\<rparr>\<rparr>) w)))) w0)"

definition transfer_leadership :: "nat \<Rightarrow> int64 \<Rightarrow> ('b, 'l, 'w, 'd) rep_world \<Rightarrow> ('b, 'l, 'w, 'd) rep_result" where
  "transfer_leadership cid log_index =
     with_lock (\<lambda>w.
       case (if rp_has_succeeded (rw_rep w)
             then (case min_flying_index (rw_rep w) of Inl f \<Rightarrow> Inl f | Inr i \<Rightarrow> Inr (i > log_index)) else Inr False) of
         Inl f \<Rightarrow> Inl f
       | Inr True \<Rightarrow> send_timeout_now cid True False (-1) w
       | Inr False \<Rightarrow> Inr ([], rp_unlock (upd_rep (\<lambda>r. r\<lparr>rp_timeout_now_index := log_index\<rparr>) w)))"

definition stop_transfer_leadership :: "('b, 'l, 'w, 'd) rep_world \<Rightarrow> ('b, 'l, 'w, 'd) rep_result" where
  "stop_transfer_leadership = with_lock (\<lambda>w. Inr ([], rp_unlock (upd_rep (\<lambda>r. r\<lparr>rp_timeout_now_index := 0\<rparr>) w)))"

definition send_timeout_now_and_stop :: "nat \<Rightarrow> int \<Rightarrow> ('b, 'l, 'w, 'd) rep_world \<Rightarrow> ('b, 'l, 'w, 'd) rep_result" where
  "send_timeout_now_and_stop cid timeout_ms = with_lock (send_timeout_now cid True True timeout_ms)"

definition get_next_index :: "('b, 'l, 'w, 'd) rep_world \<Rightarrow> int64" where
  "get_next_index w =
     (if \<not> rp_destroyed (rw_rep w) \<and> rp_has_succeeded (rw_rep w)
      then rp_next_index (rw_rep w) - rp_flying_append_entries_size (rw_rep w) else 0)"

definition rep_change_readonly_config :: "rep_env \<Rightarrow> bool \<Rightarrow> ('b, 'l, 'w, 'd) rep_world \<Rightarrow> ('b, 'l, 'w, 'd) rep_result" where
  "rep_change_readonly_config env readonly =
     with_lock (\<lambda>w.
       if readonly = (rp_readonly_index (rw_rep w) \<noteq> 0) then Inr ([], rp_unlock w)
       else if readonly
       then Inr ([], rp_unlock (upd_rep (\<lambda>r. r\<lparr>rp_readonly_index := lm_last_log_index (rw_log w) + 1\<rparr>) w))
       else wait_more_entries env (upd_rep (\<lambda>r. r\<lparr>rp_readonly_index := 0\<rparr>) w))"

definition rep_readonly :: "('b, 'l, 'w, 'd) rep_world \<Rightarrow> bool" where
  "rep_readonly w \<longleftrightarrow> \<not> rp_destroyed (rw_rep w) \<and> rp_readonly_index (rw_rep w) \<noteq> 0"

end
