(* ===== verification/Replicator_Ack.thy ===== *)
theory Replicator_Ack
  imports Replicator
begin

text \<open>
  How a replicator turns the answers of its follower into votes: the window of acknowledged indexes (\<open>_oo_start_index\<close> and
  \<open>_oo_committed_entries\<close>) interprets the contract of the sliding window, and every acknowledged index is
  reported to the ballot box once.
\<close>

lemma pop_acked_front: "pop_acked s fs = (s + int (front_run fs), drop (front_run fs) fs)"
  by (induction s fs rule: pop_acked.induct) auto

definition settle_acked :: "int64 \<times> bool list \<Rightarrow> (int64 \<times> bool list) res" where
  "settle_acked sf = Inr (pop_acked (fst sf) (snd sf))"

interpretation ack_window: sliding_window fst snd "\<lambda>_. True" settle_acked
  by unfold_locales (auto simp: settle_acked_def pop_acked_front)

section \<open>The indexes that an answer acknowledges\<close>

lemma settled_Cons: "settled s (b # fs) i \<longleftrightarrow> settled (s + 1) fs i \<and> (i = s \<longrightarrow> b)"
proof -
  consider "i < s" | "i = s" | "s < i" by linarith
  then show ?thesis
  proof cases
    case 3
    then have "nat (i - s) = Suc (nat (i - (s + 1)))" by simp
    with 3 show ?thesis by (auto simp: settled_def)
  qed (auto simp: settled_def)
qed

lemma drop_acked_eq:
  "lli \<le> s + int (length fs) \<Longrightarrow>
     drop_acked lli s fs out =
       Inr (max s lli, drop (nat (lli - s)) fs, out @ filter (\<lambda>i. \<not> settled s fs i) [s..lli - 1])"
proof (induction fs arbitrary: s out)
  case Nil
  then show ?case by simp
next
  case (Cons b fs)
  show ?case
  proof (cases "s < lli")
    case True
    have f: "filter (\<lambda>i. \<not> settled (s + 1) fs i) [s + 1..lli - 1] = filter (\<lambda>i. \<not> settled s (b # fs) i) [s + 1..lli - 1]"
      by (rule filter_cong) (auto simp: settled_Cons)
    have u: "[s..lli - 1] = s # [s + 1..lli - 1]" using True by (simp add: upto_rec1)
    have k: "nat (lli - s) = Suc (nat (lli - (s + 1)))" "max (s + 1) lli = max s lli" using True by simp_all
    have b: "settled s (b # fs) s \<longleftrightarrow> b" by (simp add: settled_def)
    have "drop_acked lli (s + 1) fs out' =
        Inr (max (s + 1) lli, drop (nat (lli - (s + 1))) fs, out' @ filter (\<lambda>i. \<not> settled (s + 1) fs i) [s + 1..lli - 1])" for out'
      by (rule Cons.IH) (use Cons.prems in simp)
    then show ?thesis using True by (simp only: drop_acked.simps if_True f u k filter.simps b drop_Suc_Cons) simp
  next
    case False
    then show ?thesis by simp
  qed
qed

text \<open>Dropping a prefix of the window settles it.\<close>

lemma settled_drop_upto:
  "lli \<le> s + int (length fs) \<Longrightarrow> settled (max s lli) (drop (nat (lli - s)) fs) i \<longleftrightarrow> i < lli \<or> settled s fs i"
proof (cases "s < lli")
  case True
  assume "lli \<le> s + int (length fs)"
  moreover have "nat (lli - s) + nat (i - lli) = nat (i - s)" if "lli \<le> i" using that True by linarith
  ultimately show ?thesis using True by (auto simp: settled_def)
qed auto

lemma mark_acked_eq:
  "\<forall>i \<in> set is. s \<le> i \<and> i < s + int (length fs) \<Longrightarrow> distinct is \<Longrightarrow>
     \<exists>fs'. mark_acked s is fs out = Inr (fs', out @ filter (\<lambda>i. \<not> settled s fs i) is) \<and> length fs' = length fs \<and>
       (\<forall>i. settled s fs' i \<longleftrightarrow> settled s fs i \<or> i \<in> set is)"
proof (induction "is" arbitrary: fs out)
  case Nil
  then show ?case by simp
next
  case (Cons i "is")
  have i: "s \<le> i" "i < s + int (length fs)" using Cons.prems by auto
  then have st: "settled s fs i \<longleftrightarrow> fs ! nat (i - s)" by (simp add: settled_def)
  show ?case
  proof (cases "settled s fs i")
    case True
    moreover obtain fs' where "mark_acked s is fs out = Inr (fs', out @ filter (\<lambda>i. \<not> settled s fs i) is)"
      "length fs' = length fs" "\<forall>j. settled s fs' j \<longleftrightarrow> settled s fs j \<or> j \<in> set is"
      using Cons.IH [of fs out] Cons.prems by auto
    ultimately show ?thesis using i st by auto
  next
    case False
    let ?fs = "fs[nat (i - s) := True]"
    have m: "settled s ?fs j \<longleftrightarrow> j = i \<or> settled s fs j" for j by (rule settled_update [OF i])
    have "filter (\<lambda>j. \<not> settled s ?fs j) is = filter (\<lambda>j. \<not> settled s fs j) is"
      by (rule filter_cong) (use Cons.prems(2) m in auto)
    moreover obtain fs' where "mark_acked s is ?fs (out @ [i]) = Inr (fs', (out @ [i]) @ filter (\<lambda>i. \<not> settled s ?fs i) is)"
      "length fs' = length ?fs" "\<forall>j. settled s fs' j \<longleftrightarrow> settled s ?fs j \<or> j \<in> set is"
      using Cons.IH [of ?fs "out @ [i]"] Cons.prems by auto
    ultimately show ?thesis using False i st m by auto
  qed
qed

text \<open>The list of indexes that one answer newly acknowledges, in increasing order.\<close>

definition newly_acked :: "int64 \<Rightarrow> int64 \<Rightarrow> int \<Rightarrow> int64 \<Rightarrow> bool list \<Rightarrow> int64 list" where
  "newly_acked lli pli n s fs = filter (\<lambda>i. \<not> settled s fs i) ([s..lli - 1] @ [max (max s lli) (pli + 1)..pli + n])"

lemma collect_acked_eq:
  assumes "lli \<le> s + int (length fs)" "pli + n < s + int (length fs)"
  shows "\<exists>fs'. collect_acked lli pli n s fs = Inr (max s lli, fs', newly_acked lli pli n s fs) \<and>
     (\<forall>i. settled (max s lli) fs' i \<longleftrightarrow> settled s fs i \<or> i < lli \<or> pli < i \<and> i \<le> pli + n)"
proof -
  let ?s = "max s lli" and ?fs = "drop (nat (lli - s)) fs" and ?is = "[max (max s lli) (pli + 1)..pli + n]"
  note d = drop_acked_eq [OF assms(1), of "[]"] and sd = settled_drop_upto [OF assms(1)]
  show ?thesis
  proof (cases "?s \<le> pli + n")
    case True
    have len: "?s + int (length ?fs) = s + int (length fs)" using assms(1) by auto
    have "\<forall>i \<in> set ?is. ?s \<le> i \<and> i < ?s + int (length ?fs)" unfolding len using assms(2) by auto
    from mark_acked_eq [OF this, of "filter (\<lambda>i. \<not> settled s fs i) [s..lli - 1]"] obtain fs' where
      m: "mark_acked ?s ?is ?fs (filter (\<lambda>i. \<not> settled s fs i) [s..lli - 1]) =
          Inr (fs', filter (\<lambda>i. \<not> settled s fs i) [s..lli - 1] @ filter (\<lambda>i. \<not> settled ?s ?fs i) ?is)"
        "\<forall>i. settled ?s fs' i \<longleftrightarrow> settled ?s ?fs i \<or> i \<in> set ?is" by auto
    have "filter (\<lambda>i. \<not> settled ?s ?fs i) ?is = filter (\<lambda>i. \<not> settled s fs i) ?is"
      by (rule filter_cong) (auto simp: sd)
    with m True d have "collect_acked lli pli n s fs = Inr (?s, fs', newly_acked lli pli n s fs)"
      by (simp add: collect_acked_def newly_acked_def)
    moreover have "settled ?s fs' i \<longleftrightarrow> settled s fs i \<or> i < lli \<or> pli < i \<and> i \<le> pli + n" for i
    proof -
      have "settled ?s fs' i \<longleftrightarrow> (i < lli \<or> settled s fs i) \<or> i \<in> set ?is" unfolding sd [symmetric] using m(2) by blast
      moreover have "i \<in> set ?is \<longleftrightarrow> s \<le> i \<and> lli \<le> i \<and> pli < i \<and> i \<le> pli + n" by auto
      moreover have "settled s fs i \<or> s \<le> i" by (cases "i < s") simp_all
      ultimately show ?thesis using linorder_not_less [of i lli] by blast
    qed
    ultimately show ?thesis by blast
  next
    case False
    then have "?is = []" unfolding upto_Nil by linarith
    with False d have "collect_acked lli pli n s fs = Inr (?s, ?fs, newly_acked lli pli n s fs)"
      by (simp add: collect_acked_def newly_acked_def)
    moreover have "settled ?s ?fs i \<longleftrightarrow> settled s fs i \<or> i < lli \<or> pli < i \<and> i \<le> pli + n" for i
    proof -
      have "i < lli \<or> settled s fs i" if "i \<le> pli + n" using that False by (cases "i < s") auto
      then show ?thesis by (auto simp: sd)
    qed
    ultimately show ?thesis by blast
  qed
qed

lemma newly_acked_sorted: "sorted_wrt (<) (newly_acked lli pli n s fs)"
proof -
  have "sorted_wrt (<) ([s..lli - 1] @ [max (max s lli) (pli + 1)..pli + n])"
    by (auto simp: sorted_wrt_append)
  then show ?thesis unfolding newly_acked_def by (rule sorted_wrt_filter)
qed

lemma set_newly_acked:
  "set (newly_acked lli pli n s fs) = {i. (i < lli \<or> pli < i \<and> i \<le> pli + n) \<and> \<not> settled s fs i}"
proof -
  have "settled s fs i" if "i < s" for i using that by simp
  then show ?thesis by (force simp: newly_acked_def not_less)
qed

section \<open>Every acknowledged index is reported once\<close>

lemma drop_acked_Inr: "drop_acked lli s fs out = Inr x \<Longrightarrow> lli \<le> s + int (length fs)"
  by (induction fs arbitrary: s out) (fastforce split: if_splits)+

lemma mark_acked_Inr: "mark_acked s is fs out = Inr x \<Longrightarrow> i \<in> set is \<Longrightarrow> i < s + int (length fs)"
proof (induction "is" arbitrary: fs out)
  case (Cons j "is")
  have "i \<in> set is \<Longrightarrow> i < s + int (length fs)" if "mark_acked s is fs' out' = Inr x" "length fs' = length fs" for fs' out'
    using Cons.IH [OF that(1)] that(2) by simp
  moreover have "j < s + int (length fs)" using Cons.prems(1) by (auto simp: at_index_def split: if_splits)
  ultimately show ?case using Cons.prems by (auto split: sum.splits bool.splits)
qed simp

lemma collect_acked_Inr:
  assumes "collect_acked lli pli n s fs = Inr x" "0 < n"
  shows "lli \<le> s + int (length fs)" "pli + n < s + int (length fs)"
proof -
  from assms(1) obtain y where "drop_acked lli s fs [] = Inr y"
    by (cases "drop_acked lli s fs []") (auto simp: collect_acked_def)
  then show b: "lli \<le> s + int (length fs)" by (rule drop_acked_Inr)
  let ?s = "max s lli" and ?fs = "drop (nat (lli - s)) fs" and ?is = "[max (max s lli) (pli + 1)..pli + n]"
  have len: "?s + int (length ?fs) = s + int (length fs)" using b by auto
  show "pli + n < s + int (length fs)"
  proof (cases "?s \<le> pli + n")
    case True
    with assms(1) obtain z where "mark_acked ?s ?is ?fs (filter (\<lambda>i. \<not> settled s fs i) [s..lli - 1]) = Inr z"
      by (cases "mark_acked ?s ?is ?fs (filter (\<lambda>i. \<not> settled s fs i) [s..lli - 1])")
        (auto simp: collect_acked_def drop_acked_eq [OF b])
    from mark_acked_Inr [OF this, of "pli + n"] True assms(2) show ?thesis unfolding len by simp
  qed (use b in linarith)
qed

text \<open>
  A replicator over time: entries are sent, answers arrive, and other handlers leave the window alone. \<open>out\<close> are the reported
  indexes, \<open>A\<close> the acknowledged ones.
\<close>

inductive ack_run :: "('b, 'l, 'w, 'd) rep_world \<Rightarrow> int64 list \<Rightarrow> int64 set \<Rightarrow> bool" where
  ack_start: "rp_oo_start_index (rw_rep w) = 1 \<Longrightarrow> rp_oo_committed_entries (rw_rep w) = [] \<Longrightarrow> ack_run w [] {}"
| ack_sent: "ack_run w out A \<Longrightarrow> ack_run (upd_rep (record_sent cid n) w) out A"
| ack_answer: "ack_run w out A \<Longrightarrow> 0 < n \<Longrightarrow> report_acked lli pli n w = Inr (evs, w') \<Longrightarrow>
     collect_acked lli pli n (rp_oo_start_index (rw_rep w)) (rp_oo_committed_entries (rw_rep w)) = Inr (s, fs, new) \<Longrightarrow>
     ack_run w' (out @ new) (A \<union> {i. 1 \<le> i \<and> (i < lli \<or> pli < i \<and> i \<le> pli + n)})"
| ack_other: "ack_run w out A \<Longrightarrow> rp_oo_start_index (rw_rep w') = rp_oo_start_index (rw_rep w) \<Longrightarrow>
     rp_oo_committed_entries (rw_rep w') = rp_oo_committed_entries (rw_rep w) \<Longrightarrow> ack_run w' out A"

definition acked :: "('b, 'l, 'w, 'd) rep_world \<Rightarrow> int64 \<Rightarrow> bool" where
  "acked w i \<longleftrightarrow> settled (rp_oo_start_index (rw_rep w)) (rp_oo_committed_entries (rw_rep w)) i"

lemma settled_replicate: "settled s (fs @ replicate k False) i \<longleftrightarrow> settled s fs i"
  by (auto simp: settled_def nth_append)

lemma acked_sent: "acked (upd_rep (record_sent cid n) w) i \<longleftrightarrow> acked w i"
  by (simp add: acked_def record_sent_def grow_oo_def Let_def settled_replicate)

lemma report_acked_window:
  assumes "0 < n" "report_acked lli pli n w = Inr (evs, w')"
    "collect_acked lli pli n (rp_oo_start_index (rw_rep w)) (rp_oo_committed_entries (rw_rep w)) = Inr (s, fs, new)"
  shows "new = newly_acked lli pli n (rp_oo_start_index (rw_rep w)) (rp_oo_committed_entries (rw_rep w))"
    "acked w' i \<longleftrightarrow> acked w i \<or> i < lli \<or> pli < i \<and> i \<le> pli + n"
    "rp_oo_start_index (rw_rep w) \<le> rp_oo_start_index (rw_rep w')"
    "\<not> acked w' (rp_oo_start_index (rw_rep w'))"
proof -
  let ?s = "rp_oo_start_index (rw_rep w)" and ?fs = "rp_oo_committed_entries (rw_rep w)"
  note b = collect_acked_Inr [OF assms(3,1)]
  from collect_acked_eq [OF b] assms(3) have n: "new = newly_acked lli pli n ?s ?fs" "s = max ?s lli"
    "settled s fs j \<longleftrightarrow> settled ?s ?fs j \<or> j < lli \<or> pli < j \<and> j \<le> pli + n" for j by auto
  show "new = newly_acked lli pli n ?s ?fs" by (rule n(1))
  have w': "pop_acked s fs = (rp_oo_start_index (rw_rep w'), rp_oo_committed_entries (rw_rep w'))"
    using assms by (auto simp: report_acked_def split: sum.splits prod.splits)
  then have st: "settle_acked (s, fs) = Inr (rp_oo_start_index (rw_rep w'), rp_oo_committed_entries (rw_rep w'))"
    by (simp add: settle_acked_def)
  show "acked w' i \<longleftrightarrow> acked w i \<or> i < lli \<or> pli < i \<and> i \<le> pli + n"
    using ack_window.settle_keeps [OF TrueI st, of i] n(3) by (simp add: acked_def)
  show "?s \<le> rp_oo_start_index (rw_rep w')" using ack_window.settle_base_mono [OF TrueI st] n(2) by simp
  show "\<not> acked w' (rp_oo_start_index (rw_rep w'))" using ack_window.settle_base_open [OF TrueI st] by (simp add: acked_def)
qed

lemma ack_run_inv:
  "ack_run w out A \<Longrightarrow> 1 \<le> rp_oo_start_index (rw_rep w) \<and> distinct out \<and> set out = A \<and> (\<forall>i. acked w i \<longleftrightarrow> i < 1 \<or> i \<in> A) \<and> (\<forall>i \<in> A. 1 \<le> i)"
proof (induction rule: ack_run.induct)
  case (ack_start w)
  then show ?case by (auto simp: acked_def settled_def)
next
  case (ack_sent w out A cid n)
  then show ?case by (simp only: acked_sent) (simp add: record_sent_def grow_oo_def Let_def)
next
  case (ack_answer w out A n lli pli evs w' s fs new)
  note r = report_acked_window [OF ack_answer.hyps(2-4)]
  have new: "distinct new" "set new = {i. (i < lli \<or> pli < i \<and> i \<le> pli + n) \<and> \<not> acked w i}"
    unfolding r(1) set_newly_acked acked_def
    using newly_acked_sorted strict_sorted_iff by (blast, simp)
  have "set new = {i. 1 \<le> i \<and> (i < lli \<or> pli < i \<and> i \<le> pli + n)} - A"
    unfolding new(2) using ack_answer.IH by (auto simp: not_less)
  then show ?case using ack_answer.IH r(2,3) new(1) by (auto simp: not_less)
next
  case (ack_other w out A w')
  then show ?case by (simp add: acked_def)
qed

text \<open>
  C4. The replicator reports every acknowledged index to the ballot box exactly once: in every history of requests and
  answers, the reported indexes are distinct and are exactly the indexes that some answer covered, either through the last log index of
  the follower or through the entries of the request; and the window marks exactly these.
\<close>

theorem each_ack_reported_once:
  assumes "ack_run w out A"
  shows "distinct out \<and> set out = A \<and> (\<forall>i. 1 \<le> i \<longrightarrow> (acked w i \<longleftrightarrow> i \<in> A))"
  using ack_run_inv [OF assms] by auto

text \<open>
  C5. An answer of a follower in a leadership period: when it covers only indexes that were sent and have a ballot, it
  is processed without leaving the bounds of any queue, and the ballot box counts a vote of that follower for exactly the indexes that are
  newly acknowledged.
\<close>

theorem ack_becomes_votes:
  fixes w :: "('b, 'l, 'w, 'd) rep_world"
  defines "s \<equiv> rp_oo_start_index (rw_rep w)" and "fs \<equiv> rp_oo_committed_entries (rw_rep w)"
  defines "new \<equiv> \<lambda>lli pli n. newly_acked lli pli n s fs"
  assumes run: "leader_run start (rw_box w) ts" and pos: "0 < start" and n: "0 < n"
    and sent: "lli \<le> s + int (length fs)" "pli + n < s + int (length fs)"
    and ballots: "\<forall>i \<in> set (new lli pli n). i < start + int (length ts)"
  shows "\<exists>evs w'. report_acked lli pli n w = Inr (evs, w') \<and>
     leader_run start (rw_box w') (vote_at start (new lli pli n) (ro_peer_id (rp_options (rw_rep w))) ts) \<and>
     (\<forall>i. acked w' i \<longleftrightarrow> acked w i \<or> i < lli \<or> pli < i \<and> i \<le> pli + n)"
proof -
  let ?p = "ro_peer_id (rp_options (rw_rep w))" and ?new = "new lli pli n"
  have srt: "sorted_wrt (<) ?new" unfolding new_def by (rule newly_acked_sorted)
  obtain fs' where c: "collect_acked lli pli n s fs = Inr (max s lli, fs', ?new)"
    using collect_acked_eq [OF sent] unfolding new_def by blast
  obtain k where k: "k \<le> length ts" "bb_pending_index (rw_box w) = start + int k" "box_tasks (rw_box w) (drop k ts)"
    using leader_run_inv [OF run] by (auto simp: run_inv_def)
  have len: "length (bb_pending_meta_queue (rw_box w)) = length ts - k" using k(3) by (simp add: box_tasks_def)
  obtain r ev bb' where cm: "commit_at (rw_box w) ?new ?p = Inr (r, ev, bb')"
    by (rule run_inv_commit [OF leader_run_inv [OF run] srt])
  have r: "r = OK0"
  proof (cases "?new = []")
    case False
    then have "last ?new < start + int (length ts)" using ballots by simp
    then have "\<not> last ?new \<ge> bb_pending_index (rw_box w) + int (length (bb_pending_meta_queue (rw_box w)))"
      using k(1,2) len by simp
    with cm False k pos show ?thesis by (auto simp: commit_at_def Let_def split: if_splits sum.splits prod.splits)
  qed (use cm k pos in \<open>auto simp: commit_at_def\<close>)
  obtain s2 fs2 where p: "pop_acked (max s lli) fs' = (s2, fs2)" by fastforce
  let ?w = "(upd_rep (\<lambda>r. r\<lparr>rp_oo_start_index := s2, rp_oo_committed_entries := fs2\<rparr>) w)\<lparr>rw_box := bb'\<rparr>"
  have ra: "report_acked lli pli n w = Inr (case ev of None \<Rightarrow> [] | Some e \<Rightarrow> [Rep_committed e], ?w)"
    using n c cm p by (simp add: report_acked_def s_def fs_def)
  moreover have "leader_run start bb' (vote_at start ?new ?p ts)"
    using leader_run.lr_commit [OF run srt cm] r by simp
  moreover have "acked ?w i \<longleftrightarrow> acked w i \<or> i < lli \<or> pli < i \<and> i \<le> pli + n" for i
    by (rule report_acked_window(2) [OF n ra c [unfolded s_def fs_def]])
  ultimately show ?thesis by auto
qed

section \<open>What a request announces\<close>

lemma fill_common_fields_Some:
  assumes "fill_common_fields env p hb w = Inr (Some req)"
  shows "ae_committed_index req =
       (if rp_oo_start_index (rw_rep w) < bb_pending_index (rw_box w) then rp_oo_start_index (rw_rep w) - 1 else bb_pending_index (rw_box w))"
    "i \<in> set (ae_committed_oo_index req) \<longleftrightarrow> i \<in> set (snd (oo_commited_indexes (rw_box w))) \<and> rp_oo_start_index (rw_rep w) \<le> i \<and> acked w i"
  using assms
  by (auto simp: fill_common_fields_def oo_commited_indexes_def acked_def settled_def Let_def split: sum.splits if_splits)

lemma leader_run_pending_open:
  assumes "leader_run start bb ts"
  shows "start \<le> bb_pending_index bb"
    "\<not> (bb_pending_index bb < start + int (length ts) \<and> quorate (ts ! nat (bb_pending_index bb - start)))"
proof -
  obtain n where n: "n \<le> length ts" "bb_pending_index bb = start + int n" "box_tasks bb (drop n ts)"
    using leader_run_inv [OF assms] by (auto simp: run_inv_def)
  show "start \<le> bb_pending_index bb" using n(2) by simp
  show "\<not> (bb_pending_index bb < start + int (length ts) \<and> quorate (ts ! nat (bb_pending_index bb - start)))"
    using n by (auto simp: box_tasks_def hd_drop_conv_nth)
qed

lemma prepare_entries_one:
  assumes "prepare_entries env 0 1 [] [] 0 w = Inr (ems, data, dep, evs, w1)" "ems \<noteq> []"
  shows "\<exists>e em. lm_get_entry (re_codec env) (rp_next_index (rw_rep w)) (rw_log w) = Inr (Some e, [], rw_log w) \<and>
     ems = [em] \<and> em_term em = le_term e \<and> em_dependency em = le_dependency e \<and> dep = le_dependency e \<and> data = le_data e \<and>
     evs = [] \<and> w1 = w"
proof -
  obtain e levs lm where g: "lm_get_entry (re_codec env) (rp_next_index (rw_rep w)) (rw_log w) = Inr (Some e, levs, lm)"
    using assms by (auto simp: prepare_entry_def numeral_eq_Suc split: if_splits sum.splits option.splits prod.splits)
  then have same: "levs = []" "lm = rw_log w"
    by (auto simp: lm_get_entry_def split: if_splits sum.splits option.splits)
  have "w\<lparr>rw_log := rw_log w\<rparr> = w" by simp
  with assms g same show ?thesis by (auto simp: prepare_entry_def split: if_splits)
qed

end
