(* ===== verification/Replicator_Commit.thy ===== *)
theory Replicator_Commit
  imports Replicator_Ack Node
begin

text \<open>
  Leader and follower together: which request a replicator sends next, which commit index it announces, and what the follower
  makes of it.
\<close>

section \<open>The next request\<close>

lemma reset_next_index_events:
  "reset_next_index w = Inr (evs, w') \<Longrightarrow> Send_append c req data \<notin> set evs"
  by (auto simp: reset_next_index_def cancel_append_entries_rpcs_def Let_def split: sum.splits if_splits)

lemma wait_more_entries_shape:
  "\<exists>evs w'. wait_more_entries env w = Inr (map Rep_log_event evs, w') \<and> rp_next_index (rw_rep w') = rp_next_index (rw_rep w) \<and>
     rp_append_entries_in_fly (rw_rep w') = rp_append_entries_in_fly (rw_rep w) \<and>
     rp_status_append_entries_in_fly (rw_rep w') = rp_status_append_entries_in_fly (rw_rep w) \<and>
     rp_flying_append_entries_size (rw_rep w') = rp_flying_append_entries_size (rw_rep w) \<and>
     rp_oo_start_index (rw_rep w') = rp_oo_start_index (rw_rep w) \<and>
     rp_oo_committed_entries (rw_rep w') = rp_oo_committed_entries (rw_rep w) \<and>
     \<not> rp_locked (rw_rep w') \<and> rp_destroyed (rw_rep w') = rp_destroyed (rw_rep w) \<and> rw_box w' = rw_box w"
proof -
  obtain wid levs lm where n: "notify_on_new_log (rp_next_index (rw_rep w) - 1) (rp_waiter (rw_rep w)) (rw_log w) = (wid, levs, lm)"
    by (cases "notify_on_new_log (rp_next_index (rw_rep w) - 1) (rp_waiter (rw_rep w)) (rw_log w)") auto
  have "\<exists>evs. map Rep_log_event evs = []" by (rule exI [of _ "[]"]) simp
  with n show ?thesis by (auto simp: wait_more_entries_def Let_def intro: exI [of _ "[]"])
qed

lemma prepare_entries_events:
  "prepare_entries env i (Suc 0) [] d dep w = Inr (ems, data, dep', evs, w1) \<Longrightarrow> Send_append c req x \<notin> set evs"
  by (auto simp: prepare_entry_def split: if_splits sum.splits option.splits prod.splits)

lemma send_entries_sent:
  assumes "send_entries env cid w = Inr (evs, w')" "Send_append c req data \<in> set evs"
  shows "\<exists>req0 ems dep. fill_common_fields env (rp_next_index (rw_rep w) - 1) False w = Inr (Some req0) \<and>
     prepare_entries env 0 1 [] [] 0 w = Inr (ems, data, dep, [], w) \<and> ems \<noteq> [] \<and> c = cid \<and>
     req = req0\<lparr>ae_entries := ems, ae_dependency := dep\<rparr> \<and>
     (\<exists>wevs. wait_more_entries env (upd_rep (record_sent cid (int (length ems))) w) = Inr (map Rep_log_event wevs, w'))"
proof -
  let ?p = "rp_next_index (rw_rep w) - 1"
  have go: "send_entries env cid w =
      (case fill_common_fields env ?p False w of
         Inl f \<Rightarrow> Inl f
       | Inr None \<Rightarrow> reset_next_index w
       | Inr (Some request) \<Rightarrow>
           (case prepare_entries env 0 1 [] [] 0 w of
              Inl f \<Rightarrow> Inl f
            | Inr (ems, data, dep, evs, w1) \<Rightarrow>
                if ems = []
                then then_do (Inr (evs, w1))
                       (if rp_next_index (rw_rep w) < lm_first_log_index (rw_log w1) then reset_next_index else wait_more_entries env)
                else then_do (Inr (evs @ [Send_append cid (request\<lparr>ae_entries := ems, ae_dependency := dep\<rparr>) data],
                                   upd_rep (record_sent cid (int (length ems))) w1))
                       (wait_more_entries env)))"
    using assms by (auto simp: send_entries_def Let_def split: if_splits)
  obtain req0 where f: "fill_common_fields env ?p False w = Inr (Some req0)"
    using assms reset_next_index_events [of w evs w' c req data] unfolding go
    by (cases "fill_common_fields env ?p False w") (auto split: option.splits)
  obtain ems data1 dep pevs w1 where p: "prepare_entries env 0 1 [] [] 0 w = Inr (ems, data1, dep, pevs, w1)"
    using assms f unfolding go by (cases "prepare_entries env 0 1 [] [] 0 w") auto
  have pe: "Send_append c req data \<notin> set pevs" using prepare_entries_events p by (metis One_nat_def)
  have ne: "ems \<noteq> []"
  proof
    assume e: "ems = []"
    obtain xs v where "(if rp_next_index (rw_rep w) < lm_first_log_index (rw_log w1) then reset_next_index else wait_more_entries env) w1 =
        Inr (xs, v)" "evs = pevs @ xs"
      using assms(1) unfolding go f p using e
      by (cases "(if rp_next_index (rw_rep w) < lm_first_log_index (rw_log w1) then reset_next_index else wait_more_entries env) w1") auto
    with assms(2) pe reset_next_index_events [of w1 xs v c req data] wait_more_entries_shape [of env w1] show False
      by (auto split: if_splits)
  qed
  from prepare_entries_one [OF p ne] have one: "pevs = []" "w1 = w" by blast+
  obtain wevs w2 where wm: "wait_more_entries env (upd_rep (record_sent cid (int (length ems))) w) = Inr (map Rep_log_event wevs, w2)"
    using wait_more_entries_shape by blast
  with assms(1) ne one have ev: "evs = Send_append cid (req0\<lparr>ae_entries := ems, ae_dependency := dep\<rparr>) data1 # map Rep_log_event wevs" "w' = w2"
    unfolding go f p by simp_all
  with assms(2) have "c = cid" "req = req0\<lparr>ae_entries := ems, ae_dependency := dep\<rparr>" "data = data1" by auto
  with f p ne one wm ev show ?thesis by blast
qed

section \<open>Properties\<close>

text \<open>
  C10. The request that a replicator sends: it carries the entry at the next index with its term, dependency and data, names the
  index and term before it, is recorded as in flight, and moves the next index by one.
\<close>

theorem request_carries_next_entry:
  assumes "send_entries env cid w = Inr (evs, w')" "Send_append c req data \<in> set evs"
  shows "\<exists>e t em. lm_get_entry (re_codec env) (rp_next_index (rw_rep w)) (rw_log w) = Inr (Some e, [], rw_log w) \<and>
     lm_get_term (rp_next_index (rw_rep w) - 1) (rw_log w) = Inr t \<and>
     ae_prev_log_index req = rp_next_index (rw_rep w) - 1 \<and> ae_prev_log_term req = t \<and> ae_term req = ro_term (rp_options (rw_rep w)) \<and>
     ae_entries req = [em] \<and> em_term em = le_term e \<and> em_dependency em = le_dependency e \<and>
     ae_dependency req = le_dependency e \<and> data = le_data e \<and>
     rp_next_index (rw_rep w') = rp_next_index (rw_rep w) + 1 \<and>
     rp_append_entries_in_fly (rw_rep w') = rp_append_entries_in_fly (rw_rep w) @
       [\<lparr>fl_log_index = rp_next_index (rw_rep w), fl_entries_size = 1, fl_call_id = cid\<rparr>]"
proof -
  obtain req0 ems dep wevs where f: "fill_common_fields env (rp_next_index (rw_rep w) - 1) False w = Inr (Some req0)"
    and p: "prepare_entries env 0 1 [] [] 0 w = Inr (ems, data, dep, [], w)" "ems \<noteq> []"
    and req: "req = req0\<lparr>ae_entries := ems, ae_dependency := dep\<rparr>"
    and wm: "wait_more_entries env (upd_rep (record_sent cid (int (length ems))) w) = Inr (map Rep_log_event wevs, w')"
    using send_entries_sent [OF assms] by blast
  obtain t where t: "lm_get_term (rp_next_index (rw_rep w) - 1) (rw_log w) = Inr t"
    using f by (cases "lm_get_term (rp_next_index (rw_rep w) - 1) (rw_log w)") (auto simp: fill_common_fields_def)
  have req0: "ae_prev_log_index req0 = rp_next_index (rw_rep w) - 1" "ae_prev_log_term req0 = t" "ae_term req0 = ro_term (rp_options (rw_rep w))"
    using f t by (auto simp: fill_common_fields_def Let_def case_prod_beta split: if_splits)
  obtain e em where e: "lm_get_entry (re_codec env) (rp_next_index (rw_rep w)) (rw_log w) = Inr (Some e, [], rw_log w)"
    "ems = [em]" "em_term em = le_term e" "em_dependency em = le_dependency e" "dep = le_dependency e" "data = le_data e"
    using prepare_entries_one [OF p] by blast
  have "rp_next_index (rw_rep w') = rp_next_index (rw_rep w) + 1 \<and>
     rp_append_entries_in_fly (rw_rep w') = rp_append_entries_in_fly (rw_rep w) @
       [\<lparr>fl_log_index = rp_next_index (rw_rep w), fl_entries_size = 1, fl_call_id = cid\<rparr>]"
    using wait_more_entries_shape [of env "upd_rep (record_sent cid (int (length ems))) w"] wm e(2)
    by (auto simp: record_sent_def grow_oo_def Let_def)
  with e t req0 show ?thesis by (auto simp: req)
qed

lemma announced_index:
  assumes "send_entries env cid w = Inr (evs, w')" "Send_append c req data \<in> set evs"
  shows "ae_committed_index req =
       (if rp_oo_start_index (rw_rep w) < bb_pending_index (rw_box w) then rp_oo_start_index (rw_rep w) - 1 else bb_pending_index (rw_box w))"
    "i \<in> set (ae_committed_oo_index req) \<longleftrightarrow> i \<in> set (snd (oo_commited_indexes (rw_box w))) \<and> rp_oo_start_index (rw_rep w) \<le> i \<and> acked w i"
  using send_entries_sent [OF assms] fill_common_fields_Some by fastforce+

text \<open>
  To a follower that is behind the committed prefix, the leader announces only committed entries that the follower has: the
  sequential commit index covers, and the out-of-order indexes name, entries with a quorum of votes that this follower acknowledged.
\<close>

theorem behind_follower_gets_committed:
  assumes run: "leader_run start (rw_box w) ts" and behind: "rp_oo_start_index (rw_rep w) < bb_pending_index (rw_box w)"
    and sent: "send_entries env cid w = Inr (evs, w')" "Send_append c req data \<in> set evs"
    and i: "start \<le> i" "i \<le> ae_committed_index req \<or> i \<in> set (ae_committed_oo_index req)"
  shows "i < start + int (length ts) \<and> quorate (ts ! nat (i - start)) \<and> acked w i"
proof -
  note a = announced_index [OF sent]
  have inv: "run_inv start (rw_box w) ts" by (rule leader_run_inv [OF run])
  have "settled (bb_pending_index (rw_box w)) (bb_committed_index_queue (rw_box w)) i \<and> acked w i"
  proof (cases "i \<le> ae_committed_index req")
    case True
    then have "i < rp_oo_start_index (rw_rep w)" using a(1) behind by simp
    then show ?thesis using behind by (simp add: acked_def)
  next
    case False
    with i(2) a(2) show ?thesis by (auto simp: oo_commited_indexes_def oo_indexes_from_settled)
  qed
  with run_inv_settled [OF inv i(1)] show ?thesis by simp
qed

text \<open>
  C12. To a follower that is not behind, the leader announces \<open>_pending_index\<close> itself as committed, the first index without a
  quorum; when the entries of the request are stable, the follower passes that index to its state machine.
\<close>

theorem leader_announces_uncommitted:
  assumes run: "leader_run start (rw_box w) ts" and level: "rp_oo_start_index (rw_rep w) \<ge> bb_pending_index (rw_box w)"
    and sent: "send_entries env cid w = Inr (evs, w')" "Send_append c req data \<in> set evs"
    and oo: "ae_committed_oo_index req = []"
    and follower: "bb_pending_index (nd_ballot_box nd) = 0" "bb_pending_meta_queue (nd_ballot_box nd) = []"
      "bb_last_committed_index (nd_ballot_box nd) < bb_pending_index (rw_box w)"
  shows "start \<le> ae_committed_index req \<and>
     \<not> (ae_committed_index req < start + int (length ts) \<and> quorate (ts ! nat (ae_committed_index req - start))) \<and>
     (\<exists>nevs nd'. follower_stable_run ne r req (nd_current_term nd) OK0 nd = Inr (nevs, nd') \<and>
        Committed (On_committed (ae_committed_index req) []) \<in> set nevs)"
proof -
  have ci: "ae_committed_index req = bb_pending_index (rw_box w)" using announced_index(1) [OF sent] level by simp
  obtain cevs nd1 where c: "check_append_entries_cache ne (lm_dependency_bitmap (nd_log_manager nd)) (lm_max_log_index (nd_log_manager nd)) nd = (cevs, nd1)"
    by fastforce
  then have bb: "nd_ballot_box nd1 = nd_ballot_box nd"
    by (auto simp: check_append_entries_cache_def Let_def split: option.splits prod.splits)
  have "set_last_committed_index (bb_pending_index (rw_box w)) [] (nd_ballot_box nd) =
      (OK0, Some (On_committed (bb_pending_index (rw_box w)) []),
       (nd_ballot_box nd)\<lparr>bb_last_committed_index := bb_pending_index (rw_box w)\<rparr>)"
    using follower by (simp add: set_last_committed_index_def)
  with c oo ci bb have "\<exists>nevs nd'. follower_stable_run ne r req (nd_current_term nd) OK0 nd = Inr (nevs, nd') \<and>
        Committed (On_committed (ae_committed_index req) []) \<in> set nevs"
    by (simp add: follower_stable_run_def)
  with leader_run_pending_open [OF run] show ?thesis by (simp only: ci) blast
qed

section \<open>Examples\<close>

text \<open>A leader with three entries, of which nothing was acknowledged, and a replicator for peer 2 at index 1.\<close>

definition demo_rep_env :: "codec \<Rightarrow> rep_env" where
  "demo_rep_env cd = \<lparr>re_codec = cd, re_to_s = (\<lambda>p. ''p''), re_max_entries_size = 1024, re_max_parallel_rpc_num = 1024,
     re_max_body_size = 524288, re_retry_interval_ms = 1000, re_heartbeat_timeout_ms = 100\<rparr>"

definition demo_rep :: "int64 \<Rightarrow> bool list \<Rightarrow> (nat, nat) replicator" where
  "demo_rep next acks =
     (new_replicator \<lparr>ro_server_id = peer_n 1, ro_peer_id = peer_n 2, ro_term = 1\<rparr> 7)
       \<lparr>rp_next_index := next, rp_oo_committed_entries := acks\<rparr>"

definition demo_rep_world :: "int64 \<Rightarrow> bool list \<Rightarrow> nat ballot_box \<Rightarrow> (nat, nat, nat, nat) rep_world" where
  "demo_rep_world next acks bb = \<lparr>rw_rep = demo_rep next acks, rw_log = demo_manager3, rw_box = bb\<rparr>"

lemma demo_manager3_reads:
  "lm_get_term 0 demo_manager3 = Inr 0" "lm_get_term 2 demo_manager3 = Inr 1"
  "lm_get_entry cd 1 demo_manager3 = Inr (Some (data_entry 1 1 []), [], demo_manager3)"
  "lm_get_entry cd 3 demo_manager3 = Inr (Some (data_entry 3 1 [8]), [], demo_manager3)"
  by (simp_all add: lm_get_term_def unsafe_get_term_def lm_get_entry_def demo_manager3_fields
      get_entry_from_memory_rep [OF demo_manager3_inv]) (simp_all add: data_entry_def)

lemma demo_rep_fields [simp]:
  "rp_next_index (rw_rep (demo_rep_world i acks bb)) = i" "rp_flying_append_entries_size (rw_rep (demo_rep_world i acks bb)) = 0"
  "rp_status_append_entries_in_fly (rw_rep (demo_rep_world i acks bb)) = []" "rp_append_entries_in_fly (rw_rep (demo_rep_world i acks bb)) = []"
  "rs_st (rp_st (rw_rep (demo_rep_world i acks bb))) = IDLE" "rw_box (demo_rep_world i acks bb) = bb"
  "rw_log (demo_rep_world i acks bb) = demo_manager3" "rp_oo_start_index (rw_rep (demo_rep_world i acks bb)) = 1"
  "rp_oo_committed_entries (rw_rep (demo_rep_world i acks bb)) = acks" "ro_peer_id (rp_options (rw_rep (demo_rep_world i acks bb))) = peer_n 2"
  by (simp_all add: demo_rep_world_def demo_rep_def new_replicator_def)

lemma demo_send_entry:
  assumes t: "lm_get_term (i - 1) demo_manager3 = Inr t" "t \<noteq> 0 \<or> i = 1"
    and e: "lm_get_entry cd i demo_manager3 = Inr (Some e, [], demo_manager3)"
  shows "\<exists>evs w' req. send_entries (demo_rep_env cd) 5 (demo_rep_world i acks bb) = Inr (evs, w') \<and>
     Send_append 5 req (le_data e) \<in> set evs"
proof -
  let ?w = "demo_rep_world i acks bb" and ?env = "demo_rep_env cd"
  have "\<exists>req. fill_common_fields ?env (i - 1) False ?w = Inr (Some req)"
    using t by (auto simp: fill_common_fields_def case_prod_beta Let_def)
  then obtain req where f: "fill_common_fields ?env (i - 1) False ?w = Inr (Some req)" by blast
  have env: "re_codec ?env = cd" "re_max_body_size ?env \<noteq> 0" "re_max_entries_size ?env = 1024" "re_max_parallel_rpc_num ?env = 1024"
    by (simp_all add: demo_rep_env_def)
  have "\<exists>em. prepare_entries ?env 0 1 [] [] 0 ?w = Inr ([em], le_data e, em_dependency em, [], ?w\<lparr>rw_log := demo_manager3\<rparr>)"
    using e env by (simp add: prepare_entry_def)
  moreover have "?w\<lparr>rw_log := demo_manager3\<rparr> = ?w" by (simp add: demo_rep_world_def)
  ultimately obtain em where p: "prepare_entries ?env 0 1 [] [] 0 ?w = Inr ([em], le_data e, em_dependency em, [], ?w)" by metis
  obtain wevs w' where wm: "wait_more_entries ?env (upd_rep (record_sent 5 1) ?w) = Inr (map Rep_log_event wevs, w')"
    using wait_more_entries_shape by blast
  show ?thesis using env wm by (simp add: send_entries_def f p [simplified]) blast
qed

lemma demo_send:
  "\<exists>evs w' req. send_entries (demo_rep_env cd) 5 (demo_rep_world 1 [] bb) = Inr (evs, w') \<and> Send_append 5 req [] \<in> set evs"
  "\<exists>evs w' req. send_entries (demo_rep_env cd) 5 (demo_rep_world 3 acks bb) = Inr (evs, w') \<and> Send_append 5 req [8] \<in> set evs"
  using demo_send_entry [of 1 0 cd "data_entry 1 1 []" "[]" bb] demo_send_entry [of 3 1 cd "data_entry 3 1 [8]" acks bb]
  by (simp_all add: demo_manager3_reads) (simp_all add: data_entry_def)

theorem request_carries_next_entry_witness:
  "\<forall>cd. \<exists>evs w' req. send_entries (demo_rep_env cd) 5 (demo_rep_world 3 [] demo_box) = Inr (evs, w') \<and>
     Send_append 5 req [8] \<in> set evs \<and> ae_prev_log_index req = 2 \<and> ae_prev_log_term req = 1 \<and> rp_next_index (rw_rep w') = 4"
proof
  fix cd
  obtain evs w' req where s: "send_entries (demo_rep_env cd) 5 (demo_rep_world 3 [] demo_box) = Inr (evs, w')" "Send_append 5 req [8] \<in> set evs"
    using demo_send(2) by blast
  from request_carries_next_entry [OF s] have "ae_prev_log_index req = 2 \<and> ae_prev_log_term req = 1 \<and> rp_next_index (rw_rep w') = 4"
    by (auto simp: demo_manager3_reads)
  with s show "\<exists>evs w' req. send_entries (demo_rep_env cd) 5 (demo_rep_world 3 [] demo_box) = Inr (evs, w') \<and>
     Send_append 5 req [8] \<in> set evs \<and> ae_prev_log_index req = 2 \<and> ae_prev_log_term req = 1 \<and> rp_next_index (rw_rep w') = 4" by blast
qed

theorem leader_announces_uncommitted_witness:
  "\<forall>cd ne. \<exists>evs w' req nevs nd'.
     send_entries (demo_rep_env cd) 5 (demo_rep_world 1 [] demo_box) = Inr (evs, w') \<and> Send_append 5 req [] \<in> set evs \<and>
     \<not> quorate (demo_tasks ! 0) \<and> ae_committed_index req = 1 \<and>
     follower_stable_run ne 9 req 1 OK0 (demo_node 2) = Inr (nevs, nd') \<and> Committed (On_committed 1 []) \<in> set nevs"
proof (intro allI)
  fix cd ne
  let ?w = "demo_rep_world 1 [] demo_box"
  obtain evs w' req where s: "send_entries (demo_rep_env cd) 5 ?w = Inr (evs, w')" "Send_append 5 req [] \<in> set evs"
    using demo_send(1) by blast
  have f: "rw_box ?w = demo_box" "rp_oo_start_index (rw_rep ?w) = 1" "bb_pending_index demo_box = 1" "snd (oo_commited_indexes demo_box) = []"
    by (simp_all add: demo_box_eq oo_commited_indexes_def numeral_3_eq_3)
  have oo: "ae_committed_oo_index req = []" using announced_index(2) [OF s] f by (metis list.set_intros(1) neq_Nil_conv list.set(1) empty_iff)
  have ci: "ae_committed_index req = 1" using announced_index(1) [OF s] f by simp
  have n: "bb_pending_index (nd_ballot_box (demo_node 2)) = 0" "bb_pending_meta_queue (nd_ballot_box (demo_node 2)) = []"
    "bb_last_committed_index (nd_ballot_box (demo_node 2)) < bb_pending_index (rw_box ?w)" "nd_current_term (demo_node 2) = 1"
    by (simp_all add: demo_node_def f)
  have "leader_run 1 (rw_box ?w) demo_tasks" using demo_leader_run f by simp
  from leader_announces_uncommitted [OF this _ s oo n(1-3), of ne 9] f ci n(4) show "\<exists>evs w' req nevs nd'.
     send_entries (demo_rep_env cd) 5 ?w = Inr (evs, w') \<and> Send_append 5 req [] \<in> set evs \<and>
     \<not> quorate (demo_tasks ! 0) \<and> ae_committed_index req = 1 \<and>
     follower_stable_run ne 9 req 1 OK0 (demo_node 2) = Inr (nevs, nd') \<and> Committed (On_committed 1 []) \<in> set nevs"
    using s by (simp add: demo_tasks_eq) blast
qed

text \<open>Index 1 is committed by two peers, then index 3, out of order; peer 2 has acknowledged index 3 only.\<close>

lemma demo_oo_run:
  "\<exists>(bb :: nat ballot_box) ts. leader_run 1 bb ts \<and> bb_pending_index bb = 2 \<and> bb_committed_index_queue bb = [False, True] \<and> length ts = 3"
proof -
  let ?t = "(conf3, None, {})" and ?t1 = "(conf3, None, {peer_n 1})" and ?t2 = "(conf3, None, {peer_n 2, peer_n 1})"
  let ?box = "\<lambda>l b ts fs c. \<lparr>bb_last_committed_index = l, bb_pending_index = b, bb_pending_meta_queue = map task_ballot ts,
      bb_committed_index_queue = fs, bb_closure_queue = c\<rparr> :: nat ballot_box"
  have q: "\<not> quorate ?t1" "quorate ?t2" "vote_task (peer_n 1) ?t = ?t1" "vote_task (peer_n 2) ?t1 = ?t2"
    by (simp_all add: quorate_def majority_def vote_task_def)
  obtain c where d: "demo_box = ?box 0 1 [?t, ?t, ?t] [False, False, False] c"
    by (simp add: demo_box_eq task_ballot_fresh numeral_3_eq_3)
  have c1: "commit_at demo_box [1] (peer_n 1) = Inr (OK0, None, ?box 0 1 [?t1, ?t, ?t] [False, False, False] c)"
    unfolding d using q by (subst commit_one [where k = 0 and ts = "[?t, ?t, ?t]"]) (simp_all add: Let_def)
  have c2: "commit_at (?box 0 1 [?t1, ?t, ?t] [False, False, False] c) [1] (peer_n 2) =
       Inr (OK0, Some (On_committed 1 [1]), ?box 1 2 [?t, ?t] [False, False] c)"
    using q by (subst commit_one [where k = 0 and ts = "[?t1, ?t, ?t]"]) (simp_all add: Let_def bb_settle_def)
  have c3: "commit_at (?box 1 2 [?t, ?t] [False, False] c) [3] (peer_n 1) = Inr (OK0, None, ?box 1 2 [?t, ?t1] [False, False] c)"
    using q by (subst commit_one [where k = 1 and ts = "[?t, ?t]"]) (simp_all add: Let_def)
  have c4: "commit_at (?box 1 2 [?t, ?t1] [False, False] c) [3] (peer_n 2) =
       Inr (OK0, Some (On_committed 1 [3]), ?box 1 2 [?t, ?t2] [False, True] c)"
    using q by (subst commit_one [where k = 1 and ts = "[?t, ?t1]"]) (simp_all add: Let_def)
  have one: "sorted_wrt (<) [i :: int64]" for i by simp
  note r = lr_commit [OF lr_commit [OF lr_commit [OF lr_commit [OF demo_leader_run one c1] one c2] one c3] one c4]
  have "\<exists>ts. leader_run 1 (?box 1 2 [?t, ?t2] [False, True] c) ts \<and> length ts = 3"
    by (rule exI, rule conjI [OF r]) (simp add: demo_tasks_def vote_at_def)
  then obtain ts where "leader_run 1 (?box 1 2 [?t, ?t2] [False, True] c) ts" "length ts = 3" by blast
  then show ?thesis by (intro exI [of _ "?box 1 2 [?t, ?t2] [False, True] c"] exI [of _ ts]) simp
qed

theorem behind_follower_gets_committed_witness:
  "\<forall>cd. \<exists>bb ts evs w' req. leader_run 1 bb ts \<and>
     send_entries (demo_rep_env cd) 5 (demo_rep_world 3 [False, False, True] bb) = Inr (evs, w') \<and> Send_append 5 req [8] \<in> set evs \<and>
     3 \<in> set (ae_committed_oo_index req) \<and> quorate (ts ! 2) \<and> acked (demo_rep_world 3 [False, False, True] bb) 3"
proof
  fix cd
  obtain bb :: "nat ballot_box" and ts where b: "leader_run 1 bb ts" "bb_pending_index bb = 2" "bb_committed_index_queue bb = [False, True]"
    using demo_oo_run by blast
  let ?w = "demo_rep_world 3 [False, False, True] bb"
  obtain evs w' req where s: "send_entries (demo_rep_env cd) 5 ?w = Inr (evs, w')" "Send_append 5 req [8] \<in> set evs"
    using demo_send(2) by blast
  have ak: "acked ?w 3" by (simp add: acked_def settled_def)
  then have m: "3 \<in> set (ae_committed_oo_index req)"
    using announced_index(2) [OF s, of 3] b by (simp add: oo_commited_indexes_def)
  have "leader_run 1 (rw_box ?w) ts" "rp_oo_start_index (rw_rep ?w) < bb_pending_index (rw_box ?w)" using b by simp_all
  from behind_follower_gets_committed [OF this s, of 3] m have "quorate (ts ! 2)" by simp
  with b s ak m show "\<exists>bb ts evs w' req. leader_run 1 bb ts \<and>
     send_entries (demo_rep_env cd) 5 (demo_rep_world 3 [False, False, True] bb) = Inr (evs, w') \<and> Send_append 5 req [8] \<in> set evs \<and>
     3 \<in> set (ae_committed_oo_index req) \<and> quorate (ts ! 2) \<and> acked (demo_rep_world 3 [False, False, True] bb) 3" by blast
qed

text \<open>Entries 1 to 3 were sent; the answer to entry 3 arrives first, then the one to entry 1 from a follower whose log ends at 1.\<close>

lemma demo_collect: "collect_acked 0 2 1 1 [False, False, False] = Inr (1, [False, False, True], [3])"
  by (simp add: collect_acked_def at_index_def numeral_2_eq_2)

theorem ack_becomes_votes_witness:
  "\<exists>evs w'. report_acked 0 2 1 (demo_rep_world 4 [False, False, False] demo_box) = Inr (evs, w') \<and>
     leader_run 1 (rw_box w') (vote_at 1 [3] (peer_n 2) demo_tasks) \<and> acked w' 3 \<and> \<not> acked w' 2"
proof -
  let ?w = "demo_rep_world 4 [False, False, False] demo_box"
  have new: "newly_acked 0 2 1 1 [False, False, False] = [3]"
    by (simp add: newly_acked_def settled_def upto_rec1)
  have "leader_run 1 (rw_box ?w) demo_tasks" using demo_leader_run by simp
  from ack_becomes_votes [OF this, of 1 0 2] new show ?thesis
    by (auto simp: demo_tasks_def acked_def [of ?w] settled_def)
qed

theorem each_ack_reported_once_witness:
  "\<exists>w out A. ack_run w out A \<and> out = [3] \<and> A = {3} \<and> acked (w :: (nat, nat, nat, nat) rep_world) 3 \<and> distinct out"
proof -
  let ?fresh = "demo_rep_world 4 [] demo_box" and ?w = "demo_rep_world 4 [False, False, False] demo_box"
  have "ack_run ?fresh [] {}" by (rule ack_start) simp_all
  from ack_sent [OF this, where cid = 5 and n = 0] have w: "ack_run ?w [] {}"
    by (rule ack_other) (simp_all add: record_sent_def grow_oo_def Let_def numeral_eq_Suc)
  obtain r ev bb' where "commit_at demo_box [3] (peer_n 2) = Inr (r, ev, bb')"
    by (rule run_inv_commit [OF leader_run_inv [OF demo_leader_run], of "[3]" "peer_n 2"]) simp
  then obtain evs w' where "report_acked 0 2 1 ?w = Inr (evs, w')"
    by (auto simp: report_acked_def demo_collect)
  from ack_answer [OF w _ this, unfolded demo_rep_fields, OF _ demo_collect]
  have "ack_run w' ([] @ [3]) ({} \<union> {i. 1 \<le> i \<and> (i < 0 \<or> 2 < i \<and> i \<le> 2 + 1)})" by simp
  moreover have "{i :: int64. 1 \<le> i \<and> (i < 0 \<or> 2 < i \<and> i \<le> 2 + 1)} = {3}" by auto
  ultimately have r: "ack_run w' [3] {3}" by simp
  from each_ack_reported_once [OF this] r show ?thesis by auto
qed

end
