(* ===== verification/Replicator_Run.thy ===== *)
theory Replicator_Run
  imports Replicator_Commit
begin

text \<open>
  A replicator over time: all interleavings of its handlers with changes of the log and the ballot box by the node, the bookkeeping of the
  rpcs in flight that they keep, and where a handler stops the replicator for good.
\<close>

section \<open>Steps\<close>

datatype 'd rep_op =
    Rpc_returned rpc_outcome nat append_request append_response
  | Heartbeat_returned rpc_outcome append_response
  | Continue_sending nat rc
  | Send_heartbeat_op nat
  | Error_posted rc
  | Catch_up_timedout
  | Timeout_now_returned rpc_outcome int64 bool
  | Stop_op bool
  | Wait_for_caught_up int64 bool bool 'd
  | Transfer_leadership nat int64
  | Stop_transfer_leadership
  | Send_timeout_now_and_stop nat int
  | Change_readonly_config bool

fun rep_do :: "rep_env \<Rightarrow> 'd rep_op \<Rightarrow> ('b, 'l, 'w, 'd) rep_world \<Rightarrow> ('b, 'l, 'w, 'd) rep_result" where
  "rep_do env (Rpc_returned oc cid request response) w = on_rpc_returned env oc cid request response w"
| "rep_do env (Heartbeat_returned oc response) w = on_heartbeat_returned oc response w"
| "rep_do env (Continue_sending cid e) w = continue_sending env cid e w"
| "rep_do env (Send_heartbeat_op cid) w = send_heartbeat env cid w"
| "rep_do env (Error_posted e) w = rep_on_error e w"
| "rep_do env Catch_up_timedout w = on_catch_up_timedout w"
| "rep_do env (Timeout_now_returned oc t stop) w = on_timeout_now_returned oc t stop w"
| "rep_do env (Stop_op timer_runs) w = rep_stop timer_runs w"
| "rep_do env (Wait_for_caught_up margin due added d) w = wait_for_caught_up margin due added d w"
| "rep_do env (Transfer_leadership cid i) w = transfer_leadership cid i w"
| "rep_do env Stop_transfer_leadership w = stop_transfer_leadership w"
| "rep_do env (Send_timeout_now_and_stop cid ms) w = send_timeout_now_and_stop cid ms w"
| "rep_do env (Change_readonly_config b) w = rep_change_readonly_config env b w"

text \<open>
  The callback of an rpc gets the request it was made with, and the last log index of a follower is not negative.
\<close>

fun rep_allowed :: "'d rep_op \<Rightarrow> ('d, 'w) replicator \<Rightarrow> bool" where
  "rep_allowed (Rpc_returned oc cid request response) r \<longleftrightarrow>
     (\<forall>f \<in> set (rp_append_entries_in_fly r). fl_call_id f = cid \<longrightarrow>
        int (length (ae_entries request)) = fl_entries_size f \<and> ae_prev_log_index request + 1 = fl_log_index f) \<and>
     0 \<le> last_log_index_of response"
| "rep_allowed _ r \<longleftrightarrow> True"

inductive rep_step :: "rep_env \<Rightarrow> ('b, 'l, 'w, 'd) rep_world \<Rightarrow> ('b, 'l, 'w, 'd) rep_world \<Rightarrow> bool" for env where
  step_op: "\<not> rp_locked (rw_rep w) \<Longrightarrow> rep_allowed op (rw_rep w) \<Longrightarrow> rep_do env op w = Inr (evs, w') \<Longrightarrow> rep_step env w w'"
| step_node: "rep_step env w (w\<lparr>rw_log := lm, rw_box := bb\<rparr>)"

inductive_cases rep_stepE: "rep_step env w w'"

section \<open>The bookkeeping of rpcs in flight\<close>

definition rep_inv :: "('d, 'w) replicator \<Rightarrow> bool" where
  "rep_inv r \<longleftrightarrow>
     length (rp_status_append_entries_in_fly r) = length (rp_append_entries_in_fly r) \<and>
     rp_flying_append_entries_size r = (\<Sum>f \<leftarrow> rp_append_entries_in_fly r. fl_entries_size f) \<and> 1 \<le> rp_next_index r \<and>
     (\<forall>f \<in> set (rp_append_entries_in_fly r). 0 \<le> fl_entries_size f \<and> 1 \<le> fl_log_index f \<and> fl_log_index f \<le> rp_next_index r \<and>
        (0 < fl_entries_size f \<longrightarrow>
           fl_log_index f + fl_entries_size f \<le> rp_oo_start_index r + int (length (rp_oo_committed_entries r))))"

abbreviation live_inv :: "('b, 'l, 'w, 'd) rep_world \<Rightarrow> bool" where
  "live_inv w \<equiv> rp_destroyed (rw_rep w) \<or> rep_inv (rw_rep w)"

text \<open>The fields that the invariant speaks of.\<close>

definition same_books :: "('d, 'w) replicator \<Rightarrow> ('d, 'w) replicator \<Rightarrow> bool" where
  "same_books r r' \<longleftrightarrow>
     rp_status_append_entries_in_fly r' = rp_status_append_entries_in_fly r \<and>
     rp_append_entries_in_fly r' = rp_append_entries_in_fly r \<and>
     rp_flying_append_entries_size r' = rp_flying_append_entries_size r \<and> rp_next_index r' = rp_next_index r \<and>
     rp_oo_start_index r' = rp_oo_start_index r \<and> rp_oo_committed_entries r' = rp_oo_committed_entries r"

lemma same_books_inv: "same_books r r' \<Longrightarrow> rep_inv r \<Longrightarrow> rep_inv r'"
  by (simp add: same_books_def rep_inv_def)

lemma then_doE:
  assumes "then_do r k = Inr (evs, w')"
  obtains evs1 w1 evs2 where "r = Inr (evs1, w1)" "k w1 = Inr (evs2, w')" "evs = evs1 @ evs2"
proof (cases r)
  case (Inl f)
  with assms show thesis by simp
next
  case (Inr x)
  then obtain evs1 w1 where r: "r = Inr (evs1, w1)" by (cases x) simp
  with assms show thesis by (cases "k w1") (auto intro: that)
qed

lemma notify_books:
  assumes "notify_on_caught_up t e b w = Inr (evs, w')"
  shows "same_books (rw_rep w) (rw_rep w')" "rp_destroyed (rw_rep w') = rp_destroyed (rw_rep w)"
    "rp_locked (rw_rep w') = rp_locked (rw_rep w)" "rp_options (rw_rep w') = rp_options (rw_rep w)"
    "rw_log w' = rw_log w" "rw_box w' = rw_box w"
  using assms
  by (auto simp: notify_on_caught_up_def run_catchup_def same_books_def Let_def split: option.splits if_splits sum.splits)

lemma reset_books:
  assumes "reset_next_index w = Inr (evs, w')"
  shows "rp_append_entries_in_fly (rw_rep w') = []" "rp_status_append_entries_in_fly (rw_rep w') = []"
    "rp_flying_append_entries_size (rw_rep w') = 0" "rp_destroyed (rw_rep w') = rp_destroyed (rw_rep w)"
    "rp_locked (rw_rep w') = rp_locked (rw_rep w)" "rp_options (rw_rep w') = rp_options (rw_rep w)" "rw_box w' = rw_box w"
    "rp_next_index (rw_rep w') = rp_next_index (rw_rep w) \<or>
     (\<exists>f \<in> set (rp_append_entries_in_fly (rw_rep w)). rp_next_index (rw_rep w') = fl_log_index f)"
proof -
  obtain fly where d: "drop_answered (rp_append_entries_in_fly (rw_rep w)) (rp_status_append_entries_in_fly (rw_rep w)) = Inr fly"
    using assms by (auto simp: reset_next_index_def split: sum.splits)
  have sub: "drop_answered fs ss = Inr gs \<Longrightarrow> set gs \<subseteq> set fs" for fs ss gs
    by (induction fs ss rule: drop_answered.induct) (auto split: if_splits)
  show "rp_append_entries_in_fly (rw_rep w') = []" "rp_status_append_entries_in_fly (rw_rep w') = []"
    "rp_flying_append_entries_size (rw_rep w') = 0" "rp_destroyed (rw_rep w') = rp_destroyed (rw_rep w)"
    "rp_locked (rw_rep w') = rp_locked (rw_rep w)" "rp_options (rw_rep w') = rp_options (rw_rep w)" "rw_box w' = rw_box w"
    using assms by (auto simp: reset_next_index_def d cancel_append_entries_rpcs_def Let_def split: if_splits)
  have "rp_next_index (rw_rep w') = (case fly of [] \<Rightarrow> rp_next_index (rw_rep w) | f # _ \<Rightarrow> fl_log_index f)"
    using assms by (auto simp: reset_next_index_def d cancel_append_entries_rpcs_def Let_def split: if_splits)
  then show "rp_next_index (rw_rep w') = rp_next_index (rw_rep w) \<or>
     (\<exists>f \<in> set (rp_append_entries_in_fly (rw_rep w)). rp_next_index (rw_rep w') = fl_log_index f)"
    using sub [OF d] by (auto split: list.splits)
qed

lemma reset_inv:
  assumes "reset_next_index w = Inr (evs, w')" "rep_inv (rw_rep w)"
  shows "rep_inv (rw_rep w')" "1 \<le> rp_next_index (rw_rep w')" "rp_next_index (rw_rep w') \<le> rp_next_index (rw_rep w)"
  using reset_books [OF assms(1)] assms(2) by (auto simp: rep_inv_def)

lemma send_empty_inv:
  assumes "send_empty_entries env cid hb w = Inr (evs, w')" "rep_inv (rw_rep w)"
  shows "rep_inv (rw_rep w')" "rp_destroyed (rw_rep w') = rp_destroyed (rw_rep w)" "rp_next_index (rw_rep w') = rp_next_index (rw_rep w)"
  using assms by (auto simp: send_empty_entries_def rep_inv_def split: sum.splits option.splits if_splits)

lemma wait_more_books:
  assumes "wait_more_entries env w = Inr (evs, w')"
  shows "same_books (rw_rep w) (rw_rep w')" "rp_destroyed (rw_rep w') = rp_destroyed (rw_rep w)" "\<not> rp_locked (rw_rep w')"
  using wait_more_entries_shape [of env w] assms by (auto simp: same_books_def)

lemma record_sent_inv:
  assumes "rep_inv r" "0 < n"
  shows "rep_inv (record_sent cid n r)"
proof -
  let ?r = "record_sent cid n r"
  have w: "rp_oo_start_index ?r = rp_oo_start_index r" "rp_next_index ?r = rp_next_index r + n"
    "rp_oo_start_index r + int (length (rp_oo_committed_entries r)) \<le> rp_oo_start_index ?r + int (length (rp_oo_committed_entries ?r))"
    "rp_next_index r + n \<le> rp_oo_start_index ?r + int (length (rp_oo_committed_entries ?r))"
    by (simp_all add: record_sent_def grow_oo_def Let_def)
  have f: "rp_append_entries_in_fly ?r = rp_append_entries_in_fly r @ [\<lparr>fl_log_index = rp_next_index r, fl_entries_size = n, fl_call_id = cid\<rparr>]"
    "rp_status_append_entries_in_fly ?r = rp_status_append_entries_in_fly r @ [True]"
    "rp_flying_append_entries_size ?r = rp_flying_append_entries_size r + n"
    by (simp_all add: record_sent_def grow_oo_def Let_def)
  show ?thesis using assms w f unfolding rep_inv_def by fastforce
qed

lemma prepare_entries_rep:
  "prepare_entries env i n ems d dep w = Inr (ems', d', dep', evs, w1) \<Longrightarrow> rw_rep w1 = rw_rep w"
proof (induction n arbitrary: i ems d dep w evs)
  case (Suc n)
  from Suc.prems obtain rc em d1 evs1 w2 where p: "prepare_entry env i d w = Inr (rc, em, d1, evs1, w2)"
    by (cases "prepare_entry env i d w") auto
  then have r: "rw_rep w2 = rw_rep w"
    by (auto simp: prepare_entry_def split: if_splits sum.splits option.splits prod.splits)
  show ?case
  proof (cases em)
    case None
    with Suc.prems p r show ?thesis by simp
  next
    case (Some m)
    with Suc.prems p obtain evs2 where
      "prepare_entries env (i + 1) n (ems @ [m]) d1 (or (push_bit 1 dep) (em_dependency m)) w2 = Inr (ems', d', dep', evs2, w1)"
      by (auto split: sum.splits prod.splits)
    from Suc.IH [OF this] r show ?thesis by simp
  qed
qed simp

text \<open>The four ways in which \<open>_send_entries\<close> ends.\<close>

lemma send_entries_cases:
  assumes "send_entries env cid w = Inr (evs, w')"
  obtains (skip) "w' = rp_unlock w" "evs = []"
  | (reset) v evs1 where "rw_rep v = rw_rep w" "reset_next_index v = Inr (evs1, w')"
  | (wait) v evs1 where "rw_rep v = rw_rep w" "wait_more_entries env v = Inr (evs1, w')"
  | (sent) v n evs1 where "rw_rep v = rw_rep w" "0 < n" "wait_more_entries env (upd_rep (record_sent cid n) v) = Inr (evs1, w')"
proof (cases "rp_flying_append_entries_size (rw_rep w) \<ge> re_max_entries_size env \<or>
    int (length (rp_status_append_entries_in_fly (rw_rep w))) \<ge> re_max_entries_size env \<or>
    length (rp_append_entries_in_fly (rw_rep w)) \<ge> re_max_parallel_rpc_num env \<or> rs_st (rp_st (rw_rep w)) = BLOCKING")
  case True
  then show thesis using assms skip by (simp add: send_entries_def Let_def)
next
  case False
  let ?f = "fill_common_fields env (rp_next_index (rw_rep w) - 1) False w"
  obtain ro where f: "?f = Inr ro" using assms False by (cases ?f) (auto simp: send_entries_def Let_def)
  show thesis
  proof (cases ro)
    case None
    then show thesis using assms False f reset by (simp add: send_entries_def Let_def)
  next
    case (Some req)
    obtain ems data dep pevs v where p: "prepare_entries env 0 1 [] [] 0 w = Inr (ems, data, dep, pevs, v)"
      using assms False f Some by (cases "prepare_entries env 0 1 [] [] 0 w") (auto simp: send_entries_def Let_def)
    note v = prepare_entries_rep [OF p]
    show thesis
    proof (cases "ems = []")
      case True
      with assms False f Some p have "then_do (Inr (pevs, v))
          (if rp_next_index (rw_rep w) < lm_first_log_index (rw_log v) then reset_next_index else wait_more_entries env) = Inr (evs, w')"
        by (simp add: send_entries_def Let_def)
      then show thesis by (rule then_doE) (use reset [OF v] wait [OF v] in \<open>auto split: if_splits\<close>)
    next
      case ne: False
      with assms False f Some p have "then_do (Inr (pevs @ [Send_append cid (req\<lparr>ae_entries := ems, ae_dependency := dep\<rparr>) data],
          upd_rep (record_sent cid (int (length ems))) v)) (wait_more_entries env) = Inr (evs, w')"
        by (simp add: send_entries_def Let_def)
      then show thesis by (rule then_doE) (use sent [OF v, of "int (length ems)"] ne in auto)
    qed
  qed
qed

lemma send_entries_inv:
  assumes "send_entries env cid w = Inr (evs, w')" "rep_inv (rw_rep w)"
  shows "rep_inv (rw_rep w') \<and> rp_destroyed (rw_rep w') = rp_destroyed (rw_rep w)"
  using assms(1)
proof (cases rule: send_entries_cases)
  case skip
  then show ?thesis using assms(2) by (simp add: rep_inv_def)
next
  case (reset v evs1)
  have "rep_inv (rw_rep v)" using assms(2) reset(1) by simp
  from reset_inv(1) [OF reset(2) this] reset_books(4) [OF reset(2)] show ?thesis by (simp add: reset(1))
next
  case (wait v evs1)
  have "rep_inv (rw_rep v)" using assms(2) wait(1) by simp
  from same_books_inv [OF wait_more_books(1) [OF wait(2)] this] wait_more_books(2) [OF wait(2)] show ?thesis by (simp add: wait(1))
next
  case (sent v n evs1)
  have "rep_inv (record_sent cid n (rw_rep v))" using record_sent_inv [OF assms(2) sent(2)] sent(1) by simp
  moreover have "rp_destroyed (record_sent cid n (rw_rep v)) = rp_destroyed (rw_rep w)"
    by (simp add: record_sent_def grow_oo_def Let_def sent(1))
  ultimately show ?thesis
    using same_books_inv [OF wait_more_books(1) [OF sent(3)]] wait_more_books(2) [OF sent(3)] by simp
qed

lemma block_inv:
  assumes "rep_block env cid added e w = Inr (evs, w')" "rep_inv (rw_rep w)"
  shows "rep_inv (rw_rep w') \<and> rp_destroyed (rw_rep w') = rp_destroyed (rw_rep w)"
proof (cases "rs_st (rp_st (rw_rep w)) = BLOCKING \<or> added")
  case True
  then show ?thesis using assms by (auto simp: rep_block_def rep_inv_def split: if_splits)
next
  case False
  then show ?thesis using assms send_empty_inv [of env cid False w evs w'] by (simp add: rep_block_def)
qed

section \<open>Answered rpcs\<close>

lemma find_flying_at:
  "find_flying first cid fs ss = Inr (Some k) \<Longrightarrow> k < length fs \<and> k < length ss \<and> fl_call_id (fs ! k) = cid \<and> ss ! k"
proof (induction fs arbitrary: ss k)
  case (Cons f fs)
  show ?case
  proof (cases ss)
    case Nil
    with Cons.prems Cons.IH [of "[]"] show ?thesis by (auto split: if_splits)
  next
    case (Cons s ss')
    with Cons.prems Cons.IH [of ss'] show ?thesis
      by (auto split: if_splits sum.splits option.splits)
  qed
qed simp

lemma sum_list_erase:
  "k < length xs \<Longrightarrow> (\<Sum>x \<leftarrow> erase_at k xs. g x) = (\<Sum>x \<leftarrow> xs. g x) - (g (xs ! k) :: int)"
proof -
  assume k: "k < length xs"
  show ?thesis
    using arg_cong [OF id_take_nth_drop [OF k], of "\<lambda>ys. \<Sum>x \<leftarrow> ys. g x"] by (simp add: erase_at_def)
qed

lemma set_erase: "set (erase_at k xs) \<subseteq> set xs"
  by (auto simp: erase_at_def dest: in_set_takeD in_set_dropD)

lemma length_erase: "k < length xs \<Longrightarrow> length (erase_at k xs) = length xs - 1"
  by (simp add: erase_at_def)

lemma pop_flying_inv:
  "length ss = length fs \<Longrightarrow> \<exists>fs' ss' n'. pop_flying start fs ss n = Inr (fs', ss', n') \<and> length ss' = length fs' \<and> set fs' \<subseteq> set fs \<and>
     n' - (\<Sum>f \<leftarrow> fs'. fl_entries_size f) = n - (\<Sum>f \<leftarrow> fs. fl_entries_size f)"
proof (induction start fs ss n rule: pop_flying.induct)
  case (3 start f fs s ss n)
  show ?case
  proof (cases "\<not> s \<or> fl_log_index f + fl_entries_size f \<le> start")
    case True
    with 3 obtain fs' ss' n' where "pop_flying start fs ss (n - fl_entries_size f) = Inr (fs', ss', n')" "length ss' = length fs'"
      "set fs' \<subseteq> set fs" "n' - (\<Sum>f \<leftarrow> fs'. fl_entries_size f) = n - fl_entries_size f - (\<Sum>f \<leftarrow> fs. fl_entries_size f)" by auto
    with True show ?thesis by auto
  qed (use 3 in auto)
qed auto

lemma finish_rpc_inv:
  assumes "rep_inv (rw_rep w)" "k < length (rp_append_entries_in_fly (rw_rep w))"
    "n = fl_entries_size (rp_append_entries_in_fly (rw_rep w) ! k)"
  shows "\<exists>w'. finish_rpc k n w = Inr ([], w') \<and> rep_inv (rw_rep w') \<and> rp_destroyed (rw_rep w') = rp_destroyed (rw_rep w)"
proof -
  let ?fs = "rp_append_entries_in_fly (rw_rep w)" and ?ss = "rp_status_append_entries_in_fly (rw_rep w)"
  let ?n = "rp_flying_append_entries_size (rw_rep w)"
  have len: "length (erase_at k ?ss) = length (erase_at k ?fs)" using assms by (simp add: rep_inv_def length_erase)
  obtain fs' ss' n' where p: "pop_flying (rp_oo_start_index (rw_rep w)) (erase_at k ?fs) (erase_at k ?ss) (?n - n) = Inr (fs', ss', n')"
    "length ss' = length fs'" "set fs' \<subseteq> set (erase_at k ?fs)"
    "n' - (\<Sum>f \<leftarrow> fs'. fl_entries_size f) = ?n - n - (\<Sum>f \<leftarrow> erase_at k ?fs. fl_entries_size f)"
    using pop_flying_inv [OF len, of "rp_oo_start_index (rw_rep w)" "?n - n"] by (elim exE conjE)
  have "n' = (\<Sum>f \<leftarrow> fs'. fl_entries_size f)"
    using p(4) sum_list_erase [OF assms(2), of fl_entries_size] assms(1,3) by (simp add: rep_inv_def)
  moreover have "set fs' \<subseteq> set ?fs" by (rule subset_trans [OF p(3) set_erase])
  ultimately show ?thesis using assms(1) p by (auto simp: finish_rpc_def rep_inv_def Let_def)
qed

lemma mark_acked_length: "mark_acked s is fs out = Inr (fs', out') \<Longrightarrow> length fs' = length fs"
  by (induction "is" arbitrary: fs out) (fastforce split: sum.splits bool.splits)+

lemma drop_acked_end: "drop_acked lli s fs out = Inr (s', fs', out') \<Longrightarrow> s' + int (length fs') = s + int (length fs)"
  by (induction fs arbitrary: s out) (fastforce split: if_splits)+

lemma collect_acked_end:
  "collect_acked lli pli n s fs = Inr (s', fs', out) \<Longrightarrow> s' + int (length fs') = s + int (length fs)"
  by (auto simp: collect_acked_def split: sum.splits prod.splits if_splits dest!: drop_acked_end mark_acked_length)

lemma report_acked_books:
  assumes "report_acked lli pli n w = Inr (evs, w')"
  shows "rp_oo_start_index (rw_rep w') + int (length (rp_oo_committed_entries (rw_rep w'))) =
       rp_oo_start_index (rw_rep w) + int (length (rp_oo_committed_entries (rw_rep w)))"
    "rp_append_entries_in_fly (rw_rep w') = rp_append_entries_in_fly (rw_rep w)"
    "rp_status_append_entries_in_fly (rw_rep w') = rp_status_append_entries_in_fly (rw_rep w)"
    "rp_flying_append_entries_size (rw_rep w') = rp_flying_append_entries_size (rw_rep w)"
    "rp_next_index (rw_rep w') = rp_next_index (rw_rep w)" "rp_destroyed (rw_rep w') = rp_destroyed (rw_rep w)"
proof -
  have "\<exists>s fs. rw_rep w' = (rw_rep w)\<lparr>rp_oo_start_index := s, rp_oo_committed_entries := fs\<rparr> \<and>
      s + int (length fs) = rp_oo_start_index (rw_rep w) + int (length (rp_oo_committed_entries (rw_rep w)))"
  proof (cases "n \<le> 0")
    case True
    then have "w' = w" using assms by (simp add: report_acked_def)
    then show ?thesis by (intro exI [of _ "rp_oo_start_index (rw_rep w)"] exI [of _ "rp_oo_committed_entries (rw_rep w)"]) simp
  next
    case False
    with assms obtain s fs new ev r bb where c: "collect_acked lli pli n (rp_oo_start_index (rw_rep w)) (rp_oo_committed_entries (rw_rep w)) = Inr (s, fs, new)"
      "commit_at (rw_box w) new (ro_peer_id (rp_options (rw_rep w))) = Inr (r, ev, bb)"
      by (auto simp: report_acked_def split: sum.splits prod.splits)
    have "front_run fs \<le> length fs" by (rule front_run_le)
    then show ?thesis using assms False c collect_acked_end [OF c(1)]
      by (auto simp: report_acked_def pop_acked_front intro!: exI)
  qed
  then show "rp_oo_start_index (rw_rep w') + int (length (rp_oo_committed_entries (rw_rep w'))) =
       rp_oo_start_index (rw_rep w) + int (length (rp_oo_committed_entries (rw_rep w)))"
    "rp_append_entries_in_fly (rw_rep w') = rp_append_entries_in_fly (rw_rep w)"
    "rp_status_append_entries_in_fly (rw_rep w') = rp_status_append_entries_in_fly (rw_rep w)"
    "rp_flying_append_entries_size (rw_rep w') = rp_flying_append_entries_size (rw_rep w)"
    "rp_next_index (rw_rep w') = rp_next_index (rw_rep w)" "rp_destroyed (rw_rep w') = rp_destroyed (rw_rep w)" by auto
qed

lemma send_timeout_now_books:
  assumes "send_timeout_now cid u s ms w = Inr (evs, w')"
  shows "same_books (rw_rep w) (rw_rep w')" "rp_destroyed (rw_rep w') = rp_destroyed (rw_rep w)"
  using assms by (auto simp: send_timeout_now_def same_books_def Let_def split: if_splits)

lemma timeout_now_books:
  assumes "timeout_now_if_reached cid w = Inr (evs, w')"
  shows "same_books (rw_rep w) (rw_rep w')" "rp_destroyed (rw_rep w') = rp_destroyed (rw_rep w)"
  using assms send_timeout_now_books [of cid False False "-1" w evs w']
  by (auto simp: timeout_now_if_reached_def same_books_def split: if_splits sum.splits)

lemma touch_books: "same_books r (touch_timestamp t r)" "rp_destroyed (touch_timestamp t r) = rp_destroyed r"
  by (simp_all add: touch_timestamp_def same_books_def)

lemma accepted_inv:
  assumes "on_rpc_accepted env oc k request response w = Inr (evs, w')" "rep_inv (rw_rep w)"
    and k: "k < length (rp_append_entries_in_fly (rw_rep w))"
      "int (length (ae_entries request)) = fl_entries_size (rp_append_entries_in_fly (rw_rep w) ! k)"
  shows "live_inv w'"
proof (cases "ar_term response = ro_term (rp_options (rw_rep w))")
  case False
  then have "then_do (reset_next_index w) (\<lambda>w1. Inr ([], rp_unlock w1)) = Inr (evs, w')"
    using assms(1) by (simp add: on_rpc_accepted_def Let_def)
  then obtain evs1 w1 where "reset_next_index w = Inr (evs1, w1)" "w' = rp_unlock w1" by (rule then_doE) auto
  with reset_inv(1) assms(2) show ?thesis by (auto simp: rep_inv_def)
next
  case True
  let ?n = "int (length (ae_entries request))" and ?w = "upd_rep (touch_timestamp (oc_send_time oc)) w"
  have "then_do (then_do (then_do (then_do
      (report_acked (last_log_index_of response) (ae_prev_log_index request) ?n ?w) (finish_rpc k ?n))
      (notify_on_caught_up (oc_catchup_timer_runs oc) OK0 False)) (timeout_now_if_reached (oc_timeout_cid oc)))
      (send_entries env (oc_next_cid oc)) = Inr (evs, w')"
    using assms(1) True by (simp add: on_rpc_accepted_def Let_def)
  then obtain e1 w1 e2 w2 e3 w3 e4 w4 e5 where
    s: "report_acked (last_log_index_of response) (ae_prev_log_index request) ?n ?w = Inr (e1, w1)" "finish_rpc k ?n w1 = Inr (e2, w2)"
      "notify_on_caught_up (oc_catchup_timer_runs oc) OK0 False w2 = Inr (e3, w3)"
      "timeout_now_if_reached (oc_timeout_cid oc) w3 = Inr (e4, w4)" "send_entries env (oc_next_cid oc) w4 = Inr (e5, w')"
    by (elim then_doE) blast
  have i0: "rep_inv (rw_rep ?w)" using same_books_inv [OF touch_books(1) assms(2)] by simp
  note b = report_acked_books [OF s(1)] and tb = touch_books(1) [unfolded same_books_def, where r = "rw_rep w" and t = "oc_send_time oc"]
  have i1: "rep_inv (rw_rep w1)" using i0 b unfolding rep_inv_def by simp
  have "k < length (rp_append_entries_in_fly (rw_rep w1))" "?n = fl_entries_size (rp_append_entries_in_fly (rw_rep w1) ! k)"
    using k b(2) tb by simp_all
  from finish_rpc_inv [OF i1 this] s(2) have i2: "rep_inv (rw_rep w2)" by auto
  have "rep_inv (rw_rep w4)"
    by (rule same_books_inv [OF timeout_now_books(1) [OF s(4)] same_books_inv [OF notify_books(1) [OF s(3)] i2]])
  from send_entries_inv [OF s(5) this] show ?thesis by simp
qed

lemma refused_inv:
  assumes "on_rpc_refused env oc response w = Inr (evs, w')" "rep_inv (rw_rep w)" "0 \<le> last_log_index_of response"
  shows "live_inv w'" "\<not> rp_destroyed (rw_rep w') \<Longrightarrow>
     1 \<le> rp_next_index (rw_rep w') \<and> (rp_next_index (rw_rep w') < rp_next_index (rw_rep w) \<or> rp_next_index (rw_rep w') = 1)"
proof -
  have "live_inv w' \<and> (\<not> rp_destroyed (rw_rep w') \<longrightarrow>
     1 \<le> rp_next_index (rw_rep w') \<and> (rp_next_index (rw_rep w') < rp_next_index (rw_rep w) \<or> rp_next_index (rw_rep w') = 1))"
  proof (cases "ar_term response > ro_term (rp_options (rw_rep w))")
    case True
    then have "then_do (then_do (reset_next_index w) (notify_on_caught_up (oc_catchup_timer_runs oc) EPERM True))
        (\<lambda>w1. Inr ([Increase_term_to (ar_term response)], rep_destroy w1)) = Inr (evs, w')"
      using assms(1) by (simp add: on_rpc_refused_def)
    then have "rp_destroyed (rw_rep w')" by (rule then_doE) (auto simp: rep_destroy_def)
    then show ?thesis by simp
  next
    case False
    let ?next = "\<lambda>r. if last_log_index_of response + 1 < rp_next_index r then last_log_index_of response + 1
        else if rp_next_index r > 1 then rp_next_index r - 1 else rp_next_index r"
    let ?w = "upd_rep (touch_timestamp (oc_send_time oc)) w"
    from False assms(1) have "then_do (reset_next_index ?w)
        (\<lambda>w1. send_empty_entries env (oc_next_cid oc) False (upd_rep (\<lambda>r. r\<lparr>rp_next_index := ?next r\<rparr>) w1)) = Inr (evs, w')"
      by (simp add: on_rpc_refused_def)
    then obtain e1 w1 e2 where s: "reset_next_index ?w = Inr (e1, w1)"
      "send_empty_entries env (oc_next_cid oc) False (upd_rep (\<lambda>r. r\<lparr>rp_next_index := ?next r\<rparr>) w1) = Inr (e2, w')"
      by (rule then_doE) blast
    have i0: "rep_inv (rw_rep ?w)" using same_books_inv [OF touch_books(1) assms(2)] by simp
    note r = reset_inv [OF s(1) i0] and b = reset_books [OF s(1)]
    let ?v = "upd_rep (\<lambda>r. r\<lparr>rp_next_index := ?next r\<rparr>) w1"
    have n: "1 \<le> ?next (rw_rep w1)" "?next (rw_rep w1) < rp_next_index (rw_rep w1) \<or> ?next (rw_rep w1) = 1"
      using r(2) assms(3) by auto
    have "rep_inv (rw_rep ?v)" using n(1) b by (simp add: rep_inv_def)
    from send_empty_inv [OF s(2) this] n r(3) touch_books(1) [unfolded same_books_def, where r = "rw_rep w" and t = "oc_send_time oc"]
    show ?thesis by auto
  qed
  then show "live_inv w'" "\<not> rp_destroyed (rw_rep w') \<Longrightarrow>
     1 \<le> rp_next_index (rw_rep w') \<and> (rp_next_index (rw_rep w') < rp_next_index (rw_rep w) \<or> rp_next_index (rw_rep w') = 1)"
    by blast+
qed

lemma on_rpc_returned_inv:
  assumes "on_rpc_returned env oc cid request response w = Inr (evs, w')" "live_inv w"
    "rep_allowed (Rpc_returned oc cid request response) (rw_rep w)"
  shows "live_inv w'"
proof (cases "rp_destroyed (rw_rep w)")
  case True
  then show ?thesis using assms(1) by (simp add: on_rpc_returned_def with_lock_def)
next
  case False
  let ?fs = "rp_append_entries_in_fly (rw_rep w)" and ?ss = "rp_status_append_entries_in_fly (rw_rep w)"
  let ?v = "upd_rep (\<lambda>r. r\<lparr>rp_locked := True\<rparr>) w"
  have inv: "rep_inv (rw_rep w)" using assms(2) False by simp
  obtain ko where k: "find_flying (ae_prev_log_index request + 1) cid ?fs ?ss = Inr ko"
    using assms(1) False by (auto simp: on_rpc_returned_def with_lock_def split: sum.splits)
  have go: "(case ko of None \<Rightarrow> Inr ([], rp_unlock ?v) | Some k \<Rightarrow>
      (let w1 = upd_rep (\<lambda>r. r\<lparr>rp_status_append_entries_in_fly := (rp_status_append_entries_in_fly r)[k := False]\<rparr>) ?v
       in case oc_error oc of
            Some e \<Rightarrow> then_do (reset_next_index (upd_rep (\<lambda>r. r\<lparr>rp_consecutive_error_times := rp_consecutive_error_times r + 1\<rparr>) w1))
                        (rep_block env (oc_next_cid oc) (oc_timer_added oc) e)
          | None \<Rightarrow> (let w2 = upd_rep (\<lambda>r. r\<lparr>rp_consecutive_error_times := 0\<rparr>) w1
                    in if \<not> ar_success response then on_rpc_refused env oc response w2
                       else on_rpc_accepted env oc k request response w2))) = Inr (evs, w')"
    using assms(1) False k by (auto simp: on_rpc_returned_def with_lock_def split: sum.splits)
  show ?thesis
  proof (cases ko)
    case None
    with go inv show ?thesis by (auto simp: rep_inv_def)
  next
    case (Some k')
    note at = find_flying_at [OF k [unfolded Some]]
    let ?w1 = "upd_rep (\<lambda>r. r\<lparr>rp_status_append_entries_in_fly := (rp_status_append_entries_in_fly r)[k' := False]\<rparr>) ?v"
    show ?thesis
    proof (cases "oc_error oc")
      case (Some e)
      let ?w2 = "upd_rep (\<lambda>r. r\<lparr>rp_consecutive_error_times := rp_consecutive_error_times r + 1\<rparr>) ?w1"
      have i: "rep_inv (rw_rep ?w2)" using inv by (simp add: rep_inv_def)
      have "then_do (reset_next_index ?w2) (rep_block env (oc_next_cid oc) (oc_timer_added oc) e) = Inr (evs, w')"
        using go Some \<open>ko = Some k'\<close> by (simp add: Let_def)
      then show ?thesis by (rule then_doE) (use reset_inv(1) [OF _ i] block_inv in blast)
    next
      case None
      let ?w2 = "upd_rep (\<lambda>r. r\<lparr>rp_consecutive_error_times := 0\<rparr>) ?w1"
      have i: "rep_inv (rw_rep ?w2)" using inv by (simp add: rep_inv_def)
      have n: "int (length (ae_entries request)) = fl_entries_size (?fs ! k')" "0 \<le> last_log_index_of response"
        using assms(3) at by auto
      show ?thesis
      proof (cases "ar_success response")
        case True
        with go None \<open>ko = Some k'\<close> have "on_rpc_accepted env oc k' request response ?w2 = Inr (evs, w')" by (simp add: Let_def)
        from accepted_inv [OF this i] at n(1) show ?thesis by simp
      next
        case False
        with go None \<open>ko = Some k'\<close> have "on_rpc_refused env oc response ?w2 = Inr (evs, w')" by (simp add: Let_def)
        from refused_inv(1) [OF this i n(2)] show ?thesis .
      qed
    qed
  qed
qed

section \<open>All handlers\<close>

lemma with_lock_inv:
  assumes "with_lock f w = Inr (evs, w')" "live_inv w"
    and "\<And>v evs w'. rep_inv (rw_rep v) \<Longrightarrow> f v = Inr (evs, w') \<Longrightarrow> live_inv w'"
  shows "live_inv w'"
proof (cases "rp_destroyed (rw_rep w)")
  case False
  let ?v = "upd_rep (\<lambda>r. r\<lparr>rp_locked := True\<rparr>) w"
  have "rep_inv (rw_rep ?v)" "f ?v = Inr (evs, w')" using False assms(1,2) by (auto simp: with_lock_def rep_inv_def)
  then show ?thesis by (rule assms(3))
qed (use assms(1) in \<open>simp add: with_lock_def\<close>)

lemma destroyed_after_destroy [simp]: "rp_destroyed (rw_rep (rep_destroy w))"
  by (simp add: rep_destroy_def)

lemma notify_inv: "notify_on_caught_up t e b w = Inr (evs, w') \<Longrightarrow> rep_inv (rw_rep w) \<Longrightarrow> rep_inv (rw_rep w')"
  by (rule same_books_inv [OF notify_books(1)])

lemma rep_inv_cong [simp]:
  "rep_inv (r\<lparr>rp_locked := b\<rparr>) = rep_inv r" "rep_inv (r\<lparr>rp_consecutive_error_times := i\<rparr>) = rep_inv r"
  "rep_inv (r\<lparr>rp_timeout_now_index := j\<rparr>) = rep_inv r" "rep_inv (r\<lparr>rp_wait_id := j\<rparr>) = rep_inv r"
  "rep_inv (r\<lparr>rp_readonly_index := j\<rparr>) = rep_inv r" "rep_inv (r\<lparr>rp_catchup_closure := c\<rparr>) = rep_inv r"
  "rep_inv (r\<lparr>rp_timeout_now_in_fly := n\<rparr>) = rep_inv r"
  by (simp_all add: rep_inv_def)

lemma touch_inv: "rep_inv r \<Longrightarrow> rep_inv (touch_timestamp t r)"
  by (rule same_books_inv [OF touch_books(1)])

lemma on_heartbeat_returned_inv: "on_heartbeat_returned oc response w = Inr (evs, w') \<Longrightarrow> live_inv w \<Longrightarrow> live_inv w'"
  unfolding on_heartbeat_returned_def
  by (erule with_lock_inv) (auto simp: Let_def touch_inv elim!: then_doE split: option.splits if_splits)

lemma continue_sending_inv: "continue_sending env cid e w = Inr (evs, w') \<Longrightarrow> live_inv w \<Longrightarrow> live_inv w'"
  unfolding continue_sending_def
  by (erule with_lock_inv)
    (auto split: if_splits dest: send_empty_inv(1) dest!: send_entries_inv)

lemma send_heartbeat_inv: "send_heartbeat env cid w = Inr (evs, w') \<Longrightarrow> live_inv w \<Longrightarrow> live_inv w'"
  unfolding send_heartbeat_def by (erule with_lock_inv) (auto dest: send_empty_inv(1))

lemma rep_on_error_inv: "rep_on_error e w = Inr (evs, w') \<Longrightarrow> live_inv w \<Longrightarrow> live_inv w'"
  unfolding rep_on_error_def
  by (erule with_lock_inv) (auto elim!: then_doE split: if_splits)

lemma on_catch_up_timedout_inv: "on_catch_up_timedout w = Inr (evs, w') \<Longrightarrow> live_inv w \<Longrightarrow> live_inv w'"
  unfolding on_catch_up_timedout_def by (erule with_lock_inv) (auto elim!: then_doE dest: notify_inv)

lemma on_timeout_now_returned_inv: "on_timeout_now_returned oc t s w = Inr (evs, w') \<Longrightarrow> live_inv w \<Longrightarrow> live_inv w'"
  unfolding on_timeout_now_returned_def
  by (erule with_lock_inv) (auto simp: Let_def elim!: then_doE split: option.splits if_splits)

lemma rep_stop_inv: "rep_stop t w = Inr (evs, w') \<Longrightarrow> live_inv w \<Longrightarrow> live_inv w'"
  unfolding rep_stop_def by (erule with_lock_inv) (auto elim!: then_doE dest: notify_inv)

lemma wait_for_caught_up_inv:
  assumes "wait_for_caught_up m d t c w = Inr (evs, w')" "live_inv w"
  shows "live_inv w'"
proof (cases "rp_destroyed (rw_rep w)")
  case True
  then show ?thesis using assms by (auto simp: wait_for_caught_up_def)
next
  case False
  show ?thesis
    using assms(1)[unfolded wait_for_caught_up_def if_not_P [OF False]] assms(2)
    by (rule with_lock_inv) (auto split: if_splits sum.splits bool.splits)
qed

lemma transfer_leadership_inv: "transfer_leadership cid i w = Inr (evs, w') \<Longrightarrow> live_inv w \<Longrightarrow> live_inv w'"
  unfolding transfer_leadership_def
  by (erule with_lock_inv)
    (auto split: if_splits sum.splits bool.splits dest: same_books_inv [OF send_timeout_now_books(1)])

lemma send_timeout_now_and_stop_inv: "send_timeout_now_and_stop cid ms w = Inr (evs, w') \<Longrightarrow> live_inv w \<Longrightarrow> live_inv w'"
  unfolding send_timeout_now_and_stop_def
  by (erule with_lock_inv) (auto dest: same_books_inv [OF send_timeout_now_books(1)])

lemma stop_transfer_leadership_inv: "stop_transfer_leadership w = Inr (evs, w') \<Longrightarrow> live_inv w \<Longrightarrow> live_inv w'"
  unfolding stop_transfer_leadership_def by (erule with_lock_inv) auto

lemma change_readonly_inv: "rep_change_readonly_config env b w = Inr (evs, w') \<Longrightarrow> live_inv w \<Longrightarrow> live_inv w'"
  unfolding rep_change_readonly_config_def
  by (erule with_lock_inv) (auto split: if_splits dest: same_books_inv [OF wait_more_books(1)])

lemmas handler_invs = on_rpc_returned_inv on_heartbeat_returned_inv continue_sending_inv send_heartbeat_inv rep_on_error_inv
  on_catch_up_timedout_inv on_timeout_now_returned_inv rep_stop_inv wait_for_caught_up_inv transfer_leadership_inv
  stop_transfer_leadership_inv send_timeout_now_and_stop_inv change_readonly_inv

lemma rep_do_inv: "rep_do env op w = Inr (evs, w') \<Longrightarrow> rep_allowed op (rw_rep w) \<Longrightarrow> live_inv w \<Longrightarrow> live_inv w'"
  by (cases op; simp only: rep_do.simps; (erule (1) handler_invs | (rule on_rpc_returned_inv; assumption)))

lemma rep_step_inv: "rep_step env w w' \<Longrightarrow> live_inv w \<Longrightarrow> live_inv w'"
  by (erule rep_stepE) (erule (2) rep_do_inv, simp)

lemma rep_start_inv:
  assumes "rep_start env a b c t cid now options waiter lm bb = Inr (rc, evs, Some w)" "0 \<le> lm_last_log_index lm"
  shows "rep_inv (rw_rep w)"
proof -
  let ?w = "\<lparr>rw_rep = (new_replicator options waiter)\<lparr>rp_next_index := lm_last_log_index lm + 1,
      rp_last_rpc_send_timestamp := now, rp_locked := True\<rparr>, rw_log = lm, rw_box = bb\<rparr>"
  obtain evs1 where "send_empty_entries env cid False ?w = Inr (evs1, w)"
    using assms(1) by (auto simp: rep_start_def split: if_splits sum.splits)
  then show ?thesis by (rule send_empty_inv(1)) (use assms(2) in \<open>simp add: rep_inv_def new_replicator_def\<close>)
qed

lemma rep_reach_inv:
  assumes "rep_start env a b c t cid now options waiter lm bb = Inr (rc, evs, Some w0)" "0 \<le> lm_last_log_index lm" "(rep_step env)\<^sup>*\<^sup>* w0 w"
  shows "live_inv w"
  using assms(3)
proof (induction rule: rtranclp_induct)
  case base
  then show ?case using rep_start_inv [OF assms(1,2)] by simp
next
  case (step y z)
  then show ?case using rep_step_inv by blast
qed

section \<open>Where a handler ends\<close>

text \<open>
  C7. Whatever rpcs return, timers fire, waiters wake and requests of the leader arrive in whatever order, a replicator that was started on a log
  and has not been destroyed keeps its books: one status flag per rpc in flight, \<open>_flying_append_entries_size\<close> is the number of entries in flight,
  every rpc in flight begins at or before \<open>_next_index\<close> and all entries it carries have a slot in \<open>_oo_committed_entries\<close> (or are behind it),
  and the next index is never below 1.
\<close>

theorem replicator_accounting:
  assumes "rep_start env a b c t cid now options waiter lm bb = Inr (rc, evs, Some w0)" "0 \<le> lm_last_log_index lm"
    and "(rep_step env)\<^sup>*\<^sup>* w0 w" "\<not> rp_destroyed (rw_rep w)"
  shows "length (rp_status_append_entries_in_fly (rw_rep w)) = length (rp_append_entries_in_fly (rw_rep w)) \<and>
    rp_flying_append_entries_size (rw_rep w) = (\<Sum>f \<leftarrow> rp_append_entries_in_fly (rw_rep w). fl_entries_size f) \<and>
    1 \<le> rp_next_index (rw_rep w) \<and>
    (\<forall>f \<in> set (rp_append_entries_in_fly (rw_rep w)). 1 \<le> fl_log_index f \<and> fl_log_index f \<le> rp_next_index (rw_rep w) \<and>
       (0 < fl_entries_size f \<longrightarrow>
          fl_log_index f + fl_entries_size f \<le> rp_oo_start_index (rw_rep w) + int (length (rp_oo_committed_entries (rw_rep w)))))"
  using rep_reach_inv [OF assms(1-3)] assms(4) by (simp add: rep_inv_def)


lemma drop_answered_keeps:
  "drop_answered fs ss = Inr fly \<Longrightarrow> j < length fs \<Longrightarrow> j < length ss \<Longrightarrow> ss ! j \<Longrightarrow> fs ! j \<in> set fly"
  by (induction fs ss arbitrary: j rule: drop_answered.induct) (auto simp: nth_Cons split: if_splits nat.splits)

lemma reset_cancels:
  assumes "reset_next_index w = Inr (evs, w')" "j < length (rp_append_entries_in_fly (rw_rep w))"
    and "j < length (rp_status_append_entries_in_fly (rw_rep w))" "rp_status_append_entries_in_fly (rw_rep w) ! j"
  shows "Cancel_rpc (fl_call_id (rp_append_entries_in_fly (rw_rep w) ! j)) \<in> set evs"
proof -
  obtain fly where d: "drop_answered (rp_append_entries_in_fly (rw_rep w)) (rp_status_append_entries_in_fly (rw_rep w)) = Inr fly"
    using assms(1) by (auto simp: reset_next_index_def split: sum.splits)
  have "set (map (\<lambda>f. Cancel_rpc (fl_call_id f)) fly) \<subseteq> set evs"
    using assms(1) by (auto simp: reset_next_index_def d cancel_append_entries_rpcs_def Let_def split: if_splits)
  then show ?thesis using drop_answered_keeps [OF d assms(2-4)] by auto
qed

text \<open>
  A failed rpc cancels the others in flight, and each of them is then answered too. \<open>_on_rpc_returned\<close> takes \<open>_min_flying_index\<close>
  before it looks the rpc up, which reads the front of \<open>_append_entries_in_fly\<close>: with the block timer running that deque is empty, so
  the answer of every rpc just cancelled reads outside it.
\<close>

theorem cancelled_answer_reads_empty:
  assumes "find_flying (ae_prev_log_index request + 1) cid (rp_append_entries_in_fly (rw_rep w)) (rp_status_append_entries_in_fly (rw_rep w)) = Inr (Some k)"
    and "\<not> rp_destroyed (rw_rep w)" "oc_error oc = Some e" "oc_timer_added oc"
    and "on_rpc_returned env oc cid request response w = Inr (evs, w')"
    and "j < length (rp_append_entries_in_fly (rw_rep w))" "j < length (rp_status_append_entries_in_fly (rw_rep w))"
    and "rp_status_append_entries_in_fly (rw_rep w) ! j" "j \<noteq> k"
  shows "Cancel_rpc (fl_call_id (rp_append_entries_in_fly (rw_rep w) ! j)) \<in> set evs \<and> \<not> rp_locked (rw_rep w') \<and>
    on_rpc_returned env oc' (fl_call_id (rp_append_entries_in_fly (rw_rep w) ! j)) request' response' w' = Inl Empty_container"
proof -
  let ?u = "upd_rep (\<lambda>r. r\<lparr>rp_locked := True, rp_status_append_entries_in_fly := (rp_status_append_entries_in_fly r)[k := False],
              rp_consecutive_error_times := rp_consecutive_error_times r + 1\<rparr>) w"
  have "then_do (reset_next_index ?u) (rep_block env (oc_next_cid oc) (oc_timer_added oc) e) = Inr (evs, w')"
    using assms(1-5) by (auto simp: on_rpc_returned_def with_lock_def split: sum.splits)
  then obtain e1 u e2 where s: "reset_next_index ?u = Inr (e1, u)" "rep_block env (oc_next_cid oc) True e u = Inr (e2, w')" "evs = e1 @ e2"
    using assms(4) by (auto elim: then_doE)
  note b = reset_books [OF s(1)]
  have "rp_append_entries_in_fly (rw_rep w') = []" "\<not> rp_locked (rw_rep w')" "\<not> rp_destroyed (rw_rep w')"
    using s(2) b assms(2) by (auto simp: rep_block_def split: if_splits)
  moreover have "Cancel_rpc (fl_call_id (rp_append_entries_in_fly (rw_rep w) ! j)) \<in> set evs"
    using reset_cancels [OF s(1), of j] assms(6-9) s(3) by simp
  ultimately show ?thesis by (simp add: on_rpc_returned_def with_lock_def min_flying_index_def)
qed

lemma locked_stuck: "(rep_step env)\<^sup>*\<^sup>* w w' \<Longrightarrow> rp_locked (rw_rep w) \<Longrightarrow> rw_rep w' = rw_rep w"
proof (induction rule: rtranclp_induct)
  case (step y z)
  then show ?case by (auto elim: rep_stepE)
qed simp

text \<open>
  When the block timer fires while a waiter is registered, \<open>_continue_sending\<close> returns with the id locked: from then on no handler of the
  replicator runs, whatever the node does, so its follower gets no entries and no heartbeats, and \<open>stop\<close> waits forever.
\<close>

theorem block_timeout_locks_replicator:
  assumes "\<not> rp_destroyed (rw_rep w)" "rp_wait_id (rw_rep w) \<noteq> 0"
  shows "\<exists>w1. continue_sending env cid ETIMEDOUT w = Inr ([], w1) \<and>
    (\<forall>w2. (rep_step env)\<^sup>*\<^sup>* w1 w2 \<longrightarrow> rw_rep w2 = (rw_rep w)\<lparr>rp_locked := True\<rparr>)"
  using assms locked_stuck [of env "upd_rep (\<lambda>r. r\<lparr>rp_locked := True\<rparr>) w"]
  by (simp add: continue_sending_def with_lock_def)

section \<open>Examples\<close>

text \<open>A replicator of a leader in term 1 with three entries: the first probe asks for entry 4, the follower, whose log ends at 1, refuses it.\<close>

definition demo_probe :: "rep_env \<Rightarrow> int64 \<Rightarrow> append_request" where
  "demo_probe env p = \<lparr>ae_server_id = re_to_s env (peer_n 1), ae_term = 1, ae_prev_log_term = 1, ae_prev_log_index = p, ae_entries = [],
     ae_committed_index = 1, ae_committed_oo_index = [], ae_dependency = 0\<rparr>"

definition demo_started :: "(nat, nat, nat, nat) rep_world" where
  "demo_started = upd_rep (\<lambda>r. r\<lparr>rp_next_index := 4,
      rp_st := \<lparr>rs_st = APPENDING_ENTRIES, rs_first_log_index = 4, rs_last_log_index = 3\<rparr>,
      rp_append_entries_in_fly := [\<lparr>fl_log_index = 4, fl_entries_size = 0, fl_call_id = 5\<rparr>],
      rp_status_append_entries_in_fly := [True], rp_append_entries_counter := 1\<rparr>) (demo_rep_world 4 [] demo_box)"

definition demo_refusal :: append_response where
  "demo_refusal = \<lparr>ar_term = 1, ar_success = False, ar_last_log_index = Some 1\<rparr>"

definition demo_outcome :: "rc option \<Rightarrow> rpc_outcome" where
  "demo_outcome e = \<lparr>oc_error = e, oc_send_time = 0, oc_timer_added = True, oc_catchup_timer_runs = False, oc_next_cid = 6, oc_timeout_cid = 8\<rparr>"

lemma demo_manager3_terms: "lm_get_term 3 demo_manager3 = Inr 1" "lm_get_term 1 demo_manager3 = Inr 1"
  by (simp_all add: lm_get_term_def unsafe_get_term_def demo_manager3_fields get_entry_from_memory_rep [OF demo_manager3_inv])
    (simp_all add: data_entry_def)

lemma demo_start:
  "\<exists>evs. rep_start (demo_rep_env cd) True True True True 5 0 \<lparr>ro_server_id = peer_n 1, ro_peer_id = peer_n 2, ro_term = 1\<rparr> (7::nat)
     demo_manager3 demo_box = Inr (OK0, evs, Some demo_started)"
  by (simp add: rep_start_def send_empty_entries_def fill_common_fields_def demo_manager3_fields demo_manager3_terms Let_def case_prod_beta
      new_replicator_def demo_started_def demo_rep_world_def demo_rep_def)

lemma demo_refused:
  "\<exists>evs w'. on_rpc_returned (demo_rep_env cd) (demo_outcome None) 5 (demo_probe (demo_rep_env cd) 3) demo_refusal demo_started = Inr (evs, w') \<and>
     \<not> rp_destroyed (rw_rep w') \<and> rp_next_index (rw_rep w') = 2"
  by (simp add: on_rpc_returned_def with_lock_def demo_started_def demo_outcome_def demo_refusal_def demo_probe_def min_flying_index_def
     on_rpc_refused_def reset_next_index_def cancel_append_entries_rpcs_def send_empty_entries_def fill_common_fields_def last_log_index_of_def
     touch_timestamp_def demo_rep_world_def demo_rep_def new_replicator_def Let_def case_prod_beta demo_manager3_terms)


theorem replicator_accounting_witness:
  "\<forall>cd. \<exists>w. (rep_step (demo_rep_env cd))\<^sup>*\<^sup>* demo_started w \<and> rp_next_index (rw_rep w) = 2 \<and>
     length (rp_status_append_entries_in_fly (rw_rep w)) = length (rp_append_entries_in_fly (rw_rep w)) \<and>
     rp_flying_append_entries_size (rw_rep w) = (\<Sum>f \<leftarrow> rp_append_entries_in_fly (rw_rep w). fl_entries_size f)"
proof
  fix cd
  obtain evs w' where r: "on_rpc_returned (demo_rep_env cd) (demo_outcome None) 5 (demo_probe (demo_rep_env cd) 3) demo_refusal demo_started = Inr (evs, w')"
    "\<not> rp_destroyed (rw_rep w')" "rp_next_index (rw_rep w') = 2" using demo_refused by blast
  obtain evs0 where s: "rep_start (demo_rep_env cd) True True True True 5 0 \<lparr>ro_server_id = peer_n 1, ro_peer_id = peer_n 2, ro_term = 1\<rparr> (7::nat)
     demo_manager3 demo_box = Inr (OK0, evs0, Some demo_started)" using demo_start by blast
  have "rep_step (demo_rep_env cd) demo_started w'"
    using r(1) by (intro step_op [where op = "Rpc_returned (demo_outcome None) 5 (demo_probe (demo_rep_env cd) 3) demo_refusal"])
      (simp_all add: demo_started_def demo_refusal_def demo_probe_def last_log_index_of_def demo_rep_world_def demo_rep_def new_replicator_def)
  then have st: "(rep_step (demo_rep_env cd))\<^sup>*\<^sup>* demo_started w'" by (rule r_into_rtranclp)
  from replicator_accounting [OF s _ st r(2)] st r(3)
  show "\<exists>w. (rep_step (demo_rep_env cd))\<^sup>*\<^sup>* demo_started w \<and> rp_next_index (rw_rep w) = 2 \<and>
     length (rp_status_append_entries_in_fly (rw_rep w)) = length (rp_append_entries_in_fly (rw_rep w)) \<and>
     rp_flying_append_entries_size (rw_rep w) = (\<Sum>f \<leftarrow> rp_append_entries_in_fly (rw_rep w). fl_entries_size f)"
    by (simp add: demo_manager3_fields) blast
qed

text \<open>Entries 1 and 2 are in flight and the first rpc fails with \<open>EINTR\<close>.\<close>

theorem cancelled_answer_reads_empty_witness:
  "\<forall>cd. \<exists>evs w'. on_rpc_returned (demo_rep_env cd) (demo_outcome (Some EINTR)) 5 (demo_probe (demo_rep_env cd) 0) demo_refusal
       (upd_rep (record_sent 6 1) (upd_rep (record_sent 5 1) (demo_rep_world 1 [] demo_box))) = Inr (evs, w') \<and>
     Cancel_rpc 6 \<in> set evs \<and>
     on_rpc_returned (demo_rep_env cd) (demo_outcome (Some ESTOP)) 6 (demo_probe (demo_rep_env cd) 1) demo_refusal w' = Inl Empty_container"
proof
  fix cd
  let ?w = "upd_rep (record_sent 6 1) (upd_rep (record_sent 5 1) (demo_rep_world 1 [] demo_box))"
  have f: "rp_append_entries_in_fly (rw_rep ?w) = [\<lparr>fl_log_index = 1, fl_entries_size = 1, fl_call_id = 5\<rparr>, \<lparr>fl_log_index = 2, fl_entries_size = 1, fl_call_id = 6\<rparr>]"
    "rp_status_append_entries_in_fly (rw_rep ?w) = [True, True]" "\<not> rp_destroyed (rw_rep ?w)" "rp_wait_id (rw_rep ?w) = 0"
    "rs_st (rp_st (rw_rep ?w)) = APPENDING_ENTRIES"
    by (simp_all add: record_sent_def grow_oo_def Let_def demo_rep_world_def demo_rep_def new_replicator_def)
  have k: "find_flying (ae_prev_log_index (demo_probe (demo_rep_env cd) 0) + 1) 5 (rp_append_entries_in_fly (rw_rep ?w))
       (rp_status_append_entries_in_fly (rw_rep ?w)) = Inr (Some 0)" unfolding f by (simp add: demo_probe_def)
  have oc: "oc_error (demo_outcome (Some EINTR)) = Some EINTR" "oc_timer_added (demo_outcome (Some EINTR))" by (simp_all add: demo_outcome_def)
  obtain evs w' where r: "on_rpc_returned (demo_rep_env cd) (demo_outcome (Some EINTR)) 5 (demo_probe (demo_rep_env cd) 0) demo_refusal ?w = Inr (evs, w')"
    using f by (auto simp: on_rpc_returned_def with_lock_def min_flying_index_def demo_probe_def reset_next_index_def
        cancel_append_entries_rpcs_def rep_block_def demo_outcome_def Let_def)
  from cancelled_answer_reads_empty [OF k f(3) oc r, of 1] r f(1,2)
  show "\<exists>evs w'. on_rpc_returned (demo_rep_env cd) (demo_outcome (Some EINTR)) 5 (demo_probe (demo_rep_env cd) 0) demo_refusal ?w = Inr (evs, w') \<and>
     Cancel_rpc 6 \<in> set evs \<and>
     on_rpc_returned (demo_rep_env cd) (demo_outcome (Some ESTOP)) 6 (demo_probe (demo_rep_env cd) 1) demo_refusal w' = Inl Empty_container"
    by (intro exI [of _ evs] exI [of _ w']) simp
qed

text \<open>A blocked replicator is made readonly and writable again, which registers a waiter; then its block timer fires.\<close>

theorem block_timeout_locks_replicator_witness:
  "\<forall>cd. \<exists>w e1 w1 e2 w2 w3. w = upd_rep (\<lambda>r. r\<lparr>rp_st := (rp_st r)\<lparr>rs_st := BLOCKING\<rparr>\<rparr>) (demo_rep_world 4 [] demo_box) \<and>
     rep_change_readonly_config (demo_rep_env cd) True w = Inr (e1, w1) \<and> rep_change_readonly_config (demo_rep_env cd) False w1 = Inr (e2, w2) \<and>
     continue_sending (demo_rep_env cd) 5 ETIMEDOUT w2 = Inr ([], w3) \<and>
     (\<forall>w4. (rep_step (demo_rep_env cd))\<^sup>*\<^sup>* w3 w4 \<longrightarrow> rp_locked (rw_rep w4))"
proof
  fix cd
  let ?w = "upd_rep (\<lambda>r. r\<lparr>rp_st := (rp_st r)\<lparr>rs_st := BLOCKING\<rparr>\<rparr>) (demo_rep_world 4 [] demo_box)"
  have lm: "\<not> lm_stopped demo_manager3" "lm_next_wait_id demo_manager3 = 0"
    by (simp_all add: demo_manager3_def push_received_def demo_manager_def new_log_manager_def)
  obtain e1 w1 e2 w2 where c: "rep_change_readonly_config (demo_rep_env cd) True ?w = Inr (e1, w1)"
      "rep_change_readonly_config (demo_rep_env cd) False w1 = Inr (e2, w2)" "\<not> rp_destroyed (rw_rep w2)" "rp_wait_id (rw_rep w2) \<noteq> 0"
    by (simp add: rep_change_readonly_config_def with_lock_def wait_more_entries_def notify_on_new_log_def demo_rep_world_def demo_rep_def
        new_replicator_def demo_manager3_fields demo_rep_env_def Let_def case_prod_beta lm)
  from block_timeout_locks_replicator [OF c(3,4), of "demo_rep_env cd" 5]
  obtain w3 where w3: "continue_sending (demo_rep_env cd) 5 ETIMEDOUT w2 = Inr ([], w3)"
    "\<forall>w4. (rep_step (demo_rep_env cd))\<^sup>*\<^sup>* w3 w4 \<longrightarrow> rw_rep w4 = (rw_rep w2)\<lparr>rp_locked := True\<rparr>" by blast
  show "\<exists>w e1 w1 e2 w2 w3. w = ?w \<and>
     rep_change_readonly_config (demo_rep_env cd) True w = Inr (e1, w1) \<and> rep_change_readonly_config (demo_rep_env cd) False w1 = Inr (e2, w2) \<and>
     continue_sending (demo_rep_env cd) 5 ETIMEDOUT w2 = Inr ([], w3) \<and>
     (\<forall>w4. (rep_step (demo_rep_env cd))\<^sup>*\<^sup>* w3 w4 \<longrightarrow> rp_locked (rw_rep w4))"
    by (rule exI [of _ ?w], rule exI [of _ e1], rule exI [of _ w1], rule exI [of _ e2], rule exI [of _ w2], rule exI [of _ w3])
      (use c w3 in simp)
qed

end
