(* ===== verification/Replicator_Group.thy ===== *)
theory Replicator_Group
  imports Replicator_Run
begin

text \<open>
  \<open>ReplicatorGroup\<close> of \<open>src/cpp/replicator.h\<close> and \<open>replicator.cc\<close>: the replicators of a leader, one per follower, which share its log
  manager and ballot box. A \<open>ReplicatorId\<close> is the value of a bthread id; \<open>gw_reps\<close> gives the object behind each id. The argument that a
  replicator registers with the log manager is its id. A call on an id that is locked waits; the functions are the calls that find it
  unlocked.
\<close>

section \<open>State\<close>

text \<open>\<open>_rmap\<close> is a \<open>std::map\<close>: a list with ascending keys. \<open>rg_options_set\<close>: the pointers of \<open>_common_options\<close> are not \<open>NULL\<close>.\<close>

record replicator_group =
  rg_rmap :: "(peer_id \<times> nat) list"
  rg_common_options :: replicator_options
  rg_options_set :: bool
  rg_dynamic_timeout_ms :: int
  rg_election_timeout_ms :: int

record ('b, 'l, 'd) group_world =
  gw_group :: replicator_group
  gw_reps :: "nat \<rightharpoonup> ('d, nat) replicator"
  gw_log :: "('l, nat) log_manager"
  gw_box :: "'b ballot_box"

type_synonym ('b, 'l, 'd) group_result = "(('l, nat, 'd) rep_event list \<times> ('b, 'l, 'd) group_world) res"

definition new_replicator_group :: replicator_group where
  "new_replicator_group =
     \<lparr>rg_rmap = [], rg_common_options = \<lparr>ro_server_id = empty_peer, ro_peer_id = empty_peer, ro_term = 0\<rparr>, rg_options_set = False,
      rg_dynamic_timeout_ms = -1, rg_election_timeout_ms = -1\<rparr>"

definition group_init :: "peer_id \<Rightarrow> int \<Rightarrow> int \<Rightarrow> bool \<Rightarrow> replicator_group \<Rightarrow> rc \<times> replicator_group" where
  "group_init server_id heartbeat_timeout_ms election_timeout_ms options_set g =
     (OK0, g\<lparr>rg_dynamic_timeout_ms := heartbeat_timeout_ms, rg_election_timeout_ms := election_timeout_ms,
             rg_options_set := options_set, rg_common_options := (rg_common_options g)\<lparr>ro_term := 0, ro_server_id := server_id\<rparr>\<rparr>)"

text \<open>Operations of \<open>std::map\<close>: \<open>find\<close>, \<open>m[k] = v\<close> and \<open>erase\<close>.\<close>

abbreviation rmap_find :: "('b, 'l, 'd) group_world \<Rightarrow> peer_id \<Rightarrow> nat option" where
  "rmap_find gw p \<equiv> map_of (rg_rmap (gw_group gw)) p"

fun rmap_put :: "peer_id \<Rightarrow> nat \<Rightarrow> (peer_id \<times> nat) list \<Rightarrow> (peer_id \<times> nat) list" where
  "rmap_put p i [] = [(p, i)]"
| "rmap_put p i ((q, j) # m) = (if p < q then (p, i) # (q, j) # m else if p = q then (p, i) # m else (q, j) # rmap_put p i m)"

abbreviation upd_rmap :: "((peer_id \<times> nat) list \<Rightarrow> (peer_id \<times> nat) list) \<Rightarrow> ('b, 'l, 'd) group_world \<Rightarrow> ('b, 'l, 'd) group_world" where
  "upd_rmap f gw \<equiv> gw\<lparr>gw_group := (gw_group gw)\<lparr>rg_rmap := f (rg_rmap (gw_group gw))\<rparr>\<rparr>"

text \<open>A call on a replicator by its id.\<close>

definition rep_world_of :: "('d, nat) replicator \<Rightarrow> ('b, 'l, 'd) group_world \<Rightarrow> ('b, 'l, nat, 'd) rep_world" where
  "rep_world_of r gw = \<lparr>rw_rep = r, rw_log = gw_log gw, rw_box = gw_box gw\<rparr>"

definition with_replicator ::
    "nat \<Rightarrow> (('b, 'l, nat, 'd) rep_world \<Rightarrow> ('b, 'l, nat, 'd) rep_result) \<Rightarrow> ('b, 'l, 'd) group_world \<Rightarrow> ('b, 'l, 'd) group_result" where
  "with_replicator rid f gw =
     (case gw_reps gw rid of
        None \<Rightarrow> Inr ([], gw)
      | Some r \<Rightarrow>
          (case f (rep_world_of r gw) of
             Inl e \<Rightarrow> Inl e
           | Inr (evs, w) \<Rightarrow> Inr (evs, gw\<lparr>gw_reps := (gw_reps gw)(rid \<mapsto> rw_rep w), gw_log := rw_log w, gw_box := rw_box w\<rparr>)))"

definition rep_alive :: "nat \<Rightarrow> ('b, 'l, 'd) group_world \<Rightarrow> bool" where
  "rep_alive rid gw = (case gw_reps gw rid of None \<Rightarrow> False | Some r \<Rightarrow> \<not> rp_destroyed r)"

text \<open>The timeout that the options of a replicator point to.\<close>

definition group_env :: "rep_env \<Rightarrow> ('b, 'l, 'd) group_world \<Rightarrow> rep_env" where
  "group_env env gw = env\<lparr>re_heartbeat_timeout_ms := rg_dynamic_timeout_ms (gw_group gw)\<rparr>"

section \<open>Operations\<close>

text \<open>What is not decided by the state when a replicator starts: the channel, the new id, the timer, the id of the rpc and the clock.\<close>

record start_outcome =
  so_channel_ok :: bool
  so_new_id :: "nat option"
  so_timer_added :: bool
  so_call_id :: nat
  so_now :: int64

definition add_replicator ::
    "rep_env \<Rightarrow> start_outcome \<Rightarrow> peer_id \<Rightarrow> ('b, 'l, 'd) group_world \<Rightarrow>
      (rc \<times> ('l, nat, 'd) rep_event list \<times> ('b, 'l, 'd) group_world) res" where
  "add_replicator env so peer gw =
     (if rmap_find gw peer \<noteq> None then Inr (OK0, [], gw)
      else (let options = (rg_common_options (gw_group gw))\<lparr>ro_peer_id := peer\<rparr>; rid = (case so_new_id so of None \<Rightarrow> 0 | Some i \<Rightarrow> i)
            in case rep_start (group_env env gw) (rg_options_set (gw_group gw)) (so_channel_ok so) (so_new_id so \<noteq> None) (so_timer_added so)
                      (so_call_id so) (so_now so) options rid (gw_log gw) (gw_box gw) of
                 Inl f \<Rightarrow> Inl f
               | Inr (_, evs, None) \<Rightarrow> Inr (NEG1, evs, gw)
               | Inr (_, evs, Some w) \<Rightarrow>
                   Inr (OK0, evs, upd_rmap (rmap_put peer rid)
                     (gw\<lparr>gw_reps := (gw_reps gw)(rid \<mapsto> rw_rep w), gw_log := rw_log w, gw_box := rw_box w\<rparr>))))"

definition wait_caughtup ::
    "peer_id \<Rightarrow> int64 \<Rightarrow> bool \<Rightarrow> bool \<Rightarrow> 'd \<Rightarrow> ('b, 'l, 'd) group_world \<Rightarrow>
      (rc \<times> ('l, nat, 'd) rep_event list \<times> ('b, 'l, 'd) group_world) res" where
  "wait_caughtup peer max_margin has_due_time timer_added done gw =
     (case rmap_find gw peer of
        None \<Rightarrow> Inr (NEG1, [], gw)
      | Some rid \<Rightarrow>
          (case with_replicator rid (wait_for_caught_up max_margin has_due_time timer_added done) gw of
             Inl f \<Rightarrow> Inl f | Inr (evs, gw') \<Rightarrow> Inr (OK0, evs, gw')))"

definition group_last_rpc_send_timestamp :: "peer_id \<Rightarrow> ('b, 'l, 'd) group_world \<Rightarrow> int64" where
  "group_last_rpc_send_timestamp peer gw =
     (case rmap_find gw peer of
        None \<Rightarrow> 0
      | Some rid \<Rightarrow> (case gw_reps gw rid of None \<Rightarrow> 0 | Some r \<Rightarrow> rep_last_rpc_send_timestamp (rep_world_of r gw)))"

text \<open>\<open>Replicator::stop\<close> as it runs without another handler in between: the posted error is handled at once.\<close>

definition stop_id :: "bool \<Rightarrow> nat \<Rightarrow> ('b, 'l, 'd) group_world \<Rightarrow> ('b, 'l, 'd) group_result" where
  "stop_id timer_runs rid gw = then_do (with_replicator rid (rep_stop timer_runs) gw) (with_replicator rid (rep_on_error ESTOP))"

definition stop_replicator ::
    "bool \<Rightarrow> peer_id \<Rightarrow> ('b, 'l, 'd) group_world \<Rightarrow> (rc \<times> ('l, nat, 'd) rep_event list \<times> ('b, 'l, 'd) group_world) res" where
  "stop_replicator timer_runs peer gw =
     (case rmap_find gw peer of
        None \<Rightarrow> Inr (NEG1, [], gw)
      | Some rid \<Rightarrow>
          (case stop_id timer_runs rid (upd_rmap (filter (\<lambda>(q, _). q \<noteq> peer)) gw) of
             Inl f \<Rightarrow> Inl f | Inr (evs, gw') \<Rightarrow> Inr (OK0, evs, gw')))"

fun stop_ids :: "bool \<Rightarrow> nat list \<Rightarrow> ('b, 'l, 'd) group_world \<Rightarrow> ('b, 'l, 'd) group_result" where
  "stop_ids timer_runs [] gw = Inr ([], gw)"
| "stop_ids timer_runs (rid # rids) gw = then_do (stop_id timer_runs rid gw) (stop_ids timer_runs rids)"

definition stop_all :: "bool \<Rightarrow> ('b, 'l, 'd) group_world \<Rightarrow> ('b, 'l, 'd) group_result" where
  "stop_all timer_runs gw = stop_ids timer_runs (map snd (rg_rmap (gw_group gw))) (upd_rmap (\<lambda>_. []) gw)"

definition group_contains :: "peer_id \<Rightarrow> ('b, 'l, 'd) group_world \<Rightarrow> bool" where
  "group_contains peer gw \<longleftrightarrow> rmap_find gw peer \<noteq> None"

definition reset_term :: "int64 \<Rightarrow> ('b, 'l, 'd) group_world \<Rightarrow> rc \<times> ('b, 'l, 'd) group_world" where
  "reset_term new_term gw =
     (if new_term \<le> ro_term (rg_common_options (gw_group gw)) then (NEG1, gw)
      else (OK0, gw\<lparr>gw_group := (gw_group gw)\<lparr>rg_common_options := (rg_common_options (gw_group gw))\<lparr>ro_term := new_term\<rparr>\<rparr>\<rparr>))"

definition reset_heartbeat_interval :: "int \<Rightarrow> ('b, 'l, 'd) group_world \<Rightarrow> rc \<times> ('b, 'l, 'd) group_world" where
  "reset_heartbeat_interval ms gw = (OK0, gw\<lparr>gw_group := (gw_group gw)\<lparr>rg_dynamic_timeout_ms := ms\<rparr>\<rparr>)"

definition reset_election_timeout_interval :: "int \<Rightarrow> ('b, 'l, 'd) group_world \<Rightarrow> rc \<times> ('b, 'l, 'd) group_world" where
  "reset_election_timeout_interval ms gw = (OK0, gw\<lparr>gw_group := (gw_group gw)\<lparr>rg_election_timeout_ms := ms\<rparr>\<rparr>)"

text \<open>\<open>bthread_id_lock\<close> of a destroyed id gives \<open>EINVAL\<close>, which the two calls for a transfer pass on.\<close>

definition transfer_leadership_to ::
    "nat \<Rightarrow> peer_id \<Rightarrow> int64 \<Rightarrow> ('b, 'l, 'd) group_world \<Rightarrow> (rc \<times> ('l, nat, 'd) rep_event list \<times> ('b, 'l, 'd) group_world) res" where
  "transfer_leadership_to cid peer log_index gw =
     (case rmap_find gw peer of
        None \<Rightarrow> Inr (NEG1, [], gw)
      | Some rid \<Rightarrow>
          (case with_replicator rid (transfer_leadership cid log_index) gw of
             Inl f \<Rightarrow> Inl f | Inr (evs, gw') \<Rightarrow> Inr (if rep_alive rid gw then OK0 else EINVAL, evs, gw')))"

definition group_stop_transfer_leadership ::
    "peer_id \<Rightarrow> ('b, 'l, 'd) group_world \<Rightarrow> (rc \<times> ('l, nat, 'd) rep_event list \<times> ('b, 'l, 'd) group_world) res" where
  "group_stop_transfer_leadership peer gw =
     (case rmap_find gw peer of
        None \<Rightarrow> Inr (NEG1, [], gw)
      | Some rid \<Rightarrow>
          (case with_replicator rid Replicator.stop_transfer_leadership gw of
             Inl f \<Rightarrow> Inl f | Inr (evs, gw') \<Rightarrow> Inr (if rep_alive rid gw then OK0 else EINVAL, evs, gw')))"

definition next_index_of :: "nat \<Rightarrow> ('b, 'l, 'd) group_world \<Rightarrow> int64" where
  "next_index_of rid gw = (case gw_reps gw rid of None \<Rightarrow> 0 | Some r \<Rightarrow> get_next_index (rep_world_of r gw))"

text \<open>\<open>find_the_next_candidate\<close>: the loop keeps the first peer with the largest index seen so far.\<close>

fun candidate_loop ::
    "configuration_entry \<Rightarrow> ('b, 'l, 'd) group_world \<Rightarrow> (peer_id \<times> nat) list \<Rightarrow> int64 \<Rightarrow> peer_id \<Rightarrow> int64 \<times> peer_id" where
  "candidate_loop conf gw [] max_index peer = (max_index, peer)"
| "candidate_loop conf gw ((p, rid) # m) max_index peer =
     (if \<not> ce_contains conf p then candidate_loop conf gw m max_index peer
      else if next_index_of rid gw > max_index then candidate_loop conf gw m (next_index_of rid gw) p
      else candidate_loop conf gw m max_index peer)"

definition find_the_next_candidate :: "configuration_entry \<Rightarrow> ('b, 'l, 'd) group_world \<Rightarrow> rc \<times> peer_id" where
  "find_the_next_candidate conf gw =
     (let (max_index, peer) = candidate_loop conf gw (rg_rmap (gw_group gw)) 0 empty_peer
      in (if max_index = 0 then NEG1 else OK0, peer))"

text \<open>The id of the candidate is 0 (\<open>INVALID_BTHREAD_ID\<close>) when there is none; \<open>_rmap[\<dots>]\<close> would insert an entry with id 0 for an unknown peer.\<close>

definition stop_all_and_find_the_next_candidate ::
    "bool \<Rightarrow> configuration_entry \<Rightarrow> ('b, 'l, 'd) group_world \<Rightarrow> (nat \<times> ('l, nat, 'd) rep_event list \<times> ('b, 'l, 'd) group_world) res" where
  "stop_all_and_find_the_next_candidate timer_runs conf gw =
     (let (r, p) = find_the_next_candidate conf gw;
          candidate = (if r = OK0 then (case rmap_find gw p of None \<Rightarrow> 0 | Some rid \<Rightarrow> rid) else 0);
          gw1 = (if r = OK0 \<and> rmap_find gw p = None then upd_rmap (rmap_put p 0) gw else gw)
      in case stop_ids timer_runs (filter (\<lambda>rid. rid \<noteq> candidate) (map snd (rg_rmap (gw_group gw1)))) gw1 of
           Inl f \<Rightarrow> Inl f
         | Inr (evs, gw2) \<Rightarrow> Inr (candidate, evs, upd_rmap (\<lambda>_. []) gw2))"

definition list_replicators :: "('b, 'l, 'd) group_world \<Rightarrow> (peer_id \<times> nat) list" where
  "list_replicators gw = rg_rmap (gw_group gw)"

definition list_replicator_ids :: "('b, 'l, 'd) group_world \<Rightarrow> nat list" where
  "list_replicator_ids gw = map snd (rg_rmap (gw_group gw))"

definition change_readonly_config ::
    "rep_env \<Rightarrow> peer_id \<Rightarrow> bool \<Rightarrow> ('b, 'l, 'd) group_world \<Rightarrow> (rc \<times> ('l, nat, 'd) rep_event list \<times> ('b, 'l, 'd) group_world) res" where
  "change_readonly_config env peer readonly gw =
     (case rmap_find gw peer of
        None \<Rightarrow> Inr (NEG1, [], gw)
      | Some rid \<Rightarrow>
          (case with_replicator rid (rep_change_readonly_config (group_env env gw) readonly) gw of
             Inl f \<Rightarrow> Inl f | Inr (evs, gw') \<Rightarrow> Inr (OK0, evs, gw')))"

definition group_readonly :: "peer_id \<Rightarrow> ('b, 'l, 'd) group_world \<Rightarrow> bool" where
  "group_readonly peer gw =
     (case rmap_find gw peer of
        None \<Rightarrow> False
      | Some rid \<Rightarrow> (case gw_reps gw rid of None \<Rightarrow> False | Some r \<Rightarrow> rep_readonly (rep_world_of r gw)))"

section \<open>Handlers keep the options of a replicator\<close>

abbreviation opts :: "('b, 'l, 'w, 'd) rep_world \<Rightarrow> replicator_options" where
  "opts w \<equiv> rp_options (rw_rep w)"

lemma with_lock_opts:
  assumes "with_lock f w = Inr (evs, w')" "\<And>v evs w'. f v = Inr (evs, w') \<Longrightarrow> opts w' = opts v"
  shows "opts w' = opts w"
  using assms(1) assms(2) [of "upd_rep (\<lambda>r. r\<lparr>rp_locked := True\<rparr>) w" evs w'] by (auto simp: with_lock_def split: if_splits)

lemma destroy_opts [simp]: "opts (rep_destroy w) = opts w"
  by (simp add: rep_destroy_def)

lemma touch_opts [simp]: "rp_options (touch_timestamp t r) = rp_options r"
  by (simp add: touch_timestamp_def)

lemma record_sent_opts [simp]: "rp_options (record_sent cid n r) = rp_options r"
  by (simp add: record_sent_def grow_oo_def Let_def)

lemma cancel_opts: "cancel_append_entries_rpcs w = Inr (evs, w') \<Longrightarrow> opts w' = opts w"
  by (auto simp: cancel_append_entries_rpcs_def)

lemma send_empty_opts: "send_empty_entries env cid h w = Inr (evs, w') \<Longrightarrow> opts w' = opts w"
  by (auto simp: send_empty_entries_def split: sum.splits option.splits if_splits)

lemma wait_more_opts: "wait_more_entries env w = Inr (evs, w') \<Longrightarrow> opts w' = opts w"
  by (auto simp: wait_more_entries_def Let_def case_prod_beta split: if_splits)

lemma send_entries_opts: "send_entries env cid w = Inr (evs, w') \<Longrightarrow> opts w' = opts w"
  by (erule send_entries_cases) (auto dest!: wait_more_opts reset_books(6))

lemma block_opts: "rep_block env cid added e w = Inr (evs, w') \<Longrightarrow> opts w' = opts w"
  by (auto simp: rep_block_def split: if_splits dest: send_empty_opts)

lemma report_acked_opts: "report_acked i p n w = Inr (evs, w') \<Longrightarrow> opts w' = opts w"
  by (auto simp: report_acked_def Let_def case_prod_beta split: sum.splits if_splits)

lemma finish_rpc_opts: "finish_rpc k n w = Inr (evs, w') \<Longrightarrow> opts w' = opts w"
  by (auto simp: finish_rpc_def Let_def split: sum.splits)

lemma send_timeout_now_opts: "send_timeout_now cid u s ms w = Inr (evs, w') \<Longrightarrow> opts w' = opts w"
  by (auto simp: send_timeout_now_def Let_def split: if_splits)

lemma timeout_now_opts: "timeout_now_if_reached cid w = Inr (evs, w') \<Longrightarrow> opts w' = opts w"
  by (auto simp: timeout_now_if_reached_def split: sum.splits if_splits dest: send_timeout_now_opts)

lemmas part_opts = cancel_opts send_empty_opts wait_more_opts send_entries_opts block_opts report_acked_opts finish_rpc_opts
  send_timeout_now_opts timeout_now_opts reset_books(6) notify_books(4)

lemma refused_opts: "on_rpc_refused env oc response w = Inr (evs, w') \<Longrightarrow> opts w' = opts w"
  by (auto simp: on_rpc_refused_def split: if_splits elim!: then_doE dest!: part_opts)

lemma accepted_opts: "on_rpc_accepted env oc k request response w = Inr (evs, w') \<Longrightarrow> opts w' = opts w"
  by (auto simp: on_rpc_accepted_def Let_def split: if_splits elim!: then_doE dest!: part_opts)

lemma on_rpc_returned_opts: "on_rpc_returned env oc cid request response w = Inr (evs, w') \<Longrightarrow> opts w' = opts w"
  unfolding on_rpc_returned_def
  by (erule with_lock_opts)
    (auto simp: Let_def split: sum.splits option.splits if_splits elim!: then_doE dest!: refused_opts accepted_opts part_opts)

lemma wait_for_caught_up_opts: "wait_for_caught_up m d t c w = Inr (evs, w') \<Longrightarrow> opts w' = opts w"
  by (cases "rp_destroyed (rw_rep w)")
    (auto simp: wait_for_caught_up_def elim!: with_lock_opts split: if_splits sum.splits bool.splits)

lemma rep_do_opts: "rep_do env op w = Inr (evs, w') \<Longrightarrow> opts w' = opts w"
proof (cases op)
  case (Rpc_returned oc cid request response)
  moreover assume "rep_do env op w = Inr (evs, w')"
  ultimately show ?thesis by (auto dest: on_rpc_returned_opts)
next
  case (Wait_for_caught_up m d t c)
  moreover assume "rep_do env op w = Inr (evs, w')"
  ultimately show ?thesis by (auto dest: wait_for_caught_up_opts)
qed (auto simp: on_heartbeat_returned_def continue_sending_def send_heartbeat_def rep_on_error_def on_catch_up_timedout_def
      on_timeout_now_returned_def rep_stop_def transfer_leadership_def stop_transfer_leadership_def send_timeout_now_and_stop_def
      rep_change_readonly_config_def Let_def
      elim!: with_lock_opts then_doE split: option.splits if_splits sum.splits bool.splits dest!: part_opts)

section \<open>The group as a map from followers to replicators\<close>

lemma map_of_put [simp]: "map_of (rmap_put p i m) = (map_of m)(p \<mapsto> i)"
  by (induction p i m rule: rmap_put.induct) auto

lemma keys_put [simp]: "fst ` set (rmap_put p i m) = insert p (fst ` set m)"
  by (induction p i m rule: rmap_put.induct) auto

lemma sorted_put: "sorted_wrt (<) (map fst m) \<Longrightarrow> sorted_wrt (<) (map fst (rmap_put p i m))"
proof (induction p i m rule: rmap_put.induct)
  case (2 p i q j m)
  have "\<forall>a \<in> fst ` set (rmap_put p i m). q < a" if "\<not> p < q" "p \<noteq> q"
    using 2(2) that by auto
  with 2 show ?case by (auto dest: less_trans)
qed simp

lemma set_put: "set (rmap_put p i m) \<subseteq> insert (p, i) (set m)"
  by (induction p i m rule: rmap_put.induct) auto

lemma ids_put: "i \<notin> snd ` set m \<Longrightarrow> distinct (map snd m) \<Longrightarrow> distinct (map snd (rmap_put p i m))"
proof (induction p i m rule: rmap_put.induct)
  case (2 p i q j m)
  have "j \<notin> snd ` set (rmap_put p i m)" using 2(2,3) set_put [of p i m] by force
  with 2 show ?case by auto
qed simp

lemma with_replicator_opts:
  assumes "with_replicator rid f gw = Inr (evs, gw')" "\<And>w evs w'. f w = Inr (evs, w') \<Longrightarrow> opts w' = opts w"
  shows "gw_group gw' = gw_group gw \<and> map_option rp_options \<circ> gw_reps gw' = map_option rp_options \<circ> gw_reps gw"
proof (cases "gw_reps gw rid")
  case (Some r)
  then obtain w where f: "f (rep_world_of r gw) = Inr (evs, w)"
    "gw' = gw\<lparr>gw_reps := (gw_reps gw)(rid \<mapsto> rw_rep w), gw_log := rw_log w, gw_box := rw_box w\<rparr>"
    using assms(1) by (auto simp: with_replicator_def split: sum.splits)
  from assms(2) [OF f(1)] Some f(2) show ?thesis by (auto simp: rep_world_of_def)
qed (use assms(1) in \<open>simp add: with_replicator_def\<close>)

text \<open>The operations that neither start a replicator nor change the map.\<close>

definition same_members :: "('b, 'l, 'd) group_world \<Rightarrow> ('b, 'l, 'd) group_world \<Rightarrow> bool" where
  "same_members gw gw' \<longleftrightarrow> rg_rmap (gw_group gw') = rg_rmap (gw_group gw) \<and>
     ro_server_id (rg_common_options (gw_group gw')) = ro_server_id (rg_common_options (gw_group gw)) \<and>
     map_option rp_options \<circ> gw_reps gw' = map_option rp_options \<circ> gw_reps gw"

lemma same_members_trans: "same_members a b \<Longrightarrow> same_members b c \<Longrightarrow> same_members a c"
  by (simp add: same_members_def)

lemma rep_op_members:
  assumes "with_replicator rid f gw = Inr (evs, gw')" "\<And>w. f w = rep_do env op w"
  shows "same_members gw gw' \<and> gw_group gw' = gw_group gw"
proof -
  have "opts w' = opts w" if "f w = Inr (evs, w')" for w evs w' using that rep_do_opts [of env op w evs w'] assms(2) by simp
  from with_replicator_opts [OF assms(1) this] show ?thesis by (simp add: same_members_def)
qed

lemma stop_id_members:
  assumes "stop_id t rid gw = Inr (evs, gw')"
  shows "same_members gw gw' \<and> gw_group gw' = gw_group gw"
proof -
  obtain e1 gw1 e2 where s: "with_replicator rid (rep_stop t) gw = Inr (e1, gw1)" "with_replicator rid (rep_on_error ESTOP) gw1 = Inr (e2, gw')"
    using assms unfolding stop_id_def by (rule then_doE)
  show ?thesis
    using same_members_trans [of gw gw1 gw'] rep_op_members [OF s(1), of _ "Stop_op t"] rep_op_members [OF s(2), of _ "Error_posted ESTOP"] by simp
qed

lemma stop_ids_members: "stop_ids t rids gw = Inr (evs, gw') \<Longrightarrow> same_members gw gw' \<and> gw_group gw' = gw_group gw"
proof (induction rids arbitrary: gw evs)
  case Nil
  then show ?case by (simp add: same_members_def)
next
  case (Cons rid rids)
  obtain e1 gw1 e2 where s: "stop_id t rid gw = Inr (e1, gw1)" "stop_ids t rids gw1 = Inr (e2, gw')"
    using Cons.prems unfolding stop_ids.simps by (rule then_doE)
  show ?case using same_members_trans [of gw gw1 gw'] stop_id_members [OF s(1)] Cons.IH [OF s(2)] by simp
qed

lemma start_fields:
  assumes "rep_start env a b c t cid now options waiter lm bb = Inr (rc, evs, Some w)"
  shows "opts w = options" "rw_log w = lm" "rw_box w = bb"
proof -
  let ?w = "\<lparr>rw_rep = (new_replicator options waiter)\<lparr>rp_next_index := lm_last_log_index lm + 1,
      rp_last_rpc_send_timestamp := now, rp_locked := True\<rparr>, rw_log = lm, rw_box = bb\<rparr>"
  obtain evs1 where s: "send_empty_entries env cid False ?w = Inr (evs1, w)"
    using assms(1) by (auto simp: rep_start_def split: if_splits sum.splits)
  from send_empty_opts [OF s] show "opts w = options" by (simp add: new_replicator_def)
  show "rw_log w = lm" "rw_box w = bb" using s by (auto simp: send_empty_entries_def split: sum.splits option.splits)
qed

section \<open>Choosing a candidate\<close>

lemma candidate_loop_max:
  assumes "candidate_loop conf gw m k q = (k', q')"
  shows "(k' = k \<and> q' = q \<or> (\<exists>rid. (q', rid) \<in> set m \<and> ce_contains conf q' \<and> next_index_of rid gw = k' \<and> k < k')) \<and>
    (\<forall>(p, rid) \<in> set m. ce_contains conf p \<longrightarrow> next_index_of rid gw \<le> k')"
  using assms
proof (induction conf gw m k q rule: candidate_loop.induct)
  case (2 conf gw p rid m k q)
  consider "\<not> ce_contains conf p" | "ce_contains conf p" "next_index_of rid gw > k" | "ce_contains conf p" "\<not> next_index_of rid gw > k" by blast
  then show ?case
  proof cases
    case 1
    with 2 show ?thesis by auto
  next
    case c: 2
    with 2(2) [OF _ c(2)] 2(4) have ih: "(k' = next_index_of rid gw \<and> q' = p \<or>
        (\<exists>rid'. (q', rid') \<in> set m \<and> ce_contains conf q' \<and> next_index_of rid' gw = k' \<and> next_index_of rid gw < k')) \<and>
       (\<forall>(p, rid) \<in> set m. ce_contains conf p \<longrightarrow> next_index_of rid gw \<le> k')" by simp
    then show ?thesis using c by auto
  next
    case c: 3
    with 2(3) [OF _ c(2)] 2(4) have ih: "(k' = k \<and> q' = q \<or>
        (\<exists>rid'. (q', rid') \<in> set m \<and> ce_contains conf q' \<and> next_index_of rid' gw = k' \<and> k < k')) \<and>
       (\<forall>(p, rid) \<in> set m. ce_contains conf p \<longrightarrow> next_index_of rid gw \<le> k')" by simp
    moreover have "k \<le> k'" using ih by auto
    ultimately show ?thesis using c by auto
  qed
qed simp

text \<open>
  \<open>find_the_next_candidate\<close> succeeds exactly when some follower of the configuration has answered a request and has entries, and then it
  returns a follower of the configuration with the largest acknowledged next index.
\<close>

theorem next_candidate_is_furthest:
  assumes "find_the_next_candidate conf gw = (r, p)"
  shows "(r = OK0 \<longleftrightarrow> (\<exists>(q, rid) \<in> set (rg_rmap (gw_group gw)). ce_contains conf q \<and> next_index_of rid gw > 0)) \<and>
    (r = OK0 \<longrightarrow> (\<exists>rid. (p, rid) \<in> set (rg_rmap (gw_group gw)) \<and> ce_contains conf p \<and>
       (\<forall>(q, j) \<in> set (rg_rmap (gw_group gw)). ce_contains conf q \<longrightarrow> next_index_of j gw \<le> next_index_of rid gw)))"
proof -
  obtain k where c: "candidate_loop conf gw (rg_rmap (gw_group gw)) 0 empty_peer = (k, p)" "r = (if k = 0 then NEG1 else OK0)"
    using assms by (auto simp: find_the_next_candidate_def split: prod.splits)
  note m = candidate_loop_max [OF c(1)]
  show ?thesis
  proof (cases "k = 0")
    case True
    with m c(2) show ?thesis by fastforce
  next
    case False
    with m obtain rid where "(p, rid) \<in> set (rg_rmap (gw_group gw))" "ce_contains conf p" "next_index_of rid gw = k" "0 < k" by auto
    with m c(2) False show ?thesis by (intro conjI) (force, blast)
  qed
qed

section \<open>Stopping\<close>

lemma rep_stop_alive:
  assumes "\<not> rp_destroyed (rw_rep w)"
  shows "\<exists>evs. rep_stop t w = Inr (evs, upd_rep (\<lambda>r. r\<lparr>rp_catchup_closure := None, rp_locked := False\<rparr>) w)"
proof (cases "rp_catchup_closure (rw_rep w)")
  case None
  then have "rw_rep w = (rw_rep w)\<lparr>rp_catchup_closure := None\<rparr>" by simp
  with None assms show ?thesis by (simp add: rep_stop_def with_lock_def notify_on_caught_up_def)
next
  case (Some c)
  with assms show ?thesis by (simp add: rep_stop_def with_lock_def notify_on_caught_up_def run_catchup_def)
qed

lemma rep_on_error_stops:
  assumes "\<not> rp_destroyed (rw_rep w)" "rp_catchup_closure (rw_rep w) = None"
  shows "\<exists>evs w'. rep_on_error ESTOP w = Inr (evs, w') \<and> rp_destroyed (rw_rep w') \<and>
    (\<forall>f \<in> set (rp_append_entries_in_fly (rw_rep w)). Cancel_rpc (fl_call_id f) \<in> set evs) \<and>
    rp_wait_id (rw_rep w) \<notin> fst ` set (lm_wait_map (rw_log w'))"
  using assms
  by (auto simp: rep_on_error_def with_lock_def cancel_append_entries_rpcs_def notify_on_caught_up_def rep_destroy_def remove_waiter_def)

lemma stop_id_destroys:
  assumes "gw_reps gw rid = Some r"
  shows "\<exists>evs gw' r'. stop_id t rid gw = Inr (evs, gw') \<and> gw_group gw' = gw_group gw \<and> gw_reps gw' = (gw_reps gw)(rid \<mapsto> r') \<and> rp_destroyed r' \<and>
    (\<not> rp_destroyed r \<longrightarrow> (\<forall>f \<in> set (rp_append_entries_in_fly r). Cancel_rpc (fl_call_id f) \<in> set evs))"
proof (cases "rp_destroyed r")
  case True
  then have "stop_id t rid gw = Inr ([], gw)" using assms
    by (simp add: stop_id_def with_replicator_def rep_stop_def rep_on_error_def with_lock_def rep_world_of_def fun_upd_idem)
  then show ?thesis using True assms by (intro exI [of _ "[]"] exI [of _ gw] exI [of _ r]) (simp add: fun_upd_idem)
next
  case False
  let ?w = "rep_world_of r gw" and ?r1 = "r\<lparr>rp_catchup_closure := None, rp_locked := False\<rparr>"
  let ?gw1 = "gw\<lparr>gw_reps := (gw_reps gw)(rid \<mapsto> ?r1)\<rparr>"
  obtain e1 where s1: "rep_stop t ?w = Inr (e1, upd_rep (\<lambda>_. ?r1) ?w)"
    using rep_stop_alive [of ?w t] False by (auto simp: rep_world_of_def)
  have w1: "with_replicator rid (rep_stop t) gw = Inr (e1, ?gw1)" using assms s1 by (simp add: with_replicator_def rep_world_of_def)
  obtain e2 w2 where s2: "rep_on_error ESTOP (rep_world_of ?r1 ?gw1) = Inr (e2, w2)" "rp_destroyed (rw_rep w2)"
    "\<forall>f \<in> set (rp_append_entries_in_fly r). Cancel_rpc (fl_call_id f) \<in> set e2"
    using rep_on_error_stops [of "rep_world_of ?r1 ?gw1"] False by (auto simp: rep_world_of_def)
  show ?thesis using s2 by (auto simp: stop_id_def w1 with_replicator_def [of rid "rep_on_error ESTOP"])
qed

lemma stop_ids_destroys:
  assumes "set rids \<subseteq> dom (gw_reps gw)" "distinct rids"
  shows "\<exists>evs gw'. stop_ids t rids gw = Inr (evs, gw') \<and> gw_group gw' = gw_group gw \<and> (\<forall>i. i \<notin> set rids \<longrightarrow> gw_reps gw' i = gw_reps gw i) \<and>
    (\<forall>i \<in> set rids. (\<exists>r'. gw_reps gw' i = Some r' \<and> rp_destroyed r') \<and>
       (\<forall>r. gw_reps gw i = Some r \<and> \<not> rp_destroyed r \<longrightarrow> (\<forall>f \<in> set (rp_append_entries_in_fly r). Cancel_rpc (fl_call_id f) \<in> set evs)))"
  using assms
proof (induction rids arbitrary: gw)
  case (Cons i rids)
  then obtain r where r: "gw_reps gw i = Some r" by auto
  obtain e1 gw1 r1 where s: "stop_id t i gw = Inr (e1, gw1)" "gw_group gw1 = gw_group gw" "gw_reps gw1 = (gw_reps gw)(i \<mapsto> r1)" "rp_destroyed r1"
    "\<not> rp_destroyed r \<longrightarrow> (\<forall>f \<in> set (rp_append_entries_in_fly r). Cancel_rpc (fl_call_id f) \<in> set e1)"
    using stop_id_destroys [OF r, of t] by (elim exE conjE)
  have d: "set rids \<subseteq> dom (gw_reps gw1)" "distinct rids" "i \<notin> set rids" using Cons.prems s(3) by auto
  obtain e2 gw2 where t: "stop_ids t rids gw1 = Inr (e2, gw2)" "gw_group gw2 = gw_group gw1"
    "\<forall>j. j \<notin> set rids \<longrightarrow> gw_reps gw2 j = gw_reps gw1 j"
    "\<forall>j \<in> set rids. (\<exists>r'. gw_reps gw2 j = Some r' \<and> rp_destroyed r') \<and>
       (\<forall>r. gw_reps gw1 j = Some r \<and> \<not> rp_destroyed r \<longrightarrow> (\<forall>f \<in> set (rp_append_entries_in_fly r). Cancel_rpc (fl_call_id f) \<in> set e2))"
    using Cons.IH [OF d(1,2)] by (elim exE conjE)
  have "stop_ids t (i # rids) gw = Inr (e1 @ e2, gw2)" using s(1) t(1) by simp
  moreover have "\<forall>j \<in> set rids. \<forall>r. gw_reps gw j = Some r \<and> \<not> rp_destroyed r \<longrightarrow>
      (\<forall>f \<in> set (rp_append_entries_in_fly r). Cancel_rpc (fl_call_id f) \<in> set (e1 @ e2))"
  proof (intro ballI allI impI)
    fix j r f
    assume a: "j \<in> set rids" "gw_reps gw j = Some r \<and> \<not> rp_destroyed r" "f \<in> set (rp_append_entries_in_fly r)"
    then have "gw_reps gw1 j = Some r" using s(3) d(3) by auto
    with bspec [OF t(4) a(1)] a show "Cancel_rpc (fl_call_id f) \<in> set (e1 @ e2)" by auto
  qed
  ultimately show ?case using s t d(3) r by (intro exI [of _ "e1 @ e2"] exI [of _ gw2]) auto
qed simp

section \<open>The group over time\<close>

text \<open>
  All operations of the group, the handlers of its replicators, and changes of the log and the ballot box by the node; a new id is not in use.
\<close>

inductive group_step :: "rep_env \<Rightarrow> ('b, 'l, 'd) group_world \<Rightarrow> ('b, 'l, 'd) group_world \<Rightarrow> bool" for env where
  gs_add: "add_replicator env so p gw = Inr (r, evs, gw') \<Longrightarrow> (\<And>rid. so_new_id so = Some rid \<Longrightarrow> gw_reps gw rid = None) \<Longrightarrow> group_step env gw gw'"
| gs_stop: "stop_replicator t p gw = Inr (r, evs, gw') \<Longrightarrow> group_step env gw gw'"
| gs_stop_all: "stop_all t gw = Inr (evs, gw') \<Longrightarrow> group_step env gw gw'"
| gs_candidate: "stop_all_and_find_the_next_candidate t conf gw = Inr (c, evs, gw') \<Longrightarrow> group_step env gw gw'"
| gs_term: "reset_term i gw = (r, gw') \<Longrightarrow> group_step env gw gw'"
| gs_heartbeat: "reset_heartbeat_interval ms gw = (r, gw') \<Longrightarrow> group_step env gw gw'"
| gs_election: "reset_election_timeout_interval ms gw = (r, gw') \<Longrightarrow> group_step env gw gw'"
| gs_wait: "wait_caughtup p m d t c gw = Inr (r, evs, gw') \<Longrightarrow> group_step env gw gw'"
| gs_transfer: "transfer_leadership_to cid p i gw = Inr (r, evs, gw') \<Longrightarrow> group_step env gw gw'"
| gs_stop_transfer: "group_stop_transfer_leadership p gw = Inr (r, evs, gw') \<Longrightarrow> group_step env gw gw'"
| gs_readonly: "change_readonly_config env p b gw = Inr (r, evs, gw') \<Longrightarrow> group_step env gw gw'"
| gs_handler: "with_replicator rid (rep_do (group_env env gw) op) gw = Inr (evs, gw') \<Longrightarrow> group_step env gw gw'"
| gs_node: "group_step env gw (gw\<lparr>gw_log := lm, gw_box := bb\<rparr>)"

text \<open>What the group keeps: \<open>speaks_for\<close> says that a replicator works for a follower in the name of the group.\<close>

definition speaks_for :: "replicator_options \<Rightarrow> ('d, nat) replicator option \<Rightarrow> peer_id \<Rightarrow> bool" where
  "speaks_for common r p \<longleftrightarrow>
     (\<exists>opt. map_option rp_options r = Some opt \<and> ro_peer_id opt = p \<and> ro_server_id opt = ro_server_id common \<and> ro_term opt \<le> ro_term common)"

definition group_inv :: "('b, 'l, 'd) group_world \<Rightarrow> bool" where
  "group_inv gw \<longleftrightarrow>
     sorted_wrt (<) (map fst (rg_rmap (gw_group gw))) \<and> distinct (map snd (rg_rmap (gw_group gw))) \<and>
     (\<forall>(p, rid) \<in> set (rg_rmap (gw_group gw)). speaks_for (rg_common_options (gw_group gw)) (gw_reps gw rid) p)"

text \<open>An operation keeps the invariant when it keeps the options of all replicators, drops entries of the map at most and raises the term at most.\<close>

lemma group_inv_shrink:
  assumes "group_inv gw" "rg_rmap (gw_group gw') = filter P (rg_rmap (gw_group gw))"
    and "map_option rp_options \<circ> gw_reps gw' = map_option rp_options \<circ> gw_reps gw"
    and "ro_server_id (rg_common_options (gw_group gw')) = ro_server_id (rg_common_options (gw_group gw))"
    and "ro_term (rg_common_options (gw_group gw)) \<le> ro_term (rg_common_options (gw_group gw'))"
  shows "group_inv gw'"
proof -
  have "map_option rp_options (gw_reps gw' i) = map_option rp_options (gw_reps gw i)" for i using fun_cong [OF assms(3), of i] by simp
  then have "speaks_for (rg_common_options (gw_group gw')) (gw_reps gw' rid) p"
    if "speaks_for (rg_common_options (gw_group gw)) (gw_reps gw rid) p" for rid p
    using that assms(4,5) by (auto simp: speaks_for_def)
  moreover have "sorted_wrt (<) (map fst (filter P m))" if "sorted_wrt (<) (map fst m)" for m :: "(peer_id \<times> nat) list"
    using that by (simp add: sorted_wrt_map sorted_wrt_filter)
  ultimately show ?thesis using assms(1,2) by (auto simp: group_inv_def distinct_map_filter)
qed

lemma group_inv_same:
  assumes "group_inv gw" "same_members gw gw' \<and> gw_group gw' = gw_group gw"
  shows "group_inv gw'"
  using group_inv_shrink [OF assms(1), of gw' "\<lambda>_. True"] assms(2) by (simp add: same_members_def)

lemma add_replicator_inv:
  assumes "add_replicator env so p gw = Inr (r, evs, gw')" "\<And>rid. so_new_id so = Some rid \<Longrightarrow> gw_reps gw rid = None" "group_inv gw"
  shows "group_inv gw'"
proof (cases "gw' = gw")
  case False
  let ?opt = "(rg_common_options (gw_group gw))\<lparr>ro_peer_id := p\<rparr>"
  obtain rid w evs' rc where s: "so_new_id so = Some rid"
    "rep_start (group_env env gw) (rg_options_set (gw_group gw)) (so_channel_ok so) True (so_timer_added so) (so_call_id so) (so_now so) ?opt
       rid (gw_log gw) (gw_box gw) = Inr (rc, evs', Some w)"
    "gw' = upd_rmap (rmap_put p rid) (gw\<lparr>gw_reps := (gw_reps gw)(rid \<mapsto> rw_rep w), gw_log := rw_log w, gw_box := rw_box w\<rparr>)"
    "rmap_find gw p = None"
    using assms(1) False by (auto simp: add_replicator_def rep_start_def Let_def split: if_splits sum.splits option.splits)
  note inv = assms(3) [unfolded group_inv_def]
  have free: "gw_reps gw rid = None" using assms(2) s(1) .
  then have new: "rid \<notin> snd ` set (rg_rmap (gw_group gw))" using inv by (force simp: speaks_for_def)
  have "speaks_for (rg_common_options (gw_group gw)) (((gw_reps gw)(rid \<mapsto> rw_rep w)) i) q"
    if "(q, i) \<in> set (rmap_put p rid (rg_rmap (gw_group gw)))" for q i
  proof (cases "(q, i) = (p, rid)")
    case True
    then show ?thesis using start_fields(1) [OF s(2)] by (simp add: speaks_for_def)
  next
    case False
    then have m: "(q, i) \<in> set (rg_rmap (gw_group gw))" using that set_put [of p rid "rg_rmap (gw_group gw)"] by blast
    then have "i \<noteq> rid" using new by force
    then show ?thesis using m inv by auto
  qed
  then have "\<forall>(q, i) \<in> set (rmap_put p rid (rg_rmap (gw_group gw))).
      speaks_for (rg_common_options (gw_group gw)) (((gw_reps gw)(rid \<mapsto> rw_rep w)) i) q" by blast
  then show ?thesis using inv sorted_put ids_put [OF new] by (simp add: group_inv_def s(3))
qed (use assms in simp)

lemma group_step_inv: "group_step env gw gw' \<Longrightarrow> group_inv gw \<Longrightarrow> group_inv gw'"
proof (induction rule: group_step.induct)
  case (gs_add so p gw r evs gw')
  then show ?case using add_replicator_inv by blast
next
  case (gs_stop t p gw r evs gw')
  show ?case
  proof (cases "rmap_find gw p")
    case (Some rid)
    with gs_stop(1) have "stop_id t rid (upd_rmap (filter (\<lambda>(q, _). q \<noteq> p)) gw) = Inr (evs, gw')"
      by (auto simp: stop_replicator_def split: sum.splits)
    from stop_id_members [OF this] show ?thesis
      by (intro group_inv_shrink [OF gs_stop(2), of _ "\<lambda>(q, _). q \<noteq> p"]) (simp_all add: same_members_def)
  qed (use gs_stop in \<open>auto simp: stop_replicator_def\<close>)
next
  case (gs_stop_all t gw evs gw')
  from stop_ids_members [OF gs_stop_all(1) [unfolded stop_all_def]] show ?case
    by (intro group_inv_shrink [OF gs_stop_all(2), of _ "\<lambda>_. False"]) (simp_all add: same_members_def)
next
  case (gs_candidate t conf gw c evs gw')
  let ?gw1 = "if fst (find_the_next_candidate conf gw) = OK0 \<and> rmap_find gw (snd (find_the_next_candidate conf gw)) = None
     then upd_rmap (rmap_put (snd (find_the_next_candidate conf gw)) 0) gw else gw"
  from gs_candidate(1) obtain gw2 rids where "stop_ids t rids ?gw1 = Inr (evs, gw2)" "gw' = upd_rmap (\<lambda>_. []) gw2"
    by (auto simp: stop_all_and_find_the_next_candidate_def Let_def case_prod_beta split: sum.splits)
  with stop_ids_members [OF this(1)] show ?case
    by (intro group_inv_shrink [OF gs_candidate(2), of _ "\<lambda>_. False"]) (auto simp: same_members_def)
next
  case (gs_term i gw r gw')
  then show ?case
    by (intro group_inv_shrink [OF gs_term(2), of _ "\<lambda>_. True"]) (auto simp: reset_term_def split: if_splits)
next
  case (gs_wait p m d t c gw r evs gw')
  then show ?case by (auto simp: wait_caughtup_def split: option.splits sum.splits
      dest!: rep_op_members [of _ "wait_for_caught_up m d t c" _ _ _ undefined "Wait_for_caught_up m d t c"] intro: group_inv_same)
next
  case (gs_transfer cid p i gw r evs gw')
  then show ?case by (auto simp: transfer_leadership_to_def split: option.splits sum.splits
      dest!: rep_op_members [of _ "transfer_leadership cid i" _ _ _ undefined "Transfer_leadership cid i"] intro: group_inv_same)
next
  case (gs_stop_transfer p gw r evs gw')
  then show ?case by (auto simp: group_stop_transfer_leadership_def split: option.splits sum.splits
      dest!: rep_op_members [of _ Replicator.stop_transfer_leadership _ _ _ undefined Stop_transfer_leadership] intro: group_inv_same)
next
  case (gs_readonly p b gw r evs gw')
  then show ?case by (auto simp: change_readonly_config_def split: option.splits sum.splits
      dest!: rep_op_members [of _ "rep_change_readonly_config (group_env env gw) b" _ _ _ "group_env env gw" "Change_readonly_config b"]
      intro: group_inv_same)
next
  case (gs_handler rid gw op evs gw')
  from rep_op_members [OF gs_handler(1) refl] gs_handler(2) show ?case by (blast intro: group_inv_same)
next
  case (gs_node gw lm bb)
  then show ?case by (simp add: group_inv_def)
qed (auto simp: reset_heartbeat_interval_def reset_election_timeout_interval_def group_inv_def)

lemma group_start_inv: "group_inv \<lparr>gw_group = snd (group_init s h e b new_replicator_group), gw_reps = \<lambda>_. None, gw_log = lm, gw_box = bb\<rparr>"
  by (simp add: group_inv_def group_init_def new_replicator_group_def)

lemma group_reach_inv:
  assumes "(group_step env)\<^sup>*\<^sup>* \<lparr>gw_group = snd (group_init s h e b new_replicator_group), gw_reps = \<lambda>_. None, gw_log = lm, gw_box = bb\<rparr> gw"
  shows "group_inv gw"
  using assms
proof (induction rule: rtranclp_induct)
  case base
  show ?case by (rule group_start_inv)
next
  case (step y z)
  then show ?case using group_step_inv by blast
qed

text \<open>
  C20. However the operations of a group, the handlers of its replicators and the node interleave, the group has at most one replicator for a
  follower, no two followers share one, and the replicator of a follower sends to that follower, in the name of this server and in a term
  that is not later than the one of the group.
\<close>

theorem one_replicator_per_follower:
  assumes "(group_step env)\<^sup>*\<^sup>* \<lparr>gw_group = snd (group_init s h e b new_replicator_group), gw_reps = \<lambda>_. None, gw_log = lm, gw_box = bb\<rparr> gw"
    and "(p, rid) \<in> set (list_replicators gw)"
  shows "(\<forall>q j. (q, j) \<in> set (list_replicators gw) \<longrightarrow> (q = p \<longleftrightarrow> j = rid)) \<and>
    (\<exists>r. gw_reps gw rid = Some r \<and> ro_peer_id (rp_options r) = p \<and>
       ro_server_id (rp_options r) = ro_server_id (rg_common_options (gw_group gw)) \<and>
       ro_term (rp_options r) \<le> ro_term (rg_common_options (gw_group gw)))"
proof -
  note inv = group_reach_inv [OF assms(1), unfolded group_inv_def] and m = assms(2) [unfolded list_replicators_def]
  have keys: "distinct (map fst (rg_rmap (gw_group gw)))" using inv strict_sorted_iff by blast
  have "q = p \<longleftrightarrow> j = rid" if q: "(q, j) \<in> set (rg_rmap (gw_group gw))" for q j
    using eq_key_imp_eq_value [OF keys, of p] inv m q by (auto dest: inj_onD [of snd _ "(q, j)" "(p, rid)"] simp: distinct_map)
  moreover have "speaks_for (rg_common_options (gw_group gw)) (gw_reps gw rid) p" using inv m by blast
  ultimately show ?thesis by (auto simp: speaks_for_def list_replicators_def)
qed

text \<open>
  \<open>stop_all\<close> always completes: the map is empty afterwards, every replicator that was in it is destroyed, and every rpc that was in flight
  is cancelled.
\<close>

theorem stop_all_stops_every_replicator:
  assumes "(group_step env)\<^sup>*\<^sup>* \<lparr>gw_group = snd (group_init s h e b new_replicator_group), gw_reps = \<lambda>_. None, gw_log = lm, gw_box = bb\<rparr> gw"
  shows "\<exists>evs gw'. stop_all t gw = Inr (evs, gw') \<and> list_replicators gw' = [] \<and>
    (\<forall>rid \<in> set (list_replicator_ids gw). \<not> rep_alive rid gw' \<and>
       (\<forall>r. gw_reps gw rid = Some r \<and> \<not> rp_destroyed r \<longrightarrow>
          (\<forall>f \<in> set (rp_append_entries_in_fly r). Cancel_rpc (fl_call_id f) \<in> set evs)))"
proof -
  note inv = group_reach_inv [OF assms, unfolded group_inv_def]
  let ?ids = "map snd (rg_rmap (gw_group gw))" and ?gw = "upd_rmap (\<lambda>_. []) gw"
  have "set ?ids \<subseteq> dom (gw_reps ?gw)" using inv by (auto simp: speaks_for_def)
  from stop_ids_destroys [OF this, of t] inv obtain evs gw' where "stop_ids t ?ids ?gw = Inr (evs, gw')" "gw_group gw' = gw_group ?gw"
    "\<forall>i \<in> set ?ids. (\<exists>r'. gw_reps gw' i = Some r' \<and> rp_destroyed r') \<and>
       (\<forall>r. gw_reps ?gw i = Some r \<and> \<not> rp_destroyed r \<longrightarrow> (\<forall>f \<in> set (rp_append_entries_in_fly r). Cancel_rpc (fl_call_id f) \<in> set evs))"
    by blast
  then show ?thesis
    by (intro exI [of _ evs] exI [of _ gw']) (auto simp: stop_all_def list_replicators_def list_replicator_ids_def rep_alive_def)
qed

section \<open>A leader that is elected again\<close>

text \<open>What the group does with the calls of the node (\<open>node.cc\<close>, \<open>become_leader\<close>).\<close>

definition add_one ::
    "rep_env \<Rightarrow> (peer_id \<Rightarrow> start_outcome) \<Rightarrow> peer_id \<Rightarrow> ('b, 'l, 'd) group_world \<Rightarrow> ('b, 'l, 'd) group_result" where
  "add_one env so p gw = (case add_replicator env (so p) p gw of Inl f \<Rightarrow> Inl f | Inr (_, evs, gw') \<Rightarrow> Inr (evs, gw'))"

fun group_do ::
    "rep_env \<Rightarrow> (peer_id \<Rightarrow> start_outcome) \<Rightarrow> ('c, 'r, 'v) node_event \<Rightarrow> ('b, 'l, 'd) group_world \<Rightarrow> ('b, 'l, 'd) group_result" where
  "group_do env so (Reset_replicator_term t) gw = Inr ([], snd (reset_term t gw))"
| "group_do env so (Add_replicator p) gw = add_one env so p gw"
| "group_do env so _ gw = Inr ([], gw)"

fun group_run ::
    "rep_env \<Rightarrow> (peer_id \<Rightarrow> start_outcome) \<Rightarrow> ('c, 'r, 'v) node_event list \<Rightarrow> ('b, 'l, 'd) group_world \<Rightarrow> ('b, 'l, 'd) group_result" where
  "group_run env so [] gw = Inr ([], gw)"
| "group_run env so (ev # evs) gw = then_do (group_do env so ev gw) (group_run env so evs)"

fun add_all ::
    "rep_env \<Rightarrow> (peer_id \<Rightarrow> start_outcome) \<Rightarrow> peer_id list \<Rightarrow> ('b, 'l, 'd) group_world \<Rightarrow> ('b, 'l, 'd) group_result" where
  "add_all env so [] gw = Inr ([], gw)"
| "add_all env so (p # ps) gw = then_do (add_one env so p gw) (add_all env so ps)"

lemma group_run_adds: "group_run env so (map Add_replicator ps @ [Start_timer k]) gw = add_all env so ps gw"
  by (induction ps arbitrary: gw) (auto simp: then_do_def split: sum.splits)

lemma become_leader_run:
  "group_run env so (fst (become_leader nd)) gw =
    add_all env so (filter (\<lambda>p. p \<noteq> nd_server_id nd) (conf_list_peers (ce_list_peers (nd_conf nd)))) (snd (reset_term (nd_current_term nd) gw))"
  by (simp add: become_leader_def group_run_adds) (auto simp: then_do_def split: sum.splits)

definition other_peers :: "('c, 'r, 'v) node \<Rightarrow> peer_id set" where
  "other_peers nd = {p. p |\<in>| ce_list_peers (nd_conf nd) \<and> p \<noteq> nd_server_id nd}"

lemma adds_known:
  "\<forall>p \<in> set ps. rmap_find gw p \<noteq> None \<Longrightarrow> add_all env so ps gw = Inr ([], gw)"
  by (induction ps) (auto simp: add_one_def add_replicator_def)

text \<open>The replicators of the group are for peers of \<open>ps\<close>, have the term \<open>t\<close> and the ids \<open>ids\<close>.\<close>

definition all_in_term :: "peer_id set \<Rightarrow> (peer_id \<Rightarrow> nat) \<Rightarrow> int64 \<Rightarrow> ('b, 'l, 'd) group_world \<Rightarrow> bool" where
  "all_in_term S ids t gw \<longleftrightarrow>
     (\<forall>p rid. rmap_find gw p = Some rid \<longrightarrow> p \<in> S \<and> rid = ids p \<and> (\<exists>opt. map_option rp_options (gw_reps gw rid) = Some opt \<and> ro_term opt = t))"

lemma add_in_term:
  assumes "add_one env so p gw = Inr (evs, gw')" "all_in_term S ids t gw" "inj_on ids S" "p \<in> S"
    and "so_new_id (so p) = Some (ids p)" "so_channel_ok (so p)" "rg_options_set (gw_group gw)" "ro_term (rg_common_options (gw_group gw)) = t"
  shows "all_in_term S ids t gw' \<and> rmap_find gw' p \<noteq> None \<and> (\<forall>q. rmap_find gw q \<noteq> None \<longrightarrow> rmap_find gw' q \<noteq> None) \<and>
    rg_options_set (gw_group gw') \<and> ro_term (rg_common_options (gw_group gw')) = t"
proof (cases "rmap_find gw p")
  case None
  let ?opt = "(rg_common_options (gw_group gw))\<lparr>ro_peer_id := p\<rparr>"
  obtain w evs' rc where s: "rep_start (group_env env gw) True True True (so_timer_added (so p)) (so_call_id (so p)) (so_now (so p)) ?opt
       (ids p) (gw_log gw) (gw_box gw) = Inr (rc, evs', Some w)"
    "gw' = upd_rmap (rmap_put p (ids p)) (gw\<lparr>gw_reps := (gw_reps gw)(ids p \<mapsto> rw_rep w), gw_log := rw_log w, gw_box := rw_box w\<rparr>)"
    using assms(1,5-7) None by (auto simp: add_one_def add_replicator_def rep_start_def Let_def split: if_splits sum.splits option.splits)
  have "ro_term (rp_options (rw_rep w)) = t" using start_fields(1) [OF s(1)] assms(8) by simp
  moreover have "q \<noteq> p \<Longrightarrow> q \<in> S \<Longrightarrow> ids q \<noteq> ids p" for q using assms(3,4) by (auto dest: inj_onD)
  ultimately have "all_in_term S ids t gw'" using assms(2,4) s(2) by (auto simp: all_in_term_def)
  with s(2) assms(7,8) show ?thesis by simp
qed (use assms in \<open>simp add: add_one_def add_replicator_def\<close>)

lemma adds_in_term:
  assumes "add_all env so ps gw = Inr (evs, gw')" "all_in_term S ids t gw" "inj_on ids S" "set ps \<subseteq> S"
    and "\<forall>p \<in> S. so_new_id (so p) = Some (ids p) \<and> so_channel_ok (so p)" "rg_options_set (gw_group gw)" "ro_term (rg_common_options (gw_group gw)) = t"
  shows "all_in_term S ids t gw' \<and> (\<forall>p \<in> set ps. rmap_find gw' p \<noteq> None) \<and> (\<forall>q. rmap_find gw q \<noteq> None \<longrightarrow> rmap_find gw' q \<noteq> None)"
  using assms
proof (induction ps arbitrary: gw evs)
  case (Cons p ps)
  obtain e1 gw1 e2 where s: "add_one env so p gw = Inr (e1, gw1)" "add_all env so ps gw1 = Inr (e2, gw')"
    using Cons.prems(1) unfolding add_all.simps by (rule then_doE)
  from add_in_term [OF s(1) Cons.prems(2,3) _ _ _ Cons.prems(6,7)] Cons.prems(4,5)
  have 1: "set ps \<subseteq> S" "all_in_term S ids t gw1" "rmap_find gw1 p \<noteq> None" "\<forall>q. rmap_find gw q \<noteq> None \<longrightarrow> rmap_find gw1 q \<noteq> None"
    "rg_options_set (gw_group gw1)" "ro_term (rg_common_options (gw_group gw1)) = t" by auto
  from Cons.IH [OF s(2) 1(2) Cons.prems(3) 1(1) Cons.prems(5) 1(5,6)] 1(3,4) show ?case by simp
qed simp

text \<open>Between two leaderships the handlers of the replicators run and the node changes its log and ballot box.\<close>

inductive rep_turn :: "rep_env \<Rightarrow> ('b, 'l, 'd) group_world \<Rightarrow> ('b, 'l, 'd) group_world \<Rightarrow> bool" for env where
  rt_handler: "with_replicator rid (rep_do (group_env env gw) op) gw = Inr (evs, gw') \<Longrightarrow> rep_turn env gw gw'"
| rt_node: "rep_turn env gw (gw\<lparr>gw_log := lm, gw_box := bb\<rparr>)"

lemma rep_turns_members: "(rep_turn env)\<^sup>*\<^sup>* gw gw' \<Longrightarrow> same_members gw gw'"
proof (induction rule: rtranclp_induct)
  case base
  show ?case by (simp add: same_members_def)
next
  case (step y z)
  have "same_members y z" using step(2) by cases (use rep_op_members in blast, simp add: same_members_def)
  with step(3) show ?case by (rule same_members_trans)
qed


section \<open>Examples\<close>

text \<open>The group of server 1 with the log \<open>demo_manager3\<close>; the ids of new replicators are the addresses of the followers.\<close>

definition demo_group :: "(nat, nat, nat) group_world" where
  "demo_group = \<lparr>gw_group = snd (group_init (peer_n 1) 100 1000 True new_replicator_group), gw_reps = \<lambda>_. None, gw_log = demo_manager3, gw_box = demo_box\<rparr>"

definition demo_so :: "peer_id \<Rightarrow> start_outcome" where
  "demo_so p = \<lparr>so_channel_ok = True, so_new_id = Some (peer_ip p), so_timer_added = True, so_call_id = 5, so_now = 0\<rparr>"

lemma start_ok:
  assumes "lm_get_term (lm_last_log_index lm) lm = Inr t"
  shows "\<exists>evs w. rep_start env True True True added cid now options waiter lm bb = Inr (OK0, evs, Some w)"
  using assms by (auto simp: rep_start_def send_empty_entries_def fill_common_fields_def Let_def case_prod_beta)

lemma demo_last_term: "lm_get_term (lm_last_log_index demo_manager3) demo_manager3 = Inr 1"
  by (simp add: demo_manager3_fields demo_manager3_terms)

lemma demo_adds:
  fixes gw :: "('b, nat, 'd) group_world"
  assumes "gw_log gw = demo_manager3" "rg_options_set (gw_group gw)"
  shows "\<exists>evs gw'. add_all env demo_so ps gw = Inr (evs, gw')"
  using assms
proof (induction ps arbitrary: gw)
  case (Cons p ps)
  have "\<exists>evs gw1. add_one env demo_so p gw = Inr (evs, gw1) \<and> gw_log gw1 = demo_manager3 \<and> rg_options_set (gw_group gw1)"
  proof (cases "rmap_find gw p")
    case None
    obtain evs and w :: "('b, nat, nat, 'd) rep_world" where s: "rep_start (group_env env gw) True True True True 5 0 ((rg_common_options (gw_group gw))\<lparr>ro_peer_id := p\<rparr>) (peer_ip p)
        (gw_log gw) (gw_box gw) = Inr (OK0, evs, Some w)"
      unfolding Cons.prems(1) using start_ok [OF demo_last_term] by blast
    with None Cons.prems show ?thesis by (simp add: add_one_def add_replicator_def demo_so_def Let_def start_fields [OF s])
  qed (use Cons.prems in \<open>auto simp: add_one_def add_replicator_def\<close>)
  then obtain evs gw1 where "add_one env demo_so p gw = Inr (evs, gw1)" "gw_log gw1 = demo_manager3" "rg_options_set (gw_group gw1)" by blast
  with Cons.IH [of gw1] show ?case by auto
qed simp

lemma demo_other_peers: "other_peers (demo_node 1) = {peer_n 2, peer_n 3}" "other_peers ((demo_node 1)\<lparr>nd_current_term := 3\<rparr>) = {peer_n 2, peer_n 3}"
  by (auto simp: other_peers_def demo_node_def ce_list_peers_def append_peers_def conf3_def)


lemma demo_one_added:
  "\<exists>gw. (group_step env)\<^sup>*\<^sup>* demo_group gw \<and> list_replicators gw = [(peer_n 2, 2)] \<and> rep_alive 2 gw"
proof -
  let ?gw = "snd (reset_term 1 demo_group)"
  let ?opt = "(rg_common_options (gw_group ?gw))\<lparr>ro_peer_id := peer_n 2\<rparr>"
  have f: "rg_rmap (gw_group ?gw) = []" "rg_options_set (gw_group ?gw)" "gw_log ?gw = demo_manager3" "gw_reps ?gw = (\<lambda>_. None)" "peer_ip (peer_n 2) = 2"
    by (simp_all add: reset_term_def demo_group_def group_init_def new_replicator_group_def peer_n_def)
  obtain evs and w :: "(nat, nat, nat, nat) rep_world" where s: "rep_start (group_env env ?gw) True True True True 5 0 ?opt 2 (gw_log ?gw) (gw_box ?gw) = Inr (OK0, evs, Some w)"
    unfolding f(3) using start_ok [OF demo_last_term] by blast
  let ?gw1 = "upd_rmap (rmap_put (peer_n 2) 2) (?gw\<lparr>gw_reps := (gw_reps ?gw)(2 \<mapsto> rw_rep w), gw_log := rw_log w, gw_box := rw_box w\<rparr>)"
  have a: "add_replicator env (demo_so (peer_n 2)) (peer_n 2) ?gw = Inr (OK0, evs, ?gw1)"
    using f s by (simp add: add_replicator_def demo_so_def)
  have "group_step env demo_group ?gw" by (rule gs_term [of 1 _ "fst (reset_term 1 demo_group)"]) simp
  moreover have "group_step env ?gw ?gw1" by (rule gs_add [OF a]) (simp add: f)
  ultimately have "(group_step env)\<^sup>*\<^sup>* demo_group ?gw1" by (meson converse_rtranclp_into_rtranclp r_into_rtranclp)
  moreover have "\<not> rp_destroyed (rw_rep w)"
    using s by (auto simp: rep_start_def send_empty_entries_def new_replicator_def split: sum.splits option.splits)
  ultimately show ?thesis using f(1) by (intro exI [of _ ?gw1]) (simp add: list_replicators_def rep_alive_def)
qed

theorem one_replicator_per_follower_witness:
  "\<forall>env. \<exists>gw r. (group_step env)\<^sup>*\<^sup>* demo_group gw \<and> list_replicators gw = [(peer_n 2, 2)] \<and> gw_reps gw 2 = Some r \<and> ro_peer_id (rp_options r) = peer_n 2"
proof
  fix env
  obtain gw where g: "(group_step env)\<^sup>*\<^sup>* demo_group gw" "list_replicators gw = [(peer_n 2, 2)]" using demo_one_added by blast
  from one_replicator_per_follower [OF g(1) [unfolded demo_group_def], of "peer_n 2" 2] g
  show "\<exists>gw r. (group_step env)\<^sup>*\<^sup>* demo_group gw \<and> list_replicators gw = [(peer_n 2, 2)] \<and> gw_reps gw 2 = Some r \<and> ro_peer_id (rp_options r) = peer_n 2"
    by auto
qed

theorem stop_all_stops_every_replicator_witness:
  "\<forall>env. \<exists>gw evs gw'. (group_step env)\<^sup>*\<^sup>* demo_group gw \<and> rep_alive 2 gw \<and> stop_all False gw = Inr (evs, gw') \<and>
     list_replicators gw' = [] \<and> \<not> rep_alive 2 gw'"
proof
  fix env
  obtain gw where g: "(group_step env)\<^sup>*\<^sup>* demo_group gw" "list_replicators gw = [(peer_n 2, 2)]" "rep_alive 2 gw" using demo_one_added by blast
  then have i: "2 \<in> set (list_replicator_ids gw)" by (simp add: list_replicators_def list_replicator_ids_def)
  from stop_all_stops_every_replicator [OF g(1) [unfolded demo_group_def], of False] g i
  show "\<exists>gw evs gw'. (group_step env)\<^sup>*\<^sup>* demo_group gw \<and> rep_alive 2 gw \<and> stop_all False gw = Inr (evs, gw') \<and>
     list_replicators gw' = [] \<and> \<not> rep_alive 2 gw'" by blast
qed

text \<open>Follower 2 has confirmed its log up to 1, follower 3 up to 3, and peer 9 is not in the configuration.\<close>

theorem next_candidate_is_furthest_witness:
  "\<exists>gw. list_replicators gw = [(peer_n 2, 1), (peer_n 3, 2), (peer_n 9, 3)] \<and>
     find_the_next_candidate \<lparr>ce_id = new_log_id, ce_conf = conf3, ce_old_conf = {||}\<rparr> gw = (OK0, peer_n 3) \<and>
     (\<exists>rid. (peer_n 3, rid) \<in> set (list_replicators gw) \<and> next_index_of 1 gw \<le> next_index_of rid (gw :: (nat, nat, nat) group_world))"
proof -
  let ?r = "\<lambda>i. Some ((demo_rep i [])\<lparr>rp_has_succeeded := True\<rparr>)" and ?m = "[(peer_n 2, 1), (peer_n 3, 2), (peer_n 9, 3)]"
  let ?gw = "(upd_rmap (\<lambda>_. ?m) demo_group)\<lparr>gw_reps := (\<lambda>_. None)(1 := ?r 2, 2 := ?r 4, 3 := ?r 9)\<rparr>"
  let ?c = "\<lparr>ce_id = new_log_id, ce_conf = conf3, ce_old_conf = {||}\<rparr>"
  have n: "next_index_of 1 ?gw = 2" "next_index_of 2 ?gw = 4" "next_index_of 3 ?gw = 9"
    by (simp_all add: next_index_of_def get_next_index_def rep_world_of_def demo_rep_def new_replicator_def)
  have m: "rg_rmap (gw_group ?gw) = ?m" by simp
  have f: "find_the_next_candidate ?c ?gw = (OK0, peer_n 3)"
    unfolding find_the_next_candidate_def m candidate_loop.simps n
    by (simp add: ce_contains_def conf_contains_def conf3_def peer_n_def)
  from next_candidate_is_furthest [OF f, unfolded m] have "\<exists>rid. (peer_n 3, rid) \<in> set ?m \<and> next_index_of 1 ?gw \<le> next_index_of rid ?gw"
    by (auto simp: ce_contains_def conf_contains_def conf3_def peer_n_def)
  moreover have "list_replicators ?gw = ?m" by (simp only: list_replicators_def m)
  ultimately show ?thesis using f by (intro exI [of _ ?gw]) simp
qed

end
