(* ===== verification/Fsm_Caller.thy ===== *)
theory Fsm_Caller
  imports Closure_Queue Log_Manager
begin

text \<open>
  \<open>src/cpp/fsm_caller.h\<close> and \<open>fsm_caller.cc\<close>: the thread that applies committed entries to the state
  machine of the user, and \<open>Iterator\<close> of \<open>raft.cc\<close>, through which the user sees them. The execution queue
  of bthread decides which tasks form a batch; a batch is an argument of \<open>fsm_run\<close>. \<open>_fsm\<close>, \<open>_log_manager\<close> and
  \<open>_closure_queue\<close> are not \<open>NULL\<close> once \<open>init\<close> returned 0, and no task runs before that.
\<close>

section \<open>Data\<close>

datatype error_type =
    ERROR_TYPE_NONE
  | ERROR_TYPE_LOG
  | ERROR_TYPE_STABLE
  | ERROR_TYPE_SNAPSHOT
  | ERROR_TYPE_STATE_MACHINE

record raft_error =
  er_type :: error_type
  er_status :: rc

definition no_error :: raft_error where
  "no_error = \<lparr>er_type = ERROR_TYPE_NONE, er_status = OK0\<rparr>"

record leader_change_context =
  lc_leader_id :: peer_id
  lc_term :: int64
  lc_status :: rc

datatype task_type =
    IDLE
  | COMMITTED
  | SNAPSHOT_SAVE
  | SNAPSHOT_LOAD
  | LEADER_STOP
  | LEADER_START
  | START_FOLLOWING
  | STOP_FOLLOWING
  | ERROR

text \<open>\<open>ApplyTask\<close>: a constructor per type that is ever queued, with the member of the union it uses.\<close>

datatype fsm_task =
    Committed_task int64 "int64 list"
  | Leader_stop_task rc
  | Leader_start_task int64
  | Start_following_task leader_change_context
  | Stop_following_task leader_change_context
  | Error_task raft_error

text \<open>
  What the user does with the entry it is shown: apply it and move on, report a critical error for the last entries,
  or return from \<open>on_apply\<close> although the iterator is still valid. The user is a function of its own state and of the
  entry; as \<open>raft.h\<close> asks, it uses the iterator only while it is valid.
\<close>

datatype sm_action = Sm_next | Sm_error nat | Sm_return

type_synonym ('m, 'c) state_machine = "'m \<Rightarrow> int64 \<Rightarrow> log_entry \<Rightarrow> 'c option \<Rightarrow> sm_action \<times> 'm"

text \<open>The calls that leave the component, in order.\<close>

datatype ('c, 'w) fsm_event =
    On_apply int64 log_entry "'c option" sm_action
  | On_configuration_committed configuration int64
  | Run_done 'c
  | Run_with_error 'c rc
  | On_error raft_error
  | Node_on_error raft_error
  | On_leader_stop rc
  | On_leader_start int64
  | On_start_following leader_change_context
  | On_stop_following leader_change_context
  | On_shutdown
  | Node_release
  | Run_after_shutdown 'c
  | Fsm_log_event "('c, 'w) lm_event"

section \<open>The iterator\<close>

record 'c iterator_impl =
  it_closure :: "'c option list"
  it_it :: int64
  it_actural_index :: int64
  it_committed_index :: int64
  it_last_applied_index :: int64
  it_cur_entry :: "log_entry option"
  it_applying_index :: int64
  it_error :: raft_error
  it_index_list :: "int64 list"

text \<open>
  \<open>next\<close>: without closures the sequential indexes are added to the list one by one, behind the out-of-order ones.
\<close>

definition it_grow :: "'c iterator_impl \<Rightarrow> 'c iterator_impl" where
  "it_grow it =
     (if it_closure it = [] \<and> it_last_applied_index it < it_committed_index it
      then it\<lparr>it_last_applied_index := it_last_applied_index it + 1,
              it_index_list := it_index_list it @ [it_last_applied_index it + 1]\<rparr>
      else it)"

definition it_next :: "codec \<Rightarrow> 'c iterator_impl \<Rightarrow> ('c, 'w) log_manager \<Rightarrow>
    ('c iterator_impl \<times> ('c, 'w) fsm_event list \<times> ('c, 'w) log_manager) res" where
  "it_next cd it0 lm =
     (let it = it_grow (it0\<lparr>it_cur_entry := None\<rparr>); k = it_it it + 1
      in if k \<ge> int (length (it_index_list it)) then Inr (it\<lparr>it_it := -1\<rparr>, [], lm)
         else (case at_index (it_index_list it) k of
                 Inl f \<Rightarrow> Inl f
               | Inr i \<Rightarrow>
                   (case lm_get_entry cd i lm of
                      Inl f \<Rightarrow> Inl f
                    | Inr (e, levs, lm') \<Rightarrow>
                        Inr (it\<lparr>it_it := k, it_actural_index := i, it_cur_entry := e,
                               it_error := (case e of None \<Rightarrow> \<lparr>er_type = ERROR_TYPE_LOG, er_status = NEG1\<rparr> | Some _ \<Rightarrow> it_error it),
                               it_applying_index := i\<rparr>,
                             map Fsm_log_event levs, lm'))))"

text \<open>The constructor ends with \<open>next\<close>.\<close>

definition new_iterator :: "codec \<Rightarrow> 'c option list \<Rightarrow> int64 \<Rightarrow> int64 \<Rightarrow> int64 \<Rightarrow> int64 list \<Rightarrow> ('c, 'w) log_manager \<Rightarrow>
    ('c iterator_impl \<times> ('c, 'w) fsm_event list \<times> ('c, 'w) log_manager) res" where
  "new_iterator cd closure last_applied_index committed_index applying_index index_list lm =
     it_next cd
       \<lparr>it_closure = closure, it_it = -1, it_actural_index = 0, it_committed_index = committed_index,
        it_last_applied_index = last_applied_index, it_cur_entry = None, it_applying_index = applying_index,
        it_error = no_error, it_index_list = index_list\<rparr> lm"

definition it_has_error :: "'c iterator_impl \<Rightarrow> bool" where
  "it_has_error it \<longleftrightarrow> er_type (it_error it) \<noteq> ERROR_TYPE_NONE"

definition it_is_good :: "'c iterator_impl \<Rightarrow> bool" where
  "it_is_good it \<longleftrightarrow> it_it it \<ge> 0 \<and> \<not> it_has_error it"

definition it_done :: "'c iterator_impl \<Rightarrow> 'c option res" where
  "it_done it = (if it_closure it = [] then Inr None else at_index (it_closure it) (it_it it))"

text \<open>\<open>CHECK(false)\<close> of \<open>ntail == 0\<close> only logs, then the function returns.\<close>

definition set_error_and_rollback :: "nat \<Rightarrow> 'c iterator_impl \<Rightarrow> 'c iterator_impl" where
  "set_error_and_rollback ntail it =
     (if ntail = 0 then it
      else it\<lparr>it_cur_entry := None, it_error := \<lparr>er_type = ERROR_TYPE_STATE_MACHINE, er_status = ESTATEMACHINE\<rparr>\<rparr>)"

text \<open>
  The loop \<open>for (i = _it; i <= size; ++i)\<close> compares signed with unsigned: from \<open>_it = -1\<close> it does not run.
\<close>

fun rest_closures :: "'c option list \<Rightarrow> rc \<Rightarrow> int64 list \<Rightarrow> ('c, 'w) fsm_event list res" where
  "rest_closures cs st [] = Inr []"
| "rest_closures cs st (i # is) =
     (case at_index cs i of
        Inl f \<Rightarrow> Inl f
      | Inr c \<Rightarrow>
          (case rest_closures cs st is of
             Inl f \<Rightarrow> Inl f
           | Inr evs \<Rightarrow> Inr ((case c of None \<Rightarrow> [] | Some d \<Rightarrow> [Run_with_error d st]) @ evs)))"

definition run_the_rest_closure_with_error :: "'c iterator_impl \<Rightarrow> ('c, 'w) fsm_event list res" where
  "run_the_rest_closure_with_error it =
     (if it_it it < 0 then Inr []
      else rest_closures (it_closure it) (er_status (it_error it)) [it_it it..int (length (it_index_list it))])"

text \<open>
  \<open>Iterator::valid\<close>. A good iterator has an entry, because \<open>next\<close> sets the error when it finds none.
\<close>

definition it_valid :: "'c iterator_impl \<Rightarrow> bool" where
  "it_valid it \<longleftrightarrow> it_is_good it \<and> (case it_cur_entry it of None \<Rightarrow> False | Some e \<Rightarrow> le_type e = ENTRY_TYPE_DATA)"

text \<open>The number of turns a loop over the iterator can still make.\<close>

definition it_rank :: "'c iterator_impl \<Rightarrow> nat" where
  "it_rank it =
     (if it_is_good it
      then Suc (nat (int (length (it_index_list it)) - it_it it) + nat (it_committed_index it - it_last_applied_index it))
      else 0)"

lemma it_grow_fields [simp]:
  "it_it (it_grow it) = it_it it" "it_error (it_grow it) = it_error it" "it_closure (it_grow it) = it_closure it"
  "it_committed_index (it_grow it) = it_committed_index it" "it_cur_entry (it_grow it) = it_cur_entry it"
  "it_actural_index (it_grow it) = it_actural_index it" "it_applying_index (it_grow it) = it_applying_index it"
  by (simp_all add: it_grow_def)

lemma it_next_rank:
  assumes "it_is_good it" "it_next cd it lm = Inr (it', evs, lm')"
  shows "it_rank it' < it_rank it"
proof (cases "it_is_good it'")
  case False
  then show ?thesis using assms(1) by (simp add: it_rank_def)
next
  case True
  let ?g = "it_grow (it\<lparr>it_cur_entry := None\<rparr>)"
  have nn: "0 \<le> it_it it" using assms(1) by (simp add: it_is_good_def)
  have k: "it_it it + 1 < int (length (it_index_list ?g))"
    using assms(2) True by (auto simp: it_next_def Let_def it_is_good_def split: if_splits)
  then have f: "it_it it' = it_it it + 1" "it_index_list it' = it_index_list ?g"
    "it_committed_index it' = it_committed_index it" "it_last_applied_index it' = it_last_applied_index ?g"
    using assms(2) by (auto simp: it_next_def Let_def split: sum.splits prod.splits)
  show ?thesis
    using nn k True assms(1) by (auto simp: it_rank_def f) (auto simp: it_grow_def split: if_splits)
qed

section \<open>Applying a batch of entries\<close>

text \<open>
  \<open>StateMachine::on_apply\<close> as the user runs it: it is shown the current entry with its closure, answers, and goes on while the
  iterator is valid.
\<close>

function on_apply_loop ::
    "codec \<Rightarrow> ('m, 'c) state_machine \<Rightarrow> 'm \<Rightarrow> 'c iterator_impl \<Rightarrow> ('c, 'w) log_manager \<Rightarrow>
      ('m \<times> ('c, 'w) fsm_event list \<times> 'c iterator_impl \<times> ('c, 'w) log_manager) res" where
  "on_apply_loop cd app m it lm =
     (if \<not> it_valid it then Inr (m, [], it, lm)
      else (case (it_cur_entry it, it_done it) of
              (None, _) \<Rightarrow> Inl Null_deref
            | (_, Inl f) \<Rightarrow> Inl f
            | (Some e, Inr c) \<Rightarrow>
                (case app m (it_actural_index it) e c of
                   (Sm_return, m') \<Rightarrow> Inr (m', [On_apply (it_actural_index it) e c Sm_return], it, lm)
                 | (Sm_error n, m') \<Rightarrow>
                     Inr (m', [On_apply (it_actural_index it) e c (Sm_error n)], set_error_and_rollback n it, lm)
                 | (Sm_next, m') \<Rightarrow>
                     (case it_next cd it lm of
                        Inl f \<Rightarrow> Inl f
                      | Inr (it', levs, lm') \<Rightarrow>
                          (case on_apply_loop cd app m' it' lm' of
                             Inl f \<Rightarrow> Inl f
                           | Inr (m2, evs, it2, lm2) \<Rightarrow>
                               Inr (m2, On_apply (it_actural_index it) e c Sm_next # levs @ evs, it2, lm2))))))"
  by pat_completeness auto
termination
  by (relation "measure (\<lambda>(cd, app, m, it, lm). it_rank it)") (auto simp: it_valid_def intro: it_next_rank)

declare on_apply_loop.simps [simp del]

lemma on_apply_loop_rank:
  "on_apply_loop cd app m it lm = Inr (m', evs, it', lm') \<Longrightarrow>
     it_rank it' \<le> it_rank it \<and> (it_valid it \<longrightarrow> it_rank it' < it_rank it \<or> it_valid it')"
proof (induction cd app m it lm arbitrary: m' evs it' lm' rule: on_apply_loop.induct)
  case (1 cd app m it lm)
  show ?case
  proof (cases "it_valid it")
    case False
    with "1.prems" show ?thesis by (simp add: on_apply_loop.simps [of cd app m it lm])
  next
    case True
    then have good: "it_is_good it" by (simp add: it_valid_def)
    from True obtain e where e: "it_cur_entry it = Some e" by (auto simp: it_valid_def split: option.splits)
    note unf = on_apply_loop.simps [of cd app m it lm]
    from "1.prems" True e obtain c where c: "it_done it = Inr c"
      by (cases "it_done it") (auto simp: unf)
    obtain act m1 where act: "app m (it_actural_index it) e c = (act, m1)" by fastforce
    show ?thesis
    proof (cases act)
      case Sm_next
      with "1.prems" True e c act obtain it1 levs lm1 where nx: "it_next cd it lm = Inr (it1, levs, lm1)"
        by (cases "it_next cd it lm") (auto simp: unf)
      with "1.prems" True e c act Sm_next obtain evs1 where
        rec: "on_apply_loop cd app m1 it1 lm1 = Inr (m', evs1, it', lm')"
        by (cases "on_apply_loop cd app m1 it1 lm1") (auto simp: unf)
      have "it_rank it' \<le> it_rank it1"
        using "1.IH" True e c act Sm_next nx rec by fastforce
      with it_next_rank [OF good nx] show ?thesis by simp
    next
      case (Sm_error n)
      have ng: "n \<noteq> 0 \<Longrightarrow> \<not> it_is_good (set_error_and_rollback n it)"
        by (simp add: it_is_good_def it_has_error_def set_error_and_rollback_def)
      have pos: "0 < it_rank it" using good by (simp add: it_rank_def)
      have "it' = set_error_and_rollback n it"
        using "1.prems" True e c act Sm_error by (simp add: unf)
      with ng pos True show ?thesis
        by (cases "n = 0") (simp_all add: it_rank_def set_error_and_rollback_def)
    next
      case Sm_return
      with "1.prems" True e c act show ?thesis by (simp add: unf)
    qed
  qed
qed

text \<open>One turn of the loop of \<open>do_committed\<close>.\<close>

definition conf_events :: "log_entry \<Rightarrow> ('c, 'w) fsm_event list res" where
  "conf_events e =
     (if le_type e = ENTRY_TYPE_CONFIGURATION \<and> le_old_peers e = None
      then (case le_peers e of
              None \<Rightarrow> Inl Null_deref
            | Some ps \<Rightarrow> Inr [On_configuration_committed (conf_of_vector ps) (le_index e)])
      else Inr [])"

definition committed_turn ::
    "codec \<Rightarrow> ('m, 'c) state_machine \<Rightarrow> 'm \<Rightarrow> 'c iterator_impl \<Rightarrow> ('c, 'w) log_manager \<Rightarrow>
      ('m \<times> ('c, 'w) fsm_event list \<times> 'c iterator_impl \<times> ('c, 'w) log_manager) res" where
  "committed_turn cd app m it lm =
     (case it_cur_entry it of
        None \<Rightarrow> Inl Null_deref
      | Some e \<Rightarrow>
          if le_type e \<noteq> ENTRY_TYPE_DATA
          then (case conf_events e of
                  Inl f \<Rightarrow> Inl f
                | Inr cevs \<Rightarrow>
                    (case it_done it of
                       Inl f \<Rightarrow> Inl f
                     | Inr c \<Rightarrow>
                         (case it_next cd it lm of
                            Inl f \<Rightarrow> Inl f
                          | Inr (it', levs, lm') \<Rightarrow>
                              Inr (m, cevs @ (case c of None \<Rightarrow> [] | Some d \<Rightarrow> [Run_done d]) @ levs, it', lm'))))
          else (case on_apply_loop cd app m it lm of
                  Inl f \<Rightarrow> Inl f
                | Inr (m', evs, it', lm') \<Rightarrow>
                    if it_valid it'
                    then (case it_next cd it' lm' of
                            Inl f \<Rightarrow> Inl f
                          | Inr (it2, levs, lm2) \<Rightarrow> Inr (m', evs @ levs, it2, lm2))
                    else Inr (m', evs, it', lm')))"

lemma committed_turn_rank:
  assumes good: "it_is_good it" and turn: "committed_turn cd app m it lm = Inr (m', evs, it', lm')"
  shows "it_rank it' < it_rank it"
proof -
  from turn obtain e where e: "it_cur_entry it = Some e"
    by (auto simp: committed_turn_def split: option.splits)
  show ?thesis
  proof (cases "le_type e = ENTRY_TYPE_DATA")
    case False
    with turn e obtain evs' lm1 where "it_next cd it lm = Inr (it', evs', lm1)"
      by (auto simp: committed_turn_def split: sum.splits prod.splits)
    then show ?thesis by (rule it_next_rank [OF good])
  next
    case True
    with good e have v: "it_valid it" by (simp add: it_valid_def)
    from turn e True obtain m1 evs1 it1 lm1 where
      ap: "on_apply_loop cd app m it lm = Inr (m1, evs1, it1, lm1)"
      by (cases "on_apply_loop cd app m it lm") (auto simp: committed_turn_def)
    show ?thesis
    proof (cases "it_valid it1")
      case vt: True
      with turn e True ap obtain evs2 lm2 where "it_next cd it1 lm1 = Inr (it', evs2, lm2)"
        by (auto simp: committed_turn_def split: sum.splits prod.splits)
      from it_next_rank [OF _ this] vt have "it_rank it' < it_rank it1" by (simp add: it_valid_def)
      with on_apply_loop_rank [OF ap] show ?thesis by simp
    next
      case False
      with turn e True ap have "it' = it1" by (simp add: committed_turn_def)
      with on_apply_loop_rank [OF ap] v False show ?thesis by simp
    qed
  qed
qed

function committed_loop ::
    "codec \<Rightarrow> ('m, 'c) state_machine \<Rightarrow> 'm \<Rightarrow> 'c iterator_impl \<Rightarrow> ('c, 'w) log_manager \<Rightarrow>
      ('m \<times> ('c, 'w) fsm_event list \<times> 'c iterator_impl \<times> ('c, 'w) log_manager) res" where
  "committed_loop cd app m it lm =
     (if \<not> it_is_good it then Inr (m, [], it, lm)
      else (case committed_turn cd app m it lm of
              Inl f \<Rightarrow> Inl f
            | Inr (m', evs, it', lm') \<Rightarrow>
                (case committed_loop cd app m' it' lm' of
                   Inl f \<Rightarrow> Inl f
                 | Inr (m2, evs2, it2, lm2) \<Rightarrow> Inr (m2, evs @ evs2, it2, lm2))))"
  by pat_completeness auto
termination
  by (relation "measure (\<lambda>(cd, app, m, it, lm). it_rank it)") (auto intro: committed_turn_rank)

declare committed_loop.simps [simp del]

section \<open>The caller\<close>

record 'c fsm_caller =
  fc_last_applied_index :: int64
  fc_oo_apply_queue :: "bool list"
  fc_last_applied_term :: int64
  fc_after_shutdown :: "'c option"
  fc_node :: bool
  fc_cur_task :: task_type
  fc_applying_index :: int64
  fc_error :: raft_error
  fc_queue_started :: bool

definition new_fsm_caller :: "'c fsm_caller" where
  "new_fsm_caller =
     \<lparr>fc_last_applied_index = 0, fc_oo_apply_queue = [], fc_last_applied_term = 0, fc_after_shutdown = None, fc_node = False,
      fc_cur_task = IDLE, fc_applying_index = 0, fc_error = no_error, fc_queue_started = False\<rparr>"

text \<open>
  \<open>init\<close>: which pointers of the options are set, and whether the execution queue started, are arguments.
\<close>

definition fsm_caller_init ::
    "bool \<Rightarrow> bool \<Rightarrow> bool \<Rightarrow> 'c option \<Rightarrow> bool \<Rightarrow> log_id \<Rightarrow> bool \<Rightarrow> 'c fsm_caller \<Rightarrow> rc \<times> 'c fsm_caller" where
  "fsm_caller_init has_log_manager has_fsm has_closure_queue after_shutdown has_node bootstrap_id started fc =
     (if \<not> has_log_manager \<or> \<not> has_fsm \<or> \<not> has_closure_queue then (EINVAL, fc)
      else (let fc1 = fc\<lparr>fc_after_shutdown := after_shutdown, fc_node := has_node,
                         fc_last_applied_index := id_index bootstrap_id, fc_last_applied_term := id_term bootstrap_id\<rparr>
            in if \<not> started then (NEG1, fc1) else (OK0, fc1\<lparr>fc_queue_started := True\<rparr>)))"

text \<open>\<open>shutdown\<close> and \<open>join\<close>: the results of stopping and joining the queue are arguments.\<close>

definition fsm_shutdown :: "rc \<Rightarrow> 'c fsm_caller \<Rightarrow> rc" where
  "fsm_shutdown stop_ret fc = (if fc_queue_started fc then stop_ret else OK0)"

definition fsm_join :: "'c fsm_caller \<Rightarrow> 'c fsm_caller" where
  "fsm_join fc = fc\<lparr>fc_queue_started := False\<rparr>"

definition do_shutdown :: "'c fsm_caller \<Rightarrow> ('c, 'w) fsm_event list \<times> 'c fsm_caller" where
  "do_shutdown fc =
     ((if fc_node fc then [Node_release] else []) @ [On_shutdown] @
        (case fc_after_shutdown fc of None \<Rightarrow> [] | Some c \<Rightarrow> [Run_after_shutdown c]),
      fc\<lparr>fc_node := False, fc_after_shutdown := None\<rparr>)"

text \<open>
  The public operations make a task and give it to the execution queue, whose answer is an argument. A refused task is
  deleted.
\<close>

definition fsm_execute :: "rc \<Rightarrow> fsm_task \<Rightarrow> rc \<times> fsm_task list" where
  "fsm_execute ret t = (if ret \<noteq> OK0 then (NEG1, []) else (OK0, [t]))"

definition on_committed :: "rc \<Rightarrow> int64 \<Rightarrow> int64 list \<Rightarrow> rc \<times> fsm_task list" where
  "on_committed ret committed_index oo =
     (ret, if ret \<noteq> OK0 then [] else [Committed_task committed_index (dropWhile (\<lambda>i. i \<le> committed_index) oo)])"

definition on_leader_start :: "rc \<Rightarrow> int64 \<Rightarrow> rc \<times> fsm_task list" where
  "on_leader_start ret t = (ret, if ret \<noteq> OK0 then [] else [Leader_start_task t])"

definition on_leader_stop :: "rc \<Rightarrow> rc \<Rightarrow> rc \<times> fsm_task list" where
  "on_leader_stop ret st = fsm_execute ret (Leader_stop_task st)"

definition on_start_following :: "rc \<Rightarrow> leader_change_context \<Rightarrow> rc \<times> fsm_task list" where
  "on_start_following ret ctx = fsm_execute ret (Start_following_task ctx)"

definition on_stop_following :: "rc \<Rightarrow> leader_change_context \<Rightarrow> rc \<times> fsm_task list" where
  "on_stop_following ret ctx = fsm_execute ret (Stop_following_task ctx)"

definition fsm_on_error :: "rc \<Rightarrow> raft_error \<Rightarrow> rc \<times> fsm_task list" where
  "fsm_on_error ret e = fsm_execute ret (Error_task e)"

definition set_error :: "raft_error \<Rightarrow> 'c fsm_caller \<Rightarrow> ('c, 'w) fsm_event list \<times> 'c fsm_caller" where
  "set_error e fc =
     (if er_type (fc_error fc) \<noteq> ERROR_TYPE_NONE then ([], fc)
      else ([On_error e] @ (if fc_node fc then [Node_on_error e] else []), fc\<lparr>fc_error := e\<rparr>))"

definition applying_index :: "'c fsm_caller \<Rightarrow> int64" where
  "applying_index fc = (if fc_cur_task fc \<noteq> COMMITTED then 0 else fc_applying_index fc)"

text \<open>The components that the caller works on, beside its own fields.\<close>

record ('m, 'c, 'w) fsm_world =
  fw_caller :: "'c fsm_caller"
  fw_machine :: 'm
  fw_closure_queue :: "'c closure_queue"
  fw_log_manager :: "('c, 'w) log_manager"

text \<open>\<open>do_committed\<close>, first part: hand out the closures and run the state machine over the entries.\<close>

definition apply_committed ::
    "codec \<Rightarrow> ('m, 'c) state_machine \<Rightarrow> int64 \<Rightarrow> int64 list \<Rightarrow> ('m, 'c, 'w) fsm_world \<Rightarrow>
      (('c, 'w) fsm_event list \<times> int64 list \<times> ('m, 'c, 'w) fsm_world) res" where
  "apply_committed cd app committed_index oo w =
     (case pop_closure_until committed_index oo [] (fw_closure_queue w) of
        Inl f \<Rightarrow> Inl f
      | Inr (_, closure, out_indexes, cq) \<Rightarrow>
          (case new_iterator cd closure (fc_last_applied_index (fw_caller w)) committed_index
                  (fc_applying_index (fw_caller w)) out_indexes (fw_log_manager w) of
             Inl f \<Rightarrow> Inl f
           | Inr (it, levs, lm) \<Rightarrow>
               (case committed_loop cd app (fw_machine w) it lm of
                  Inl f \<Rightarrow> Inl f
                | Inr (m, evs, it', lm') \<Rightarrow>
                    (let fc = (fw_caller w)\<lparr>fc_applying_index := it_applying_index it'\<rparr>;
                         w' = w\<lparr>fw_caller := fc, fw_machine := m, fw_closure_queue := cq, fw_log_manager := lm'\<rparr>
                     in if \<not> it_has_error it' then Inr (levs @ evs, it_index_list it', w')
                        else (let (eevs, fc') = set_error (it_error it') fc
                              in case run_the_rest_closure_with_error it' of
                                   Inl f \<Rightarrow> Inl f
                                 | Inr revs \<Rightarrow> Inr (levs @ evs @ eevs @ revs, it_index_list it', w'\<lparr>fw_caller := fc'\<rparr>))))))"

text \<open>
  Second part: the marks of the applied indexes. The distance to \<open>_last_applied_index\<close> is compared as an unsigned number, and the
  assignment is reached with a distance equal to the size as well. \<open>front\<close> of an empty queue is undefined.
\<close>

fun mark_applied :: "int64 \<Rightarrow> int64 list \<Rightarrow> bool list \<Rightarrow> bool list res" where
  "mark_applied la [] q = Inr q"
| "mark_applied la (i # is) q =
     (if i - la < 0 \<or> i - la > int (length q) then mark_applied la is (q @ [False])
      else (case put_index q (i - la) True of Inl f \<Rightarrow> Inl f | Inr q' \<Rightarrow> mark_applied la is q'))"

fun pop_applied :: "int64 \<Rightarrow> bool list \<Rightarrow> (int64 \<times> bool list) res" where
  "pop_applied la [] = Inl Empty_container"
| "pop_applied la (b # q) = (if b then pop_applied (la + 1) q else Inr (la, b # q))"

definition finish_committed ::
    "int64 \<Rightarrow> int64 list \<Rightarrow> ('m, 'c, 'w) fsm_world \<Rightarrow> ('m, 'c, 'w) fsm_world res" where
  "finish_committed committed_index out_indexes w =
     (case mark_applied (fc_last_applied_index (fw_caller w)) out_indexes (fc_oo_apply_queue (fw_caller w)) of
        Inl f \<Rightarrow> Inl f
      | Inr q \<Rightarrow>
          (case pop_applied committed_index q of
             Inl f \<Rightarrow> Inl f
           | Inr (la, q') \<Rightarrow>
               (case lm_get_term la (fw_log_manager w) of
                  Inl f \<Rightarrow> Inl f
                | Inr t \<Rightarrow>
                    Inr (w\<lparr>fw_caller := (fw_caller w)\<lparr>fc_oo_apply_queue := q', fc_last_applied_index := la, fc_last_applied_term := t\<rparr>,
                           fw_log_manager := set_applied_id (LogId la t) (fw_log_manager w)\<rparr>))))"

definition do_committed ::
    "codec \<Rightarrow> ('m, 'c) state_machine \<Rightarrow> int64 \<Rightarrow> int64 list \<Rightarrow> ('m, 'c, 'w) fsm_world \<Rightarrow>
      (('c, 'w) fsm_event list \<times> ('m, 'c, 'w) fsm_world) res" where
  "do_committed cd app committed_index oo w =
     (if er_status (fc_error (fw_caller w)) \<noteq> OK0 then Inr ([], w)
      else if fc_last_applied_index (fw_caller w) \<ge> committed_index \<and> oo = [] then Inr ([], w)
      else (case apply_committed cd app committed_index oo w of
              Inl f \<Rightarrow> Inl f
            | Inr (evs, out_indexes, w') \<Rightarrow>
                (case finish_committed committed_index out_indexes w' of
                   Inl f \<Rightarrow> Inl f
                 | Inr w'' \<Rightarrow> Inr (evs, w''))))"

text \<open>
  \<open>run\<close>: the commits of a batch are merged; another task first applies what was merged, with the out-of-order indexes of
  \<^emph>\<open>that\<close> task, which has none. \<open>LEADER_START\<close> does not set \<open>_cur_task\<close>.
\<close>

abbreviation set_cur_task :: "task_type \<Rightarrow> ('m, 'c, 'w) fsm_world \<Rightarrow> ('m, 'c, 'w) fsm_world" where
  "set_cur_task t w \<equiv> w\<lparr>fw_caller := (fw_caller w)\<lparr>fc_cur_task := t\<rparr>\<rparr>"

definition flush_committed ::
    "codec \<Rightarrow> ('m, 'c) state_machine \<Rightarrow> int64 \<Rightarrow> int64 list \<Rightarrow> ('m, 'c, 'w) fsm_world \<Rightarrow>
      (('c, 'w) fsm_event list \<times> ('m, 'c, 'w) fsm_world) res" where
  "flush_committed cd app max_committed_index oo w =
     (if max_committed_index \<ge> 0 then do_committed cd app max_committed_index oo (set_cur_task COMMITTED w) else Inr ([], w))"

fun other_task :: "fsm_task \<Rightarrow> ('m, 'c, 'w) fsm_world \<Rightarrow> ('c, 'w) fsm_event list \<times> ('m, 'c, 'w) fsm_world" where
  "other_task (Leader_stop_task st) w = ([On_leader_stop st], set_cur_task LEADER_STOP w)"
| "other_task (Leader_start_task t) w = ([On_leader_start t], w)"
| "other_task (Start_following_task ctx) w = ([On_start_following ctx], set_cur_task START_FOLLOWING w)"
| "other_task (Stop_following_task ctx) w = ([On_stop_following ctx], set_cur_task STOP_FOLLOWING w)"
| "other_task (Error_task e) w =
     (let w1 = set_cur_task ERROR w; (evs, fc) = set_error e (fw_caller w1) in (evs, w1\<lparr>fw_caller := fc\<rparr>))"
| "other_task (Committed_task i oo) w = ([], w)"

fun run_tasks ::
    "codec \<Rightarrow> ('m, 'c) state_machine \<Rightarrow> int64 \<Rightarrow> int64 list \<Rightarrow> fsm_task list \<Rightarrow> ('m, 'c, 'w) fsm_world \<Rightarrow>
      (('c, 'w) fsm_event list \<times> ('m, 'c, 'w) fsm_world) res" where
  "run_tasks cd app max_ci acc [] w =
     (case flush_committed cd app max_ci acc w of Inl f \<Rightarrow> Inl f | Inr (evs, w') \<Rightarrow> Inr (evs, set_cur_task IDLE w'))"
| "run_tasks cd app max_ci acc (Committed_task i oo # ts) w =
     run_tasks cd app (if i > max_ci then i else max_ci) (acc @ oo) ts w"
| "run_tasks cd app max_ci acc (t # ts) w =
     (case flush_committed cd app max_ci [] w of
        Inl f \<Rightarrow> Inl f
      | Inr (evs, w1) \<Rightarrow>
          (let (evs1, w2) = other_task t w1
           in case run_tasks cd app (-1) acc ts w2 of Inl f \<Rightarrow> Inl f | Inr (evs2, w3) \<Rightarrow> Inr (evs @ evs1 @ evs2, w3)))"

definition fsm_run ::
    "codec \<Rightarrow> ('m, 'c) state_machine \<Rightarrow> bool \<Rightarrow> fsm_task list \<Rightarrow> ('m, 'c, 'w) fsm_world \<Rightarrow>
      (('c, 'w) fsm_event list \<times> ('m, 'c, 'w) fsm_world) res" where
  "fsm_run cd app queue_stopped ts w =
     (if queue_stopped
      then (let (evs, fc) = do_shutdown (fw_caller w) in Inr (evs, w\<lparr>fw_caller := fc\<rparr>))
      else run_tasks cd app (-1) [] ts w)"

end
