(* ===== verification/Fsm_Apply.thy ===== *)
theory Fsm_Apply
  imports Fsm_Caller
begin

text \<open>
  What \<open>FSMCaller\<close> does with committed entries: which entries the state machine sees, in which order and with which closures, how far
  the bookkeeping of \<open>do_committed\<close> reaches, what happens on errors, and how the tasks of a batch are merged. The interface to the log
  is the locale \<open>committed_log\<close>, interpreted on \<open>LogManager\<close>.
\<close>

section \<open>What an iterator visits\<close>

text \<open>
  The indexes behind the current one, with their closures, and the whole list of indexes that the iterator goes through.
\<close>

definition it_whole :: "'c iterator_impl \<Rightarrow> int64 list" where
  "it_whole it = it_index_list it @ (if it_closure it = [] then [it_last_applied_index it + 1..it_committed_index it] else [])"

definition it_rest :: "'c iterator_impl \<Rightarrow> (int64 \<times> 'c option) list" where
  "it_rest it =
     (let k = nat (it_it it + 1)
      in if it_closure it = [] then map (\<lambda>i. (i, None)) (drop k (it_whole it))
         else zip (drop k (it_index_list it)) (drop k (it_closure it)))"

definition it_shape :: "'c iterator_impl \<Rightarrow> bool" where
  "it_shape it \<longleftrightarrow> (it_closure it = [] \<or> length (it_closure it) = length (it_index_list it)) \<and> \<not> it_has_error it \<and>
     -1 \<le> it_it it \<and> it_it it < int (length (it_index_list it))"

text \<open>The iterator stands at the head of a list of visits; it is at its end when nothing is left.\<close>

definition it_at :: "(int64 \<Rightarrow> log_entry option) \<Rightarrow> 'c iterator_impl \<Rightarrow> (int64 \<times> 'c option) list \<Rightarrow> bool" where
  "it_at ent it vs \<longleftrightarrow> it_shape it \<and>
     (case vs of
        [] \<Rightarrow> it_it it = -1 \<and> it_index_list it = it_whole it
      | (i, c) # vs' \<Rightarrow> 0 \<le> it_it it \<and> it_actural_index it = i \<and> it_cur_entry it = ent i \<and> ent i \<noteq> None \<and>
          it_done it = Inr c \<and> vs' = it_rest it)"

lemma it_grow_whole [simp]: "it_whole (it_grow it) = it_whole it"
  by (auto simp: it_whole_def it_grow_def upto_rec1)

lemma it_whole_cong [simp]:
  "it_whole (it\<lparr>it_cur_entry := e\<rparr>) = it_whole it" "it_whole (it\<lparr>it_it := k\<rparr>) = it_whole it"
  "it_whole (it\<lparr>it_actural_index := i\<rparr>) = it_whole it" "it_whole (it\<lparr>it_applying_index := i\<rparr>) = it_whole it"
  by (simp_all add: it_whole_def)

lemma it_grow_end:
  assumes "int (length (it_index_list (it_grow it))) \<le> it_it it + 1" "it_it it < int (length (it_index_list it))"
    "it_closure it = []"
  shows "it_committed_index it \<le> it_last_applied_index it" "it_grow it = it"
  using assms by (auto simp: it_grow_def split: if_splits)

definition lm_entry :: "codec \<Rightarrow> ('c, 'w) log_manager \<Rightarrow> int64 \<Rightarrow> log_entry option" where
  "lm_entry cd lm i = (case lm_get_entry cd i lm of Inl _ \<Rightarrow> None | Inr (e, _, _) \<Rightarrow> e)"

text \<open>The reference: the state machine sees the entries one after the other, and the others run their closure.\<close>

definition done_events :: "'c option \<Rightarrow> ('c, 'w) fsm_event list" where
  "done_events c = (case c of None \<Rightarrow> [] | Some d \<Rightarrow> [Run_done d])"

fun visit_machine :: "('m, 'c) state_machine \<Rightarrow> (int64 \<Rightarrow> log_entry option) \<Rightarrow> 'm \<Rightarrow> (int64 \<times> 'c option) list \<Rightarrow> 'm" where
  "visit_machine app ent m [] = m"
| "visit_machine app ent m ((i, c) # vs) =
     visit_machine app ent
       (case ent i of None \<Rightarrow> m | Some e \<Rightarrow> if le_type e = ENTRY_TYPE_DATA then snd (app m i e c) else m) vs"

fun visit_events :: "(int64 \<Rightarrow> log_entry option) \<Rightarrow> (int64 \<times> 'c option) list \<Rightarrow> ('c, 'w) fsm_event list" where
  "visit_events ent [] = []"
| "visit_events ent ((i, c) # vs) =
     (case ent i of
        None \<Rightarrow> []
      | Some e \<Rightarrow>
          (if le_type e = ENTRY_TYPE_DATA then [On_apply i e c Sm_next]
           else (case conf_events e of Inl _ \<Rightarrow> [] | Inr cevs \<Rightarrow> cevs) @ done_events c) @ visit_events ent vs)"

text \<open>A state machine that never reports an error, and one that reports none on the visits at hand.\<close>

definition steady :: "('m, 'c) state_machine \<Rightarrow> bool" where
  "steady app \<longleftrightarrow> (\<forall>m i e c. fst (app m i e c) = Sm_next)"

fun steady_on :: "('m, 'c) state_machine \<Rightarrow> (int64 \<Rightarrow> log_entry option) \<Rightarrow> 'm \<Rightarrow> (int64 \<times> 'c option) list \<Rightarrow> bool" where
  "steady_on app ent m [] = True"
| "steady_on app ent m ((i, c) # vs) =
     (case ent i of
        None \<Rightarrow> steady_on app ent m vs
      | Some e \<Rightarrow>
          if le_type e = ENTRY_TYPE_DATA then fst (app m i e c) = Sm_next \<and> steady_on app ent (snd (app m i e c)) vs
          else steady_on app ent m vs)"

lemma steady_on_steady [intro]: "steady app \<Longrightarrow> steady_on app ent m vs"
  by (induction app ent m vs rule: steady_on.induct) (auto simp: steady_def split: option.splits)

definition applicable :: "(int64 \<Rightarrow> log_entry option) \<Rightarrow> int64 \<Rightarrow> bool" where
  "applicable ent i \<longleftrightarrow>
     (case ent i of None \<Rightarrow> False | Some e \<Rightarrow> le_type e = ENTRY_TYPE_CONFIGURATION \<longrightarrow> le_old_peers e \<noteq> None \<or> le_peers e \<noteq> None)"

text \<open>
  What the caller relies on in the log: an entry that the log shows is delivered, and reading it changes nothing.
\<close>

locale committed_log =
  fixes cd :: codec
    and lm :: "('c, 'w) log_manager"
    and ent :: "int64 \<Rightarrow> log_entry option"
  assumes delivered: "ent i = Some e \<Longrightarrow> lm_get_entry cd i lm = Inr (Some e, [], lm)"
begin

lemma next_at:
  assumes sh: "it_shape it" and app: "\<forall>v \<in> set (it_rest it). applicable ent (fst v)"
  shows "\<exists>it'. it_next cd it lm = Inr (it', [], lm) \<and> it_at ent it' (it_rest it) \<and> it_whole it' = it_whole it \<and>
     it_closure it' = it_closure it"
proof -
  let ?g = "it_grow (it\<lparr>it_cur_entry := None\<rparr>)" and ?k = "it_it it + 1"
  have k: "0 \<le> ?k" "?k \<le> int (length (it_index_list it))" using sh by (auto simp: it_shape_def)
  show ?thesis
  proof (cases "int (length (it_index_list ?g)) \<le> ?k")
    case True
    have "it_rest it = [] \<and> it_index_list ?g = it_whole it"
    proof (cases "it_closure it = []")
      case e: True
      with it_grow_end [of "it\<lparr>it_cur_entry := None\<rparr>"] True k
      show ?thesis by (auto simp: it_rest_def it_whole_def)
    next

      case False
      then show ?thesis using True k by (simp add: it_rest_def it_whole_def it_grow_def)
    qed
    moreover have "it_shape (?g\<lparr>it_it := -1\<rparr>)"
      using sh by (auto simp: it_shape_def it_has_error_def it_grow_def)
    ultimately show ?thesis
      using True by (auto simp: it_next_def it_at_def)
  next
    case False
    let ?i = "it_index_list ?g ! nat ?k"
    let ?c = "if it_closure it = [] then None else it_closure it ! nat ?k"
    define it' where "it' = ?g\<lparr>it_it := ?k, it_actural_index := ?i, it_cur_entry := ent ?i, it_applying_index := ?i\<rparr>"
    have wh: "it_whole it' = it_whole it" by (simp add: it'_def)
    have len: "nat ?k < length (it_index_list ?g)" using False k by simp
    have rest: "it_rest it = (?i, ?c) # it_rest it'"
    proof (cases "it_closure it = []")
      case True
      have "it_whole it = it_index_list ?g @ [it_last_applied_index ?g + 1..it_committed_index ?g]"
        using True it_grow_whole [of "it\<lparr>it_cur_entry := None\<rparr>"] by (simp add: it_whole_def)
      then have "drop (nat ?k) (it_whole it) = ?i # drop (Suc (nat ?k)) (it_whole it)"
        using len by (simp add: Cons_nth_drop_Suc [symmetric])
      moreover have "nat (?k + 1) = Suc (nat ?k)" using k by simp
      ultimately show ?thesis using True wh by (simp add: it_rest_def it'_def)
    next
      case False
      have "it_index_list ?g = it_index_list it" using False by (simp add: it_grow_def)
      moreover have "length (it_closure it) = length (it_index_list it)" using False sh by (simp add: it_shape_def)
      moreover have "nat (?k + 1) = Suc (nat ?k)" using k by simp
      ultimately show ?thesis using False len
        by (simp add: it_rest_def it'_def Cons_nth_drop_Suc [symmetric] Let_def)
    qed
    then have "applicable ent ?i" using app by simp
    then obtain e where e: "ent ?i = Some e" by (auto simp: applicable_def split: option.splits)
    have "it_next cd it lm = Inr (it', [], lm)"
      using False k len delivered [OF e] e by (simp add: it_next_def Let_def it'_def)
    moreover have "it_at ent it' (it_rest it)"
      unfolding rest using sh k len e False
      by (auto simp: it_at_def it_shape_def it'_def it_has_error_def it_done_def it_grow_def)
    ultimately show ?thesis using wh by (simp add: it'_def)
  qed
qed

end

lemma visit_machine_append [simp]:
  "visit_machine app ent m (vs1 @ vs2) = visit_machine app ent (visit_machine app ent m vs1) vs2"
  by (induction vs1 arbitrary: m) auto

lemma steady_on_append:
  "steady_on app ent m (vs1 @ vs2) \<longleftrightarrow> steady_on app ent m vs1 \<and> steady_on app ent (visit_machine app ent m vs1) vs2"
  by (induction vs1 arbitrary: m) (auto split: option.splits)

lemma visit_events_append [simp]:
  "\<forall>v \<in> set vs1. applicable ent (fst v) \<Longrightarrow> visit_events ent (vs1 @ vs2) = visit_events ent vs1 @ visit_events ent vs2"
  by (induction vs1) (auto simp: applicable_def split: option.splits)

lemma it_at_good:
  assumes "it_at ent it vs"
  shows "it_is_good it \<longleftrightarrow> vs \<noteq> []"
    "it_valid it \<longleftrightarrow> (\<exists>i c vs' e. vs = (i, c) # vs' \<and> ent i = Some e \<and> le_type e = ENTRY_TYPE_DATA)"
  using assms by (auto simp: it_at_def it_shape_def it_is_good_def it_valid_def split: list.splits option.splits)

lemma it_at_Cons:
  assumes "it_at ent it ((i, c) # vs)"
  shows "it_shape it" "it_actural_index it = i" "it_cur_entry it = ent i" "it_done it = Inr c" "it_rest it = vs" "it_is_good it"
  using assms by (auto simp: it_at_def it_shape_def it_is_good_def)

lemma conf_events_applicable: "applicable ent i \<Longrightarrow> ent i = Some e \<Longrightarrow> \<exists>cevs. conf_events e = Inr cevs"
  by (auto simp: conf_events_def applicable_def)

context committed_log
begin

lemma on_apply_visits:
  assumes "steady_on app ent m vs" "it_at ent it vs" "\<forall>v \<in> set vs. applicable ent (fst v)"
  shows "\<exists>it' vs1 vs2. vs = vs1 @ vs2 \<and>
     on_apply_loop cd app m it lm = Inr (visit_machine app ent m vs1, visit_events ent vs1, it', lm) \<and>
     it_at ent it' vs2 \<and> \<not> it_valid it' \<and> it_whole it' = it_whole it \<and> it_closure it' = it_closure it \<and> (it_valid it \<longrightarrow> vs1 \<noteq> [])"
  using assms
proof (induction vs arbitrary: m it)
  case Nil
  then have "\<not> it_valid it" by (simp add: it_at_good)
  with Nil show ?case by (intro exI [of _ it] exI [of _ "[]"]) (simp add: on_apply_loop.simps [of cd app m it lm])
next
  case (Cons v vs)
  obtain i c where v: "v = (i, c)" by (cases v)
  note h = it_at_Cons [OF Cons.prems(2) [unfolded v]]
  obtain e where e: "ent i = Some e" using Cons.prems(3) by (auto simp: v applicable_def split: option.splits)
  show ?case
  proof (cases "le_type e = ENTRY_TYPE_DATA")
    case False
    then have "\<not> it_valid it" using Cons.prems(2) e by (simp add: it_at_good v)
    with Cons.prems show ?thesis
      by (intro exI [of _ it] exI [of _ "[]"] exI [of _ "v # vs"]) (simp add: on_apply_loop.simps [of cd app m it lm])
  next
    case True
    then have val: "it_valid it" using Cons.prems(2) e by (simp add: it_at_good v)
    obtain m1 where m1: "app m i e c = (Sm_next, m1)" using Cons.prems(1) e True by (cases "app m i e c") (simp add: v)
    obtain it1 where nx: "it_next cd it lm = Inr (it1, [], lm)" and at1: "it_at ent it1 vs"
      and w1: "it_whole it1 = it_whole it" "it_closure it1 = it_closure it"
      using next_at [OF h(1)] Cons.prems(3) h(5) by auto
    have av: "\<forall>v \<in> set vs. applicable ent (fst v)" using Cons.prems(3) by simp
    have st1: "steady_on app ent m1 vs" using Cons.prems(1) e True m1 by (simp add: v)
    obtain it' vs1 vs2 where r: "vs = vs1 @ vs2"
      "on_apply_loop cd app m1 it1 lm = Inr (visit_machine app ent m1 vs1, visit_events ent vs1, it', lm)"
      "it_at ent it' vs2" "\<not> it_valid it'" "it_whole it' = it_whole it1" "it_closure it' = it_closure it1"
      using Cons.IH [OF st1 at1 av] by blast
    have "on_apply_loop cd app m it lm =
        Inr (visit_machine app ent m (v # vs1), visit_events ent (v # vs1), it', lm)"
      using val e m1 nx r(2) True h by (simp add: on_apply_loop.simps [of cd app m it lm] v)
    with r w1 show ?thesis by (intro exI [of _ it'] exI [of _ "v # vs1"] exI [of _ vs2]) simp
  qed
qed

lemma committed_visits:
  assumes "steady_on app ent m vs" "it_at ent it vs" "\<forall>v \<in> set vs. applicable ent (fst v)"
  shows "\<exists>it'. committed_loop cd app m it lm = Inr (visit_machine app ent m vs, visit_events ent vs, it', lm) \<and>
     it_at ent it' [] \<and> it_whole it' = it_whole it \<and> it_closure it' = it_closure it"
  using assms
proof (induction vs arbitrary: m it rule: length_induct)
  case (1 vs)
  note unf = committed_loop.simps [of cd app m it lm]
  show ?case
  proof (cases vs)
    case Nil
    with "1.prems" it_at_good(1) [OF "1.prems"(2)] show ?thesis by (intro exI [of _ it]) (simp add: unf)
  next
    case (Cons v ws)
    obtain i c where v: "v = (i, c)" by (cases v)
    note h = it_at_Cons [OF "1.prems"(2) [unfolded Cons v]]
    have ai: "applicable ent i" and aw: "\<forall>v \<in> set ws. applicable ent (fst v)" using "1.prems"(3) by (simp_all add: Cons v)
    from ai obtain e where e: "ent i = Some e" by (auto simp: applicable_def split: option.splits)
    have step: "\<exists>it1 vs1 vs2. committed_turn cd app m it lm =
        Inr (visit_machine app ent m vs1, visit_events ent vs1, it1, lm) \<and> vs = vs1 @ vs2 \<and> vs1 \<noteq> [] \<and>
        it_at ent it1 vs2 \<and> it_whole it1 = it_whole it \<and> it_closure it1 = it_closure it"
    proof (cases "le_type e = ENTRY_TYPE_DATA")
      case True
      then have val: "it_valid it" using "1.prems"(2) e by (simp add: it_at_good Cons v)
      obtain it1 vs1 vs2 where r: "vs = vs1 @ vs2"
        "on_apply_loop cd app m it lm = Inr (visit_machine app ent m vs1, visit_events ent vs1, it1, lm)"
        "it_at ent it1 vs2" "\<not> it_valid it1" "it_whole it1 = it_whole it" "it_closure it1 = it_closure it" "vs1 \<noteq> []"
        using on_apply_visits [OF "1.prems"] val by blast
      have "committed_turn cd app m it lm = Inr (visit_machine app ent m vs1, visit_events ent vs1, it1, lm)"
        using True e h r(2,4) by (simp add: committed_turn_def)
      with r show ?thesis by blast
    next
      case False
      obtain cevs where ce: "conf_events e = (Inr cevs :: fault + ('c, 'w) fsm_event list)"
        using conf_events_applicable [OF ai e] by blast
      obtain it1 where nx: "it_next cd it lm = Inr (it1, [], lm)" "it_at ent it1 ws" "it_whole it1 = it_whole it"
        "it_closure it1 = it_closure it"
        using next_at [OF h(1)] aw h(5) by auto
      have "committed_turn cd app m it lm = Inr (visit_machine app ent m [v], visit_events ent [v], it1, lm)"
        using False e h ce nx(1) by (simp add: committed_turn_def v done_events_def)
      with nx show ?thesis by (intro exI [of _ it1] exI [of _ "[v]"] exI [of _ ws]) (simp add: Cons)
    qed
    then obtain it1 vs1 vs2 where t: "committed_turn cd app m it lm =
        Inr (visit_machine app ent m vs1, visit_events ent vs1, it1, lm)" and sp: "vs = vs1 @ vs2" "vs1 \<noteq> []"
      and a1: "it_at ent it1 vs2" and w1: "it_whole it1 = it_whole it" "it_closure it1 = it_closure it" by blast
    have shorter: "length vs2 < length vs" using sp by simp
    have av: "\<forall>v \<in> set vs1. applicable ent (fst v)" "\<forall>v \<in> set vs2. applicable ent (fst v)" using "1.prems"(3) sp by auto
    let ?m1 = "visit_machine app ent m vs1"
    obtain it2 where l: "committed_loop cd app ?m1 it1 lm =
        Inr (visit_machine app ent ?m1 vs2, visit_events ent vs2, it2, lm)"
      and e2: "it_at ent it2 []" "it_whole it2 = it_whole it1" "it_closure it2 = it_closure it1"
      using "1.IH" shorter "1.prems"(1) a1 av(2) unfolding sp(1) steady_on_append by blast
    have "committed_loop cd app m it lm = Inr (visit_machine app ent m vs, visit_events ent vs, it2, lm)"
      unfolding unf sp(1) using h(6) t l av(1) by simp
    with e2 w1 show ?thesis by (intro exI [of _ it2]) simp
  qed
qed

text \<open>A fresh iterator, run to its end.\<close>

lemma new_iterator_visits:
  fixes cs :: "'c option list"
  assumes "steady_on app ent m vs" and cs: "cs = [] \<or> length cs = length is"
    and vs: "vs = (if cs = [] then map (\<lambda>i. (i, None)) (is @ [la + 1..ci]) else zip is cs)"
    and ap: "\<forall>v \<in> set vs. applicable ent (fst v)"
  shows "\<exists>it it'. new_iterator cd cs la ci ai is lm = Inr (it, [], lm) \<and>
     committed_loop cd app m it lm = Inr (visit_machine app ent m vs, visit_events ent vs, it', lm) \<and>
     \<not> it_has_error it' \<and> it_index_list it' = (if cs = [] then is @ [la + 1..ci] else is)"
proof -
  let ?it = "\<lparr>it_closure = cs, it_it = -1, it_actural_index = 0, it_committed_index = ci, it_last_applied_index = la,
    it_cur_entry = None, it_applying_index = ai, it_error = no_error, it_index_list = is\<rparr>"
  have sh: "it_shape ?it" using cs by (simp add: it_shape_def it_has_error_def no_error_def)
  have rest: "it_rest ?it = vs" by (simp add: it_rest_def it_whole_def vs)
  obtain it where it: "it_next cd ?it lm = Inr (it, [], lm)" "it_at ent it vs" "it_whole it = it_whole ?it" "it_closure it = cs"
    using next_at [OF sh] ap rest by auto
  obtain it' where l: "committed_loop cd app m it lm = Inr (visit_machine app ent m vs, visit_events ent vs, it', lm)"
    and e: "it_at ent it' []" "it_whole it' = it_whole it" "it_closure it' = it_closure it"
    using committed_visits [OF assms(1) it(2) ap] by blast
  have "it_whole it' = it_whole ?it" using e(2) it(3) by simp
  then have "it_index_list it' = (if cs = [] then is @ [la + 1..ci] else is)" "\<not> it_has_error it'"
    using e(1) by (auto simp: it_at_def it_shape_def it_whole_def)
  with it(1) l show ?thesis by (auto simp: new_iterator_def)
qed

end

interpretation stored_log: committed_log cd lm "lm_entry cd lm" for cd lm
proof
  fix i e
  assume "lm_entry cd lm i = Some e"
  then obtain levs lm' where "lm_get_entry cd i lm = Inr (Some e, levs, lm')"
    by (auto simp: lm_entry_def split: sum.splits)
  then show "lm_get_entry cd i lm = Inr (Some e, [], lm)"
    by (auto simp: lm_get_entry_def split: if_splits sum.splits option.splits)
qed

text \<open>An entry in the memory tail is what the caller is shown.\<close>

lemma lm_entry_tail:
  assumes "tail_inv E b lm" "E i = Some e" "b \<le> i" "lm_first_log_index lm \<le> i"
  shows "lm_entry cd lm i = Some e"
proof -
  have "i \<le> lm_max_log_index lm" using tail_rep_bound [OF tail_invD(1) [OF assms(1)] assms(2)] by simp
  then show ?thesis using assms by (simp add: lm_entry_def lm_get_entry_def get_entry_from_memory_rep [OF assms(1)])
qed

section \<open>Applying without errors\<close>

lemma apply_committed_visits:
  assumes st: "steady_on app (lm_entry cd (fw_log_manager w)) (fw_machine w) vs" and pop: "pop_closure_until ci oo [] (fw_closure_queue w) = Inr (ret, cs, is, cq)"
    and cs: "cs = [] \<or> length cs = length is"
    and vs: "vs = (if cs = [] then map (\<lambda>i. (i, None)) (is @ [fc_last_applied_index (fw_caller w) + 1..ci]) else zip is cs)"
    and ap: "\<forall>v \<in> set vs. applicable (lm_entry cd (fw_log_manager w)) (fst v)"
  shows "\<exists>a. apply_committed cd app ci oo w =
     Inr (visit_events (lm_entry cd (fw_log_manager w)) vs,
          if cs = [] then is @ [fc_last_applied_index (fw_caller w) + 1..ci] else is,
          w\<lparr>fw_caller := (fw_caller w)\<lparr>fc_applying_index := a\<rparr>,
            fw_machine := visit_machine app (lm_entry cd (fw_log_manager w)) (fw_machine w) vs, fw_closure_queue := cq\<rparr>)"
proof -
  obtain it it' where
    "new_iterator cd cs (fc_last_applied_index (fw_caller w)) ci (fc_applying_index (fw_caller w)) is (fw_log_manager w) =
       Inr (it, [], fw_log_manager w)"
    "committed_loop cd app (fw_machine w) it (fw_log_manager w) =
       Inr (visit_machine app (lm_entry cd (fw_log_manager w)) (fw_machine w) vs,
            visit_events (lm_entry cd (fw_log_manager w)) vs, it', fw_log_manager w)"
    "\<not> it_has_error it'"
    "it_index_list it' = (if cs = [] then is @ [fc_last_applied_index (fw_caller w) + 1..ci] else is)"
    using stored_log.new_iterator_visits [OF st cs vs ap] by blast
  then show ?thesis
    by (intro exI [of _ "it_applying_index it'"]) (simp add: apply_committed_def pop)
qed

text \<open>Without pending closures, as on a follower: first the out-of-order indexes, then the sequential ones.\<close>

lemma apply_committed_follower:
  assumes "steady_on app (lm_entry cd (fw_log_manager w)) (fw_machine w)
      (map (\<lambda>i. (i, None)) (oo @ [fc_last_applied_index (fw_caller w) + 1..ci]))"
    and "cq_queue (fw_closure_queue w) = []"
    and "\<forall>i \<in> set (oo @ [fc_last_applied_index (fw_caller w) + 1..ci]). applicable (lm_entry cd (fw_log_manager w)) i"
  shows "\<exists>a. apply_committed cd app ci oo w =
     Inr (visit_events (lm_entry cd (fw_log_manager w)) (map (\<lambda>i. (i, None)) (oo @ [fc_last_applied_index (fw_caller w) + 1..ci])),
          oo @ [fc_last_applied_index (fw_caller w) + 1..ci],
          w\<lparr>fw_caller := (fw_caller w)\<lparr>fc_applying_index := a\<rparr>,
            fw_machine := visit_machine app (lm_entry cd (fw_log_manager w)) (fw_machine w)
              (map (\<lambda>i. (i, None)) (oo @ [fc_last_applied_index (fw_caller w) + 1..ci]))\<rparr>)"
proof -
  have "pop_closure_until ci oo [] (fw_closure_queue w) = Inr (OK0, [], oo, fw_closure_queue w)"
    using assms(2) by (simp add: pop_closure_until_def)
  from apply_committed_visits [OF _ this _ refl, of app cd] assms(1,3)
  obtain a where a: "apply_committed cd app ci oo w =
     Inr (visit_events (lm_entry cd (fw_log_manager w)) (map (\<lambda>i. (i, None)) (oo @ [fc_last_applied_index (fw_caller w) + 1..ci])),
          oo @ [fc_last_applied_index (fw_caller w) + 1..ci],
          w\<lparr>fw_caller := (fw_caller w)\<lparr>fc_applying_index := a\<rparr>,
            fw_machine := visit_machine app (lm_entry cd (fw_log_manager w)) (fw_machine w)
              (map (\<lambda>i. (i, None)) (oo @ [fc_last_applied_index (fw_caller w) + 1..ci])),
            fw_closure_queue := fw_closure_queue w\<rparr>)"
    by (auto simp del: map_append visit_events_append visit_machine_append)
  have same: "w\<lparr>fw_caller := f, fw_machine := m, fw_closure_queue := fw_closure_queue w\<rparr> = w\<lparr>fw_caller := f, fw_machine := m\<rparr>" for f m
    by simp
  show ?thesis by (rule exI [of _ a]) (rule a [unfolded same])
qed

lemma visit_events_apply:
  "\<forall>v \<in> set vs. applicable ent (fst v) \<Longrightarrow> (i, c) \<in> set vs \<Longrightarrow> ent i = Some e \<Longrightarrow> le_type e = ENTRY_TYPE_DATA \<Longrightarrow>
     On_apply i e c Sm_next \<in> set (visit_events ent vs)"
  by (induction vs) (auto simp: applicable_def split: option.splits)

section \<open>The marks of applied indexes\<close>

text \<open>Sequential indexes: they push marks while the queue is shorter than the distance, and set marks in range otherwise.\<close>

lemma mark_applied_fresh:
  "mark_applied la [la + 1 + int (length q)..la + int (length q) + int n] q = Inr (q @ replicate n False)"
proof (induction n arbitrary: q)
  case (Suc n)
  have "[la + 1 + int (length q)..la + int (length q) + int (Suc n)] =
      (la + 1 + int (length q)) # [la + 1 + int (length (q @ [False]))..la + int (length (q @ [False])) + int n]"
    by (simp add: upto_rec1 algebra_simps)
  then show ?case using Suc.IH [of "q @ [False]"] by (simp add: replicate_append_same)
qed simp

lemma mark_applied_in:
  "la < i \<Longrightarrow> j < la + int (length q) \<Longrightarrow>
     \<exists>q'. mark_applied la [i..j] q = Inr q' \<and> length q' = length q \<and> (q \<noteq> [] \<longrightarrow> hd q' = hd q)"
proof (induction "nat (j - i + 1)" arbitrary: i q)
  case 0
  then show ?case by simp
next
  case (Suc n)
  let ?q = "q[nat (i - la) := True]"
  have u: "[i..j] = i # [i + 1..j]" using Suc.hyps(2) by (simp add: upto_rec1)
  have "hd ?q = hd q" if "q \<noteq> []" using that Suc.prems by (simp add: hd_conv_nth)
  moreover have "\<exists>q'. mark_applied la [i + 1..j] ?q = Inr q' \<and> length q' = length ?q \<and> (?q \<noteq> [] \<longrightarrow> hd q' = hd ?q)"
    by (rule Suc.hyps(1)) (use Suc.hyps(2) Suc.prems in auto)
  ultimately show ?case using Suc.hyps(2) Suc.prems by (auto simp: u)
qed

lemma mark_applied_append:
  "mark_applied la (is @ js) q = (case mark_applied la is q of Inl f \<Rightarrow> Inl f | Inr q' \<Rightarrow> mark_applied la js q')"
  by (induction "is" arbitrary: q) (auto split: sum.splits)

lemma mark_applied_beyond:
  assumes "q \<noteq> []" "la + int (length q) \<le> j"
  shows "mark_applied la [la + 1..j] q = Inl Out_of_range"
proof -
  let ?n = "la + int (length q)"
  have "[la + 1..j] = [la + 1..?n - 1] @ ?n # [?n + 1..j]"
    using assms upto_split1 [of "la + 1" ?n j] upto_rec1 [of ?n j] by (simp add: Suc_le_eq)
  moreover obtain q' where "mark_applied la [la + 1..?n - 1] q = Inr q'" "length q' = length q"
    using mark_applied_in [of la "la + 1" "?n - 1" q] by auto
  ultimately show ?thesis by (simp add: mark_applied_append put_index_def)
qed

lemma mark_applied_sequential:
  assumes "la < ci" "q = [] \<or> \<not> hd q" "q = [] \<or> ci - la < int (length q)"
  shows "\<exists>q'. mark_applied la [la + 1..ci] q = Inr q' \<and> q' \<noteq> [] \<and> \<not> hd q'"
proof (cases "q = []")
  case True
  moreover obtain n where "nat (ci - la) = Suc n" using assms(1) by (cases "nat (ci - la)") simp_all
  moreover have "ci = la + int (nat (ci - la))" using assms(1) by simp
  ultimately show ?thesis using mark_applied_fresh [of la "[]" "nat (ci - la)"] by auto
next
  case False
  with assms mark_applied_in [of la "la + 1" ci q] show ?thesis by fastforce
qed

section \<open>Errors\<close>

text \<open>What every iterator keeps, whatever the state machine does: closures match the indexes, and an error leaves it on an index.\<close>

definition it_inv :: "'c iterator_impl \<Rightarrow> bool" where
  "it_inv it \<longleftrightarrow> (it_closure it = [] \<or> length (it_closure it) = length (it_index_list it)) \<and>
     -1 \<le> it_it it \<and> it_it it < int (length (it_index_list it)) \<and> (it_has_error it \<longrightarrow> 0 \<le> it_it it)"

lemma it_next_inv:
  assumes "it_inv it" "\<not> it_has_error it" "it_next cd it lm = Inr (it', evs, lm')"
  shows "it_inv it'"
proof -
  let ?g = "it_grow (it\<lparr>it_cur_entry := None\<rparr>)"
  have g: "it_closure ?g = [] \<or> length (it_closure ?g) = length (it_index_list ?g)" "\<not> it_has_error ?g"
    using assms(1,2) by (auto simp: it_inv_def it_grow_def it_has_error_def)
  show ?thesis
  proof (cases "int (length (it_index_list ?g)) \<le> it_it it + 1")
    case True
    then show ?thesis using assms(3) g by (auto simp: it_next_def it_inv_def it_has_error_def Let_def)
  next
    case False
    then show ?thesis using assms g
      by (auto simp: it_next_def it_inv_def it_has_error_def Let_def split: sum.splits prod.splits)
  qed
qed

lemma set_error_inv: "it_inv it \<Longrightarrow> it_is_good it \<Longrightarrow> it_inv (set_error_and_rollback n it)"
  by (auto simp: it_inv_def it_is_good_def set_error_and_rollback_def)

lemma it_validD: "it_valid it \<Longrightarrow> it_is_good it \<and> \<not> it_has_error it"
  by (simp add: it_valid_def it_is_good_def)

lemma on_apply_loop_inv:
  "on_apply_loop cd app m it lm = Inr (m', evs, it', lm') \<Longrightarrow> it_inv it \<Longrightarrow> it_inv it'"
proof (induction cd app m it lm arbitrary: m' evs it' lm' rule: on_apply_loop.induct)
  case (1 cd app m it lm)
  note unf = on_apply_loop.simps [of cd app m it lm]
  show ?case
  proof (cases "it_valid it")
    case False
    with "1.prems" show ?thesis by (simp add: unf)
  next
    case True
    from True obtain e where e: "it_cur_entry it = Some e" by (auto simp: it_valid_def split: option.splits)
    from "1.prems"(1) True e obtain c where c: "it_done it = Inr c" by (cases "it_done it") (auto simp: unf)
    obtain act m1 where act: "app m (it_actural_index it) e c = (act, m1)" by fastforce
    show ?thesis
    proof (cases act)
      case Sm_next
      with "1.prems"(1) True e c act obtain it1 levs lm1 where nx: "it_next cd it lm = Inr (it1, levs, lm1)"
        by (cases "it_next cd it lm") (auto simp: unf)
      with "1.prems"(1) True e c act Sm_next obtain evs1 where
        rec: "on_apply_loop cd app m1 it1 lm1 = Inr (m', evs1, it', lm')"
        by (cases "on_apply_loop cd app m1 it1 lm1") (auto simp: unf)
      have "it_inv it1" using it_next_inv [OF "1.prems"(2) _ nx] it_validD [OF True] by blast
      with "1.IH" True e c act Sm_next nx rec show ?thesis by fastforce
    next
      case (Sm_error n)
      with "1.prems" True e c act set_error_inv it_validD [OF True] show ?thesis by (auto simp: unf)
    next
      case Sm_return
      with "1.prems" True e c act show ?thesis by (simp add: unf)
    qed
  qed
qed

lemma committed_turn_inv:
  assumes good: "it_is_good it" and turn: "committed_turn cd app m it lm = Inr (m', evs, it', lm')" and inv: "it_inv it"
  shows "it_inv it'"
proof -
  have ne: "\<not> it_has_error it" using good by (simp add: it_is_good_def)
  from turn obtain e where e: "it_cur_entry it = Some e" by (auto simp: committed_turn_def split: option.splits)
  show ?thesis
  proof (cases "le_type e = ENTRY_TYPE_DATA")
    case False
    with turn e obtain evs' lm1 where "it_next cd it lm = Inr (it', evs', lm1)"
      by (auto simp: committed_turn_def split: sum.splits prod.splits)
    then show ?thesis by (rule it_next_inv [OF inv ne])
  next
    case True
    from turn e True obtain m1 evs1 it1 lm1 where ap: "on_apply_loop cd app m it lm = Inr (m1, evs1, it1, lm1)"
      by (cases "on_apply_loop cd app m it lm") (auto simp: committed_turn_def)
    have inv1: "it_inv it1" by (rule on_apply_loop_inv [OF ap inv])
    show ?thesis
    proof (cases "it_valid it1")
      case vt: True
      with turn e True ap obtain evs2 lm2 where "it_next cd it1 lm1 = Inr (it', evs2, lm2)"
        by (auto simp: committed_turn_def split: sum.splits prod.splits)
      with it_next_inv [OF inv1] it_validD [OF vt] show ?thesis by blast
    next
      case False
      with turn e True ap inv1 show ?thesis by (simp add: committed_turn_def)
    qed
  qed
qed

lemma committed_loop_inv:
  "committed_loop cd app m it lm = Inr (m', evs, it', lm') \<Longrightarrow> it_inv it \<Longrightarrow> it_inv it'"
proof (induction cd app m it lm arbitrary: m' evs it' lm' rule: committed_loop.induct)
  case (1 cd app m it lm)
  note unf = committed_loop.simps [of cd app m it lm]
  show ?case
  proof (cases "it_is_good it")
    case False
    with "1.prems" show ?thesis by (simp add: unf)
  next
    case True
    with "1.prems"(1) obtain m1 evs1 it1 lm1 where t: "committed_turn cd app m it lm = Inr (m1, evs1, it1, lm1)"
      by (cases "committed_turn cd app m it lm") (auto simp: unf)
    with "1.prems"(1) True obtain evs2 where l: "committed_loop cd app m1 it1 lm1 = Inr (m', evs2, it', lm')"
      by (cases "committed_loop cd app m1 it1 lm1") (auto simp: unf)
    from "1.IH" True t l committed_turn_inv [OF True t "1.prems"(2)] show ?thesis by blast
  qed
qed

lemma rest_closures_beyond: "length cs \<le> n \<Longrightarrow> int n \<in> set is \<Longrightarrow> \<exists>f. rest_closures cs st is = Inl f"
  by (induction "is") (auto simp: at_index_def split: sum.splits)

lemma pop_each_lengths:
  "pop_each is q out idx = Inr (q', out', idx') \<Longrightarrow> length out = length idx \<Longrightarrow> length out' = length idx'"
proof (induction "is" arbitrary: q out idx)
  case (Cons i "is")
  then obtain q1 out1 idx1 where "pop_at (i - cq_first_index q) q out idx = Inr (q1, out1, idx1)"
    by (cases "pop_at (i - cq_first_index q) q out idx") auto
  with Cons show ?case by (auto simp: pop_at_def split: sum.splits bool.splits)
qed simp

lemma pop_closure_until_lengths:
  "pop_closure_until to_index oo [] q = Inr (ret, cs, is, q') \<Longrightarrow> cs = [] \<or> length cs = length is"
  by (auto simp: pop_closure_until_def pop_loop_each split: if_splits sum.splits prod.splits dest!: pop_each_lengths)

text \<open>On a leader: the committed indexes whose closure was not handed out before.\<close>

abbreviation newly_committed :: "'c closure_queue \<Rightarrow> int64 \<Rightarrow> int64 list \<Rightarrow> int64 list" where
  "newly_committed q ci oo \<equiv> filter (\<lambda>i. \<not> cq_done q i) ([cq_first_index q..ci] @ oo)"

lemma apply_committed_leader:
  fixes w :: "('m, 'c, 'w) fsm_world"
  assumes vs: "vs = map (\<lambda>i. (i, cq_at q i)) (newly_committed q ci oo)" and q: "q = fw_closure_queue w"
    and st: "steady_on app (lm_entry cd (fw_log_manager w)) (fw_machine w) vs"
    and al: "cq_aligned q" and ne: "newly_committed q ci oo \<noteq> []" and ci: "ci < cq_first_index q + int (length (cq_queue q))"
    and oo: "distinct oo" "\<forall>i \<in> set oo. ci < i \<and> in_queue q i"
    and ap: "\<forall>i \<in> set (newly_committed q ci oo). applicable (lm_entry cd (fw_log_manager w)) i"
  shows "\<exists>a q'. apply_committed cd app ci oo w =
       Inr (visit_events (lm_entry cd (fw_log_manager w)) vs, newly_committed q ci oo,
            w\<lparr>fw_caller := (fw_caller w)\<lparr>fc_applying_index := a\<rparr>,
              fw_machine := visit_machine app (lm_entry cd (fw_log_manager w)) (fw_machine w) vs, fw_closure_queue := q'\<rparr>)
     \<and> (\<forall>i. cq_done q' i \<longleftrightarrow> cq_done q i \<or> i \<in> set ([cq_first_index q..ci] @ oo))
     \<and> (\<forall>i. in_queue q' i \<longrightarrow> in_queue q i \<and> cq_at q' i = cq_at q i)"
proof -
  let ?n = "newly_committed q ci oo"
  have "cq_queue q \<noteq> []"
  proof
    assume e: "cq_queue q = []"
    with oo(2) have "oo = []" by (cases oo) (auto simp: in_queue_def)
    with e ne ci show False by simp
  qed
  then obtain q' where q': "pop_closure_until ci oo [] q = Inr (OK0, map (cq_at q) ?n, ?n, q')"
    "\<forall>i. cq_done q' i \<longleftrightarrow> cq_done q i \<or> i \<in> set ([cq_first_index q..ci] @ oo)"
    "\<forall>i. in_queue q' i \<longrightarrow> in_queue q i \<and> cq_at q' i = cq_at q i"
    using pop_closure_until_newly [OF al _ ci oo] by blast
  have z: "zip ?n (map (cq_at q) ?n) = vs" unfolding vs by (simp only: zip_map2 zip_same_conv_map) simp
  have "\<forall>v \<in> set vs. applicable (lm_entry cd (fw_log_manager w)) (fst v)" using ap by (simp only: vs) auto
  then obtain a where "apply_committed cd app ci oo w =
       Inr (visit_events (lm_entry cd (fw_log_manager w)) vs, ?n,
            w\<lparr>fw_caller := (fw_caller w)\<lparr>fc_applying_index := a\<rparr>,
              fw_machine := visit_machine app (lm_entry cd (fw_log_manager w)) (fw_machine w) vs, fw_closure_queue := q'\<rparr>)"
    using apply_committed_visits [OF st q'(1) [unfolded q]] ne z unfolding q by auto
  with q'(2,3) show ?thesis by blast
qed

section \<open>Properties\<close>

text \<open>
  C6. Applying on the leader: if the commit index and the out-of-order indexes lie in the closure queue, the state machine
  goes through exactly the committed indexes whose closure was not handed out before, each once, with its own entry and its own closure, in
  order; afterwards those closures are settled and the rest of the queue is kept.
\<close>

theorem leader_applies_each_once:
  fixes w :: "('m, 'c, 'w) fsm_world"
  defines "q \<equiv> fw_closure_queue w"
  defines "newly \<equiv> \<lambda>ci oo. filter (\<lambda>i. \<not> cq_done q i) ([cq_first_index q..ci] @ oo)"
  defines "visits \<equiv> \<lambda>ci oo. map (\<lambda>i. (i, cq_at q i)) (newly ci oo)"
  assumes "steady_on app (lm_entry cd (fw_log_manager w)) (fw_machine w) (visits ci oo)" and "cq_aligned q" and "newly ci oo \<noteq> []"
    and "ci < cq_first_index q + int (length (cq_queue q))"
    and "distinct oo" and "\<forall>i \<in> set oo. ci < i \<and> in_queue q i"
    and "\<forall>i \<in> set (newly ci oo). applicable (lm_entry cd (fw_log_manager w)) i"
  shows "\<exists>a q'. apply_committed cd app ci oo w =
       Inr (visit_events (lm_entry cd (fw_log_manager w)) (visits ci oo), newly ci oo,
            w\<lparr>fw_caller := (fw_caller w)\<lparr>fc_applying_index := a\<rparr>,
              fw_machine := visit_machine app (lm_entry cd (fw_log_manager w)) (fw_machine w) (visits ci oo), fw_closure_queue := q'\<rparr>)
     \<and> (\<forall>i. cq_done q' i \<longleftrightarrow> cq_done q i \<or> i \<in> set ([cq_first_index q..ci] @ oo))
     \<and> (\<forall>i. in_queue q' i \<longrightarrow> in_queue q i \<and> cq_at q' i = cq_at q i)"
  using apply_committed_leader [OF refl refl, of app cd w ci oo] assms(4-10) unfolding q_def newly_def visits_def by blast

text \<open>
  C28. Applying on a follower, or any node without pending closures: a sequential commit of the entries after the last applied one either applies them all,
  in order, and moves the last applied index to the commit index, or writes beyond the end of \<open>_oo_apply_queue\<close>. The second
  happens exactly when the queue is not empty and the batch has at least as many entries as the queue has marks.
\<close>

theorem sequential_apply_bounds:
  fixes w :: "('m, 'c, 'w) fsm_world"
  defines "la \<equiv> fc_last_applied_index (fw_caller w)" and "marks \<equiv> fc_oo_apply_queue (fw_caller w)"
  assumes "steady app" "cq_queue (fw_closure_queue w) = []" "er_status (fc_error (fw_caller w)) = OK0" "la < ci"
    and "\<forall>i \<in> set [la + 1..ci]. applicable (lm_entry cd (fw_log_manager w)) i"
    and "marks = [] \<or> \<not> hd marks" and "lm_get_term ci (fw_log_manager w) = Inr t"
  shows "if marks = [] \<or> ci - la < int (length marks)
     then \<exists>w'. do_committed cd app ci [] w =
            Inr (visit_events (lm_entry cd (fw_log_manager w)) (map (\<lambda>i. (i, None)) [la + 1..ci]), w')
          \<and> fc_last_applied_index (fw_caller w') = ci \<and> fc_last_applied_term (fw_caller w') = t
          \<and> fw_log_manager w' = set_applied_id (LogId ci t) (fw_log_manager w)
          \<and> fc_oo_apply_queue (fw_caller w') \<noteq> [] \<and> \<not> hd (fc_oo_apply_queue (fw_caller w'))
     else do_committed cd app ci [] w = Inl Out_of_range"
proof -
  have go: "do_committed cd app ci [] w = (case apply_committed cd app ci [] w of
      Inl f \<Rightarrow> Inl f | Inr (evs, is, w') \<Rightarrow> (case finish_committed ci is w' of Inl f \<Rightarrow> Inl f | Inr w'' \<Rightarrow> Inr (evs, w'')))"
    using assms(5,6) by (simp add: do_committed_def la_def)
  obtain a where ap: "apply_committed cd app ci [] w =
     Inr (visit_events (lm_entry cd (fw_log_manager w)) (map (\<lambda>i. (i, None)) [la + 1..ci]), [la + 1..ci],
          w\<lparr>fw_caller := (fw_caller w)\<lparr>fc_applying_index := a\<rparr>,
            fw_machine := visit_machine app (lm_entry cd (fw_log_manager w)) (fw_machine w) (map (\<lambda>i. (i, None)) [la + 1..ci])\<rparr>)"
    using apply_committed_follower [OF steady_on_steady [OF assms(3)] assms(4), of "[]" ci cd] assms(7) unfolding la_def by auto
  show ?thesis
  proof (cases "marks = [] \<or> ci - la < int (length marks)")
    case True
    from mark_applied_sequential [OF assms(6) assms(8) True] obtain qs where
      qs: "mark_applied la [la + 1..ci] marks = Inr (False # qs)" by (metis list.collapse)
    with True ap assms(9) show ?thesis unfolding go by (simp add: finish_committed_def la_def marks_def)
  next
    case False
    with mark_applied_beyond [of marks la ci] have "mark_applied la [la + 1..ci] marks = Inl Out_of_range" by simp
    with False ap show ?thesis unfolding go by (simp add: finish_committed_def la_def marks_def)
  qed
qed

text \<open>
  A follower applies an out-of-order index when it is announced, before sequential entries of the same commit, and again when the
  sequential commit index reaches it: the state machine sees the entry twice.
\<close>

theorem follower_applies_twice:
  fixes w :: "('m, 'c, 'w) fsm_world"
  assumes "steady app" and "cq_queue (fw_closure_queue w) = []" and "er_status (fc_error (fw_caller w)) = OK0"
    and "\<forall>j \<in> set (oo @ [fc_last_applied_index (fw_caller w) + 1..ci]). applicable (lm_entry cd (fw_log_manager w)) j"
    and first: "do_committed cd app ci oo w = Inr (evs1, w1)" and i: "i \<in> set oo"
    and "fc_last_applied_index (fw_caller w1) < i" "i \<le> ci'"
    and "\<forall>j \<in> set [fc_last_applied_index (fw_caller w1) + 1..ci']. applicable (lm_entry cd (fw_log_manager w1)) j"
    and "lm_entry cd (fw_log_manager w) i = Some e" "lm_entry cd (fw_log_manager w1) i = Some e" "le_type e = ENTRY_TYPE_DATA"
    and second: "do_committed cd app ci' [] w1 = Inr (evs2, w2)"
  shows "On_apply i e None Sm_next \<in> set evs1 \<and> On_apply i e None Sm_next \<in> set evs2"
proof -
  let ?ent = "lm_entry cd (fw_log_manager w)" and ?ent1 = "lm_entry cd (fw_log_manager w1)"
  let ?vs = "map (\<lambda>i. (i, None)) (oo @ [fc_last_applied_index (fw_caller w) + 1..ci]) :: (int64 \<times> 'c option) list"
  let ?vs1 = "map (\<lambda>i. (i, None)) ([] @ [fc_last_applied_index (fw_caller w1) + 1..ci']) :: (int64 \<times> 'c option) list"
  have oo: "oo \<noteq> []" using i by auto
  obtain a where ap: "apply_committed cd app ci oo w =
      Inr (visit_events ?ent ?vs, oo @ [fc_last_applied_index (fw_caller w) + 1..ci],
        w\<lparr>fw_caller := (fw_caller w)\<lparr>fc_applying_index := a\<rparr>, fw_machine := visit_machine app ?ent (fw_machine w) ?vs\<rparr>)"
    using apply_committed_follower [OF steady_on_steady [OF assms(1)] assms(2,4)] by blast
  have evs1: "evs1 = visit_events ?ent ?vs" and w1: "fw_closure_queue w1 = fw_closure_queue w" "fc_error (fw_caller w1) = fc_error (fw_caller w)"
    using first assms(3) oo ap by (auto simp: do_committed_def finish_committed_def split: sum.splits prod.splits)
  have "cq_queue (fw_closure_queue w1) = []" using w1 assms(2) by simp
  then obtain a' where ap1: "apply_committed cd app ci' [] w1 =
      Inr (visit_events ?ent1 ?vs1, [] @ [fc_last_applied_index (fw_caller w1) + 1..ci'],
        w1\<lparr>fw_caller := (fw_caller w1)\<lparr>fc_applying_index := a'\<rparr>, fw_machine := visit_machine app ?ent1 (fw_machine w1) ?vs1\<rparr>)"
    using apply_committed_follower [OF steady_on_steady [OF assms(1)], of w1 "[]" ci' cd] assms(9) by auto
  have evs2: "evs2 = visit_events ?ent1 ?vs1"
    using second assms(3,7,8) w1 ap1 by (auto simp: do_committed_def split: sum.splits prod.splits)
  have "On_apply i e None Sm_next \<in> set (visit_events ?ent ?vs)"
    by (rule visit_events_apply) (use assms(4,10,12) i in auto)
  moreover have "On_apply i e None Sm_next \<in> set (visit_events ?ent1 ?vs1)"
    by (rule visit_events_apply) (use assms(7-9,11,12) in auto)
  ultimately show ?thesis by (simp only: evs1 evs2)
qed

text \<open>
  No error of applying is survived: whatever the state machine does, if applying returns, then no error was met and none was
  reported. When an entry is missing or the state machine reports an error, the loop that answers the remaining closures reads one
  element past the end.
\<close>

theorem apply_error_never_returns:
  fixes w :: "('m, 'c, 'w) fsm_world"
  assumes "apply_committed cd app ci oo w = Inr (evs, is, w')"
  shows "fc_error (fw_caller w') = fc_error (fw_caller w)"
proof -
  obtain ret cs js cq where pop: "pop_closure_until ci oo [] (fw_closure_queue w) = Inr (ret, cs, js, cq)"
    using assms by (cases "pop_closure_until ci oo [] (fw_closure_queue w)") (auto simp: apply_committed_def)
  obtain it levs lm where ni: "new_iterator cd cs (fc_last_applied_index (fw_caller w)) ci
      (fc_applying_index (fw_caller w)) js (fw_log_manager w) = Inr (it, levs, lm)"
    using assms pop
    by (cases "new_iterator cd cs (fc_last_applied_index (fw_caller w)) ci (fc_applying_index (fw_caller w)) js (fw_log_manager w)")
      (auto simp: apply_committed_def)
  obtain m evs1 it' lm' where cl: "committed_loop cd app (fw_machine w) it lm = Inr (m, evs1, it', lm')"
    using assms pop ni by (cases "committed_loop cd app (fw_machine w) it lm") (auto simp: apply_committed_def)
  have "it_inv it"
    using ni pop_closure_until_lengths [OF pop] unfolding new_iterator_def
    by (intro it_next_inv [OF _ _ ni [unfolded new_iterator_def]]) (auto simp: it_inv_def it_has_error_def no_error_def)
  then have inv: "it_inv it'" by (rule committed_loop_inv [OF cl])
  have "\<not> it_has_error it'"
  proof
    assume err: "it_has_error it'"
    have "\<exists>f. rest_closures (it_closure it') (er_status (it_error it')) [it_it it'..int (length (it_index_list it'))] =
        (Inl f :: fault + ('c, 'w) fsm_event list)"
      by (rule rest_closures_beyond [where n = "length (it_index_list it')"]) (use inv err in \<open>auto simp: it_inv_def\<close>)
    then obtain f where "run_the_rest_closure_with_error it' = (Inl f :: fault + ('c, 'w) fsm_event list)"
      using inv err by (auto simp: run_the_rest_closure_with_error_def it_inv_def)
    with assms pop ni cl err show False by (auto simp: apply_committed_def Let_def split: prod.splits)
  qed
  with assms pop ni cl show ?thesis by (auto simp: apply_committed_def Let_def)
qed

lemma run_tasks_other:
  "\<forall>i oo. t \<noteq> Committed_task i oo \<Longrightarrow>
     run_tasks cd app m acc (t # ts) w =
       (case flush_committed cd app m [] w of
          Inl f \<Rightarrow> Inl f
        | Inr (evs, w1) \<Rightarrow>
            (let (evs1, w2) = other_task t w1
             in case run_tasks cd app (-1) acc ts w2 of Inl f \<Rightarrow> Inl f | Inr (evs2, w3) \<Rightarrow> Inr (evs @ evs1 @ evs2, w3)))"
  by (cases t) (simp_all only: run_tasks.simps, simp)

lemma run_tasks_commits:
  "run_tasks cd app max_ci acc (map (\<lambda>(i, oo). Committed_task i oo) cs @ ts) w =
     run_tasks cd app (fold max (map fst cs) max_ci) (acc @ concat (map snd cs)) ts w"
proof (induction cs arbitrary: max_ci acc)
  case (Cons c cs)
  obtain i oo where c: "c = (i, oo)" by (cases c)
  have "(if i > max_ci then i else max_ci) = max i max_ci" by (simp add: max_def)
  then show ?case using Cons.IH [of "max i max_ci" "acc @ oo"] by (simp add: c)
qed simp

text \<open>
  C19. A batch of commits is applied once: with the largest commit index and all out-of-order indexes, in the order of the tasks.
\<close>

theorem run_merges_commits:
  assumes "i \<ge> 0"
  shows "fsm_run cd app False (map (\<lambda>(i, oo). Committed_task i oo) ((i, oo) # cs)) w =
     (case do_committed cd app (Max (insert i (fst ` set cs))) (oo @ concat (map snd cs)) (set_cur_task COMMITTED w) of
        Inl f \<Rightarrow> Inl f
      | Inr (evs, w') \<Rightarrow> Inr (evs, set_cur_task IDLE w'))"
proof -
  have mx: "fold max (map fst cs) j = Max (insert j (fst ` set cs))" for j
    using Max.set_eq_fold [of j "map fst cs"] by simp
  have "0 \<le> Max (insert i (fst ` set cs))" using assms by (simp add: Max_ge_iff)
  moreover have "(if i > -1 then i else -1) = i" using assms by simp
  ultimately show ?thesis
    using run_tasks_commits [of cd app "-1" "[]" "(i, oo) # cs" "[]" w] assms
    by (simp add: fsm_run_def flush_committed_def mx max_def split del: if_split)
qed

text \<open>
  When another task follows commits in a batch, the out-of-order indexes of those commits are dropped: the batch does what it would
  do if the commits had announced none.
\<close>

theorem other_task_drops_oo:
  fixes w :: "('b, 'a, 'c) fsm_world"
  assumes "\<forall>i oo. t \<noteq> Committed_task i oo"
  shows "fsm_run cd app False (map (\<lambda>(i, oo). Committed_task i oo) cs @ [t]) w =
     fsm_run cd app False (map (\<lambda>(i, oo). Committed_task i []) cs @ [t]) w"
proof -
  have plain: "map (\<lambda>(i, oo). Committed_task i []) cs = map (\<lambda>(i, oo). Committed_task i oo) (map (\<lambda>(i, oo). (i, [])) cs)"
    by (simp add: case_prod_beta comp_def)
  have none: "concat (map snd (map (\<lambda>(i, oo). (i, [])) cs)) = []" by (simp add: case_prod_beta)
  have fsts: "map fst (map (\<lambda>(i, oo). (i, [])) cs) = map fst cs" by (simp add: case_prod_beta comp_def)
  have nil: "run_tasks cd app (-1) acc [] v = Inr ([], set_cur_task IDLE v)" for acc and v :: "('b, 'a, 'c) fsm_world"
    by (simp add: flush_committed_def)
  have last: "run_tasks cd app m acc [t] w = run_tasks cd app m [] [t] w" for m acc
    unfolding run_tasks_other [OF assms] nil by (rule refl)
  show ?thesis
    unfolding fsm_run_def plain run_tasks_commits none fsts
    using last [of "fold max (map fst cs) (-1)" "[] @ concat (map snd cs)"] by simp
qed

text \<open>What a batch leaves alone when the caller is in error.\<close>

definition untouched :: "('m, 'c, 'w) fsm_world \<Rightarrow> ('m, 'c, 'w) fsm_world \<Rightarrow> bool" where
  "untouched w w' \<longleftrightarrow>
     fw_machine w' = fw_machine w \<and> fw_closure_queue w' = fw_closure_queue w \<and> fw_log_manager w' = fw_log_manager w \<and>
     fc_error (fw_caller w') = fc_error (fw_caller w) \<and> fc_last_applied_index (fw_caller w') = fc_last_applied_index (fw_caller w)"

definition in_error :: "('m, 'c, 'w) fsm_world \<Rightarrow> bool" where
  "in_error w \<longleftrightarrow> er_type (fc_error (fw_caller w)) \<noteq> ERROR_TYPE_NONE \<and> er_status (fc_error (fw_caller w)) \<noteq> OK0"

lemma flush_in_error:
  "in_error w \<Longrightarrow> flush_committed cd app m oo w = Inr ([], if m \<ge> 0 then set_cur_task COMMITTED w else w)"
  by (simp add: flush_committed_def do_committed_def in_error_def)

lemma other_task_in_error:
  assumes "in_error w" "other_task t w = (evs, w')"
  shows "untouched w w' \<and> in_error w' \<and> (\<forall>i e c a. On_apply i e c a \<notin> set evs)"
proof -
  have "\<exists>k. w' = set_cur_task k w \<and> (\<forall>i e c a. On_apply i e c a \<notin> set evs)"
  proof (cases t)
    case (Error_task e)
    have "er_type (fc_error (fw_caller w)) \<noteq> ERROR_TYPE_NONE" using assms(1) by (simp add: in_error_def)
    with Error_task assms(2) have "evs = [] \<and> w' = set_cur_task ERROR w" by (auto simp: set_error_def)
    then show ?thesis by auto
  next
    case (Leader_start_task n)
    with assms(2) have "w' = set_cur_task (fc_cur_task (fw_caller w)) w \<and> evs = [On_leader_start n]" by auto
    then show ?thesis by (intro exI [of _ "fc_cur_task (fw_caller w)"]) simp
  next
    case (Committed_task i oo)
    with assms(2) have "w' = set_cur_task (fc_cur_task (fw_caller w)) w \<and> evs = []" by auto
    then show ?thesis by (intro exI [of _ "fc_cur_task (fw_caller w)"]) simp
  qed (use assms(2) in auto)
  then show ?thesis using assms(1) by (auto simp: untouched_def in_error_def)
qed

lemma untouched_trans: "untouched w w1 \<Longrightarrow> untouched w1 w2 \<Longrightarrow> untouched w w2"
  by (simp add: untouched_def)

lemma run_tasks_in_error:
  "in_error w \<Longrightarrow> \<exists>evs w'. run_tasks cd app m acc ts w = Inr (evs, w') \<and> (\<forall>i e c a. On_apply i e c a \<notin> set evs) \<and> untouched w w'"
proof (induction ts arbitrary: m acc w)
  case Nil
  then show ?case by (simp add: flush_in_error untouched_def)
next
  case (Cons t ts)
  show ?case
  proof (cases "\<exists>i oo. t = Committed_task i oo")
    case True
    then show ?thesis using Cons.IH [OF Cons.prems] by auto
  next
    case False
    obtain oevs w1 where o: "other_task t (if m \<ge> 0 then set_cur_task COMMITTED w else w) = (oevs, w1)" by fastforce
    have "in_error (if m \<ge> 0 then set_cur_task COMMITTED w else w)" using Cons.prems by (simp add: in_error_def)
    note k = other_task_in_error [OF this o]
    have k1: "in_error w1" "untouched w w1" using k by (auto simp: untouched_def split: if_splits)
    from Cons.IH [OF k1(1), of "-1" acc] obtain evs w' where r: "run_tasks cd app (-1) acc ts w1 = Inr (evs, w')"
      "\<forall>i e c a. On_apply i e c a \<notin> set evs" "untouched w1 w'" by blast
    have "run_tasks cd app m acc (t # ts) w = Inr (oevs @ evs, w')"
      using False o r(1) by (simp add: run_tasks_other flush_in_error [OF Cons.prems] split del: if_split)
    moreover have "\<forall>i e c a. On_apply i e c a \<notin> set (oevs @ evs)" using r(2) k by simp
    ultimately show ?thesis using untouched_trans [OF k1(2) r(3)] by blast
  qed
qed

text \<open>
  Nothing is applied after a critical error: once an error is set, no batch of tasks shows the state machine another entry, changes its
  state or hands out a closure, and the error stays.
\<close>

theorem no_apply_after_error:
  assumes "in_error w"
  shows "\<exists>evs w'. fsm_run cd app False ts w = Inr (evs, w') \<and> (\<forall>i e c a. On_apply i e c a \<notin> set evs) \<and> untouched w w'"
  using run_tasks_in_error [OF assms] by (simp add: fsm_run_def)

section \<open>Examples\<close>

definition demo_machine :: "(int64 list, nat) state_machine" where
  "demo_machine m i e c = (Sm_next, m @ [i])"

definition demo_world :: "nat closure_queue \<Rightarrow> bool list \<Rightarrow> (int64 list, nat, nat) fsm_world" where
  "demo_world q marks =
     \<lparr>fw_caller = new_fsm_caller\<lparr>fc_oo_apply_queue := marks\<rparr>, fw_machine = [], fw_closure_queue = q, fw_log_manager = demo_manager3\<rparr>"

lemma demo_machine_steady: "steady demo_machine"
  by (simp add: steady_def demo_machine_def)

lemma demo_world_fields [simp]:
  "fw_closure_queue (demo_world q ms) = q" "fw_log_manager (demo_world q ms) = demo_manager3" "fw_machine (demo_world q ms) = []"
  "fc_last_applied_index (fw_caller (demo_world q ms)) = 0" "fc_oo_apply_queue (fw_caller (demo_world q ms)) = ms"
  "er_status (fc_error (fw_caller (demo_world q ms))) = OK0"
  by (simp_all add: demo_world_def new_fsm_caller_def no_error_def)

lemma demo_manager3_entry:
  "lm_entry cd demo_manager3 1 = Some (data_entry 1 1 [])" "lm_entry cd demo_manager3 2 = Some (data_entry 2 1 [7])"
  "lm_entry cd demo_manager3 3 = Some (data_entry 3 1 [8])"
  by (rule lm_entry_tail [OF demo_manager3_inv]; simp add: demo_manager3_fields data_entry_def)+

lemma demo_manager3_term: "lm_get_term 3 demo_manager3 = Inr 1" "lm_get_term 1 demo_manager3 = Inr 1"
  by (simp_all add: lm_get_term_def unsafe_get_term_def demo_manager3_fields get_entry_from_memory_rep [OF demo_manager3_inv])
    (simp_all add: data_entry_def)

lemma demo_applicable: "1 \<le> i \<Longrightarrow> i \<le> 3 \<Longrightarrow> applicable (lm_entry cd demo_manager3) i"
proof -
  assume "1 \<le> i" "i \<le> 3"
  then have "i = 1 \<or> i = 2 \<or> i = 3" by arith
  then show ?thesis by (auto simp: applicable_def demo_manager3_entry data_entry_def)
qed

lemma demo_manager3_trim_none: "set_applied_id (LogId 0 0) demo_manager3 = demo_manager3"
proof -
  have "lm_logs_in_memory demo_manager3 = map demo_received [1..3]"
    using tail_rep_mem [OF tail_invD(1) [OF demo_manager3_inv]] by (simp add: demo_manager3_fields)
  also have "dropWhile (clearable (LogId 0 0)) \<dots> = \<dots>"
    by (simp add: clearable_def data_entry_def log_id_order_defs upto_rec1)
  finally show ?thesis
    by (simp add: set_applied_id_def clear_memory_logs_def clear_memory_loop_dropWhile demo_manager3_fields log_id_order_defs min_def)
qed

theorem leader_applies_each_once_witness:
  "\<forall>cd. \<exists>evs w'. apply_committed cd demo_machine 1 [3] (demo_world demo_queue []) = Inr (evs, [1, 3], w') \<and>
     fw_machine w' = [1, 3] \<and>
     evs = [On_apply 1 (data_entry 1 1 []) (Some 10) Sm_next, On_apply 3 (data_entry 3 1 [8]) (Some 30) Sm_next]"
proof
  fix cd
  have new: "filter (\<lambda>i. \<not> cq_done demo_queue i) ([cq_first_index demo_queue..1] @ [3]) = [1, 3]"
    and cs: "cq_at demo_queue 1 = Some 10" "cq_at demo_queue 3 = Some 30"
    by (simp_all add: demo_queue_eval settled_def cq_at_def)
  have q: "cq_aligned demo_queue" "(1::int) < cq_first_index demo_queue + int (length (cq_queue demo_queue))"
    "distinct [3::int]" "\<forall>i \<in> set [3]. 1 < i \<and> in_queue demo_queue i"
    by (simp_all add: demo_queue_eval cq_aligned_def in_queue_def)
  note l = leader_applies_each_once [where w = "demo_world demo_queue []" and ci = 1 and oo = "[3]" and cd = cd,
      OF steady_on_steady [OF demo_machine_steady], unfolded demo_world_fields new, OF q(1) _ q(2-4)]
  show "\<exists>evs w'. apply_committed cd demo_machine 1 [3] (demo_world demo_queue []) = Inr (evs, [1, 3], w') \<and>
     fw_machine w' = [1, 3] \<and>
     evs = [On_apply 1 (data_entry 1 1 []) (Some 10) Sm_next, On_apply 3 (data_entry 3 1 [8]) (Some 30) Sm_next]"
    using l demo_applicable by (auto simp: cs demo_manager3_entry demo_machine_def) (simp_all add: data_entry_def)
qed

theorem sequential_apply_bounds_witness:
  "\<forall>cd. (\<exists>evs w'. do_committed cd demo_machine 3 [] (demo_world new_closure_queue []) = Inr (evs, w') \<and>
       fc_last_applied_index (fw_caller w') = 3) \<and>
     do_committed cd demo_machine 3 [] (demo_world new_closure_queue [False, False]) = Inl Out_of_range"
proof
  fix cd
  have q: "cq_queue new_closure_queue = []" by (simp add: new_closure_queue_def)
  have ap: "\<forall>i \<in> set [0 + 1..3]. applicable (lm_entry cd demo_manager3) i" using demo_applicable by simp
  note b = sequential_apply_bounds [where ci = 3 and cd = cd and w = "demo_world new_closure_queue ms" for ms,
      OF demo_machine_steady, unfolded demo_world_fields, OF q refl _ ap _ demo_manager3_term(1)]
  show "(\<exists>evs w'. do_committed cd demo_machine 3 [] (demo_world new_closure_queue []) = Inr (evs, w') \<and>
       fc_last_applied_index (fw_caller w') = 3) \<and>
     do_committed cd demo_machine 3 [] (demo_world new_closure_queue [False, False]) = Inl Out_of_range"
    using b [of "[]"] b [of "[False, False]"] by auto
qed

text \<open>Index 3 is announced out of order, then indexes 1 to 3 are committed.\<close>

lemma demo_first_commit:
  "\<exists>evs w1. do_committed cd demo_machine 0 [3] (demo_world new_closure_queue [False, False, False, False]) = Inr (evs, w1) \<and>
     fw_log_manager w1 = demo_manager3 \<and> fc_last_applied_index (fw_caller w1) = 0 \<and>
     fc_oo_apply_queue (fw_caller w1) = [False, False, False, True] \<and>
     fw_closure_queue w1 = new_closure_queue \<and> fc_error (fw_caller w1) = no_error"
proof -
  let ?w = "demo_world new_closure_queue [False, False, False, False]"
  have q: "cq_queue (fw_closure_queue ?w) = []" by (simp add: new_closure_queue_def)
  obtain a where "apply_committed cd demo_machine 0 [3] ?w =
      Inr (visit_events (lm_entry cd demo_manager3) [(3, None)], [3],
        ?w\<lparr>fw_caller := (fw_caller ?w)\<lparr>fc_applying_index := a\<rparr>,
          fw_machine := visit_machine demo_machine (lm_entry cd demo_manager3) [] [(3, None)]\<rparr>)"
    using apply_committed_follower [OF steady_on_steady [OF demo_machine_steady] q, of "[3]" 0 cd] demo_applicable [of 3 cd] by auto
  then show ?thesis
    by (simp add: do_committed_def finish_committed_def put_index_def lm_get_term_def unsafe_get_term_def demo_manager3_trim_none
        demo_world_def new_fsm_caller_def no_error_def numeral_3_eq_3)
qed

theorem follower_applies_twice_witness:
  "\<forall>cd. \<exists>evs1 w1 evs2 w2.
     do_committed cd demo_machine 0 [3] (demo_world new_closure_queue [False, False, False, False]) = Inr (evs1, w1) \<and>
     do_committed cd demo_machine 3 [] w1 = Inr (evs2, w2) \<and>
     On_apply 3 (data_entry 3 1 [8]) None Sm_next \<in> set evs1 \<and> On_apply 3 (data_entry 3 1 [8]) None Sm_next \<in> set evs2"
proof
  fix cd
  let ?w = "demo_world new_closure_queue [False, False, False, False]"
  obtain evs1 w1 where w1: "do_committed cd demo_machine 0 [3] ?w = Inr (evs1, w1)" "fw_log_manager w1 = demo_manager3"
    "fc_last_applied_index (fw_caller w1) = 0" "fc_oo_apply_queue (fw_caller w1) = [False, False, False, True]"
    "fw_closure_queue w1 = new_closure_queue" "fc_error (fw_caller w1) = no_error"
    using demo_first_commit by blast
  have q: "cq_queue (fw_closure_queue w1) = []" "cq_queue (fw_closure_queue ?w) = []" by (simp_all add: w1(5) new_closure_queue_def)
  obtain a where "apply_committed cd demo_machine 3 [] w1 =
      Inr (visit_events (lm_entry cd demo_manager3) (map (\<lambda>i. (i, None)) [1..3]), [1..3],
        w1\<lparr>fw_caller := (fw_caller w1)\<lparr>fc_applying_index := a\<rparr>,
          fw_machine := visit_machine demo_machine (lm_entry cd demo_manager3) (fw_machine w1) (map (\<lambda>i. (i, None)) [1..3])\<rparr>)"
    using apply_committed_follower [OF steady_on_steady [OF demo_machine_steady] q(1), of "[]" 3 cd] demo_applicable w1 by auto
  then obtain evs2 w2 where w2: "do_committed cd demo_machine 3 [] w1 = Inr (evs2, w2)"
    by (simp add: do_committed_def finish_committed_def w1 no_error_def upto_rec1 put_index_def demo_manager3_term numeral_3_eq_3)
  have "On_apply 3 (data_entry 3 1 [8]) None Sm_next \<in> set evs1 \<and> On_apply 3 (data_entry 3 1 [8]) None Sm_next \<in> set evs2"
    by (rule follower_applies_twice [OF demo_machine_steady q(2) _ _ w1(1) _ _ _ _ _ _ _ w2])
      (auto simp: w1 demo_manager3_entry demo_applicable data_entry_def)
  with w1(1) w2 show "\<exists>evs1 w1 evs2 w2. do_committed cd demo_machine 0 [3] ?w = Inr (evs1, w1) \<and>
     do_committed cd demo_machine 3 [] w1 = Inr (evs2, w2) \<and>
     On_apply 3 (data_entry 3 1 [8]) None Sm_next \<in> set evs1 \<and> On_apply 3 (data_entry 3 1 [8]) None Sm_next \<in> set evs2"
    by blast
qed

text \<open>The commits of a batch are the ones of two calls of the ballot box; a change of the leader ends another batch.\<close>

theorem run_merges_commits_witness:
  "\<forall>cd. fsm_run cd demo_machine False [Committed_task 1 [3], Committed_task 2 []] (demo_world demo_queue []) =
     (case do_committed cd demo_machine 2 [3] (set_cur_task COMMITTED (demo_world demo_queue [])) of
        Inl f \<Rightarrow> Inl f
      | Inr (evs, w') \<Rightarrow> Inr (evs, set_cur_task IDLE w'))"
proof
  fix cd
  show "fsm_run cd demo_machine False [Committed_task 1 [3], Committed_task 2 []] (demo_world demo_queue []) =
     (case do_committed cd demo_machine 2 [3] (set_cur_task COMMITTED (demo_world demo_queue [])) of
        Inl f \<Rightarrow> Inl f
      | Inr (evs, w') \<Rightarrow> Inr (evs, set_cur_task IDLE w'))"
    using run_merges_commits [of 1 cd demo_machine "[3]" "[(2, [])]" "demo_world demo_queue []"] by simp
qed

theorem other_task_drops_oo_witness:
  "\<forall>cd. fsm_run cd demo_machine False [Committed_task 1 [3], Leader_start_task 2] (demo_world demo_queue []) =
     fsm_run cd demo_machine False [Committed_task 1 [], Leader_start_task 2] (demo_world demo_queue [])"
proof
  fix cd
  show "fsm_run cd demo_machine False [Committed_task 1 [3], Leader_start_task 2] (demo_world demo_queue []) =
     fsm_run cd demo_machine False [Committed_task 1 [], Leader_start_task 2] (demo_world demo_queue [])"
    using other_task_drops_oo [of "Leader_start_task 2" cd demo_machine "[(1, [3])]" "demo_world demo_queue []"] by simp
qed

theorem apply_error_never_returns_witness:
  "\<forall>cd. \<exists>evs is w'. apply_committed cd demo_machine 0 [3] (demo_world new_closure_queue []) = Inr (evs, is, w') \<and>
     fc_error (fw_caller w') = fc_error (fw_caller (demo_world new_closure_queue []))"
proof
  fix cd
  have q: "cq_queue (fw_closure_queue (demo_world new_closure_queue [])) = []" by (simp add: new_closure_queue_def)
  obtain evs "is" w' where "apply_committed cd demo_machine 0 [3] (demo_world new_closure_queue []) = Inr (evs, is, w')"
    using apply_committed_follower [OF steady_on_steady [OF demo_machine_steady] q, of "[3]" 0 cd] demo_applicable [of 3 cd] by auto
  with apply_error_never_returns [OF this] show "\<exists>evs is w'.
      apply_committed cd demo_machine 0 [3] (demo_world new_closure_queue []) = Inr (evs, is, w') \<and>
      fc_error (fw_caller w') = fc_error (fw_caller (demo_world new_closure_queue []))" by blast
qed

definition failed_world :: "(int64 list, nat, nat) fsm_world" where
  "failed_world = (demo_world demo_queue [])\<lparr>fw_caller := new_fsm_caller\<lparr>fc_error := \<lparr>er_type = ERROR_TYPE_LOG, er_status = EIO\<rparr>\<rparr>\<rparr>"

theorem no_apply_after_error_witness:
  "\<forall>cd. \<exists>evs w'. fsm_run cd demo_machine False [Committed_task 2 [3], Leader_start_task 2, Committed_task 3 []] failed_world = Inr (evs, w') \<and>
     (\<forall>i e c a. On_apply i e c a \<notin> set evs) \<and> untouched failed_world w'"
proof
  fix cd
  have "in_error failed_world" by (simp add: in_error_def failed_world_def)
  then show "\<exists>evs w'. fsm_run cd demo_machine False [Committed_task 2 [3], Leader_start_task 2, Committed_task 3 []] failed_world = Inr (evs, w') \<and>
     (\<forall>i e c a. On_apply i e c a \<notin> set evs) \<and> untouched failed_world w'"
    by (rule no_apply_after_error)
qed

end
