(* ===== verification/File_Io.thy ===== *)
theory File_Io
  imports Bytes
begin

text \<open>
  \<open>file_pwrite\<close> and \<open>file_pread\<close> of \<open>src/cpp/util.cc\<close>: loops over system calls that transfer some of the bytes, are
  interrupted or fail. A file is the list of its bytes. The outcomes of the system calls are an argument: after the listed ones, the
  next call transfers all that is left. So every run that ends is one of the model.
\<close>

section \<open>Files\<close>

text \<open>\<open>pwrite\<close>: bytes between the old end of the file and the offset are zero.\<close>

definition file_put :: "nat \<Rightarrow> byte list \<Rightarrow> byte list \<Rightarrow> byte list" where
  "file_put off bs content =
     (if bs = [] then content else take off (content @ replicate (off - length content) 0) @ bs @ drop (off + length bs) content)"

datatype io_step = Io_done nat | Io_eintr | Io_error

fun pwrite_loop :: "io_step list \<Rightarrow> nat \<Rightarrow> byte list \<Rightarrow> byte list \<Rightarrow> bool \<times> byte list" where
  "pwrite_loop [] off data content = (True, file_put off data content)"
| "pwrite_loop (Io_done n # steps) off data content =
     (if data = [] then (True, content)
      else pwrite_loop steps (off + min n (length data)) (drop n data) (file_put off (take n data) content))"
| "pwrite_loop (Io_eintr # steps) off data content = (if data = [] then (True, content) else pwrite_loop steps off data content)"
| "pwrite_loop (Io_error # steps) off data content = (if data = [] then (True, content) else (False, content))"

text \<open>A negative offset makes the system call fail with \<open>EINVAL\<close>.\<close>

definition file_pwrite :: "io_step list \<Rightarrow> int64 \<Rightarrow> byte list \<Rightarrow> byte list \<Rightarrow> int \<times> byte list" where
  "file_pwrite steps off data content =
     (if data = [] then (0, content)
      else if off < 0 then (-1, content)
      else (let (ok, content') = pwrite_loop steps (nat off) data content in (if ok then int (length data) else -1, content')))"

text \<open>A read that does not fail returns nothing exactly at the end of the file.\<close>

fun pread_loop :: "io_step list \<Rightarrow> nat \<Rightarrow> nat \<Rightarrow> byte list \<Rightarrow> byte list \<Rightarrow> byte list option" where
  "pread_loop [] off left content acc = Some (acc @ take left (drop off content))"
| "pread_loop (Io_done n # steps) off left content acc =
     (let got = take (min (max 1 n) left) (drop off content)
      in if got = [] then Some acc else pread_loop steps (off + length got) (left - length got) content (acc @ got))"
| "pread_loop (Io_eintr # steps) off left content acc = (if left = 0 then Some acc else pread_loop steps off left content acc)"
| "pread_loop (Io_error # steps) off left content acc = (if left = 0 then Some acc else None)"

definition file_pread :: "io_step list \<Rightarrow> int64 \<Rightarrow> nat \<Rightarrow> byte list \<Rightarrow> byte list option" where
  "file_pread steps off sz content =
     (if sz = 0 then Some [] else if off < 0 then None else pread_loop steps (nat off) sz content [])"

section \<open>A file as a map from offsets to bytes\<close>

lemma file_put_Nil [simp]: "file_put off [] content = content"
  by (simp add: file_put_def)

lemma length_file_put: "bs \<noteq> [] \<Longrightarrow> length (file_put off bs content) = max (length content) (off + length bs)"
  by (auto simp: file_put_def)

lemma nth_file_put:
  assumes "bs \<noteq> []" "i < max (length content) (off + length bs)"
  shows "file_put off bs content ! i =
    (if off \<le> i \<and> i < off + length bs then bs ! (i - off) else if i < length content then content ! i else 0)"
proof -
  let ?p = "take off (content @ replicate (off - length content) 0)"
  have p: "length ?p = off" by simp
  have "?p ! i = (if i < length content then content ! i else 0)" if "i < off" using that by (simp add: nth_append)
  then show ?thesis using assms p by (auto simp: file_put_def nth_append simp del: take_append)
qed

lemma nth_file_put_in: "off \<le> i \<Longrightarrow> i < off + length bs \<Longrightarrow> file_put off bs content ! i = bs ! (i - off)"
  by (subst nth_file_put) auto

text \<open>Writing in pieces.\<close>

lemma file_put_split: "file_put (off + length xs) ys (file_put off xs content) = file_put off (xs @ ys) content"
proof (cases "xs = [] \<or> ys = []")
  case False
  then show ?thesis
    by (intro nth_equalityI) (auto simp: length_file_put nth_file_put nth_append)
qed auto

lemma pwrite_loop_ok: "Io_error \<notin> set steps \<Longrightarrow> pwrite_loop steps off data content = (True, file_put off data content)"
proof (induction steps off data content rule: pwrite_loop.induct)
  case (2 n steps off data content)
  have "file_put (off + min n (length data)) (drop n data) (file_put off (take n data) content) = file_put off data content"
    using file_put_split [of off "take n data" "drop n data" content] by (simp add: min.commute)
  with 2 show ?case by simp
qed auto

text \<open>A failed write leaves a prefix of the data in the file.\<close>

lemma pwrite_loop_prefix: "\<exists>n \<le> length data. snd (pwrite_loop steps off data content) = file_put off (take n data) content"
proof (induction steps off data content rule: pwrite_loop.induct)
  case (1 off data content)
  then show ?case by (intro exI [of _ "length data"]) simp
next
  case (2 n steps off data content)
  show ?case
  proof (cases "data = []")
    case False
    with 2 obtain m where m: "m \<le> length (drop n data)"
      "snd (pwrite_loop (Io_done n # steps) off data content) = file_put (off + min n (length data)) (take m (drop n data)) (file_put off (take n data) content)"
      by auto
    have "take (min n (length data) + m) data = take n data @ take m (drop n data)"
      by (cases "n \<le> length data") (simp_all add: take_add min_def)
    with m file_put_split [of off "take n data" "take m (drop n data)" content] show ?thesis
      by (intro exI [of _ "min n (length data) + m"]) (auto simp: min.commute)
  qed simp
next
  case (3 steps off data content)
  then show ?case by (auto intro: exI [of _ 0])
next
  case (4 steps off data content)
  show ?case by (intro exI [of _ 0]) simp
qed

lemma take_split:
  assumes "k \<le> n"
  shows "take n d = take k d @ take (n - length (take k d)) (drop (length (take k d)) d)"
proof (cases "k \<le> length d")
  case True
  then show ?thesis using take_add [of k "n - k" d] assms by (simp add: min_def)
qed (use assms in simp)

lemma pread_loop_ok:
  "Io_error \<notin> set steps \<Longrightarrow> pread_loop steps off left content acc = Some (acc @ take left (drop off content))"
proof (induction steps off left content acc rule: pread_loop.induct)
  case (2 n steps off left content acc)
  let ?k = "min (max 1 n) left" and ?d = "drop off content"
  let ?g = "take ?k ?d"
  note split = take_split [of ?k left ?d, OF min.cobounded2]
  show ?case
  proof (cases "?g = []")
    case True
    then have "take left ?d = []" by auto
    with True show ?thesis by simp
  next
    case False
    have e: "Io_error \<notin> set steps" using 2(2) by simp
    have d: "drop (length ?g) ?d = drop (off + length ?g) content" by (simp only: drop_drop add.commute)
    have "pread_loop (Io_done n # steps) off left content acc = Some ((acc @ ?g) @ take (left - length ?g) (drop (off + length ?g) content))"
      using 2(1) [OF refl False e] False by (simp only: pread_loop.simps Let_def if_False)
    also have "\<dots> = Some (acc @ take left ?d)" unfolding split [unfolded d] append_assoc by (rule refl)
    finally show ?thesis .
  qed
qed auto

end
