(* ===== verification/Reorder.thy ===== *)
theory Reorder
  imports "HOL-Library.Multiset"
begin

text \<open>
  Actions that are performed in another order. The interface \<open>commuting_actions\<close> asks that two actions commute unless they conflict; then
  any reordering that keeps the order of conflicting actions has the same effect.
\<close>

definition keeps_order :: "('a \<Rightarrow> 'a \<Rightarrow> bool) \<Rightarrow> 'a list \<Rightarrow> 'a list \<Rightarrow> bool" where
  "keeps_order conflict xs ys \<longleftrightarrow>
     (\<forall>a \<in> set xs. \<forall>b \<in> set xs. conflict a b \<longrightarrow> filter (\<lambda>z. z = a \<or> z = b) xs = filter (\<lambda>z. z = a \<or> z = b) ys)"

lemma split_first: "x \<in> set ys \<Longrightarrow> \<exists>as bs. ys = as @ x # bs \<and> x \<notin> set as"
  by (meson split_list_first)

lemma keeps_order_drop:
  assumes "keeps_order conflict (x # xs) (as @ x # bs)" "x \<notin> set xs" "x \<notin> set (as @ bs)"
  shows "keeps_order conflict xs (as @ bs)"
  unfolding keeps_order_def
proof (intro ballI impI)
  fix a b
  assume ab: "a \<in> set xs" "b \<in> set xs" "conflict a b"
  then have "a \<noteq> x" "b \<noteq> x" using assms(2) by auto
  moreover have "filter (\<lambda>z. z = a \<or> z = b) (x # xs) = filter (\<lambda>z. z = a \<or> z = b) (as @ x # bs)"
    using assms(1) ab unfolding keeps_order_def by auto
  ultimately show "filter (\<lambda>z. z = a \<or> z = b) xs = filter (\<lambda>z. z = a \<or> z = b) (as @ bs)" by simp
qed

locale commuting_actions =
  fixes act :: "'a \<Rightarrow> 's \<Rightarrow> 's" and conflict :: "'a \<Rightarrow> 'a \<Rightarrow> bool"
  assumes commute: "\<not> conflict a b \<Longrightarrow> act a (act b s) = act b (act a s)"
begin

lemma fold_past:
  "\<forall>a \<in> set as. \<not> conflict x a \<Longrightarrow> fold act as (act x s) = act x (fold act as s)"
proof (induction as arbitrary: s)
  case (Cons a as)
  then have "act a (act x s) = act x (act a s)" using commute [of x a s] by simp
  with Cons show ?case by simp
qed simp

lemma fold_reorder:
  assumes "distinct xs" "mset xs = mset ys" "keeps_order conflict xs ys"
  shows "fold act xs s = fold act ys s"
  using assms
proof (induction xs arbitrary: ys s)
  case (Cons x xs)
  have "x \<in> set ys" using mset_eq_setD [OF Cons.prems(2)] by auto
  then obtain as bs where ys: "ys = as @ x # bs" "x \<notin> set as" using split_first by metis
  have m: "mset xs = mset (as @ bs)" using Cons.prems(2) ys(1) by simp
  have nx: "x \<notin> set xs" "x \<notin> set (as @ bs)" using Cons.prems(1) mset_eq_setD [OF m] by auto
  have nc: "\<not> conflict x a" if a: "a \<in> set as" for a
  proof
    assume c: "conflict x a"
    have "a \<in> set xs" using a mset_eq_setD [OF m] by auto
    then have f: "filter (\<lambda>z. z = x \<or> z = a) (x # xs) = filter (\<lambda>z. z = x \<or> z = a) (as @ x # bs)"
      using Cons.prems(3) c ys(1) unfolding keeps_order_def by auto
    have "filter (\<lambda>z. z = x \<or> z = a) as = filter (\<lambda>z. z = a) as" using ys(2) by (auto intro: filter_cong)
    moreover have "filter (\<lambda>z. z = a) as \<noteq> []" using a by (auto simp: filter_empty_conv)
    then obtain z zs where z: "filter (\<lambda>z. z = a) as = z # zs" by (cases "filter (\<lambda>z. z = a) as") auto
    then have "z \<in> set as" using filter_set [of "\<lambda>z. z = a" as] by (metis filter_is_subset list.set_intros(1) subsetD)
    ultimately show False using f z ys(2) by auto
  qed
  have "distinct xs" using Cons.prems(1) by simp
  from Cons.IH [OF this m keeps_order_drop [OF Cons.prems(3) [unfolded ys(1)] nx]]
  have "fold act xs (act x s) = fold act (as @ bs) (act x s)" .
  also have "\<dots> = fold act bs (act x (fold act as s))" using fold_past [of as x s] nc by simp
  finally show ?case using ys(1) by simp
qed simp

end

end
