(* ===== verification/Sample_Machine.thy ===== *)
theory Sample_Machine
  imports Fsm_Apply File_Io Reorder Dependency
begin

text \<open>
  \<open>src/examples/raft_server.cc\<close>: a replicated file. A client writes bytes at an offset; the request is stored in the log, with the offset as
  its dependency id, and each replica writes the bytes to its file when the entry is committed. The coding of the request message is
  a parameter; the file is \<open>File_Io\<close>.
\<close>

section \<open>Requests\<close>

record sm_request =
  sq_offset :: int64
  sq_size :: "int option"

record sm_closure =
  sc_request :: sm_request
  sc_data :: "byte list"

text \<open>\<open>SerializeToZeroCopyStream\<close> may fail; \<open>ParseFromZeroCopyStream\<close> leaves some request when it fails, which the code goes on with.\<close>

record sm_codec =
  sm_serialize :: "sm_request \<Rightarrow> byte list option"
  sm_parse :: "byte list \<Rightarrow> sm_request"

definition codec_ok :: "sm_codec \<Rightarrow> bool" where
  "codec_ok cd \<longleftrightarrow> (\<forall>r bs. sm_serialize cd r = Some bs \<longrightarrow> sm_parse cd bs = r)"

text \<open>\<open>SampleStateMachine::write\<close> up to the call of \<open>apply_task\<close>; \<open>None\<close> when the response is not a success.\<close>

definition sm_log :: "sm_codec \<Rightarrow> sm_request \<Rightarrow> byte list \<Rightarrow> byte list option" where
  "sm_log cd request data =
     (case sm_serialize cd request of
        None \<Rightarrow> None
      | Some bs \<Rightarrow> Some (pack 4 (word_of_nat (length bs) :: 32 word) @ bs @ data))"

definition sm_write :: "sm_codec \<Rightarrow> sm_request \<Rightarrow> byte list \<Rightarrow> sm_closure apply_task option" where
  "sm_write cd request data =
     (case sm_log cd request data of
        None \<Rightarrow> None
      | Some log \<Rightarrow>
          Some \<lparr>at_data = log, at_dependency_id = sq_offset request, at_done = Some \<lparr>sc_request = request, sc_data = data\<rparr>,
                at_expected_term = -1\<rparr>)"

text \<open>\<open>cutn\<close> takes what is there: the size of a log that is too short has zeros at the end.\<close>

definition sm_parse_log :: "sm_codec \<Rightarrow> byte list \<Rightarrow> int64 \<times> byte list" where
  "sm_parse_log cd log =
     (let meta_size = unat (unpack (take 4 log @ replicate (4 - length log) 0) :: 32 word); rest = drop 4 log
      in (sq_offset (sm_parse cd (take meta_size rest)), drop meta_size rest))"

section \<open>The state machine\<close>

text \<open>\<open>sm_io\<close>: the outcomes of the system calls of the next writes. \<open>sm_responses\<close>: the requests answered, with the success they were given.\<close>

record sample_machine =
  sm_file :: "byte list"
  sm_io :: "io_step list list"
  sm_responses :: "(sm_request \<times> bool) list"

definition write_of :: "sm_codec \<Rightarrow> log_entry \<Rightarrow> sm_closure option \<Rightarrow> int64 \<times> byte list" where
  "write_of cd e c = (case c of Some cl \<Rightarrow> (sq_offset (sc_request cl), sc_data cl) | None \<Rightarrow> sm_parse_log cd (le_data e))"

text \<open>One turn of \<open>on_apply\<close>; \<open>set_error_and_rollback\<close> is called with its default of one entry.\<close>

definition sample_apply :: "sm_codec \<Rightarrow> (sample_machine, sm_closure) state_machine" where
  "sample_apply cd m i e c =
     (let (off, data) = write_of cd e c;
          (nw, content) = file_pwrite (case sm_io m of [] \<Rightarrow> [] | io # _ \<Rightarrow> io) off data (sm_file m);
          ok = (\<not> nw < 0)
      in (if ok then Sm_next else Sm_error 1,
          m\<lparr>sm_file := content, sm_io := tl (sm_io m),
            sm_responses := sm_responses m @ (case c of None \<Rightarrow> [] | Some cl \<Rightarrow> [(sc_request cl, ok)])\<rparr>))"

text \<open>
  \<open>SampleStateMachine::read\<close>: \<open>None\<close> when the response is not a success. A short read is filled up with zeros; a negative size becomes a huge unsigned one.
\<close>

definition sm_read :: "io_step list \<Rightarrow> sm_request \<Rightarrow> byte list \<Rightarrow> byte list option res" where
  "sm_read steps request content =
     (let sz = (case sq_size request of None \<Rightarrow> 0 | Some n \<Rightarrow> n)
      in if sq_offset request < 0 then Inr None
         else if sz < 0 then Inl Bad_conversion
         else (case file_pread steps (sq_offset request) (nat sz) content of
                 None \<Rightarrow> Inr None
               | Some bs \<Rightarrow> Inr (Some (bs @ replicate (nat sz - length bs) 0))))"

section \<open>One write\<close>

lemma parse_log_write:
  assumes "codec_ok cd" "sm_log cd request data = Some log" "sm_serialize cd request = Some bs" "length bs < 4294967296"
  shows "sm_parse_log cd log = (sq_offset request, data)"
proof -
  have log: "log = pack 4 (word_of_nat (length bs) :: 32 word) @ bs @ data" using assms(2,3) by (simp add: sm_log_def)
  have "sm_parse cd bs = request" using assms(1,3) by (simp add: codec_ok_def)
  then show ?thesis by (simp add: sm_parse_log_def log unat_word_of_nat32 [OF assms(4)])
qed

lemma file_pwrite_ok:
  assumes "Io_error \<notin> set steps" "0 \<le> off"
  shows "file_pwrite steps off data content = (int (length data), file_put (nat off) data content)"
  using assms by (simp add: file_pwrite_def pwrite_loop_ok)

text \<open>Two writes conflict when their ranges meet.\<close>

definition overlap :: "(int64 \<times> byte list) \<Rightarrow> (int64 \<times> byte list) \<Rightarrow> bool" where
  "overlap a b \<longleftrightarrow> fst a < fst b + int (length (snd b)) \<and> fst b < fst a + int (length (snd a)) \<and> snd a \<noteq> [] \<and> snd b \<noteq> []"

definition put_write :: "(int64 \<times> byte list) \<Rightarrow> byte list \<Rightarrow> byte list" where
  "put_write a content = (if fst a < 0 then content else file_put (nat (fst a)) (snd a) content)"

lemma file_put_commute:
  assumes "p + length xs \<le> q \<or> q + length ys \<le> p"
  shows "file_put p xs (file_put q ys content) = file_put q ys (file_put p xs content)"
proof (cases "xs = [] \<or> ys = []")
  case False
  then have len: "length (file_put p xs (file_put q ys content)) = max (max (length content) (q + length ys)) (p + length xs)"
    "length (file_put q ys (file_put p xs content)) = max (max (length content) (p + length xs)) (q + length ys)"
    by (simp_all add: length_file_put)
  show ?thesis
  proof (rule nth_equalityI)
    show "length (file_put p xs (file_put q ys content)) = length (file_put q ys (file_put p xs content))" using len by simp
    fix i
    assume i: "i < length (file_put p xs (file_put q ys content))"
    show "file_put p xs (file_put q ys content) ! i = file_put q ys (file_put p xs content) ! i"
      using i False assms by (auto simp: len nth_file_put length_file_put)
  qed
qed auto

lemma put_write_commute:
  assumes "\<not> overlap a b"
  shows "put_write a (put_write b content) = put_write b (put_write a content)"
proof (cases "fst a < 0 \<or> fst b < 0 \<or> snd a = [] \<or> snd b = []")
  case False
  then have "nat (fst a) + length (snd a) \<le> nat (fst b) \<or> nat (fst b) + length (snd b) \<le> nat (fst a)"
    using assms unfolding overlap_def by linarith
  from file_put_commute [OF this, of content] show ?thesis using False by (simp add: put_write_def)
qed (auto simp: put_write_def)

interpretation file_writes: commuting_actions "\<lambda>i. put_write (W i)" "\<lambda>i j. overlap (W i) (W j)" for W
  by unfold_locales (rule put_write_commute)

lemma sample_apply_file:
  assumes "\<forall>io \<in> set (sm_io m). Io_error \<notin> set io"
  shows "sm_file (snd (sample_apply cd m i e c)) = put_write (write_of cd e c) (sm_file m)"
    "\<forall>io \<in> set (sm_io (snd (sample_apply cd m i e c))). Io_error \<notin> set io"
proof -
  obtain off data where w: "write_of cd e c = (off, data)" by fastforce
  let ?io = "case sm_io m of [] \<Rightarrow> [] | io # _ \<Rightarrow> io"
  have "Io_error \<notin> set ?io" using assms by (cases "sm_io m") simp_all
  then have "snd (file_pwrite ?io off data (sm_file m)) = put_write (off, data) (sm_file m)"
    by (cases "off < 0"; cases "data = []") (simp_all add: put_write_def file_pwrite_def pwrite_loop_ok)
  then show "sm_file (snd (sample_apply cd m i e c)) = put_write (write_of cd e c) (sm_file m)"
    by (simp add: sample_apply_def w Let_def case_prod_beta)
  show "\<forall>io \<in> set (sm_io (snd (sample_apply cd m i e c))). Io_error \<notin> set io"
    using assms by (cases "sm_io m") (simp_all add: sample_apply_def w Let_def case_prod_beta)
qed

section \<open>Replicas\<close>

text \<open>Entry \<open>i\<close> of the log is the write of \<open>D i\<close> that \<open>R i\<close> asked for; it is visited with the closure of that write or with none.\<close>

definition stored_write :: "sm_codec \<Rightarrow> (int64 \<Rightarrow> log_entry option) \<Rightarrow> (int64 \<Rightarrow> sm_request) \<Rightarrow> (int64 \<Rightarrow> byte list) \<Rightarrow> int64 \<Rightarrow> bool" where
  "stored_write cd ent R D i \<longleftrightarrow>
     (\<exists>t e bs. sm_write cd (R i) (D i) = Some t \<and> sm_serialize cd (R i) = Some bs \<and> length bs < 4294967296 \<and>
        ent i = Some e \<and> le_type e = ENTRY_TYPE_DATA \<and> le_data e = at_data t)"

definition own_closure :: "(int64 \<Rightarrow> sm_request) \<Rightarrow> (int64 \<Rightarrow> byte list) \<Rightarrow> int64 \<times> sm_closure option \<Rightarrow> bool" where
  "own_closure R D v \<longleftrightarrow> snd v = None \<or> snd v = Some \<lparr>sc_request = R (fst v), sc_data = D (fst v)\<rparr>"

lemma write_of_stored:
  assumes "codec_ok cd" "stored_write cd ent R D i" "own_closure R D (i, c)" "ent i = Some e"
  shows "write_of cd e c = (sq_offset (R i), D i)"
proof -
  obtain t bs where t: "sm_write cd (R i) (D i) = Some t" "sm_serialize cd (R i) = Some bs" "length bs < 4294967296" "le_data e = at_data t"
    using assms(2,4) unfolding stored_write_def by auto
  have "sm_log cd (R i) (D i) = Some (at_data t)" using t(1) by (auto simp: sm_write_def split: option.splits)
  from parse_log_write [OF assms(1) this t(2,3)] assms(3) t(4) show ?thesis by (auto simp: write_of_def own_closure_def)
qed

lemma visit_file:
  assumes "codec_ok cd" "\<forall>v \<in> set vs. stored_write cd ent R D (fst v) \<and> own_closure R D v" "\<forall>io \<in> set (sm_io m). Io_error \<notin> set io"
  shows "sm_file (visit_machine (sample_apply cd) ent m vs) = fold (\<lambda>i. put_write (sq_offset (R i), D i)) (map fst vs) (sm_file m)"
  using assms(2,3)
proof (induction vs arbitrary: m)
  case (Cons v vs)
  obtain i c where v: "v = (i, c)" by fastforce
  with Cons.prems obtain e where e: "ent i = Some e" "le_type e = ENTRY_TYPE_DATA" by (auto simp: stored_write_def)
  have w: "write_of cd e c = (sq_offset (R i), D i)"
    by (rule write_of_stored [where ent = ent, OF assms(1)]) (use Cons.prems(1) v e(1) in simp_all)
  note a = sample_apply_file [OF Cons.prems(2), of cd i e c]
  show ?case using Cons.IH [OF _ a(2)] Cons.prems(1) a(1) by (simp add: v e w)
qed simp

lemma visits_reorder:
  assumes "codec_ok cd"
    and "\<forall>v \<in> set vs. stored_write cd ent R D (fst v) \<and> own_closure R D v"
    and "\<forall>v \<in> set vs'. stored_write cd ent' R D (fst v) \<and> own_closure R D v"
    and "distinct (map fst vs)" "mset (map fst vs) = mset (map fst vs')"
    and "keeps_order (\<lambda>i j. sq_offset (R i) = sq_offset (R j)) (map fst vs) (map fst vs')"
    and "\<forall>i \<in> fst ` set vs. \<forall>j \<in> fst ` set vs. sq_offset (R i) \<noteq> sq_offset (R j) \<longrightarrow> \<not> overlap (sq_offset (R i), D i) (sq_offset (R j), D j)"
    and "\<forall>io \<in> set (sm_io m) \<union> set (sm_io m'). Io_error \<notin> set io" "sm_file m = sm_file m'"
  shows "sm_file (visit_machine (sample_apply cd) ent m vs) = sm_file (visit_machine (sample_apply cd) ent' m' vs')"
proof -
  let ?W = "\<lambda>i. (sq_offset (R i), D i)"
  have k: "keeps_order (\<lambda>i j. overlap (?W i) (?W j)) (map fst vs) (map fst vs')"
    using assms(6,7) unfolding keeps_order_def by (auto simp: image_iff)
  have f: "sm_file (visit_machine (sample_apply cd) ent m vs) = fold (\<lambda>i. put_write (?W i)) (map fst vs) (sm_file m)"
    "sm_file (visit_machine (sample_apply cd) ent' m' vs') = fold (\<lambda>i. put_write (?W i)) (map fst vs') (sm_file m')"
    using assms(2,3,8) by (intro visit_file [OF assms(1)]; blast)+
  show ?thesis unfolding f assms(9) by (rule file_writes.fold_reorder [OF assms(4,5) k])
qed

text \<open>
  Replicas that apply the same writes in different orders agree: if the offsets of any two writes are equal or their ranges do not
  meet, and writes to the same offset, which are those with the same dependency id, are applied in the same order, then the files are equal,
  whether a replica takes a write from the closure of its client or reads it back from the log, and whatever the pieces in which the
  system calls write the bytes.
\<close>

theorem replicas_converge:
  assumes "codec_ok cd"
    and "\<forall>v \<in> set vs \<union> set vs'. stored_write cd ent R D (fst v) \<and> own_closure R D v"
    and "distinct (map fst vs)" "mset (map fst vs) = mset (map fst vs')"
    and "keeps_order (\<lambda>i j. sq_offset (R i) = sq_offset (R j)) (map fst vs) (map fst vs')"
    and "\<forall>i \<in> fst ` set vs. \<forall>j \<in> fst ` set vs. sq_offset (R i) \<noteq> sq_offset (R j) \<longrightarrow> \<not> overlap (sq_offset (R i), D i) (sq_offset (R j), D j)"
    and "\<forall>io \<in> set (sm_io m) \<union> set (sm_io m'). Io_error \<notin> set io" "sm_file m = sm_file m'"
  shows "sm_file (visit_machine (sample_apply cd) ent m vs) = sm_file (visit_machine (sample_apply cd) ent m' vs')"
  using assms by (intro visits_reorder [OF assms(1) _ _ assms(3-8)]) auto

text \<open>
  C36. Writes at different offsets are never stamped as conflicts, even when their ranges meet. Then the order matters: of two such writes in one
  batch, a replica that applies the second before the first has another file than one that applies them in the order of the log, although
  the entry of the second carries no dependency on the first.
\<close>

theorem overlapping_writes_diverge:
  assumes "codec_ok cd" "stored_write cd ent R D i" "stored_write cd ent R D j"
    and "sm_write cd (R i) (D i) = Some t" "sm_write cd (R j) (D j) = Some t'"
    and "apply_loop [t, t'] nd = (evs, es, nd')" "id_window h nd"
    and "0 \<le> sq_offset (R i)" "sq_offset (R i) < sq_offset (R j)" "sq_offset (R j) < sq_offset (R i) + int (length (D i))"
    and "D j \<noteq> []" "D i ! nat (sq_offset (R j) - sq_offset (R i)) \<noteq> hd (D j)"
    and "\<forall>io \<in> set (sm_io m). Io_error \<notin> set io"
  shows "\<not> bit (word_of_int (le_dependency (es ! 1)) :: 64 word) 1 \<and>
    sm_file (visit_machine (sample_apply cd) ent m [(i, None), (j, None)]) \<noteq> sm_file (visit_machine (sample_apply cd) ent m [(j, None), (i, None)])"
proof
  have dep: "at_dependency_id t = sq_offset (R i)" "at_dependency_id t' = sq_offset (R j)" "at_expected_term t = -1" "at_expected_term t' = -1"
    using assms(4,5) by (auto simp: sm_write_def split: option.splits)
  have "\<forall>t \<in> set [t, t']. accepted nd t" using dep by (simp add: accepted_def)
  from apply_loop_stamps [OF assms(6,7) this]
  have "bit (word_of_int (le_dependency (es ! 1)) :: 64 word) 1 \<longleftrightarrow>
      conflicts (nd_dependency_look_back nd) (h @ map at_dependency_id [t, t']) (length h + 1) 1" by simp
  then show "\<not> bit (word_of_int (le_dependency (es ! 1)) :: 64 word) 1" using dep assms(9) by (simp add: conflicts_def nth_append)
next
  let ?p = "nat (sq_offset (R i))" and ?q = "nat (sq_offset (R j))"
  let ?d = "?q - ?p"
  have p: "0 \<le> sq_offset (R j)" "?p \<le> ?q" "?q < ?p + length (D i)" "D i \<noteq> []" "nat (sq_offset (R j) - sq_offset (R i)) = ?d"
    using assms(8-10) by auto
  have f: "sm_file (visit_machine (sample_apply cd) ent m vs) = fold (\<lambda>i. put_write (sq_offset (R i), D i)) (map fst vs) (sm_file m)"
    if "set (map fst vs) \<subseteq> {i, j}" "set (map snd vs) \<subseteq> {None}" for vs
    using that assms(2,3) by (intro visit_file [OF assms(1) _ assms(13)]) (fastforce simp: own_closure_def)
  have "file_put ?q (D j) (file_put ?p (D i) (sm_file m)) ! ?q = hd (D j)"
    "file_put ?p (D i) (file_put ?q (D j) (sm_file m)) ! ?q = D i ! ?d"
    using p assms(11) by (simp_all add: nth_file_put_in hd_conv_nth)
  then have "file_put ?q (D j) (file_put ?p (D i) (sm_file m)) \<noteq> file_put ?p (D i) (file_put ?q (D j) (sm_file m))"
    using assms(12) p(5) by metis
  then show "sm_file (visit_machine (sample_apply cd) ent m [(i, None), (j, None)]) \<noteq>
      sm_file (visit_machine (sample_apply cd) ent m [(j, None), (i, None)])"
    using f [of "[(i, None), (j, None)]"] f [of "[(j, None), (i, None)]"] assms(8) p(1) by (simp add: put_write_def)
qed

text \<open>
  What was written is read back: after a write was applied without an error, reading as many bytes at its offset returns them, for every
  way in which the system calls split or interrupt the two transfers.
\<close>

theorem read_returns_write:
  assumes "sample_apply cd m i e c = (Sm_next, m')" "write_of cd e c = (sq_offset request, data)" "sq_size request = Some (int (length data))"
    and "\<forall>io \<in> set (sm_io m). Io_error \<notin> set io" "Io_error \<notin> set steps" "0 \<le> sq_offset request"
  shows "sm_read steps request (sm_file m') = Inr (Some data)"
proof -
  have f: "sm_file m' = file_put (nat (sq_offset request)) data (sm_file m)"
    using sample_apply_file(1) [OF assms(4), of cd i e c] assms(1,2,6) by (simp add: put_write_def)
  have "take (length data) (drop (nat (sq_offset request)) (sm_file m')) = data"
    by (cases "data = []") (simp_all add: f file_put_def)
  then show ?thesis using assms(3,5,6) by (auto simp: sm_read_def file_pread_def pread_loop_ok)
qed

section \<open>Examples\<close>

definition demo_sm_codec :: sm_codec where
  "demo_sm_codec =
     \<lparr>sm_serialize = (\<lambda>r. if fits64 (sq_offset r) \<and> sq_size r = None then Some (pack 8 (word_of_int (sq_offset r) :: 64 word)) else None),
      sm_parse = (\<lambda>bs. \<lparr>sq_offset = sint (unpack bs :: 64 word), sq_size = None\<rparr>)\<rparr>"

lemma demo_sm_codec_ok: "codec_ok demo_sm_codec"
  by (auto simp: codec_ok_def demo_sm_codec_def sint_word_of_int64 split: if_splits)

definition demo_sm_request :: "(int64 \<Rightarrow> int64) \<Rightarrow> int64 \<Rightarrow> sm_request" where
  "demo_sm_request off i = \<lparr>sq_offset = off i, sq_size = None\<rparr>"

definition demo_file_log :: "(int64 \<Rightarrow> int64) \<Rightarrow> (int64 \<Rightarrow> byte list) \<Rightarrow> int64 \<Rightarrow> log_entry option" where
  "demo_file_log off D i = Some (data_entry i 1 (pack 4 (word_of_nat 8 :: 32 word) @ pack 8 (word_of_int (off i) :: 64 word) @ D i))"

lemma demo_sm_task:
  assumes "fits64 (off i)"
  shows "sm_write demo_sm_codec (demo_sm_request off i) (D i) =
    Some \<lparr>at_data = pack 4 (word_of_nat 8 :: 32 word) @ pack 8 (word_of_int (off i) :: 64 word) @ D i, at_dependency_id = off i,
          at_done = Some \<lparr>sc_request = demo_sm_request off i, sc_data = D i\<rparr>, at_expected_term = -1\<rparr>"
  using assms by (simp add: sm_write_def sm_log_def demo_sm_codec_def demo_sm_request_def)

lemma demo_sm_stored: "fits64 (off i) \<Longrightarrow> stored_write demo_sm_codec (demo_file_log off D) (demo_sm_request off) D i"
  unfolding stored_write_def demo_sm_task
  by (auto simp: demo_sm_codec_def demo_sm_request_def demo_file_log_def data_entry_def)

definition demo_machine0 :: "io_step list list \<Rightarrow> sample_machine" where
  "demo_machine0 io = \<lparr>sm_file = [], sm_io = io, sm_responses = []\<rparr>"

text \<open>
  Writes 1 and 3 go to offset 0, write 2 to offset 4. The leader applies them in order, with interrupted system calls; the follower applies write 2 first.
\<close>

definition demo_sm_off :: "int64 \<Rightarrow> int64" where
  "demo_sm_off i = (if i = 2 then 4 else 0)"

definition demo_sm_data :: "int64 \<Rightarrow> byte list" where
  "demo_sm_data i = (if i = 1 then [1, 2] else if i = 2 then [3] else [5])"

definition demo_sm_done :: "int64 \<Rightarrow> int64 \<times> sm_closure option" where
  "demo_sm_done i = (i, Some \<lparr>sc_request = demo_sm_request demo_sm_off i, sc_data = demo_sm_data i\<rparr>)"

theorem replicas_converge_witness:
  "sm_file (visit_machine (sample_apply demo_sm_codec) (demo_file_log demo_sm_off demo_sm_data) (demo_machine0 [[Io_eintr, Io_done 1]]) (map demo_sm_done [1, 2, 3])) =
   sm_file (visit_machine (sample_apply demo_sm_codec) (demo_file_log demo_sm_off demo_sm_data) (demo_machine0 []) [(2, None), (1, None), (3, None)]) \<and>
   sm_file (visit_machine (sample_apply demo_sm_codec) (demo_file_log demo_sm_off demo_sm_data) (demo_machine0 []) [(2, None), (1, None), (3, None)]) = [5, 2, 0, 0, 3]"
proof
  let ?vs = "map demo_sm_done [1, 2, 3]" and ?vs' = "[(2, None), (1, None), (3, None)] :: (int64 \<times> sm_closure option) list"
  let ?R = "demo_sm_request demo_sm_off" and ?ent = "demo_file_log demo_sm_off demo_sm_data"
  have st: "stored_write demo_sm_codec ?ent ?R demo_sm_data i" for i by (rule demo_sm_stored) (simp add: demo_sm_off_def fits64_def)
  have own: "\<forall>v \<in> set ?vs \<union> set ?vs'. stored_write demo_sm_codec ?ent ?R demo_sm_data (fst v) \<and> own_closure ?R demo_sm_data v"
    using st by (auto simp: own_closure_def demo_sm_done_def)
  have ix: "map fst ?vs = [1, 2, 3]" "map fst ?vs' = [2, 1, 3]" by (simp_all add: demo_sm_done_def)
  have k: "keeps_order (\<lambda>i j. sq_offset (?R i) = sq_offset (?R j)) (map fst ?vs) (map fst ?vs')"
    unfolding ix keeps_order_def by (simp add: demo_sm_request_def demo_sm_off_def)
  have o: "\<forall>i \<in> fst ` set ?vs. \<forall>j \<in> fst ` set ?vs. sq_offset (?R i) \<noteq> sq_offset (?R j) \<longrightarrow>
      \<not> overlap (sq_offset (?R i), demo_sm_data i) (sq_offset (?R j), demo_sm_data j)"
    by (simp add: demo_sm_done_def demo_sm_request_def demo_sm_off_def demo_sm_data_def overlap_def)
  have io: "\<forall>io \<in> set (sm_io (demo_machine0 [[Io_eintr, Io_done 1]])) \<union> set (sm_io (demo_machine0 [])). Io_error \<notin> set io"
    "sm_file (demo_machine0 [[Io_eintr, Io_done 1]]) = sm_file (demo_machine0 [])" by (simp_all add: demo_machine0_def)
  have m: "distinct (map fst ?vs)" "mset (map fst ?vs) = mset (map fst ?vs')" unfolding ix by simp_all
  show "sm_file (visit_machine (sample_apply demo_sm_codec) ?ent (demo_machine0 [[Io_eintr, Io_done 1]]) ?vs) =
      sm_file (visit_machine (sample_apply demo_sm_codec) ?ent (demo_machine0 []) ?vs')"
    by (rule replicas_converge [OF demo_sm_codec_ok own m k o io])
  have "sm_file (visit_machine (sample_apply demo_sm_codec) ?ent (demo_machine0 []) ?vs') =
      fold (\<lambda>i. put_write (sq_offset (?R i), demo_sm_data i)) (map fst ?vs') (sm_file (demo_machine0 []))"
    by (rule visit_file [OF demo_sm_codec_ok]) (use own in \<open>auto simp: demo_machine0_def\<close>)
  then show "sm_file (visit_machine (sample_apply demo_sm_codec) ?ent (demo_machine0 []) ?vs') = [5, 2, 0, 0, 3]"
    by (simp add: demo_machine0_def put_write_def file_put_def demo_sm_request_def demo_sm_off_def demo_sm_data_def numeral_eq_Suc)
qed

text \<open>Write 1 covers the offsets 0 to 2, write 2 the offset 1.\<close>

definition demo_file_node :: "(sm_closure, nat, nat) node" where
  "demo_file_node =
     \<lparr>nd_server_id = peer_n 1, nd_peer_list = conf3, nd_leader_id = empty_peer, nd_voted_id = empty_peer, nd_current_term = 1,
      nd_ballot_box = \<lparr>bb_last_committed_index = 0, bb_pending_index = 0, bb_pending_meta_queue = [], bb_committed_index_queue = [],
        bb_closure_queue = new_closure_queue\<rparr>,
      nd_prevote_ctx = new_ballot, nd_vote_ctx = new_ballot, nd_conf = \<lparr>ce_id = new_log_id, ce_conf = conf3, ce_old_conf = {||}\<rparr>,
      nd_last_leader_timestamp = 0, nd_state = STATE_LEADER, nd_vote_triggered = False,
      nd_log_manager = new_log_manager (new_segment_log True (Some 1)) new_configuration_manager,
      nd_meta = \<lparr>rm_is_inited = True, rm_term = 1, rm_votedfor = empty_peer\<rparr>, nd_files = (\<lambda>_. None),
      nd_dependency_id_queue = [], nd_dependency_look_back = 63, nd_shutdown_continuations = [], nd_cache = None, nd_cache_version = 0\<rparr>"

theorem overlapping_writes_diverge_witness:
  "\<exists>off D. off 1 = 0 \<and> off 2 = 1 \<and> D 1 = [1, 2, 3] \<and> D 2 = [9] \<and>
     sm_file (visit_machine (sample_apply demo_sm_codec) (demo_file_log off D) (demo_machine0 []) [(1, None), (2, None)]) \<noteq>
     sm_file (visit_machine (sample_apply demo_sm_codec) (demo_file_log off D) (demo_machine0 []) [(2, None), (1, None)])"
proof -
  let ?off = "\<lambda>i :: int64. if i = 2 then 1 else 0 :: int64" and ?D = "\<lambda>i :: int64. if i = 2 then [9] else [1, 2, 3] :: byte list"
  have fit: "fits64 (?off i)" for i by (simp add: fits64_def)
  obtain evs es nd' where r: "apply_loop [the (sm_write demo_sm_codec (demo_sm_request ?off 1) (?D 1)), the (sm_write demo_sm_codec (demo_sm_request ?off 2) (?D 2))]
      demo_file_node = (evs, es, nd')" by (metis prod_cases3)
  have w: "id_window [] demo_file_node" by (simp add: id_window_def demo_file_node_def)
  have t: "sm_write demo_sm_codec (demo_sm_request ?off i) (?D i) = Some (the (sm_write demo_sm_codec (demo_sm_request ?off i) (?D i)))" for i
    using demo_sm_task [of ?off i ?D, OF fit] by simp
  have x: "0 \<le> sq_offset (demo_sm_request ?off 1)" "sq_offset (demo_sm_request ?off 1) < sq_offset (demo_sm_request ?off 2)"
    "sq_offset (demo_sm_request ?off 2) < sq_offset (demo_sm_request ?off 1) + int (length (?D 1))" "?D 2 \<noteq> []"
    "?D 1 ! nat (sq_offset (demo_sm_request ?off 2) - sq_offset (demo_sm_request ?off 1)) \<noteq> hd (?D 2)"
    "\<forall>io \<in> set (sm_io (demo_machine0 [])). Io_error \<notin> set io"
    by (simp_all add: demo_sm_request_def demo_machine0_def)
  have st: "stored_write demo_sm_codec (demo_file_log ?off ?D) (demo_sm_request ?off) ?D i" for i by (rule demo_sm_stored) (rule fit)
  from overlapping_writes_diverge [OF demo_sm_codec_ok st st t t r w x]
  have "sm_file (visit_machine (sample_apply demo_sm_codec) (demo_file_log ?off ?D) (demo_machine0 []) [(1, None), (2, None)]) \<noteq>
     sm_file (visit_machine (sample_apply demo_sm_codec) (demo_file_log ?off ?D) (demo_machine0 []) [(2, None), (1, None)])" by (rule conjunct2)
  then show ?thesis by (intro exI [of _ ?off] exI [of _ ?D]) simp
qed

theorem read_returns_write_witness:
  "\<exists>m'. sample_apply demo_sm_codec (demo_machine0 [[Io_done 1, Io_eintr]]) 1 (the (demo_file_log demo_sm_off demo_sm_data 1)) None = (Sm_next, m') \<and>
     sm_read [Io_eintr, Io_done 1] \<lparr>sq_offset = 0, sq_size = Some 2\<rparr> (sm_file m') = Inr (Some [1, 2])"
proof -
  let ?e = "the (demo_file_log demo_sm_off demo_sm_data 1)" and ?m = "demo_machine0 [[Io_done 1, Io_eintr]]"
  have e: "demo_file_log demo_sm_off demo_sm_data 1 = Some ?e" by (simp add: demo_file_log_def)
  have "stored_write demo_sm_codec (demo_file_log demo_sm_off demo_sm_data) (demo_sm_request demo_sm_off) demo_sm_data 1"
    by (rule demo_sm_stored) (simp add: demo_sm_off_def fits64_def)
  from write_of_stored [OF demo_sm_codec_ok this _ e, of None]
  have w: "write_of demo_sm_codec ?e None = (0, [1, 2])" by (simp add: own_closure_def demo_sm_request_def demo_sm_off_def demo_sm_data_def)
  then obtain m' where a: "sample_apply demo_sm_codec ?m 1 ?e None = (Sm_next, m')"
    by (simp add: sample_apply_def demo_machine0_def file_pwrite_def)
  from read_returns_write [OF a, of "\<lparr>sq_offset = 0, sq_size = Some 2\<rparr>" "[1, 2]" "[Io_eintr, Io_done 1]"] w a
  show ?thesis by (simp add: demo_machine0_def)
qed

end
