(* ===== verification/Replicated_File.thy ===== *)
theory Replicated_File
  imports Sample_Machine
begin

text \<open>
  \<open>FSMCaller\<close> and the sample state machine together: what one call of \<open>do_committed\<close> does to the replicated file of a leader, which holds the
  closures of its clients, and of a follower, which reads the writes back from its log.
\<close>

section \<open>The sample machine over a list of visits\<close>

lemma sample_apply_stored:
  assumes "write_of cd e c = (off, data)" "0 \<le> off" "\<forall>io \<in> set (sm_io m). Io_error \<notin> set io"
  shows "fst (sample_apply cd m i e c) = Sm_next"
    "sm_responses (snd (sample_apply cd m i e c)) = sm_responses m @ (case c of None \<Rightarrow> [] | Some cl \<Rightarrow> [(sc_request cl, True)])"
proof -
  have "Io_error \<notin> set (case sm_io m of [] \<Rightarrow> [] | io # _ \<Rightarrow> io)" using assms(3) by (cases "sm_io m") simp_all
  from file_pwrite_ok [OF this assms(2), of data "sm_file m"]
  show "fst (sample_apply cd m i e c) = Sm_next"
    "sm_responses (snd (sample_apply cd m i e c)) = sm_responses m @ (case c of None \<Rightarrow> [] | Some cl \<Rightarrow> [(sc_request cl, True)])"
    by (simp_all add: sample_apply_def assms(1))
qed

text \<open>The clients that are answered: those whose closure is visited, each with success.\<close>

definition answers :: "(int64 \<Rightarrow> sm_request) \<Rightarrow> (int64 \<times> sm_closure option) list \<Rightarrow> (sm_request \<times> bool) list" where
  "answers R vs = map (\<lambda>v. (R (fst v), True)) (filter (\<lambda>v. snd v \<noteq> None) vs)"

lemma visits_steady:
  assumes "codec_ok cd" "\<forall>v \<in> set vs. stored_write cd ent R D (fst v) \<and> own_closure R D v \<and> 0 \<le> sq_offset (R (fst v))"
    and "\<forall>io \<in> set (sm_io m). Io_error \<notin> set io"
  shows "steady_on (sample_apply cd) ent m vs \<and>
    sm_responses (visit_machine (sample_apply cd) ent m vs) = sm_responses m @ answers R vs"
  using assms(2,3)
proof (induction vs arbitrary: m)
  case (Cons v vs)
  obtain i c where v: "v = (i, c)" by fastforce
  with Cons.prems obtain e where e: "ent i = Some e" "le_type e = ENTRY_TYPE_DATA" by (auto simp: stored_write_def)
  have w: "write_of cd e c = (sq_offset (R i), D i)"
    by (rule write_of_stored [where ent = ent, OF assms(1)]) (use Cons.prems(1) v e(1) in simp_all)
  have off: "0 \<le> sq_offset (R i)" using Cons.prems(1) by (simp add: v)
  have own: "c = None \<or> c = Some \<lparr>sc_request = R i, sc_data = D i\<rparr>" using Cons.prems(1) by (simp add: v own_closure_def)
  note a = sample_apply_stored [OF w off Cons.prems(2), of i] sample_apply_file(2) [OF Cons.prems(2), of cd i e c]
  have "\<forall>v \<in> set vs. stored_write cd ent R D (fst v) \<and> own_closure R D v \<and> 0 \<le> sq_offset (R (fst v))" using Cons.prems(1) by simp
  from Cons.IH [OF this a(3)] a(1,2) own show ?case by (auto simp: v e answers_def)
qed (simp add: answers_def)

lemma stored_applicable: "stored_write cd ent R D i \<Longrightarrow> applicable ent i"
  by (auto simp: stored_write_def applicable_def)

lemma stored_write_cong: "ent i = ent' i \<Longrightarrow> stored_write cd ent R D i = stored_write cd ent' R D i"
  by (simp add: stored_write_def)

section \<open>A committed batch on a leader and on a follower\<close>

lemma leader_batch:
  fixes w :: "(sample_machine, sm_closure, 'w) fsm_world"
  assumes "codec_ok scd" "q = fw_closure_queue w" "cq_aligned q" "newly_committed q ci oo \<noteq> []"
    and "ci < cq_first_index q + int (length (cq_queue q))" "distinct oo" "\<forall>i \<in> set oo. ci < i \<and> in_queue q i"
    and "\<forall>i \<in> set (newly_committed q ci oo). stored_write scd (lm_entry cd (fw_log_manager w)) R D i \<and>
      own_closure R D (i, cq_at q i) \<and> 0 \<le> sq_offset (R i)"
    and "\<forall>io \<in> set (sm_io (fw_machine w)). Io_error \<notin> set io"
    and vs: "vs = map (\<lambda>i. (i, cq_at q i)) (newly_committed q ci oo)"
  shows "\<exists>evs w'. apply_committed cd (sample_apply scd) ci oo w = Inr (evs, newly_committed q ci oo, w') \<and>
    fw_machine w' = visit_machine (sample_apply scd) (lm_entry cd (fw_log_manager w)) (fw_machine w) vs \<and>
    sm_responses (fw_machine w') = sm_responses (fw_machine w) @ answers R vs"
proof -
  have st: "\<forall>v \<in> set vs. stored_write scd (lm_entry cd (fw_log_manager w)) R D (fst v) \<and> own_closure R D v \<and> 0 \<le> sq_offset (R (fst v))"
    using assms(8) unfolding vs by auto
  note r = visits_steady [OF assms(1) st assms(9)]
  have "\<forall>i \<in> set (newly_committed q ci oo). applicable (lm_entry cd (fw_log_manager w)) i"
    using assms(8) by (blast intro: stored_applicable)
  from apply_committed_leader [OF vs assms(2) conjunct1 [OF r] assms(3-7) this] r show ?thesis by fastforce
qed

lemma follower_batch:
  fixes w :: "(sample_machine, sm_closure, 'w) fsm_world"
  assumes "codec_ok scd" "cq_queue (fw_closure_queue w) = []"
    and xs: "xs = oo @ [fc_last_applied_index (fw_caller w) + 1..ci]"
    and "\<forall>i \<in> set xs. stored_write scd (lm_entry cd (fw_log_manager w)) R D i \<and> 0 \<le> sq_offset (R i)"
    and "\<forall>io \<in> set (sm_io (fw_machine w)). Io_error \<notin> set io"
  shows "\<exists>evs w'. apply_committed cd (sample_apply scd) ci oo w = Inr (evs, xs, w') \<and>
    fw_machine w' = visit_machine (sample_apply scd) (lm_entry cd (fw_log_manager w)) (fw_machine w) (map (\<lambda>i. (i, None)) xs) \<and>
    sm_responses (fw_machine w') = sm_responses (fw_machine w)"
proof -
  let ?vs = "map (\<lambda>i. (i, None)) xs :: (int64 \<times> sm_closure option) list"
  have st: "\<forall>v \<in> set ?vs. stored_write scd (lm_entry cd (fw_log_manager w)) R D (fst v) \<and> own_closure R D v \<and> 0 \<le> sq_offset (R (fst v))"
    using assms(4) by (auto simp: own_closure_def)
  note r = visits_steady [OF assms(1) st assms(5)]
  have none: "answers R ?vs = []" by (simp add: answers_def filter_empty_conv)
  have ap: "\<forall>i \<in> set xs. applicable (lm_entry cd (fw_log_manager w)) i" using assms(4) by (blast intro: stored_applicable)
  from apply_committed_follower [OF conjunct1 [OF r, unfolded xs] assms(2) ap [unfolded xs]] r none show ?thesis
    unfolding xs by fastforce
qed

text \<open>
  C15. A batch of committed writes on a leader and on a follower: the leader visits the committed indexes whose closures are still queued, the follower
  its out-of-order indexes and then those behind its last applied one. If the two visit the same indexes, read the same entries, and
  agree on the order of writes to the same offset, and writes to different offsets do not overlap, then both calls return, the files are
  equal afterwards, every client of the batch was answered once with success, in the order of the visits, and the follower answered nobody.
\<close>

theorem committed_batch_reaches_replicas:
  fixes wl wf :: "(sample_machine, sm_closure, 'w) fsm_world" and ci ci' :: int64 and oo oo' :: "int64 list"
  defines "new \<equiv> newly_committed (fw_closure_queue wl) ci oo"
    and "seq \<equiv> oo' @ [fc_last_applied_index (fw_caller wf) + 1..ci']"
  assumes "codec_ok scd"
    and "cq_aligned (fw_closure_queue wl)" "new \<noteq> []" "\<forall>i \<in> set (ci # oo). in_queue (fw_closure_queue wl) i" "distinct (ci # oo)" "\<forall>i \<in> set oo. ci < i"
    and "\<forall>i \<in> set new. cq_at (fw_closure_queue wl) i = Some \<lparr>sc_request = R i, sc_data = D i\<rparr>"
    and "cq_queue (fw_closure_queue wf) = []"
    and "\<forall>i \<in> set new. stored_write scd (lm_entry cd (fw_log_manager wl)) R D i \<and>
      lm_entry cd (fw_log_manager wf) i = lm_entry cd (fw_log_manager wl) i \<and> 0 \<le> sq_offset (R i)"
    and "distinct seq" "set seq = set new" "keeps_order (\<lambda>i j. sq_offset (R i) = sq_offset (R j)) new seq"
    and "\<forall>i \<in> set new. \<forall>j \<in> set new. sq_offset (R i) \<noteq> sq_offset (R j) \<longrightarrow> \<not> overlap (sq_offset (R i), D i) (sq_offset (R j), D j)"
    and "\<forall>io \<in> set (sm_io (fw_machine wl)) \<union> set (sm_io (fw_machine wf)). Io_error \<notin> set io"
    and "sm_file (fw_machine wl) = sm_file (fw_machine wf)"
  shows "\<exists>evs wl' evs' wf'.
    apply_committed cd (sample_apply scd) ci oo wl = Inr (evs, new, wl') \<and> apply_committed cd (sample_apply scd) ci' oo' wf = Inr (evs', seq, wf') \<and>
    sm_file (fw_machine wl') = sm_file (fw_machine wf') \<and>
    sm_responses (fw_machine wl') = sm_responses (fw_machine wl) @ map (\<lambda>i. (R i, True)) new \<and>
    sm_responses (fw_machine wf') = sm_responses (fw_machine wf)"
proof -
  let ?q = "fw_closure_queue wl" and ?ent = "lm_entry cd (fw_log_manager wl)" and ?ent' = "lm_entry cd (fw_log_manager wf)"
  let ?vs = "map (\<lambda>i. (i, cq_at ?q i)) new" and ?vs' = "map (\<lambda>i. (i, None)) seq :: (int64 \<times> sm_closure option) list"
  have own: "\<forall>i \<in> set new. stored_write scd ?ent R D i \<and> own_closure R D (i, cq_at ?q i) \<and> 0 \<le> sq_offset (R i)"
    using assms(9,11) by (simp add: own_closure_def)
  have own': "\<forall>i \<in> set seq. stored_write scd ?ent' R D i \<and> 0 \<le> sq_offset (R i)"
    using assms(11,13) stored_write_cong [of ?ent' _ ?ent scd R D] by blast
  have io: "\<forall>io \<in> set (sm_io (fw_machine wl)). Io_error \<notin> set io" "\<forall>io \<in> set (sm_io (fw_machine wf)). Io_error \<notin> set io"
    using assms(16) by auto
  have ci: "ci < cq_first_index ?q + int (length (cq_queue ?q))" "distinct oo" "\<forall>i \<in> set oo. ci < i \<and> in_queue ?q i"
    using assms(6-8) by (auto simp: in_queue_def)
  have answered: "answers R ?vs = map (\<lambda>i. (R i, True)) new"
    using assms(9) by (induction new) (simp_all add: answers_def)
  have d: "distinct new" using ci unfolding new_def by auto
  from leader_batch [OF assms(3) refl assms(4) assms(5) [unfolded new_def] ci own [unfolded new_def] io(1) refl]
  obtain evs wl' where l: "apply_committed cd (sample_apply scd) ci oo wl = Inr (evs, new, wl')"
    "fw_machine wl' = visit_machine (sample_apply scd) ?ent (fw_machine wl) ?vs"
    "sm_responses (fw_machine wl') = sm_responses (fw_machine wl) @ map (\<lambda>i. (R i, True)) new"
    unfolding new_def [symmetric] answered by blast
  from follower_batch [OF assms(3,10) refl own' [unfolded seq_def] io(2)]
  obtain evs' wf' where f: "apply_committed cd (sample_apply scd) ci' oo' wf = Inr (evs', seq, wf')"
    "fw_machine wf' = visit_machine (sample_apply scd) ?ent' (fw_machine wf) ?vs'" "sm_responses (fw_machine wf') = sm_responses (fw_machine wf)"
    unfolding seq_def [symmetric] by blast
  have ix: "map fst ?vs = new" "map fst ?vs' = seq" by (simp_all add: comp_def)
  have "mset new = mset seq" using d assms(12,13) by (simp add: set_eq_iff_mset_eq_distinct)
  then have m: "mset (map fst ?vs) = mset (map fst ?vs')" by (simp only: ix)
  have v: "\<forall>v \<in> set ?vs. stored_write scd ?ent R D (fst v) \<and> own_closure R D v" "\<forall>v \<in> set ?vs'. stored_write scd ?ent' R D (fst v) \<and> own_closure R D v"
    using own own' by (auto simp: own_closure_def)
  have o: "\<forall>i \<in> fst ` set ?vs. \<forall>j \<in> fst ` set ?vs. sq_offset (R i) \<noteq> sq_offset (R j) \<longrightarrow> \<not> overlap (sq_offset (R i), D i) (sq_offset (R j), D j)"
    using assms(15) unfolding set_map [symmetric] ix by blast
  have files: "sm_file (fw_machine wl') = sm_file (fw_machine wf')"
    unfolding l(2) f(2)
    by (rule visits_reorder [OF assms(3) v _ m _ o assms(16,17)]) (simp_all only: ix d assms(14))
  show ?thesis using l(1,3) f(1,3) files by blast
qed

section \<open>Example\<close>

text \<open>Writes 1 and 3 go to offset 0 and write 2 to offset 4. The leader commits 1, and 3 and 2 out of order; the follower commits them in sequence.\<close>

definition demo_file_manager :: "(sm_closure, nat) log_manager" where
  "demo_file_manager = (new_log_manager (new_segment_log True (Some 1)) new_configuration_manager)
     \<lparr>lm_logs_in_memory := map (demo_file_log demo_sm_off demo_sm_data) [1, 2, 3], lm_first_log_index := 1,
      lm_last_log_index := 3, lm_max_log_index := 3\<rparr>"

definition demo_file_world :: "sm_closure closure_queue \<Rightarrow> io_step list list \<Rightarrow> (sample_machine, sm_closure, nat) fsm_world" where
  "demo_file_world q io =
     \<lparr>fw_caller = new_fsm_caller, fw_machine = demo_machine0 io, fw_closure_queue = q, fw_log_manager = demo_file_manager\<rparr>"

definition demo_file_queue :: "sm_closure closure_queue" where
  "demo_file_queue =
     fold (\<lambda>i. append_pending_closure (snd (demo_sm_done i))) [1, 2, 3] (reset_first_index 1 new_closure_queue)"

lemma demo_file_world_fields [simp]:
  "fw_closure_queue (demo_file_world q io) = q" "fw_machine (demo_file_world q io) = demo_machine0 io"
  "fw_log_manager (demo_file_world q io) = demo_file_manager" "fc_last_applied_index (fw_caller (demo_file_world q io)) = 0"
  by (simp_all add: demo_file_world_def new_fsm_caller_def)

lemma demo_file_entry: "i \<in> {1, 2, 3} \<Longrightarrow> lm_entry cd demo_file_manager i = demo_file_log demo_sm_off demo_sm_data i"
  by (auto simp: lm_entry_def lm_get_entry_def get_entry_from_memory_def demo_file_manager_def new_log_manager_def demo_file_log_def data_entry_def)

lemma demo_file_queue_eval:
  "demo_file_queue = \<lparr>cq_first_index = 1, cq_queue = map (snd \<circ> demo_sm_done) [1, 2, 3], cq_has_committed = [False, False, False]\<rparr>"
  by (simp add: demo_file_queue_def append_pending_closure_def reset_first_index_def new_closure_queue_def demo_sm_done_def)

theorem committed_batch_reaches_replicas_witness:
  "\<forall>cd. \<exists>evs wl' evs' wf'.
    apply_committed cd (sample_apply demo_sm_codec) 1 [3, 2] (demo_file_world demo_file_queue [[Io_eintr, Io_done 1]]) = Inr (evs, [1, 3, 2], wl') \<and>
    apply_committed cd (sample_apply demo_sm_codec) 3 [] (demo_file_world new_closure_queue []) = Inr (evs', [1, 2, 3], wf') \<and>
    sm_file (fw_machine wl') = sm_file (fw_machine wf') \<and>
    sm_responses (fw_machine wl') = map (\<lambda>i. (demo_sm_request demo_sm_off i, True)) [1, 3, 2] \<and> sm_responses (fw_machine wf') = []"
proof
  fix cd
  let ?wl = "demo_file_world demo_file_queue [[Io_eintr, Io_done 1]]" and ?wf = "demo_file_world new_closure_queue []"
  let ?R = "demo_sm_request demo_sm_off"
  have new: "newly_committed (fw_closure_queue ?wl) 1 [3, 2] = [1, 3, 2]" by (simp add: demo_file_queue_eval settled_def)
  have seq: "[] @ [fc_last_applied_index (fw_caller ?wf) + 1..3] = [1, 2, 3]" by (simp add: upto_rec1)
  have st: "stored_write demo_sm_codec (lm_entry cd demo_file_manager) ?R demo_sm_data i" if "i \<in> {1, 2, 3}" for i
    using demo_sm_stored [of demo_sm_off i demo_sm_data] demo_file_entry [OF that, of cd]
    by (simp add: stored_write_def demo_sm_off_def fits64_def)
  have q: "cq_aligned (fw_closure_queue ?wl)" "\<forall>i \<in> set (1 # [3, 2]). in_queue (fw_closure_queue ?wl) i"
    "\<forall>i \<in> set [1, 3, 2]. cq_at (fw_closure_queue ?wl) i = Some \<lparr>sc_request = ?R i, sc_data = demo_sm_data i\<rparr>"
    "cq_queue (fw_closure_queue ?wf) = []"
    by (simp_all add: demo_file_queue_eval cq_aligned_def in_queue_def cq_at_def demo_sm_done_def new_closure_queue_def numeral_eq_Suc)
  have k: "keeps_order (\<lambda>i j. sq_offset (?R i) = sq_offset (?R j)) [1, 3, 2] [1, 2, 3]"
    by (simp add: keeps_order_def demo_sm_request_def demo_sm_off_def)
  have o: "\<forall>i \<in> set [1, 3, 2]. \<forall>j \<in> set [1, 3, 2]. sq_offset (?R i) \<noteq> sq_offset (?R j) \<longrightarrow>
      \<not> overlap (sq_offset (?R i), demo_sm_data i) (sq_offset (?R j), demo_sm_data j)"
    by (simp add: demo_sm_request_def demo_sm_off_def demo_sm_data_def overlap_def)
  have s: "\<forall>i \<in> set [1, 3, 2]. stored_write demo_sm_codec (lm_entry cd (fw_log_manager ?wl)) ?R demo_sm_data i \<and>
      lm_entry cd (fw_log_manager ?wf) i = lm_entry cd (fw_log_manager ?wl) i \<and> 0 \<le> sq_offset (?R i)"
    using st by (simp add: demo_sm_request_def demo_sm_off_def)
  note c = committed_batch_reaches_replicas [of demo_sm_codec ?wl 1 "[3, 2]" ?R demo_sm_data ?wf cd "[]" 3,
      OF demo_sm_codec_ok q(1) _ q(2) _ _ _ q(4), unfolded new seq, OF _ _ _ q(3) s _ _ k o]
  show "\<exists>evs wl' evs' wf'. apply_committed cd (sample_apply demo_sm_codec) 1 [3, 2] ?wl = Inr (evs, [1, 3, 2], wl') \<and>
    apply_committed cd (sample_apply demo_sm_codec) 3 [] ?wf = Inr (evs', [1, 2, 3], wf') \<and>
    sm_file (fw_machine wl') = sm_file (fw_machine wf') \<and>
    sm_responses (fw_machine wl') = map (\<lambda>i. (?R i, True)) [1, 3, 2] \<and> sm_responses (fw_machine wf') = []"
    using c by (auto simp: demo_machine0_def)
qed

end
