(* ===== verification/Checksum.thy ===== *)
theory Checksum
  imports Segment
begin

text \<open>
  The checksums of \<open>src/cpp/util.h\<close>. The data of an entry is a \<open>butil::IOBuf\<close>, a sequence of blocks; the functions go over the blocks and feed
  them to a hash of butil, which is a parameter with its documented law: feeding two pieces one after the other is feeding their
  concatenation. The blocks of what was written and of what is read back differ, so the sum must not depend on them.
\<close>

record 'x hash_lib =
  hl_crc_value :: "byte list \<Rightarrow> 32 word"
  hl_crc_extend :: "32 word \<Rightarrow> byte list \<Rightarrow> 32 word"
  hl_murmur_whole :: "byte list \<Rightarrow> 32 word"
  hl_murmur_start :: 'x
  hl_murmur_feed :: "'x \<Rightarrow> byte list \<Rightarrow> 'x"
  hl_murmur_digest :: "'x \<Rightarrow> 32 word"

definition crc32_data :: "'x hash_lib \<Rightarrow> byte list \<Rightarrow> 32 word" where
  "crc32_data lib key = hl_crc_value lib key"

fun crc32_blocks :: "'x hash_lib \<Rightarrow> 32 word \<Rightarrow> byte list list \<Rightarrow> 32 word" where
  "crc32_blocks lib hash [] = hash"
| "crc32_blocks lib hash (sp # blocks) = crc32_blocks lib (if sp \<noteq> [] then hl_crc_extend lib hash sp else hash) blocks"

definition crc32_iobuf :: "'x hash_lib \<Rightarrow> byte list list \<Rightarrow> 32 word" where
  "crc32_iobuf lib blocks = crc32_blocks lib 0 blocks"

definition murmurhash32_data :: "'x hash_lib \<Rightarrow> byte list \<Rightarrow> 32 word" where
  "murmurhash32_data lib key = hl_murmur_whole lib key"

fun murmur_blocks :: "'x hash_lib \<Rightarrow> 'x \<Rightarrow> byte list list \<Rightarrow> 'x" where
  "murmur_blocks lib ctx [] = ctx"
| "murmur_blocks lib ctx (sp # blocks) = murmur_blocks lib (if sp \<noteq> [] then hl_murmur_feed lib ctx sp else ctx) blocks"

definition murmurhash32_iobuf :: "'x hash_lib \<Rightarrow> byte list list \<Rightarrow> 32 word" where
  "murmurhash32_iobuf lib blocks = hl_murmur_digest lib (murmur_blocks lib (hl_murmur_start lib) blocks)"

text \<open>The overloads of \<open>verify_checksum\<close> and \<open>get_checksum\<close> for an \<open>IOBuf\<close>.\<close>

definition verify_checksum_iobuf :: "'x hash_lib \<Rightarrow> nat \<Rightarrow> byte list list \<Rightarrow> 32 word \<Rightarrow> bool" where
  "verify_checksum_iobuf lib checksum_type data v =
     (if checksum_type = 0 then v = murmurhash32_iobuf lib data
      else if checksum_type = 1 then v = crc32_iobuf lib data
      else False)"

definition get_checksum_iobuf :: "'x hash_lib \<Rightarrow> nat \<Rightarrow> byte list list \<Rightarrow> 32 word res" where
  "get_checksum_iobuf lib checksum_type data =
     (if checksum_type = 0 then Inr (murmurhash32_iobuf lib data)
      else if checksum_type = 1 then Inr (crc32_iobuf lib data)
      else Inl Abort_called)"

definition hash_laws :: "'x hash_lib \<Rightarrow> bool" where
  "hash_laws lib \<longleftrightarrow>
     (\<forall>h a b. hl_crc_extend lib (hl_crc_extend lib h a) b = hl_crc_extend lib h (a @ b)) \<and>
     (\<forall>h. hl_crc_extend lib h [] = h) \<and> (\<forall>a. hl_crc_value lib a = hl_crc_extend lib 0 a) \<and>
     (\<forall>c a b. hl_murmur_feed lib (hl_murmur_feed lib c a) b = hl_murmur_feed lib c (a @ b)) \<and>
     (\<forall>c. hl_murmur_feed lib c [] = c) \<and>
     (\<forall>a. hl_murmur_whole lib a = hl_murmur_digest lib (hl_murmur_feed lib (hl_murmur_start lib) a))"

lemma crc32_blocks_concat: "hash_laws lib \<Longrightarrow> crc32_blocks lib h blocks = hl_crc_extend lib h (concat blocks)"
  by (induction blocks arbitrary: h) (auto simp: hash_laws_def)

lemma murmur_blocks_concat: "hash_laws lib \<Longrightarrow> murmur_blocks lib c blocks = hl_murmur_feed lib c (concat blocks)"
  by (induction blocks arbitrary: c) (auto simp: hash_laws_def)

lemma iobuf_checksums:
  assumes "hash_laws lib"
  shows "crc32_iobuf lib blocks = crc32_data lib (concat blocks)" "murmurhash32_iobuf lib blocks = murmurhash32_data lib (concat blocks)"
  using assms
  by (simp_all add: crc32_iobuf_def crc32_data_def murmurhash32_iobuf_def murmurhash32_data_def crc32_blocks_concat murmur_blocks_concat)
    (simp_all add: hash_laws_def)

text \<open>The environment of the segments with these checksums.\<close>

definition with_hashes :: "'x hash_lib \<Rightarrow> codec \<Rightarrow> codec" where
  "with_hashes lib cd = cd\<lparr>cd_murmurhash32 := murmurhash32_data lib, cd_crc32 := crc32_data lib\<rparr>"

text \<open>
  C37. The checksums of a segment do not depend on how the data is cut into blocks: the loops over the blocks compute the functions of the bytes that the
  model of the segment uses, and a sum taken over one cutting is accepted for every other cutting of the same bytes.
\<close>

theorem checksums_ignore_blocks:
  assumes "hash_laws lib" "concat blocks = concat blocks'"
  shows "get_checksum_iobuf lib ck blocks = get_checksum (with_hashes lib cd) ck (concat blocks) \<and>
    verify_checksum_iobuf lib ck blocks v = verify_checksum (with_hashes lib cd) ck (concat blocks) v \<and>
    (get_checksum_iobuf lib ck blocks = Inr v \<longrightarrow> verify_checksum_iobuf lib ck blocks' v)"
  using assms(2)
  by (auto simp: get_checksum_iobuf_def verify_checksum_iobuf_def get_checksum_def verify_checksum_def with_hashes_def
      iobuf_checksums [OF assms(1)])

text \<open>A library with the sum of the bytes as checksum.\<close>

definition demo_hashes :: "32 word hash_lib" where
  "demo_hashes =
     (let add = (\<lambda>h bs. fold (\<lambda>b s. s + ucast b) bs h)
      in \<lparr>hl_crc_value = add 0, hl_crc_extend = add, hl_murmur_whole = add 7, hl_murmur_start = 7, hl_murmur_feed = add, hl_murmur_digest = id\<rparr>)"

lemma demo_hashes_laws: "hash_laws demo_hashes"
  by (simp add: hash_laws_def demo_hashes_def Let_def)

theorem checksums_ignore_blocks_witness:
  "get_checksum_iobuf demo_hashes 1 [[1, 2], [], [3]] = Inr 6 \<and> verify_checksum_iobuf demo_hashes 1 [[1], [2, 3]] 6"
proof -
  have "concat [[1, 2], [], [3]] = concat [[1], [2, 3 :: byte]]" by simp
  note c = checksums_ignore_blocks [OF demo_hashes_laws this, of 1 demo_cd 6]
  have "get_checksum_iobuf demo_hashes 1 [[1, 2], [], [3]] = Inr 6"
    using c by (simp add: get_checksum_def with_hashes_def crc32_data_def demo_hashes_def Let_def)
  with c show ?thesis by blast
qed

end
