(* ===== verification/File_System.thy ===== *)
theory File_System
  imports File_Io
begin

text \<open>
  \<open>src/cpp/file_system_adaptor.h\<close>, \<open>file_system_adaptor.cc\<close> and \<open>fsync.h\<close>: the wrappers of files, directories and paths. System calls and the functions on
  paths of \<open>butil::FilePath\<close> are arguments; what the wrappers add to them is modelled.
\<close>

section \<open>Errors\<close>

text \<open>The values of \<open>butil::File::Error\<close> that the code names; the others are one constructor.\<close>

datatype file_error =
    FILE_OK
  | FILE_ERROR_ACCESS_DENIED
  | FILE_ERROR_EXISTS
  | FILE_ERROR_NOT_FOUND
  | FILE_ERROR_TOO_MANY_OPENED
  | FILE_ERROR_NO_MEMORY
  | FILE_ERROR_NO_SPACE
  | FILE_ERROR_NOT_A_DIRECTORY
  | FILE_ERROR_IO
  | FILE_ERROR_INVALID_URL
  | FILE_ERROR_OTHER int

datatype os_error = OS_OK | OS_EACCES | OS_EEXIST | OS_ENOENT | OS_EMFILE | OS_ENOMEM | OS_ENOSPC | OS_ENOTDIR | OS_EIO | OS_EINVAL

fun file_error_to_os_error :: "file_error \<Rightarrow> os_error" where
  "file_error_to_os_error FILE_OK = OS_OK"
| "file_error_to_os_error FILE_ERROR_ACCESS_DENIED = OS_EACCES"
| "file_error_to_os_error FILE_ERROR_EXISTS = OS_EEXIST"
| "file_error_to_os_error FILE_ERROR_NOT_FOUND = OS_ENOENT"
| "file_error_to_os_error FILE_ERROR_TOO_MANY_OPENED = OS_EMFILE"
| "file_error_to_os_error FILE_ERROR_NO_MEMORY = OS_ENOMEM"
| "file_error_to_os_error FILE_ERROR_NO_SPACE = OS_ENOSPC"
| "file_error_to_os_error FILE_ERROR_NOT_A_DIRECTORY = OS_ENOTDIR"
| "file_error_to_os_error FILE_ERROR_IO = OS_EIO"
| "file_error_to_os_error _ = OS_EINVAL"

section \<open>Reading a directory\<close>

text \<open>\<open>PosixDirReader::next\<close>: the entries that the reader of butil has still to deliver, and the name at which it stands.\<close>

fun dir_next :: "string list \<Rightarrow> string option \<times> string list" where
  "dir_next [] = (None, [])"
| "dir_next (n # ns) = (if n = ''.'' \<or> n = ''..'' then dir_next ns else (Some n, ns))"

text \<open>A client calls \<open>next\<close> until it returns false.\<close>

lemma dir_next_shorter: "dir_next ns = (Some n, ns') \<Longrightarrow> length ns' < length ns"
  by (induction ns) (auto split: if_splits)

function dir_names :: "string list \<Rightarrow> string list" where
  "dir_names ns = (case dir_next ns of (None, _) \<Rightarrow> [] | (Some n, ns') \<Rightarrow> n # dir_names ns')"
  by pat_completeness auto
termination
  by (relation "measure length") (auto dest: dir_next_shorter [OF sym])

section \<open>Files\<close>

text \<open>\<open>PosixFileAdaptor\<close> keeps a descriptor. \<open>close\<close> asks for a positive one; the call of \<open>::close\<close> is returned beside the result.\<close>

record posix_file =
  pf_fd :: int

definition pf_close :: "bool \<Rightarrow> posix_file \<Rightarrow> bool \<times> int list \<times> posix_file" where
  "pf_close close_ok f = (if pf_fd f > 0 then (close_ok, [pf_fd f], f\<lparr>pf_fd := -1\<rparr>) else (True, [], f))"

definition pf_write :: "io_step list \<Rightarrow> byte list \<Rightarrow> int64 \<Rightarrow> byte list \<Rightarrow> int \<times> byte list" where
  "pf_write steps data offset content = file_pwrite steps offset data content"

definition pf_read :: "io_step list \<Rightarrow> int64 \<Rightarrow> nat \<Rightarrow> byte list \<Rightarrow> byte list option" where
  "pf_read steps offset sz content = file_pread steps offset sz content"

definition pf_size :: "byte list \<Rightarrow> int" where
  "pf_size content = int (length content)"

text \<open>\<open>raft_fsync\<close>: the flag chooses the system call.\<close>

definition raft_fsync :: "bool \<Rightarrow> int \<Rightarrow> int \<Rightarrow> int" where
  "raft_fsync use_fsync fsync_ret fdatasync_ret = (if use_fsync then fsync_ret else fdatasync_ret)"

definition raft_sync_meta :: "bool \<Rightarrow> bool \<Rightarrow> bool" where
  "raft_sync_meta raft_sync sync_meta = (raft_sync \<or> sync_meta)"

definition pf_sync :: "bool \<Rightarrow> int \<Rightarrow> int \<Rightarrow> bool" where
  "pf_sync use_fsync fsync_ret fdatasync_ret = (raft_fsync use_fsync fsync_ret fdatasync_ret = 0)"

text \<open>
  \<open>PosixFileSystemAdaptor::open\<close>: flags other than \<open>O_CLOEXEC\<close> are opaque. The result is the file, the error, the value of \<open>O_CLOEXEC\<close> that
  \<open>::open\<close> is called with, and whether \<open>make_close_on_exec\<close> is called afterwards.
\<close>

definition fs_open :: "bool \<Rightarrow> bool \<Rightarrow> (bool \<Rightarrow> int \<times> file_error) \<Rightarrow> posix_file option \<times> file_error \<times> bool \<times> bool" where
  "fs_open support_cloexec cloexec sys_open =
     (let flag = (cloexec \<and> support_cloexec); (fd, err) = sys_open flag
      in if fd = -1 then (None, err, flag, False)
         else (Some \<lparr>pf_fd = fd\<rparr>, FILE_OK, flag, cloexec \<and> \<not> support_cloexec))"

section \<open>Creating a directory below another\<close>

text \<open>\<open>DirName\<close>, \<open>BaseName\<close>, \<open>Append\<close> and \<open>ReferencesParent\<close> of \<open>butil::FilePath\<close>.\<close>

record path_lib =
  fp_dir :: "string \<Rightarrow> string"
  fp_base :: "string \<Rightarrow> string"
  fp_join :: "string \<Rightarrow> string \<Rightarrow> string"
  fp_references_parent :: "string \<Rightarrow> bool"

text \<open>The loop that collects the names of the path from the back; it need not end for an arbitrary \<open>DirName\<close>.\<close>

partial_function (option) sub_paths :: "path_lib \<Rightarrow> string \<Rightarrow> string list \<Rightarrow> string list option" where
  "sub_paths fp last_path subpaths =
     (let path = fp_dir fp last_path
      in if path = last_path then Some subpaths else sub_paths fp path (subpaths @ [fp_base fp path]))"

text \<open>The loop that creates the directories; the paths given to \<open>create_directory\<close> are returned, in order.\<close>

fun create_each :: "path_lib \<Rightarrow> (string \<Rightarrow> bool \<times> file_error) \<Rightarrow> string \<Rightarrow> string list \<Rightarrow> file_error \<Rightarrow> bool \<times> string list \<times> file_error" where
  "create_each fp mk full [] err = (True, [], err)"
| "create_each fp mk full (p # ps) err =
     (if p = ''/'' \<or> p = ''.'' then create_each fp mk full ps err
      else (let full' = fp_join fp full p; (ok, err') = mk full'
            in if \<not> ok then (False, [full'], err')
               else (let (r, calls, e) = create_each fp mk full' ps err' in (r, full' # calls, e))))"

definition create_sub_directory ::
    "path_lib \<Rightarrow> (string \<Rightarrow> bool) \<Rightarrow> (string \<Rightarrow> bool \<times> file_error) \<Rightarrow> string \<Rightarrow> string \<Rightarrow> file_error \<Rightarrow>
      (bool \<times> string list \<times> file_error) option" where
  "create_sub_directory fp exists mk parent_path sub_path err =
     (if \<not> exists parent_path then Some (False, [], FILE_ERROR_NOT_FOUND)
      else if fp_references_parent fp sub_path then Some (False, [], FILE_ERROR_INVALID_URL)
      else (case sub_paths fp sub_path [fp_base fp sub_path] of
              None \<Rightarrow> None
            | Some subpaths \<Rightarrow> Some (create_each fp mk parent_path (rev subpaths) err)))"

section \<open>What the wrappers guarantee\<close>

declare dir_names.simps [simp del]

lemma dir_names_Cons: "dir_names (n # ns) = (if n = ''.'' \<or> n = ''..'' then dir_names ns else n # dir_names ns)"
  by (simp add: dir_names.simps [of "n # ns"] dir_names.simps [of ns])

text \<open>Iterating with \<open>next\<close> delivers every entry but the directory itself and its parent, each once and in order.\<close>

theorem dir_reader_skips_dots: "dir_names ns = filter (\<lambda>n. n \<noteq> ''.'' \<and> n \<noteq> ''..'') ns"
proof (induction ns)
  case Nil
  show ?case by (simp add: dir_names.simps [of "[]"])
next
  case (Cons n ns)
  then show ?case by (auto simp: dir_names_Cons)
qed

text \<open>
  A descriptor is closed at most once, however often \<open>close\<close> is called; descriptor 0 is taken for a closed one and stays open.
\<close>

theorem file_closed_once:
  assumes "pf_close ok f = (r, calls, f')"
  shows "calls = (if pf_fd f > 0 then [pf_fd f] else []) \<and> pf_close ok' f' = (True, [], f') \<and> (pf_fd f = 0 \<longrightarrow> r \<and> calls = [])"
  using assms by (auto simp: pf_close_def split: if_splits)

text \<open>A file that is to be closed on \<open>exec\<close> gets the mark in exactly one of two ways, and a file that is not never gets it.\<close>

theorem open_marks_close_on_exec:
  assumes "fs_open support cloexec sys_open = (Some f, err, flag, mark)"
  shows "err = FILE_OK \<and> (cloexec \<longleftrightarrow> flag \<noteq> mark) \<and> (\<not> cloexec \<longrightarrow> \<not> flag \<and> \<not> mark) \<and> (flag \<longrightarrow> support)"
  using assms by (auto simp: fs_open_def Let_def split: prod.splits if_splits)

text \<open>
  Relative paths as \<open>butil::FilePath\<close> documents them: \<open>path cs\<close> is the text of the path with the components \<open>cs\<close>, the empty one is \<open>.\<close>.
\<close>

definition component :: "string \<Rightarrow> bool" where
  "component c \<longleftrightarrow> c \<noteq> [] \<and> c \<noteq> ''.'' \<and> c \<noteq> ''..'' \<and> CHR ''/'' \<notin> set c"

definition relative_paths :: "path_lib \<Rightarrow> (string list \<Rightarrow> string) \<Rightarrow> bool" where
  "relative_paths fp path \<longleftrightarrow> path [] = ''.'' \<and> fp_dir fp ''.'' = ''.'' \<and> fp_base fp ''.'' = ''.'' \<and>
     (\<forall>cs c. (\<forall>d \<in> set (cs @ [c]). component d) \<longrightarrow>
        fp_dir fp (path (cs @ [c])) = path cs \<and> fp_base fp (path (cs @ [c])) = c \<and> path (cs @ [c]) \<noteq> path cs)"

lemma sub_paths_collect:
  assumes "relative_paths fp path" "\<forall>c \<in> set cs. component c"
  shows "sub_paths fp (path cs) acc = Some (acc @ (if cs = [] then [] else rev (''.'' # butlast cs)))"
  using assms(2)
proof (induction cs arbitrary: acc rule: rev_induct)
  case Nil
  then show ?case using assms(1) by (subst sub_paths.simps) (simp add: relative_paths_def)
next
  case (snoc c cs)
  have p: "fp_dir fp (path (cs @ [c])) = path cs" "path (cs @ [c]) \<noteq> path cs"
    using assms(1) snoc.prems by (auto simp: relative_paths_def)
  then have "sub_paths fp (path (cs @ [c])) acc = sub_paths fp (path cs) (acc @ [fp_base fp (path cs)])"
    by (subst sub_paths.simps) (simp add: Let_def)
  also have "\<dots> = Some (acc @ [fp_base fp (path cs)] @ (if cs = [] then [] else rev (''.'' # butlast cs)))"
    using snoc by simp
  also have "[fp_base fp (path cs)] @ (if cs = [] then [] else rev (''.'' # butlast cs)) = rev (''.'' # cs)"
  proof (cases cs rule: rev_cases)
    case Nil
    then show ?thesis using assms(1) by (simp add: relative_paths_def)
  next
    case (snoc ds d)
    have "fp_base fp (path (ds @ [d])) = d" using assms(1) snoc.prems snoc by (auto simp: relative_paths_def)
    then show ?thesis by (simp add: snoc)
  qed
  finally show ?case by simp
qed

text \<open>The directories from the parent down to the new one.\<close>

fun below :: "path_lib \<Rightarrow> string \<Rightarrow> string list \<Rightarrow> string list" where
  "below fp full [] = []"
| "below fp full (c # cs) = fp_join fp full c # below fp (fp_join fp full c) cs"

lemma create_each_below:
  "\<forall>c \<in> set cs. component c \<Longrightarrow> create_each fp mk full cs err = (r, calls, e) \<Longrightarrow>
     (r \<longleftrightarrow> (\<forall>d \<in> set (below fp full cs). fst (mk d))) \<and>
     calls = takeWhile (\<lambda>d. fst (mk d)) (below fp full cs) @ take 1 (dropWhile (\<lambda>d. fst (mk d)) (below fp full cs))"
proof (induction cs arbitrary: full err r calls e)
  case (Cons c cs)
  let ?f = "fp_join fp full c"
  have "component c" using Cons.prems(1) by simp
  then have c: "c \<noteq> ''/''" "c \<noteq> ''.''" by (auto simp: component_def)
  obtain ok err' where mk: "mk ?f = (ok, err')" by (rule prod.exhaust)
  obtain r1 calls1 e1 where rec: "create_each fp mk ?f cs err' = (r1, calls1, e1)" by (rule prod_cases3)
  have IH: "(r1 \<longleftrightarrow> (\<forall>d \<in> set (below fp ?f cs). fst (mk d)))"
    "calls1 = takeWhile (\<lambda>d. fst (mk d)) (below fp ?f cs) @ take 1 (dropWhile (\<lambda>d. fst (mk d)) (below fp ?f cs))"
    using Cons.IH [OF _ rec] Cons.prems(1) by simp_all
  show ?case
  proof (cases ok)
    case True
    then have "r = r1" "calls = ?f # calls1" using Cons.prems(2) c mk rec by simp_all
    then show ?thesis using IH mk True by simp
  next
    case False
    then show ?thesis using Cons.prems(2) c mk by simp
  qed
qed simp

text \<open>
  \<open>create_sub_directory\<close> ends, and for an existing parent it asks for the directories from the parent down to the new one, in this order and only
  for these, up to the first that cannot be created; it returns true exactly when all were created.
\<close>

theorem sub_directory_created_in_order:
  assumes "relative_paths fp path" "\<forall>c \<in> set cs. component c" "cs \<noteq> []" "exists parent" "\<not> fp_references_parent fp (path cs)"
  shows "\<exists>r calls e. create_sub_directory fp exists mk parent (path cs) err = Some (r, calls, e) \<and>
    (r \<longleftrightarrow> (\<forall>d \<in> set (below fp parent cs). fst (mk d))) \<and> (r \<longrightarrow> calls = below fp parent cs) \<and>
    (\<not> r \<longrightarrow> (\<exists>good bad rest. below fp parent cs = good @ bad # rest \<and> calls = good @ [bad] \<and> (\<forall>d \<in> set good. fst (mk d)) \<and> \<not> fst (mk bad)))"
proof -
  obtain ds d where cs: "cs = ds @ [d]" using assms(3) by (cases cs rule: rev_cases) auto
  have "fp_base fp (path cs) = d" using assms(1,2) by (auto simp: cs relative_paths_def)
  then have sp: "sub_paths fp (path cs) [fp_base fp (path cs)] = Some (rev (''.'' # cs))"
    using sub_paths_collect [OF assms(1,2), of "[d]"] by (simp add: cs)
  obtain r calls e where ce: "create_each fp mk parent cs err = (r, calls, e)" by (rule prod_cases3)
  have res: "create_sub_directory fp exists mk parent (path cs) err = Some (r, calls, e)"
    using assms(4,5) ce by (simp add: create_sub_directory_def sp)
  let ?b = "below fp parent cs" and ?P = "\<lambda>d. fst (mk d)"
  note cb = create_each_below [OF assms(2) ce]
  show ?thesis
  proof (cases r)
    case True
    then have all: "\<forall>d \<in> set ?b. ?P d" using cb by simp
    then have w: "takeWhile ?P ?b = ?b" "dropWhile ?P ?b = []" by simp_all
    have "calls = ?b" using conjunct2 [OF cb] unfolding w by simp
    then show ?thesis using res True all by (intro exI [of _ r] exI [of _ calls] exI [of _ e]) simp
  next
    case False
    then have "dropWhile ?P ?b \<noteq> []" using cb by (auto simp: dropWhile_eq_Nil_conv)
    then obtain bad rest where d: "dropWhile ?P ?b = bad # rest" by (cases "dropWhile ?P ?b") auto
    have "\<not> ?P bad" using hd_dropWhile [of ?P ?b] d by simp
    moreover have "?b = takeWhile ?P ?b @ bad # rest" using takeWhile_dropWhile_id [of ?P ?b] d by simp
    moreover have "calls = takeWhile ?P ?b @ [bad]" using cb d by simp
    moreover have "\<forall>d \<in> set (takeWhile ?P ?b). ?P d" by (auto dest: set_takeWhileD)
    ultimately have "\<exists>good bad rest. ?b = good @ bad # rest \<and> calls = good @ [bad] \<and> (\<forall>d \<in> set good. ?P d) \<and> \<not> ?P bad" by blast
    then show ?thesis using res cb False by (intro exI [of _ r] exI [of _ calls] exI [of _ e]) simp
  qed
qed

section \<open>Example\<close>

text \<open>Paths with the separator of POSIX, for relative paths of plain components.\<close>

fun demo_path_rev :: "string list \<Rightarrow> string" where
  "demo_path_rev [] = ''.''"
| "demo_path_rev [c] = c"
| "demo_path_rev (c # d # cs) = demo_path_rev (d # cs) @ CHR ''/'' # c"

definition demo_path :: "string list \<Rightarrow> string" where
  "demo_path cs = demo_path_rev (rev cs)"

definition demo_paths :: path_lib where
  "demo_paths =
     \<lparr>fp_dir = (\<lambda>s. if CHR ''/'' \<in> set s then rev (tl (dropWhile (\<lambda>c. c \<noteq> CHR ''/'') (rev s))) else ''.''),
      fp_base = (\<lambda>s. rev (takeWhile (\<lambda>c. c \<noteq> CHR ''/'') (rev s))),
      fp_join = (\<lambda>a b. a @ CHR ''/'' # b), fp_references_parent = (\<lambda>s. False)\<rparr>"

lemma demo_path_snoc: "demo_path (cs @ [c]) = (if cs = [] then c else demo_path cs @ CHR ''/'' # c)"
  by (cases cs rule: rev_cases) (simp_all add: demo_path_def)

lemma takeWhile_rev_component:
  assumes "CHR ''/'' \<notin> set c"
  shows "takeWhile (\<lambda>x. x \<noteq> CHR ''/'') (rev c) = rev c" "dropWhile (\<lambda>x. x \<noteq> CHR ''/'') (rev c) = []"
    "takeWhile (\<lambda>x. x \<noteq> CHR ''/'') (rev c @ CHR ''/'' # s) = rev c" "dropWhile (\<lambda>x. x \<noteq> CHR ''/'') (rev c @ CHR ''/'' # s) = CHR ''/'' # s"
  using assms by (auto simp: takeWhile_append dropWhile_append)

lemma demo_paths_step:
  assumes "CHR ''/'' \<notin> set c" "c \<noteq> ''.''"
  shows "fp_dir demo_paths (demo_path (cs @ [c])) = demo_path cs" "fp_base demo_paths (demo_path (cs @ [c])) = c" "demo_path (cs @ [c]) \<noteq> demo_path cs"
proof -
  let ?p = "demo_path (cs @ [c])" and ?q = "if cs = [] then c else demo_path cs @ CHR ''/'' # c"
  have p: "?p = ?q" by (rule demo_path_snoc)
  have e: "demo_path [] = ''.''" by (simp add: demo_path_def)
  note t = takeWhile_rev_component [OF assms(1)]
  show "?p \<noteq> demo_path cs" unfolding p using assms(2) e by (cases "cs = []") simp_all
  show "fp_base demo_paths ?p = c" unfolding p demo_paths_def by (cases "cs = []") (simp_all only: t simp_thms if_True if_False path_lib.simps rev_append rev.simps append_assoc append.simps rev_rev_ident)
  show "fp_dir demo_paths ?p = demo_path cs" unfolding p demo_paths_def using t assms(1) e by (cases "cs = []") simp_all
qed

lemma demo_paths_ok: "relative_paths demo_paths demo_path"
  unfolding relative_paths_def
proof (intro conjI allI impI)
  show "demo_path [] = ''.''" by (simp add: demo_path_def)
  show "fp_dir demo_paths ''.'' = ''.''" "fp_base demo_paths ''.'' = ''.''" by (simp_all add: demo_paths_def)
  fix cs c
  assume "\<forall>d \<in> set (cs @ [c]). component d"
  then have "component c" by simp
  then have "CHR ''/'' \<notin> set c" "c \<noteq> ''.''" unfolding component_def by blast+
  from demo_paths_step [OF this]
  show "fp_dir demo_paths (demo_path (cs @ [c])) = demo_path cs" "fp_base demo_paths (demo_path (cs @ [c])) = c" "demo_path (cs @ [c]) \<noteq> demo_path cs" .
qed

theorem sub_directory_created_in_order_witness:
  "\<exists>e. create_sub_directory demo_paths (\<lambda>d. d = ''data'') (\<lambda>d. (True, FILE_OK)) ''data'' (demo_path [''a'', ''b'', ''c'']) FILE_OK =
     Some (True, [''data/a'', ''data/a/b'', ''data/a/b/c''], e) \<and> demo_path [''a'', ''b'', ''c''] = ''a/b/c''"
proof -
  let ?mk = "\<lambda>d :: string. (True, FILE_OK)" and ?cs = "[''a'', ''b'', ''c'']"
  have b: "below demo_paths ''data'' ?cs = [''data/a'', ''data/a/b'', ''data/a/b/c'']" by (simp add: demo_paths_def)
  have c: "\<forall>c \<in> set ?cs. component c" "?cs \<noteq> []" "\<not> fp_references_parent demo_paths (demo_path ?cs)"
    by (simp_all add: component_def demo_paths_def)
  from sub_directory_created_in_order [OF demo_paths_ok c(1,2), of "\<lambda>d. d = ''data''" "''data''", OF refl c(3), of ?mk FILE_OK]
  obtain r calls e where r: "create_sub_directory demo_paths (\<lambda>d. d = ''data'') ?mk ''data'' (demo_path ?cs) FILE_OK = Some (r, calls, e)"
    and ok: "r \<longleftrightarrow> (\<forall>d \<in> set (below demo_paths ''data'' ?cs). fst (?mk d))" and calls: "r \<longrightarrow> calls = below demo_paths ''data'' ?cs"
    by (elim exE conjE)
  have t: "r" using ok by simp
  have p: "demo_path ?cs = ''a/b/c''" by (simp add: demo_path_def)
  show ?thesis
    by (rule exI [of _ e], rule conjI, rule trans [OF r], simp only: t calls [rule_format, OF t] b, rule p)
qed

end
