(* ===== verification/Timer.thy ===== *)
theory Timer
  imports Prelude
begin

text \<open>
  \<open>src/cpp/repeated_timer_task.h\<close> and \<open>repeated_timer_task.cc\<close>: the repeated timer behind the
  election, vote and step-down timers. The mutex makes each critical section one step; the
  callback has two of them, before and after \<open>run()\<close>, so other operations interleave with it.

  Besides the fields of the class the state has what the timer service knows: whether \<open>_timer\<close> is
  armed, how many callbacks were fired and have not reached their first critical section, how many
  are inside \<open>run()\<close>, and how often \<open>on_destroy\<close> was called.
\<close>

section \<open>Model\<close>

record timer_task =
  tt_timeout_ms :: int
  tt_stopped :: bool
  tt_running :: bool
  tt_destroyed :: bool
  tt_invoking :: bool
  tt_armed :: bool
  tt_fired :: nat
  tt_in_run :: nat
  tt_destroys :: nat

definition new_timer :: timer_task where
  "new_timer = \<lparr>tt_timeout_ms = 0, tt_stopped = True, tt_running = False, tt_destroyed = True,
                tt_invoking = False, tt_armed = False, tt_fired = 0, tt_in_run = 0, tt_destroys = 0\<rparr>"

definition timer_init :: "int \<Rightarrow> timer_task \<Rightarrow> timer_task" where
  "timer_init timeout_ms t =
     t\<lparr>tt_timeout_ms := timeout_ms, tt_destroyed := False, tt_stopped := True, tt_running := False,
       tt_armed := False\<rparr>"

text \<open>\<open>bthread_timer_del\<close> returns 0 iff the timer was armed and is now removed.\<close>

definition timer_del :: "timer_task \<Rightarrow> bool \<times> timer_task" where
  "timer_del t = (tt_armed t, t\<lparr>tt_armed := False\<rparr>)"

text \<open>
  \<open>schedule\<close>: when \<open>bthread_timer_add\<close> fails, the callback is started at once, in a new thread or
  (when that fails too) in this one, after the lock is released.
\<close>

definition timer_schedule :: "bool \<Rightarrow> timer_task \<Rightarrow> timer_task" where
  "timer_schedule add_ok t = (if add_ok then t\<lparr>tt_armed := True\<rparr> else t\<lparr>tt_fired := tt_fired t + 1\<rparr>)"

definition timer_on_destroy :: "timer_task \<Rightarrow> timer_task" where
  "timer_on_destroy t = t\<lparr>tt_destroys := tt_destroys t + 1\<rparr>"

definition timer_stop :: "timer_task \<Rightarrow> timer_task" where
  "timer_stop t =
     (if tt_stopped t then t
      else (let (deleted, t1) = timer_del (t\<lparr>tt_stopped := True\<rparr>)
            in if deleted then t1\<lparr>tt_running := False\<rparr> else t1))"

definition timer_start :: "bool \<Rightarrow> timer_task \<Rightarrow> timer_task" where
  "timer_start add_ok t =
     (if tt_destroyed t then t
      else if \<not> tt_stopped t then t
      else if tt_running t then t\<lparr>tt_stopped := False\<rparr>
      else timer_schedule add_ok (t\<lparr>tt_stopped := False, tt_running := True\<rparr>))"

definition timer_run_once_now :: "timer_task \<Rightarrow> timer_task" where
  "timer_run_once_now t =
     (let (deleted, t1) = timer_del t in if deleted then t1\<lparr>tt_fired := tt_fired t1 + 1\<rparr> else t1)"

text \<open>The first critical section of \<open>on_timedout()\<close>, up to the call of \<open>run()\<close>.\<close>

definition on_timedout_enter :: "timer_task \<Rightarrow> timer_task" where
  "on_timedout_enter t =
     t\<lparr>tt_invoking := True, tt_fired := tt_fired t - 1, tt_in_run := tt_in_run t + 1\<rparr>"

text \<open>The second one, after \<open>run()\<close> returned.\<close>

definition on_timedout_leave :: "bool \<Rightarrow> timer_task \<Rightarrow> timer_task" where
  "on_timedout_leave add_ok t =
     (let t1 = t\<lparr>tt_invoking := False, tt_in_run := tt_in_run t - 1\<rparr>
      in if tt_stopped t1
         then (let t2 = t1\<lparr>tt_running := False\<rparr> in if tt_destroyed t2 then timer_on_destroy t2 else t2)
         else timer_schedule add_ok t1)"

definition timer_reset :: "bool \<Rightarrow> timer_task \<Rightarrow> timer_task" where
  "timer_reset add_ok t =
     (if tt_stopped t then t
      else (let (deleted, t1) = timer_del t in if deleted then timer_schedule add_ok t1 else t1))"

definition timer_reset_to :: "bool \<Rightarrow> int \<Rightarrow> timer_task \<Rightarrow> timer_task" where
  "timer_reset_to add_ok timeout_ms t = timer_reset add_ok (t\<lparr>tt_timeout_ms := timeout_ms\<rparr>)"

definition timer_destroy :: "timer_task \<Rightarrow> timer_task" where
  "timer_destroy t =
     (if tt_destroyed t then t
      else (let t1 = t\<lparr>tt_destroyed := True\<rparr>
            in if \<not> tt_running t1 then timer_on_destroy t1
               else if tt_stopped t1 then t1
               else (let (deleted, t2) = timer_del (t1\<lparr>tt_stopped := True\<rparr>)
                     in if deleted then timer_on_destroy (t2\<lparr>tt_running := False\<rparr>) else t2)))"

text \<open>The states \<open>describe\<close> prints, as a list of words without the timestamps.\<close>

datatype timer_word = DESTROYED | STOPPED | INVOKING | SCHEDULING

definition timer_describe :: "timer_task \<Rightarrow> int \<times> timer_word list" where
  "timer_describe t =
     (tt_timeout_ms t,
      (if tt_destroyed t then [DESTROYED] else []) @ (if tt_stopped t then [STOPPED] else []) @
      (if tt_running t then (if tt_invoking t then [INVOKING] else [SCHEDULING]) else []))"

section \<open>Interleavings\<close>

text \<open>
  All interleavings of one initialised timer: client calls in any order, the timer service firing
  an armed timer, and the two halves of a callback.
\<close>

inductive timer_run :: "timer_task \<Rightarrow> bool" where
  tr_init: "timer_run (timer_init ms new_timer)"
| tr_start: "timer_run t \<Longrightarrow> timer_run (timer_start add_ok t)"
| tr_stop: "timer_run t \<Longrightarrow> timer_run (timer_stop t)"
| tr_reset: "timer_run t \<Longrightarrow> timer_run (timer_reset add_ok t)"
| tr_reset_to: "timer_run t \<Longrightarrow> timer_run (timer_reset_to add_ok ms t)"
| tr_now: "timer_run t \<Longrightarrow> timer_run (timer_run_once_now t)"
| tr_destroy: "timer_run t \<Longrightarrow> timer_run (timer_destroy t)"
| tr_fire: "timer_run t \<Longrightarrow> tt_armed t \<Longrightarrow> timer_run (t\<lparr>tt_armed := False, tt_fired := tt_fired t + 1\<rparr>)"
| tr_enter: "timer_run t \<Longrightarrow> 0 < tt_fired t \<Longrightarrow> timer_run (on_timedout_enter t)"
| tr_leave: "timer_run t \<Longrightarrow> 0 < tt_in_run t \<Longrightarrow> timer_run (on_timedout_leave add_ok t)"

definition timer_tokens :: "timer_task \<Rightarrow> nat" where
  "timer_tokens t = (if tt_armed t then 1 else 0) + tt_fired t + tt_in_run t"

definition timer_inv :: "timer_task \<Rightarrow> bool" where
  "timer_inv t \<longleftrightarrow>
     timer_tokens t = (if tt_running t then 1 else 0) \<and> (\<not> tt_stopped t \<longrightarrow> tt_running t) \<and>
     (tt_invoking t \<longleftrightarrow> 0 < tt_in_run t) \<and> (tt_destroyed t \<longrightarrow> tt_stopped t) \<and>
     tt_destroys t = (if tt_destroyed t \<and> \<not> tt_running t then 1 else 0)"

lemmas timer_defs = timer_inv_def timer_tokens_def timer_del_def timer_schedule_def timer_on_destroy_def
  timer_start_def timer_stop_def timer_reset_def timer_reset_to_def timer_run_once_now_def timer_destroy_def
  on_timedout_enter_def on_timedout_leave_def Let_def

lemma timer_run_inv: "timer_run t \<Longrightarrow> timer_inv t"
proof (induction rule: timer_run.induct)
  case (tr_init ms)
  then show ?case by (simp add: timer_defs timer_init_def new_timer_def)
qed (auto simp: timer_defs split: if_splits)

text \<open>
  C27. in every interleaving of a timer's operations with its callbacks there is exactly one
  outstanding timer or callback while \<open>_running\<close> is set and none otherwise, so \<open>run()\<close> is never
  entered twice at a time and the \<open>CHECK(_running)\<close> of the callback and of \<open>stop\<close> hold;
  \<open>on_destroy\<close> is called once, exactly when the timer is destroyed and nothing is outstanding.
\<close>

theorem timer_single_callback:
  assumes "timer_run t"
  shows "timer_tokens t = (if tt_running t then 1 else 0) \<and> (0 < tt_in_run t \<longrightarrow> tt_running t) \<and>
     (\<not> tt_stopped t \<longrightarrow> tt_running t) \<and>
     tt_destroys t = (if tt_destroyed t \<and> \<not> tt_running t then 1 else 0)"
  using timer_run_inv [OF assms] by (auto simp: timer_inv_def timer_tokens_def split: if_splits)

theorem timer_single_callback_witness:
  "tt_destroys (timer_destroy (timer_start True (timer_init 100 new_timer))) = 1"
proof -
  have "timer_run (timer_destroy (timer_start True (timer_init 100 new_timer)))"
    by (intro tr_destroy tr_start tr_init)
  from timer_single_callback [OF this] show ?thesis
    by (simp add: timer_defs timer_init_def new_timer_def)
qed

text \<open>
  A stopped timer whose deletion came too late lets its callback finish without rescheduling
  it, and a \<open>start\<close> in between makes that same callback reschedule instead of arming a second timer.
\<close>

theorem timer_restart_during_callback:
  assumes "timer_run t" "0 < tt_in_run t" "\<not> tt_destroyed t"
  shows "timer_tokens (on_timedout_leave ok1 (timer_stop t)) = 0 \<and>
     \<not> tt_running (on_timedout_leave ok1 (timer_stop t)) \<and>
     timer_tokens (timer_start ok2 (timer_stop t)) = 1 \<and>
     timer_tokens (on_timedout_leave ok1 (timer_start ok2 (timer_stop t))) = 1"
  using timer_run_inv [OF assms(1)] assms(2,3) by (auto simp: timer_defs split: if_splits)

definition timer_mid_run :: timer_task where
  "timer_mid_run = on_timedout_enter (timer_start False (timer_init 100 new_timer))"

theorem timer_restart_during_callback_witness:
  "\<not> tt_running (on_timedout_leave True (timer_stop timer_mid_run))"
proof -
  have "timer_run timer_mid_run" unfolding timer_mid_run_def
    by (intro tr_enter tr_start tr_init) (simp add: timer_defs timer_init_def new_timer_def)
  moreover have "0 < tt_in_run timer_mid_run" "\<not> tt_destroyed timer_mid_run"
    by (simp_all add: timer_mid_run_def timer_defs timer_init_def new_timer_def)
  ultimately show ?thesis using timer_restart_during_callback by blast
qed

end
