(* ===== verification/Node_Timers.thy ===== *)
theory Node_Timers
  imports Timer Node "HOL-Library.Signed_Division"
begin

text \<open>
  The timers of a node (\<open>src/cpp/node.cc\<close>: \<open>heartbeat_timeout\<close>, \<open>NodeTimer\<close> and its three subclasses) and the timeout of the cache of requests.
  The generator \<open>butil::fast_rand_in\<close> is an argument. Over them: when a follower that hears nothing from its leader starts an election.
\<close>

section \<open>Model\<close>

text \<open>Division truncates towards zero, as in C; the factor is a flag without a check.\<close>

definition heartbeat_timeout :: "int \<Rightarrow> int \<Rightarrow> int res" where
  "heartbeat_timeout factor election_timeout = (if factor = 0 then Inl Division_by_zero else Inr (max (election_timeout sdiv factor) 10))"

definition random_timeout :: "(int \<Rightarrow> int \<Rightarrow> int) \<Rightarrow> int \<Rightarrow> int" where
  "random_timeout fast_rand_in timeout_ms = (let delta = min timeout_ms 1000 in fast_rand_in timeout_ms (timeout_ms + delta))"

text \<open>\<open>adjust_timeout_ms\<close>: the election and vote timers draw their period, the step-down timer has a fixed one.\<close>

fun adjust_timeout_ms :: "(int \<Rightarrow> int \<Rightarrow> int) \<Rightarrow> node_timer \<Rightarrow> int \<Rightarrow> int" where
  "adjust_timeout_ms rand Election_timer t = random_timeout rand t"
| "adjust_timeout_ms rand Vote_timer t = random_timeout rand t"
| "adjust_timeout_ms rand Stepdown_timer t = t"

text \<open>A \<open>NodeTimer\<close> holds one reference of the node from \<open>init\<close> to \<open>on_destroy\<close>; the first component is the change of the count.\<close>

record node_timer_task =
  nt_task :: timer_task
  nt_node :: bool

definition node_timer_init :: "int \<Rightarrow> node_timer_task \<Rightarrow> int \<times> node_timer_task" where
  "node_timer_init timeout_ms t = (1, t\<lparr>nt_task := timer_init timeout_ms (nt_task t), nt_node := True\<rparr>)"

definition node_timer_on_destroy :: "node_timer_task \<Rightarrow> int \<times> node_timer_task" where
  "node_timer_on_destroy t = (if nt_node t then (-1, t\<lparr>nt_node := False\<rparr>) else (0, t))"

text \<open>The timer of the cache: the part that would drop the waiting requests is commented out, so only the reference is released.\<close>

definition handle_append_entries_cache_timedout :: "int64 \<Rightarrow> ('c, 'r, 'w) node \<Rightarrow> int \<times> ('c, 'r, 'w) node" where
  "handle_append_entries_cache_timedout cache_version nd = (-1, nd)"

section \<open>The election timer of a follower\<close>

text \<open>
  The times at which the timer runs: it is scheduled again when its callback returned, with a period drawn anew, and its callback may run late.
\<close>

fun tick_times :: "node_timer \<Rightarrow> int \<Rightarrow> ((int \<Rightarrow> int \<Rightarrow> int) \<times> int) list \<Rightarrow> int \<Rightarrow> int list" where
  "tick_times tm timeout_ms [] now = []"
| "tick_times tm timeout_ms ((rand, late) # rs) now =
     (let due = now + adjust_timeout_ms rand tm timeout_ms + late in due # tick_times tm timeout_ms rs due)"

text \<open>\<open>fast_rand_in\<close> returns a number of the closed interval.\<close>

definition in_interval :: "(int \<Rightarrow> int \<Rightarrow> int) \<Rightarrow> bool" where
  "in_interval rand \<longleftrightarrow> (\<forall>a b. a \<le> b \<longrightarrow> a \<le> rand a b \<and> rand a b \<le> b)"

lemma random_timeout_bounds:
  assumes "in_interval rand" "0 \<le> t"
  shows "t \<le> random_timeout rand t" "random_timeout rand t \<le> t + min t 1000"
proof -
  have "t \<le> t + min t 1000" using assms(2) by simp
  from assms(1) [unfolded in_interval_def, rule_format, OF this]
  show "t \<le> random_timeout rand t" "random_timeout rand t \<le> t + min t 1000" by (simp_all add: random_timeout_def Let_def)
qed

lemma length_tick_times [simp]: "length (tick_times tm t rs now) = length rs"
  by (induction tm t rs now rule: tick_times.induct) (simp_all add: Let_def)

lemma first_at_least:
  fixes xs :: "int list"
  assumes "x \<in> set xs" "m \<le> x"
  shows "\<exists>k < length xs. m \<le> xs ! k \<and> (\<forall>j < k. xs ! j < m)"
proof -
  let ?P = "\<lambda>k. k < length xs \<and> m \<le> xs ! k"
  have "\<exists>k. ?P k" using assms by (metis in_set_conv_nth)
  then obtain k where k: "?P k" "\<forall>j < k. \<not> ?P j" using exists_least_iff [of ?P] by blast
  then have "\<forall>j < k. xs ! j < m" by auto
  with k(1) show ?thesis by blast
qed

text \<open>From one run of the timer to the next passes a period and the delay of the callback; the runs go on past every time.\<close>

lemma tick_times_step:
  assumes "\<forall>(rand, late) \<in> set rs. in_interval rand \<and> 0 \<le> late \<and> late \<le> d" "k < length rs" "0 \<le> t" "tm \<noteq> Stepdown_timer"
  shows "tick_times tm t rs s ! k - (if k = 0 then s else tick_times tm t rs s ! (k - 1)) \<in> {t..t + min t 1000 + d}"
  using assms(1,2)
proof (induction rs arbitrary: s k)
  case (Cons r rs)
  obtain rand late where r: "r = (rand, late)" by force
  have rand: "in_interval rand" "0 \<le> late" "late \<le> d" using Cons.prems(1) r by auto
  have adj: "adjust_timeout_ms rand tm t = random_timeout rand t" using assms(4) by (cases tm) simp_all
  note b = random_timeout_bounds [OF rand(1) assms(3)]
  show ?case
  proof (cases k)
    case 0
    then show ?thesis using b rand(2,3) by (simp add: r Let_def adj)
  next
    case (Suc j)
    let ?due = "s + random_timeout rand t + late"
    have "j < length rs" using Cons.prems(2) Suc by simp
    from Cons.IH [OF _ this, of ?due] Cons.prems(1)
    have "tick_times tm t rs ?due ! j - (if j = 0 then ?due else tick_times tm t rs ?due ! (j - 1)) \<in> {t..t + min t 1000 + d}" by simp
    then show ?thesis by (cases j) (simp_all add: Suc r Let_def adj)
  qed
qed simp

lemma tick_times_progress:
  assumes "\<forall>(rand, late) \<in> set rs. in_interval rand \<and> 0 \<le> late \<and> late \<le> d" "0 \<le> t" "tm \<noteq> Stepdown_timer" "k < length rs"
  shows "s + int (Suc k) * t \<le> tick_times tm t rs s ! k"
  using assms(4)
proof (induction k)
  case 0
  then show ?case using tick_times_step [OF assms(1) 0 assms(2,3), of s] by simp
next
  case (Suc k)
  then have "s + int (Suc k) * t \<le> tick_times tm t rs s ! k" by simp
  moreover have "t \<le> tick_times tm t rs s ! Suc k - tick_times tm t rs s ! k"
    using tick_times_step [OF assms(1) Suc.prems assms(2,3), of s] by simp
  ultimately show ?case by (simp add: algebra_simps)
qed

section \<open>Detecting a lost leader\<close>

lemma handle_election_timeout_quiet:
  "\<not> nd_vote_triggered nd \<Longrightarrow> now - nd_last_leader_timestamp nd < ne_election_timeout_ms ne \<Longrightarrow> handle_election_timeout ne now nd = Inr ([], nd)"
  by (simp add: handle_election_timeout_def)

lemma handle_election_timeout_asks:
  assumes "nd_state nd = STATE_FOLLOWER" "ne_election_timeout_ms ne \<le> now - nd_last_leader_timestamp nd" "peer_port (nd_server_id nd) = 8000"
    "lm_last_log_id (nd_log_manager nd) = Inr last_id" "nd_current_term nd < int32_max"
  shows "\<exists>evs nd'. handle_election_timeout ne now nd = Inr (evs, nd') \<and> is_empty_peer (nd_leader_id nd') \<and>
    (\<forall>p. (\<exists>q. Send_prevote p (nd_current_term nd) q \<in> set evs \<and> vr_term q = nd_current_term nd + 1) \<longleftrightarrow>
       p |\<in>| nd_peer_list nd \<and> p \<noteq> nd_server_id nd)"
  using assms
  by (auto simp: handle_election_timeout_def prevote_def reset_leader_id_def is_empty_peer_def empty_peer_def)

text \<open>
  C33. Detecting a lost leader: the election timer of a follower on port 8000 was started or ran last at \<open>s\<close>, and the last message of the leader came at
  \<open>nd_last_leader_timestamp\<close>. If none follows, then the runs of the timer change nothing until one asks all other peers for a pre-vote in the next
  term and forgets the leader. This happens no earlier than the election timeout after that message and at most two seconds and the delay of a
  callback later, since the period of the timer is drawn from one to two seconds whatever the election timeout is.
\<close>

theorem lost_leader_detected:
  assumes "nd_state nd = STATE_FOLLOWER" "\<not> nd_vote_triggered nd" "peer_port (nd_server_id nd) = 8000"
    and "lm_last_log_id (nd_log_manager nd) = Inr last_id" "nd_current_term nd < int32_max"
    and "\<forall>(rand, late) \<in> set rs. in_interval rand \<and> 0 \<le> late \<and> late \<le> d"
    and "s < nd_last_leader_timestamp nd + ne_election_timeout_ms ne"
    and "nd_last_leader_timestamp nd + ne_election_timeout_ms ne \<le> s + int (length rs) * 1000"
  shows "\<exists>k < length rs. let T = tick_times Election_timer 1000 rs s; waited = T ! k - nd_last_leader_timestamp nd in
    ne_election_timeout_ms ne \<le> waited \<and> waited < ne_election_timeout_ms ne + 2000 + d \<and>
    (\<forall>j < k. handle_election_timeout ne (T ! j) nd = Inr ([], nd)) \<and>
    (\<exists>evs nd'. handle_election_timeout ne (T ! k) nd = Inr (evs, nd') \<and> is_empty_peer (nd_leader_id nd') \<and>
      (\<forall>p. (\<exists>q. Send_prevote p (nd_current_term nd) q \<in> set evs \<and> vr_term q = nd_current_term nd + 1) \<longleftrightarrow>
         p |\<in>| nd_peer_list nd \<and> p \<noteq> nd_server_id nd))"
proof -
  let ?T = "tick_times Election_timer 1000 rs s" and ?L = "nd_last_leader_timestamp nd" and ?E = "ne_election_timeout_ms ne"
  have ne: "rs \<noteq> []" using assms(7,8) by auto
  then have last: "length rs - 1 < length rs" by simp
  have "s + int (length rs) * 1000 \<le> ?T ! (length rs - 1)"
    using tick_times_progress [OF assms(6) _ _ last, of 1000 Election_timer s] ne by simp
  then have "?L + ?E \<le> ?T ! (length rs - 1)" using assms(8) by linarith
  moreover have "?T ! (length rs - 1) \<in> set ?T" using last by simp
  ultimately obtain k where k: "k < length rs" "?L + ?E \<le> ?T ! k" and before: "\<forall>j < k. ?T ! j < ?L + ?E"
    using first_at_least [of "?T ! (length rs - 1)" ?T "?L + ?E"] by auto
  have "(if k = 0 then s else ?T ! (k - 1)) < ?L + ?E" using before assms(7) by (cases k) simp_all
  moreover have "?T ! k - (if k = 0 then s else ?T ! (k - 1)) \<le> 2000 + d"
    using tick_times_step [OF assms(6) k(1), of 1000 Election_timer s] by simp
  ultimately have upper: "?T ! k - ?L < ?E + 2000 + d" by linarith
  have quiet: "\<forall>j < k. handle_election_timeout ne (?T ! j) nd = Inr ([], nd)"
    using before assms(2) by (auto intro!: handle_election_timeout_quiet)
  have "?E \<le> ?T ! k - ?L" using k(2) by linarith
  from handle_election_timeout_asks [OF assms(1) this assms(3-5)] this upper quiet k(1) show ?thesis
    unfolding Let_def by (intro exI [of _ k] conjI) simp_all
qed

text \<open>
  A leader that sends a heartbeat every \<open>heartbeat_timeout\<close> keeps a follower quiet as long as a message is late by less than the difference
  to the election timeout, which is positive from 11 milliseconds on.
\<close>

theorem heartbeat_keeps_follower:
  assumes "heartbeat_timeout factor (ne_election_timeout_ms ne) = Inr h" "1 < factor" "10 < ne_election_timeout_ms ne"
    and "now \<le> nd_last_leader_timestamp nd + h + delay" "\<not> nd_vote_triggered nd" "delay < ne_election_timeout_ms ne - h"
  shows "0 < ne_election_timeout_ms ne - h \<and> handle_election_timeout ne now nd = Inr ([], nd)"
proof -
  let ?E = "ne_election_timeout_ms ne"
  have "?E sdiv factor = ?E div factor" using assms(2,3) by (simp add: signed_divide_int_def sgn_if abs_if)
  moreover have "?E div factor < ?E" using assms(2,3) by (simp add: int_div_less_self)
  ultimately have "h < ?E" using assms(1,3) by (simp add: heartbeat_timeout_def split: if_splits)
  moreover have "handle_election_timeout ne now nd = Inr ([], nd)"
    by (rule handle_election_timeout_quiet [OF assms(5)]) (use assms(4,6) in linarith)
  ultimately show ?thesis by simp
qed

text \<open>
  Between \<open>init\<close> and any number of calls of \<open>on_destroy\<close>, a timer of the node holds one reference and gives it back once.
\<close>

theorem timer_reference_balanced:
  assumes "node_timer_init timeout_ms t = (a, t1)" "0 < n"
  shows "a + (\<Sum>i < n. fst (node_timer_on_destroy (((snd \<circ> node_timer_on_destroy) ^^ i) t1))) = 0"
proof -
  have "nt_node t1" "a = 1" using assms(1) by (auto simp: node_timer_init_def)
  have later: "\<not> nt_node (((snd \<circ> node_timer_on_destroy) ^^ Suc i) t1)" for i
    by (induction i) (auto simp: node_timer_on_destroy_def)
  obtain m where n: "n = Suc m" using assms(2) by (cases n) auto
  have "(\<Sum>i < m. fst (node_timer_on_destroy (((snd \<circ> node_timer_on_destroy) ^^ Suc i) t1))) = 0"
    using later by (simp add: node_timer_on_destroy_def)
  then show ?thesis
    unfolding n sum.lessThan_Suc_shift using \<open>nt_node t1\<close> \<open>a = 1\<close> by (simp add: node_timer_on_destroy_def)
qed

section \<open>Examples\<close>

theorem lost_leader_detected_witness:
  "\<forall>ne. \<exists>k < 6. let T = tick_times Election_timer 1000 (replicate 6 (\<lambda>a b. a, 3)) 0 in
    T = [1003, 2006, 3009, 4012, 5015, 6018] \<and> 5000 \<le> T ! k \<and> T ! k < 7003 \<and>
    (\<exists>evs nd'. handle_election_timeout (ne\<lparr>ne_election_timeout_ms := 5000\<rparr>) (T ! k) (demo_node 1) = Inr (evs, nd') \<and>
      (\<exists>q. Send_prevote (peer_n 2) 1 q \<in> set evs \<and> vr_term q = 2))"
proof
  fix ne :: node_env
  let ?rs = "replicate 6 (\<lambda>a b :: int. a :: int, 3 :: int)" and ?ne = "ne\<lparr>ne_election_timeout_ms := 5000\<rparr>"
  have f: "nd_state (demo_node 1) = STATE_FOLLOWER" "\<not> nd_vote_triggered (demo_node 1)" "peer_port (nd_server_id (demo_node 1)) = 8000"
    "nd_current_term (demo_node 1) < int32_max" "nd_last_leader_timestamp (demo_node 1) = 0"
    by (simp_all add: demo_node_def peer_n_def int32_max_def)
  have l: "lm_last_log_id (nd_log_manager (demo_node 1)) = Inr (LogId 0 0)"
    by (simp add: demo_node_def lm_last_log_id_def new_log_manager_def new_log_id_def)
  have p: "peer_n 2 |\<in>| nd_peer_list (demo_node 1)" "peer_n 2 \<noteq> nd_server_id (demo_node 1)" "nd_current_term (demo_node 1) = 1"
    by (simp_all add: demo_node_def conf3_def peer_n_def)
  have T: "tick_times Election_timer 1000 ?rs 0 = [1003, 2006, 3009, 4012, 5015, 6018]"
    by (simp add: numeral_eq_Suc random_timeout_def Let_def)
  have rs: "\<forall>(rand, late) \<in> set ?rs. in_interval rand \<and> 0 \<le> late \<and> late \<le> 3" by (simp add: in_interval_def)
  have t: "0 < nd_last_leader_timestamp (demo_node 1) + ne_election_timeout_ms ?ne"
    "nd_last_leader_timestamp (demo_node 1) + ne_election_timeout_ms ?ne \<le> 0 + int (length ?rs) * 1000" by (simp_all add: f(5) del: One_nat_def)
  from lost_leader_detected [OF f(1-3) l f(4) rs t] p(1,2)
  show "\<exists>k < 6. let T = tick_times Election_timer 1000 ?rs 0 in
    T = [1003, 2006, 3009, 4012, 5015, 6018] \<and> 5000 \<le> T ! k \<and> T ! k < 7003 \<and>
    (\<exists>evs nd'. handle_election_timeout ?ne (T ! k) (demo_node 1) = Inr (evs, nd') \<and>
      (\<exists>q. Send_prevote (peer_n 2) 1 q \<in> set evs \<and> vr_term q = 2))"
    unfolding T Let_def f(5) p(3) by (auto simp del: One_nat_def)
qed

theorem heartbeat_keeps_follower_witness:
  "\<forall>ne. heartbeat_timeout 10 5000 = Inr 500 \<and> handle_election_timeout (ne\<lparr>ne_election_timeout_ms := 5000\<rparr>) 4999 (demo_node 1) = Inr ([], demo_node 1)"
proof
  fix ne :: node_env
  have h: "heartbeat_timeout 10 5000 = Inr 500" by (simp add: heartbeat_timeout_def signed_divide_int_def)
  from heartbeat_keeps_follower [of 10 "ne\<lparr>ne_election_timeout_ms := 5000\<rparr>" 500 4999 "demo_node 1" 4499] h
  show "heartbeat_timeout 10 5000 = Inr 500 \<and> handle_election_timeout (ne\<lparr>ne_election_timeout_ms := 5000\<rparr>) 4999 (demo_node 1) = Inr ([], demo_node 1)"
    by (simp add: demo_node_def)
qed

end
