(* ===== verification/Sample_Client.thy ===== *)
theory Sample_Client
  imports Sample_Machine "HOL-Library.Signed_Division" "HOL-Library.Sublist"
begin

text \<open>
  The load generator \<open>src/examples/raft_client.cc\<close>: the writes that its senders issue, and the loop of \<open>main\<close> that samples the throughput and the
  latency once per second until it has enough samples. What the recorder of \<open>bvar\<close> returns is an argument.
\<close>

section \<open>Model\<close>

text \<open>
  One request of \<open>sender\<close>: \<open>offset\<close> is the result of \<open>fast_rand_less_than(FLAGS_dependency_percentage)\<close>, the attachment consists of
  \<open>FLAGS_request_size\<close> copies of a capital letter drawn with \<open>rand()\<close>. The size of the request is not set.
\<close>

definition client_request_of :: "nat \<Rightarrow> nat \<Rightarrow> nat \<Rightarrow> sm_request \<times> byte list" where
  "client_request_of request_size offset r =
     (\<lparr>sq_offset = int offset, sq_size = None\<rparr>, replicate request_size (word_of_nat (r mod 26 + 65)))"

text \<open>A sample: the latency that the condition reads, then the throughput and the latency that are recorded.\<close>

record sample =
  sa_check :: int64
  sa_qps :: int64
  sa_latency :: int64

record client =
  cl_qps :: "int64 list"
  cl_latency :: "int64 list"
  cl_fail_times :: int64
  cl_num :: int64

definition new_client :: client where
  "new_client = \<lparr>cl_qps = [], cl_latency = [], cl_fail_times = 0, cl_num = 0\<rparr>"

datatype client_exit = Report int64 int64 | Give_up

text \<open>The loop over the middle third: the two sums and the number of summands.\<close>

function middle_loop :: "int64 list \<Rightarrow> int64 list \<Rightarrow> nat \<Rightarrow> nat \<Rightarrow> int64 \<times> int64 \<times> int64 \<Rightarrow> (int64 \<times> int64 \<times> int64) res" where
  "middle_loop qs ls i hi (qps, latency, k) =
     (if i < hi
      then (case at_index qs (int i) of
              Inl f \<Rightarrow> Inl f
            | Inr q \<Rightarrow>
                (case at_index ls (int i) of
                   Inl f \<Rightarrow> Inl f
                 | Inr l \<Rightarrow> middle_loop qs ls (Suc i) hi (qps + q, latency + l, k + 1)))
      else Inr (qps, latency, k))"
  by pat_completeness auto
termination by (relation "measure (\<lambda>(_, _, i, hi, _). hi - i)") auto

declare middle_loop.simps [simp del]

definition client_report :: "client \<Rightarrow> client_exit res" where
  "client_report c =
     (let n = length (cl_qps c)
      in case middle_loop (cl_qps c) (cl_latency c) (n div 3) (n div 3 * 2) (0, 0, 0) of
           Inl f \<Rightarrow> Inl f
         | Inr (qps, latency, k) \<Rightarrow>
             if k = 0 then Inl Division_by_zero else Inr (Report (qps sdiv k) (latency sdiv k)))"

text \<open>One turn of the loop: \<open>Some\<close> when \<open>main\<close> returns.\<close>

definition client_turn :: "client \<Rightarrow> sample \<Rightarrow> (client_exit option \<times> client) res" where
  "client_turn c s =
     (if sa_check s < 490000
      then (let c1 = \<lparr>cl_qps = sort (cl_qps c @ [sa_qps s]), cl_latency = sort (cl_latency c @ [sa_latency s]),
                      cl_fail_times = 0, cl_num = cl_num c + 1\<rparr>
            in if cl_num c1 > 30
               then (case client_report c1 of Inl f \<Rightarrow> Inl f | Inr e \<Rightarrow> Inr (Some e, c1))
               else Inr (None, c1))
      else (let c1 = c\<lparr>cl_fail_times := cl_fail_times c + 1\<rparr>
            in Inr (if cl_fail_times c1 > 5 then Some Give_up else None, c1)))"

text \<open>The loop over the samples until it returns; \<open>None\<close> when the samples ended first, as when the process is asked to quit.\<close>

fun client_loop :: "client \<Rightarrow> sample list \<Rightarrow> client_exit option res" where
  "client_loop c [] = Inr None"
| "client_loop c (s # ss) =
     (case client_turn c s of
        Inl f \<Rightarrow> Inl f
      | Inr (Some e, c1) \<Rightarrow> Inr (Some e)
      | Inr (None, c1) \<Rightarrow> client_loop c1 ss)"

section \<open>The middle third\<close>

lemma middle_loop_sums:
  assumes "length qs = length ls" "e \<le> length qs" "i \<le> e"
  shows "middle_loop qs ls i e (a, b, t) =
    Inr (a + sum_list (take (e - i) (drop i qs)), b + sum_list (take (e - i) (drop i ls)), t + int (e - i))"
  using assms(3)
proof (induction "e - i" arbitrary: i a b t)
  case (Suc n)
  then have i: "i < e" "i < length qs" "i < length ls" using assms(1,2) by auto
  have d: "take (e - i) (drop i xs) = xs ! i # take (e - Suc i) (drop (Suc i) xs)" if "i < length xs" for xs :: "int list"
    using that i(1) Cons_nth_drop_Suc [of i xs] by (metis Suc_diff_Suc take_Suc_Cons)
  have n: "n = e - Suc i" "Suc i \<le> e" using Suc(2) i(1) by linarith+
  have "middle_loop qs ls i e (a, b, t) = middle_loop qs ls (Suc i) e (a + qs ! i, b + ls ! i, t + 1)"
    using i by (subst middle_loop.simps) (simp add: at_index_def)
  then show ?case
    using Suc.hyps(1) [OF n, of "a + qs ! i" "b + ls ! i" "t + 1"] i(1) unfolding d [OF i(2)] d [OF i(3)] by (simp add: of_nat_diff)
qed (subst middle_loop.simps, simp)

text \<open>The average of a stretch of a sorted list lies between its first and its last element.\<close>

lemma sum_list_bounds:
  fixes xs :: "int list"
  shows "\<forall>x \<in> set xs. a \<le> x \<Longrightarrow> int (length xs) * a \<le> sum_list xs" "\<forall>x \<in> set xs. x \<le> b \<Longrightarrow> sum_list xs \<le> int (length xs) * b"
  by (induction xs) (auto simp: algebra_simps)

lemma div_between:
  fixes n :: int
  assumes "0 < n" "n * a \<le> s" "s \<le> n * b"
  shows "a \<le> s div n" "s div n \<le> b"
  using zdiv_mono1 [OF assms(2,1)] zdiv_mono1 [OF assms(3,1)] assms(1) by simp_all

lemma sdiv_between:
  fixes n :: int
  assumes "0 < n" "n * a \<le> s" "s \<le> n * b"
  shows "a \<le> s sdiv n \<and> s sdiv n \<le> b"
proof (cases "0 \<le> s")
  case True
  then show ?thesis using assms(1) div_between [OF assms] by (cases "s = 0") (simp_all add: signed_divide_int_def)
next
  case False
  have "- b \<le> (- s) div n" "(- s) div n \<le> - a" using div_between [of n "- b" "- s" "- a"] assms by simp_all
  then show ?thesis using False assms(1) by (simp add: signed_divide_int_def sgn_if)
qed

lemma sorted_middle_average:
  fixes xs :: "int list"
  assumes "sorted xs" "a < e" "e \<le> length xs"
  shows "xs ! a \<le> sum_list (take (e - a) (drop a xs)) sdiv int (e - a) \<and> sum_list (take (e - a) (drop a xs)) sdiv int (e - a) \<le> xs ! (e - 1)"
proof -
  let ?m = "take (e - a) (drop a xs)"
  have m: "length ?m = e - a" "?m ! i = xs ! (a + i)" if "i < e - a" for i using assms(2,3) that by simp_all
  have len: "length ?m = e - a" using assms(2,3) by simp
  have "\<forall>x \<in> set ?m. xs ! a \<le> x \<and> x \<le> xs ! (e - 1)"
  proof
    fix x
    assume "x \<in> set ?m"
    then obtain i where i: "i < e - a" "x = xs ! (a + i)" using len m(2) by (metis in_set_conv_nth)
    then show "xs ! a \<le> x \<and> x \<le> xs ! (e - 1)" using assms by (auto intro!: sorted_nth_mono)
  qed
  then have "int (e - a) * xs ! a \<le> sum_list ?m" "sum_list ?m \<le> int (e - a) * xs ! (e - 1)"
    using sum_list_bounds [of ?m] len by auto
  then show ?thesis using sdiv_between [of "int (e - a)"] assms(2) by simp
qed

section \<open>The loop ends\<close>

abbreviation good_sample :: "sample \<Rightarrow> bool" where
  "good_sample s \<equiv> sa_check s < 490000"

text \<open>What the client knows after the good samples \<open>gs\<close>.\<close>

definition client_knows :: "sample list \<Rightarrow> client \<Rightarrow> bool" where
  "client_knows gs c \<longleftrightarrow> cl_qps c = sort (map sa_qps gs) \<and> cl_latency c = sort (map sa_latency gs) \<and> cl_num c = int (length gs)"

lemma sort_snoc: "sort (sort xs @ [x]) = sort (xs @ [x :: int])"
  by (rule properties_for_sort) simp_all

lemma client_knows_new: "client_knows [] new_client"
  by (simp add: client_knows_def new_client_def)

lemma client_knows_good:
  "client_knows gs c \<Longrightarrow> client_knows (gs @ [s]) \<lparr>cl_qps = sort (cl_qps c @ [sa_qps s]), cl_latency = sort (cl_latency c @ [sa_latency s]),
     cl_fail_times = 0, cl_num = cl_num c + 1\<rparr>"
  by (simp add: client_knows_def sort_snoc)

abbreviation middle_average :: "int64 list \<Rightarrow> int64" where
  "middle_average xs \<equiv> sum_list (take 10 (drop 10 (sort xs))) sdiv 10"

lemma client_report_31:
  assumes "client_knows gs c" "length gs = 31"
  shows "client_report c = Inr (Report (middle_average (map sa_qps gs)) (middle_average (map sa_latency gs)))"
  using assms middle_loop_sums [of "cl_qps c" "cl_latency c" 20 10 0 0 0]
  by (simp add: client_report_def client_knows_def)

text \<open>Every turn uses up one of the turns that are left: five more failures are allowed before each good sample.\<close>

definition turns_left :: "client \<Rightarrow> int" where
  "turns_left c = 6 * (31 - cl_num c) - cl_fail_times c"

lemma client_turn_cases:
  assumes "client_knows gs c" "length gs \<le> 30" "0 \<le> cl_fail_times c" "cl_fail_times c \<le> 5"
  obtains (report) "good_sample s" "length gs = 30"
      "\<exists>c1. client_turn c s = Inr (Some (Report (middle_average (map sa_qps (gs @ [s]))) (middle_average (map sa_latency (gs @ [s])))), c1)"
    | (good) c1 where "good_sample s" "length gs < 30" "client_turn c s = Inr (None, c1)" "client_knows (gs @ [s]) c1" "cl_fail_times c1 = 0"
    | (give_up) "\<not> good_sample s" "\<exists>c1. client_turn c s = Inr (Some Give_up, c1)" "cl_fail_times c = 5"
    | (bad) c1 where "\<not> good_sample s" "client_turn c s = Inr (None, c1)" "client_knows gs c1" "cl_fail_times c1 = cl_fail_times c + 1" "cl_fail_times c < 5"
proof -
  have num: "cl_num c = int (length gs)" using assms(1) by (simp add: client_knows_def)
  note k = client_knows_good [OF assms(1), of s]
  consider "good_sample s" "length gs = 30" | "good_sample s" "length gs < 30" | "\<not> good_sample s" "cl_fail_times c = 5"
    | "\<not> good_sample s" "cl_fail_times c < 5" using assms(2,4) by linarith
  then show ?thesis
  proof cases
    case 1
    then have "length (gs @ [s]) = 31" by simp
    from client_report_31 [OF k this] 1 num show ?thesis by (intro report) (simp_all add: client_turn_def)
  next
    case 2
    then show ?thesis using num k by (intro good) (auto simp: client_turn_def)
  next
    case 3
    then show ?thesis by (intro give_up) (simp_all add: client_turn_def)
  next
    case 4
    then show ?thesis using assms(1) by (intro bad [of "c\<lparr>cl_fail_times := cl_fail_times c + 1\<rparr>"]) (simp_all add: client_turn_def client_knows_def)
  qed
qed

text \<open>The report is that of the first 31 good samples.\<close>

lemma client_loop_result:
  assumes "client_knows gs c" "length gs \<le> 30" "0 \<le> cl_fail_times c" "cl_fail_times c \<le> 5" "turns_left c \<le> int (length ss)"
  shows "\<exists>e. client_loop c ss = Inr (Some e) \<and> (\<forall>q l. e = Report q l \<longrightarrow>
    (\<exists>hs. length hs = 31 \<and> prefix hs (gs @ filter good_sample ss) \<and>
       q = middle_average (map sa_qps hs) \<and> l = middle_average (map sa_latency hs)))"
  using assms
proof (induction ss arbitrary: gs c)
  case Nil
  then show ?case by (simp add: turns_left_def client_knows_def)
next
  case (Cons s ss)
  show ?case
  proof (rule client_turn_cases [OF Cons.prems(1-4), of s])
    assume "good_sample s" "length gs = 30"
      "\<exists>c1. client_turn c s = Inr (Some (Report (middle_average (map sa_qps (gs @ [s]))) (middle_average (map sa_latency (gs @ [s])))), c1)"
    then show ?thesis by (auto intro!: exI [of _ "gs @ [s]"])
  next
    fix c1
    assume g: "good_sample s" "length gs < 30" "client_turn c s = Inr (None, c1)" "client_knows (gs @ [s]) c1" "cl_fail_times c1 = 0"
    then have "turns_left c1 \<le> int (length ss)"
      using Cons.prems(1,4,5) by (simp add: turns_left_def client_knows_def)
    from Cons.IH [OF g(4) _ _ _ this] g show ?thesis by simp
  next
    assume "\<not> good_sample s" "\<exists>c1. client_turn c s = Inr (Some Give_up, c1)" "cl_fail_times c = 5"
    then show ?thesis by auto
  next
    fix c1
    assume b: "\<not> good_sample s" "client_turn c s = Inr (None, c1)" "client_knows gs c1" "cl_fail_times c1 = cl_fail_times c + 1" "cl_fail_times c < 5"
    then have "turns_left c1 \<le> int (length ss)"
      using Cons.prems(1,5) by (simp add: turns_left_def client_knows_def)
    from Cons.IH [OF b(3) Cons.prems(2) _ _ this] b Cons.prems(3) show ?thesis by simp
  qed
qed

text \<open>
  The measurement ends: within 186 samples the client has either seen 31 good ones or six bad ones in a row. In the first case it reports, without a
  division by zero or an access out of range, the averages of the middle third of the first 31 good samples, which lie between the eleventh and the
  twentieth of the sorted values.
\<close>

theorem client_measurement_ends:
  assumes "186 \<le> length ss"
  shows "\<exists>e. client_loop new_client ss = Inr (Some e) \<and> (\<forall>q l. e = Report q l \<longrightarrow>
    (\<exists>hs. length hs = 31 \<and> prefix hs (filter good_sample ss) \<and>
       sort (map sa_qps hs) ! 10 \<le> q \<and> q \<le> sort (map sa_qps hs) ! 19 \<and>
       sort (map sa_latency hs) ! 10 \<le> l \<and> l \<le> sort (map sa_latency hs) ! 19))"
proof -
  have new: "cl_fail_times new_client = 0" "cl_num new_client = 0" by (simp_all add: new_client_def)
  then have "turns_left new_client \<le> int (length ss)" using assms by (simp add: turns_left_def)
  from client_loop_result [OF client_knows_new _ _ _ this] new
  obtain e where e: "client_loop new_client ss = Inr (Some e)" and r: "\<forall>q l. e = Report q l \<longrightarrow> (\<exists>hs. length hs = 31 \<and>
      prefix hs (filter good_sample ss) \<and> q = middle_average (map sa_qps hs) \<and> l = middle_average (map sa_latency hs))" by auto
  have m: "sort xs ! 10 \<le> middle_average xs \<and> middle_average xs \<le> sort xs ! 19" if "length xs = 31" for xs
    using sorted_middle_average [of "sort xs" 10 20] that by simp
  show ?thesis
  proof (intro exI [of _ e] conjI allI impI)
    fix q l
    assume "e = Report q l"
    with r obtain hs where "length hs = 31" "prefix hs (filter good_sample ss)" "q = middle_average (map sa_qps hs)"
      "l = middle_average (map sa_latency hs)" by blast
    with m [of "map sa_qps hs"] m [of "map sa_latency hs"]
    show "\<exists>hs. length hs = 31 \<and> prefix hs (filter good_sample ss) \<and> sort (map sa_qps hs) ! 10 \<le> q \<and> q \<le> sort (map sa_qps hs) ! 19 \<and>
       sort (map sa_latency hs) ! 10 \<le> l \<and> l \<le> sort (map sa_latency hs) ! 19" by auto
  qed (rule e)
qed

section \<open>The writes of the client\<close>

text \<open>
  The writes that the senders can issue keep apart, so that replicas of the file may reorder those with different offsets, exactly when a request
  has at most one byte or all requests have the same offset.
\<close>

theorem client_writes_keep_apart:
  "(\<forall>a b r r'. a < percentage \<longrightarrow> b < percentage \<longrightarrow> a \<noteq> b \<longrightarrow>
      (case (client_request_of n a r, client_request_of n b r') of
         ((p, x), (q, y)) \<Rightarrow> \<not> overlap (sq_offset p, x) (sq_offset q, y))) \<longleftrightarrow> n \<le> 1 \<or> percentage \<le> 1"
  (is "?apart \<longleftrightarrow> _")
proof
  assume "n \<le> 1 \<or> percentage \<le> 1"
  then show ?apart by (auto simp: client_request_of_def overlap_def)
next
  assume a: ?apart
  show "n \<le> 1 \<or> percentage \<le> 1"
  proof (rule ccontr)
    assume "\<not> (n \<le> 1 \<or> percentage \<le> 1)"
    then have "0 < percentage" "1 < percentage" "1 < n" by auto
    then show False using a [rule_format, of 0 1 0 0] by (simp add: client_request_of_def overlap_def)
  qed
qed

section \<open>Example\<close>

text \<open>Five bad samples before each good one use up all 186 turns.\<close>

definition demo_samples :: "sample list" where
  "demo_samples = concat (map (\<lambda>i. replicate 5 \<lparr>sa_check = 500000, sa_qps = 0, sa_latency = 0\<rparr> @
     [\<lparr>sa_check = 1000, sa_qps = int i, sa_latency = 1000\<rparr>]) [0..<31])"

theorem client_measurement_ends_witness:
  "client_loop new_client demo_samples = Inr (Some (Report 14 1000)) \<and> 186 \<le> length demo_samples \<and>
   (\<exists>hs :: sample list. length hs = 31 \<and> sort (map sa_qps hs) ! 10 \<le> 14 \<and> 14 \<le> sort (map sa_qps hs) ! 19)"
proof -
  have l: "186 \<le> length demo_samples" by (simp add: demo_samples_def length_concat comp_def sum_list_triv)
  have e: "client_loop new_client demo_samples = Inr (Some (Report 14 1000))" by code_simp
  from client_measurement_ends [OF l] e
  have "\<exists>hs :: sample list. length hs = 31 \<and> sort (map sa_qps hs) ! 10 \<le> 14 \<and> 14 \<le> sort (map sa_qps hs) ! 19"
    by auto
  with e l show ?thesis by blast
qed

end
