(* ===== verification/Counter.thy ===== *)
theory Counter
  imports Peer_Text
begin

text \<open>
  \<open>CounterRecorder\<close> of \<open>src/cpp/util.h\<close> and \<open>util.cc\<close>: how the variables of a recorder are named, exposed and hidden. The variables themselves are of
  \<open>bvar\<close>; its \<open>expose_as\<close> is an argument over the state of its registry. Also the functions of \<open>util.cc\<close> that start a closure in a bthread.
\<close>

section \<open>Model\<close>

definition valid_percentile :: "int \<Rightarrow> bool" where
  "valid_percentile v \<longleftrightarrow> v > 0 \<and> v < 100"

definition ends_with :: "string \<Rightarrow> string \<Rightarrow> bool" where
  "ends_with s t \<longleftrightarrow> length t \<le> length s \<and> drop (length s - length t) s = t"

text \<open>The prefix of all names, \<open>None\<close> when \<open>expose\<close> rejects its arguments.\<close>

definition counter_prefix :: "string \<Rightarrow> string \<Rightarrow> string option" where
  "counter_prefix prefix1 prefix2 =
     (if prefix2 = [] then None
      else (let cut = ends_with prefix2 ''counter'' \<or> ends_with prefix2 ''Counter'';
                prefix = (if cut then take (length prefix2 - 7) prefix2 else prefix2)
            in if cut \<and> prefix = [] then None
               else if prefix1 \<noteq> [] then Some (prefix1 @ ''_'' @ prefix) else Some prefix))"

text \<open>\<open>snprintf\<close> into \<open>namebuf\<close>, which has 32 bytes.\<close>

definition percentile_name :: "int \<Rightarrow> string" where
  "percentile_name p = take 31 (''counter_'' @ show_int p)"

definition counter_names :: "int \<Rightarrow> int \<Rightarrow> int \<Rightarrow> string list" where
  "counter_names p1 p2 p3 =
     [''avg_counter'', ''max_counter'', ''total_times'', ''qps'', percentile_name p1, percentile_name p2, percentile_name p3,
      ''counter_999'', ''counter_9999'', ''counter_cdf'', ''counter_percentiles'']"

text \<open>The calls of \<open>expose_as\<close>, up to the first that fails.\<close>

fun expose_names :: "('s \<Rightarrow> string \<Rightarrow> string \<Rightarrow> bool \<times> 's) \<Rightarrow> string \<Rightarrow> string list \<Rightarrow> 's \<Rightarrow> rc \<times> 's" where
  "expose_names expose_as prefix [] s = (OK0, s)"
| "expose_names expose_as prefix (n # ns) s =
     (let (ok, s1) = expose_as s prefix n in if ok then expose_names expose_as prefix ns s1 else (NEG1, s1))"

definition expose ::
    "('s \<Rightarrow> string \<Rightarrow> string \<Rightarrow> bool \<times> 's) \<Rightarrow> int \<Rightarrow> int \<Rightarrow> int \<Rightarrow> string \<Rightarrow> string \<Rightarrow> 's \<Rightarrow> rc \<times> 's" where
  "expose expose_as p1 p2 p3 prefix1 prefix2 s =
     (case counter_prefix prefix1 prefix2 of
        None \<Rightarrow> (NEG1, s)
      | Some prefix \<Rightarrow> expose_names expose_as prefix (counter_names p1 p2 p3) s)"

text \<open>
  \<open>run_closure_in_bthread\<close> and \<open>run_closure_in_bthread_nosig\<close>: the closures that run now and those that a new bthread runs. \<open>run_closure\<close>
  ignores \<open>NULL\<close>; the direct call does not.
\<close>

definition run_closure :: "'c option \<Rightarrow> 'c list" where
  "run_closure c = (case c of None \<Rightarrow> [] | Some cl \<Rightarrow> [cl])"

definition run_closure_in_bthread :: "bool \<Rightarrow> 'c option \<Rightarrow> ('c list \<times> 'c list) res" where
  "run_closure_in_bthread start_ok c =
     (if start_ok then Inr ([], run_closure c) else (case c of None \<Rightarrow> Inl Null_deref | Some cl \<Rightarrow> Inr ([cl], [])))"

section \<open>Names\<close>

lemma show_nat_inj: "show_nat m = show_nat n \<longleftrightarrow> m = n"
  using digits_value_show by metis

lemma percentile_name_full: "valid_percentile p \<Longrightarrow> percentile_name p = ''counter_'' @ show_nat (nat p) \<and> length (show_nat (nat p)) \<le> 2"
proof -
  assume p: "valid_percentile p"
  then have "nat p < 100" by (simp add: valid_percentile_def nat_less_iff)
  then have "length (show_nat (nat p)) \<le> 2" using show_nat_length [of "nat p" 2] by simp
  with p show ?thesis by (simp add: valid_percentile_def percentile_name_def show_int_def)
qed

lemma percentile_name_inj: "valid_percentile p \<Longrightarrow> valid_percentile q \<Longrightarrow> percentile_name p = percentile_name q \<longleftrightarrow> p = q"
  by (auto simp: percentile_name_full show_nat_inj) (auto simp: valid_percentile_def)

lemma percentile_name_fresh:
  assumes "valid_percentile p"
  shows "percentile_name p \<notin> {''avg_counter'', ''max_counter'', ''total_times'', ''qps'', ''counter_999'', ''counter_9999'', ''counter_cdf'', ''counter_percentiles''}"
proof -
  have l: "length (percentile_name p) \<le> 10" using percentile_name_full [OF assms] by simp
  have h: "hd (percentile_name p) = CHR ''c''" using percentile_name_full [OF assms] by simp
  show ?thesis using l h by auto
qed

lemma distinct_counter_names:
  "valid_percentile p1 \<Longrightarrow> valid_percentile p2 \<Longrightarrow> valid_percentile p3 \<Longrightarrow> distinct (counter_names p1 p2 p3) \<longleftrightarrow> distinct [p1, p2, p3]"
  using percentile_name_fresh [of p1] percentile_name_fresh [of p2] percentile_name_fresh [of p3]
  by (auto simp: counter_names_def percentile_name_inj)

section \<open>Exposing\<close>

text \<open>The registry of \<open>bvar\<close>: a name is exposed once; \<open>names\<close> are the names in use.\<close>

definition exposes_once :: "('s \<Rightarrow> string \<Rightarrow> string \<Rightarrow> bool \<times> 's) \<Rightarrow> ('s \<Rightarrow> (string \<times> string) set) \<Rightarrow> bool" where
  "exposes_once expose_as names \<longleftrightarrow>
     (\<forall>s p n. fst (expose_as s p n) = ((p, n) \<notin> names s) \<and> names (snd (expose_as s p n)) = insert (p, n) (names s))"

lemma expose_names_result:
  assumes "exposes_once ea names"
  shows "\<exists>k \<le> length ns. fst (expose_names ea p ns s) = (if k = length ns then OK0 else NEG1) \<and>
    names (snd (expose_names ea p ns s)) = names s \<union> Pair p ` set (take k ns) \<and>
    (k = length ns \<longleftrightarrow> distinct ns \<and> (\<forall>n \<in> set ns. (p, n) \<notin> names s))"
proof (induction ns arbitrary: s)
  case (Cons n ns)
  obtain ok s1 where e: "ea s p n = (ok, s1)" by force
  note law = assms [unfolded exposes_once_def, rule_format, of s p n]
  have ok: "ok = ((p, n) \<notin> names s)" and s1: "names s1 = insert (p, n) (names s)" using law by (simp_all add: e)
  show ?case
  proof (cases ok)
    case True
    from Cons.IH [of s1] obtain k where k: "k \<le> length ns" "fst (expose_names ea p ns s1) = (if k = length ns then OK0 else NEG1)"
      "names (snd (expose_names ea p ns s1)) = names s1 \<union> Pair p ` set (take k ns)"
      "k = length ns \<longleftrightarrow> distinct ns \<and> (\<forall>n \<in> set ns. (p, n) \<notin> names s1)" by blast
    have r: "expose_names ea p (n # ns) s = expose_names ea p ns s1" using True by (simp add: e)
    show ?thesis
      unfolding r using k True ok s1 by (intro exI [of _ "Suc k"]) (auto simp: prod_eq_iff)
  next
    case False
    then show ?thesis using ok s1 by (intro exI [of _ 0]) (auto simp: e)
  qed
qed simp

lemma expose_names_first:
  assumes "exposes_once ea names" "ns \<noteq> []"
  shows "(p, hd ns) \<in> names (snd (expose_names ea p ns s))" "(p, hd ns) \<in> names s \<Longrightarrow> fst (expose_names ea p ns s) = NEG1"
proof -
  obtain n ms where ns: "ns = n # ms" using assms(2) by (cases ns) auto
  obtain ok s1 where e: "ea s p n = (ok, s1)" by force
  note law = assms(1) [unfolded exposes_once_def, rule_format, of s p n]
  have ok: "ok = ((p, n) \<notin> names s)" and s1: "names s1 = insert (p, n) (names s)" using law by (simp_all add: e)
  have "names s1 \<subseteq> names (snd (expose_names ea p ms s1))" using expose_names_result [OF assms(1), of ms p s1] by auto
  then show "(p, hd ns) \<in> names (snd (expose_names ea p ns s))" using s1 by (auto simp: ns e)
  show "(p, hd ns) \<in> names s \<Longrightarrow> fst (expose_names ea p ns s) = NEG1" using ok by (simp add: ns e)
qed

text \<open>
  Exposing a recorder under a prefix that is not in use succeeds exactly when the three configured percentiles differ; all names are then in use.
  When two are equal it fails, although each percentile is valid, and the names exposed before stay in use: calling it again then fails at once.
\<close>

theorem expose_needs_distinct_percentiles:
  assumes "exposes_once ea names" "valid_percentile p1" "valid_percentile p2" "valid_percentile p3"
    and "counter_prefix prefix1 prefix2 = Some prefix" "\<forall>n. (prefix, n) \<notin> names s"
  shows "(fst (expose ea p1 p2 p3 prefix1 prefix2 s) = OK0 \<longleftrightarrow> distinct [p1, p2, p3]) \<and>
    (distinct [p1, p2, p3] \<longrightarrow> names (snd (expose ea p1 p2 p3 prefix1 prefix2 s)) = names s \<union> Pair prefix ` set (counter_names p1 p2 p3)) \<and>
    fst (expose ea p1 p2 p3 prefix1 prefix2 (snd (expose ea p1 p2 p3 prefix1 prefix2 s))) = NEG1"
proof -
  let ?ns = "counter_names p1 p2 p3"
  let ?s1 = "snd (expose_names ea prefix ?ns s)"
  have ex: "expose ea p1 p2 p3 prefix1 prefix2 s' = expose_names ea prefix ?ns s'" for s' by (simp add: expose_def assms(5))
  have d: "distinct ?ns \<longleftrightarrow> distinct [p1, p2, p3]" by (rule distinct_counter_names [OF assms(2-4)])
  have ne: "?ns \<noteq> []" by (simp add: counter_names_def)
  obtain k where k: "fst (expose_names ea prefix ?ns s) = (if k = length ?ns then OK0 else NEG1)"
    "names ?s1 = names s \<union> Pair prefix ` set (take k ?ns)" "k = length ?ns \<longleftrightarrow> distinct ?ns \<and> (\<forall>n \<in> set ?ns. (prefix, n) \<notin> names s)"
    using expose_names_result [OF assms(1), of ?ns prefix s] by blast
  have all: "k = length ?ns \<longleftrightarrow> distinct [p1, p2, p3]" using k(3) d assms(6) by blast
  have "fst (expose_names ea prefix ?ns s) = OK0 \<longleftrightarrow> distinct [p1, p2, p3]" using k(1) unfolding all by simp
  moreover have "distinct [p1, p2, p3] \<longrightarrow> names ?s1 = names s \<union> Pair prefix ` set ?ns"
  proof
    assume "distinct [p1, p2, p3]"
    then have "take k ?ns = ?ns" using all by simp
    then show "names ?s1 = names s \<union> Pair prefix ` set ?ns" using k(2) by simp
  qed
  moreover have "fst (expose_names ea prefix ?ns ?s1) = NEG1"
    by (rule expose_names_first(2) [OF assms(1) ne]) (rule expose_names_first(1) [OF assms(1) ne])
  ultimately show ?thesis unfolding ex by blast
qed

text \<open>A closure runs exactly once, in a bthread or, when none starts, at once.\<close>

theorem closure_runs_once: "run_closure_in_bthread start_ok (Some c) = Inr (now, later) \<Longrightarrow> now @ later = [c]"
  by (auto simp: run_closure_in_bthread_def run_closure_def split: if_splits)

section \<open>Example\<close>

text \<open>A registry that is the set of the names in use.\<close>

definition demo_expose_as :: "(string \<times> string) set \<Rightarrow> string \<Rightarrow> string \<Rightarrow> bool \<times> (string \<times> string) set" where
  "demo_expose_as s p n = ((p, n) \<notin> s, insert (p, n) s)"

theorem expose_needs_distinct_percentiles_witness:
  "counter_prefix [] ''raft_batch_counter'' = Some ''raft_batch_'' \<and>
   fst (expose demo_expose_as 80 90 99 [] ''raft_batch_counter'' {}) = OK0 \<and> fst (expose demo_expose_as 80 90 90 [] ''raft_batch_counter'' {}) \<noteq> OK0"
proof -
  have p: "counter_prefix [] ''raft_batch_counter'' = Some ''raft_batch_''" by (simp add: counter_prefix_def ends_with_def)
  have l: "exposes_once demo_expose_as (\<lambda>s. s)" by (simp add: exposes_once_def demo_expose_as_def)
  have v: "valid_percentile 80" "valid_percentile 90" "valid_percentile 99" by (simp_all add: valid_percentile_def)
  from expose_needs_distinct_percentiles [OF l v p, of "{}"] expose_needs_distinct_percentiles [OF l v(1,2,2) p, of "{}"] p
  show ?thesis by simp
qed

end
