(* ===== verification/Service.thy ===== *)
theory Service
  imports Sample_Machine
begin

text \<open>
  How requests of clients reach a node: \<open>NodeImpl::apply_task\<close> (\<open>node.cc\<close>), the rpc \<open>client_request\<close> (\<open>raft_service.cc\<close>), the write service of the
  sample state machine (\<open>raft_server.cc\<close>), and the choice of a storage by its uri (\<open>storage.cc\<close>).
\<close>

section \<open>Tasks\<close>

text \<open>
  \<open>apply_task\<close>: the result of \<open>_apply_queue->execute\<close> is an argument. When the queue refuses the task, its closure is used without a test for \<open>NULL\<close>.
\<close>

definition node_apply_task ::
    "rc \<Rightarrow> 'c apply_task \<Rightarrow> 'c apply_task list \<Rightarrow> (('c, 'r, 'w) node_event list \<times> 'c apply_task list) res" where
  "node_apply_task ret t queue =
     (if ret \<noteq> OK0 then (case at_done t of None \<Rightarrow> Inl Null_deref | Some c \<Rightarrow> Inr ([Run_done c EPERM], queue))
      else Inr ([], queue @ [t]))"

text \<open>
  \<open>client_request\<close> with the serialised request, \<open>None\<close> when that failed; it gives the success of the response. The task keeps the defaults of
  \<open>Task\<close>: no closure, dependency id 0.
\<close>

definition client_request ::
    "rc \<Rightarrow> byte list option \<Rightarrow> 'c apply_task list \<Rightarrow> (bool \<times> ('c, 'r, 'w) node_event list \<times> 'c apply_task list) res" where
  "client_request ret log queue =
     (case log of
        None \<Rightarrow> Inr (False, [], queue)
      | Some bs \<Rightarrow>
          (case node_apply_task ret \<lparr>at_data = bs, at_dependency_id = 0, at_done = None, at_expected_term = -1\<rparr> queue of
             Inl f \<Rightarrow> Inl f
           | Inr (evs, queue') \<Rightarrow> Inr (True, evs, queue')))"

text \<open>\<open>SampleStateMachine::write\<close>: the first component says that the response was set to a failure at once.\<close>

definition service_write ::
    "sm_codec \<Rightarrow> rc \<Rightarrow> sm_request \<Rightarrow> byte list \<Rightarrow> sm_closure apply_task list \<Rightarrow>
      (bool \<times> (sm_closure, 'r, 'w) node_event list \<times> sm_closure apply_task list) res" where
  "service_write cd ret request data queue =
     (case sm_write cd request data of
        None \<Rightarrow> Inr (True, [], queue)
      | Some t \<Rightarrow> (case node_apply_task ret t queue of Inl f \<Rightarrow> Inl f | Inr (evs, queue') \<Rightarrow> Inr (False, evs, queue')))"

section \<open>Storage uris\<close>

text \<open>The part before the first separator and the part after it.\<close>

fun split_uri :: "string \<Rightarrow> (string \<times> string) option" where
  "split_uri [] = None"
| "split_uri (c # s) =
     (if take 3 (c # s) = ''://'' then Some ([], drop 3 (c # s))
      else (case split_uri s of None \<Rightarrow> None | Some (p, q) \<Rightarrow> Some (c # p, q)))"

definition trim_spaces :: "string \<Rightarrow> string" where
  "trim_spaces s = rev (dropWhile is_space (rev (dropWhile is_space s)))"

definition parse_uri :: "string \<Rightarrow> string \<times> string" where
  "parse_uri uri = (case split_uri uri of None \<Rightarrow> ([], []) | Some (p, q) \<Rightarrow> (trim_spaces p, filter (\<lambda>c. \<not> is_space c) q))"

text \<open>\<open>LogStorage::create\<close> and \<open>RaftMetaStorage::create\<close>: the extensions registered under a protocol are an argument.\<close>

definition storage_create :: "(string \<Rightarrow> (string \<Rightarrow> 's) option) \<Rightarrow> string \<Rightarrow> 's option" where
  "storage_create extension uri =
     (let (protocol, parameter) = parse_uri uri
      in if protocol = [] then None else (case extension protocol of None \<Rightarrow> None | Some new_instance \<Rightarrow> Some (new_instance parameter)))"

section \<open>Properties\<close>

lemma split_uri_append: "CHR '':'' \<notin> set p \<Longrightarrow> split_uri (p @ ''://'' @ q) = Some (p, q)"
proof (induction p)
  case (Cons c p)
  then show ?case by (cases p) (auto simp: numeral_3_eq_3)
qed (simp add: numeral_3_eq_3)

lemma dropWhile_id: "\<forall>c \<in> set s. \<not> P c \<Longrightarrow> dropWhile P s = s"
  by (cases s) simp_all

lemma trim_spaces_id: "\<forall>c \<in> set s. \<not> is_space c \<Longrightarrow> trim_spaces s = s"
  using dropWhile_id [of s is_space] dropWhile_id [of "rev s" is_space] by (simp add: trim_spaces_def)

text \<open>
  A uri made of a protocol and a path selects the extension of that protocol and hands it the path, if neither has spaces, the protocol is not
  empty and has no colon.
\<close>

theorem storage_uri_roundtrip:
  assumes "protocol \<noteq> []" "CHR '':'' \<notin> set protocol" "\<forall>c \<in> set (protocol @ path). \<not> is_space c" "extension protocol = Some new_instance"
  shows "storage_create extension (protocol @ ''://'' @ path) = Some (new_instance path)"
proof -
  have "parse_uri (protocol @ ''://'' @ path) = (protocol, path)"
    unfolding parse_uri_def split_uri_append [OF assms(2)] using assms(3) by (simp add: trim_spaces_id filter_id_conv)
  then show ?thesis using assms(1,4) by (simp add: storage_create_def)
qed

text \<open>
  A client is told that its request succeeded when the request was queued, not when it was committed. On a node that is not the leader
  the queued task is dropped: nothing enters the log, no closure reports it, and the response was a success.
\<close>

theorem client_request_lost_silently:
  fixes nd :: "('c, 'r, 'w) node"
  assumes "nd_state nd \<noteq> STATE_LEADER" "0 < batch"
  shows "\<exists>queue. client_request OK0 (Some bs) [] = Inr (True, [] :: ('c, 'r, 'w) node_event list, queue) \<and>
    execute_applying_tasks batch queue nd = Inr ([], nd)"
proof -
  let ?t = "\<lparr>at_data = bs, at_dependency_id = 0, at_done = None, at_expected_term = -1\<rparr> :: 'c apply_task"
  have "node_apply [?t] nd = Inr ([], nd)" using assms(1) by (simp add: node_apply_def map_filter_simps)
  moreover have "take batch [?t] = [?t]" "drop batch [?t] = []" using assms(2) by (cases batch; simp)+
  ultimately have "execute_applying_tasks batch [?t] nd = Inr ([], nd)"
    using assms(2) by (simp add: execute_applying_tasks.simps [of batch "[?t]"] execute_applying_tasks.simps [of batch "[]"])
  then show ?thesis by (intro exI [of _ "[?t]"]) (simp add: client_request_def node_apply_task_def)
qed

text \<open>When the node has shut down its queue, the same call dereferences the closure that it does not have.\<close>

theorem client_request_after_shutdown: "ret \<noteq> OK0 \<Longrightarrow> client_request ret (Some bs) queue = Inl Null_deref"
  by (simp add: client_request_def node_apply_task_def)

section \<open>Examples\<close>

theorem client_request_lost_silently_witness:
  "\<exists>queue. client_request OK0 (Some [1, 2]) [] = Inr (True, [] :: (nat, nat, nat) node_event list, queue) \<and>
    nd_state (demo_node 1) \<noteq> STATE_LEADER \<and> execute_applying_tasks 32 queue (demo_node 1) = Inr ([], demo_node 1)"
proof -
  have s: "nd_state (demo_node 1) \<noteq> STATE_LEADER" by (simp add: demo_node_def)
  from client_request_lost_silently [OF s, of 32 "[1, 2]"] s show ?thesis by (simp del: One_nat_def)
qed

theorem storage_uri_roundtrip_witness:
  "storage_create (\<lambda>p. if p = ''local'' then Some (\<lambda>path. path) else None) ''local://data/log'' = Some ''data/log''"
  using storage_uri_roundtrip [of "''local''" "''data/log''" "\<lambda>p. if p = ''local'' then Some (\<lambda>path. path) else None" "\<lambda>path. path"]
  by (simp add: is_space_def)

end
