(* ===== verification/Segment_Files.thy ===== *)
theory Segment_Files
  imports Log_Storage Peer_Text "HOL-Library.Multiset"
begin

text \<open>
  The files of \<open>SegmentLogStorage\<close> in \<open>src/cpp/log.cc\<close>: the names of segment files, how \<open>list_segments\<close> takes them apart at start-up,
  \<open>Segment::unlink\<close>, \<open>list_files\<close> and \<open>sync\<close>. A directory is a map from names to contents; the order in which the reader of
  butil lists it is an argument.
\<close>

section \<open>Names\<close>

text \<open>\<open>%020ld\<close>: zeros fill the field up to 20 characters, behind the sign.\<close>

definition zero_pad :: "nat \<Rightarrow> string \<Rightarrow> string" where
  "zero_pad n s = replicate (n - length s) (CHR ''0'') @ s"

definition show_020d :: "int64 \<Rightarrow> string" where
  "show_020d i = (if i < 0 then CHR ''-'' # zero_pad 19 (show_nat (nat (- i))) else zero_pad 20 (show_nat (nat i)))"

text \<open>\<open>BRAFT_SEGMENT_CLOSED_PATTERN\<close>, \<open>BRAFT_SEGMENT_OPEN_PATTERN\<close>.\<close>

definition closed_name :: "int64 \<Rightarrow> int64 \<Rightarrow> string" where
  "closed_name first_index last_index = ''log_'' @ show_020d first_index @ ''_'' @ show_020d last_index"

definition open_name :: "int64 \<Rightarrow> string" where
  "open_name first_index = ''log_inprogress_'' @ show_020d first_index"

definition file_name :: "segment \<Rightarrow> string" where
  "file_name sg = (if \<not> sg_is_open sg then closed_name (sg_first_index sg) (sg_last_index sg) else open_name (sg_first_index sg))"

definition meta_name :: string where
  "meta_name = ''log_meta''"

text \<open>
  \<open>sscanf\<close> with these patterns: a literal, then a number of at most 20 characters. A number beyond 64 bits has no defined value. What
  follows the last number is not looked at.
\<close>

definition scan_literal :: "string \<Rightarrow> string \<Rightarrow> string option" where
  "scan_literal lit s = (if take (length lit) s = lit then Some (drop (length lit) s) else None)"

definition scan_20ld :: "string \<Rightarrow> (int64 \<times> string) option" where
  "scan_20ld s =
     (let s1 = dropWhile is_space s
      in case scan_int (take 20 s1) of None \<Rightarrow> None | Some (v, rest) \<Rightarrow> Some (v, rest @ drop 20 s1))"

definition scan_closed :: "string \<Rightarrow> (int64 \<times> int64) option res" where
  "scan_closed name =
     (case scan_literal ''log_'' name of
        None \<Rightarrow> Inr None
      | Some r1 \<Rightarrow>
          (case scan_20ld r1 of
             None \<Rightarrow> Inr None
           | Some (f, r2) \<Rightarrow>
               if \<not> fits64 f then Inl Bad_conversion
               else (case scan_literal ''_'' r2 of
                       None \<Rightarrow> Inr None
                     | Some r3 \<Rightarrow>
                         (case scan_20ld r3 of
                            None \<Rightarrow> Inr None
                          | Some (l, _) \<Rightarrow> if \<not> fits64 l then Inl Bad_conversion else Inr (Some (f, l))))))"

definition scan_open :: "string \<Rightarrow> int64 option res" where
  "scan_open name =
     (case scan_literal ''log_inprogress_'' name of
        None \<Rightarrow> Inr None
      | Some r \<Rightarrow>
          (case scan_20ld r of
             None \<Rightarrow> Inr None
           | Some (f, _) \<Rightarrow> if \<not> fits64 f then Inl Bad_conversion else Inr (Some f)))"

text \<open>
  The test for \<open>.tmp\<close> looks at the four bytes that end where the name ends; for a shorter name they begin in the memory before
  it, whose last four bytes are \<open>before\<close>.
\<close>

definition is_tmp :: "string \<Rightarrow> string \<Rightarrow> bool" where
  "is_tmp before name \<longleftrightarrow> drop (length name) (before @ name) = ''.tmp''"

text \<open>One turn of the loop of \<open>list_segments\<close>, up to the new segment. \<open>load\<close> opens the file by the name that it prints for the segment.\<close>

definition classify :: "bool \<Rightarrow> string \<Rightarrow> (string \<rightharpoonup> byte list) \<Rightarrow> string \<Rightarrow> dir_entry option res" where
  "classify is_empty before files name =
     (if is_empty \<and> take 4 name = ''log_'' \<or> is_tmp before name then Inr (Some Dir_tmp)
      else (case scan_closed name of
              Inl f \<Rightarrow> Inl f
            | Inr (Some (f, l)) \<Rightarrow> Inr (map_option (Dir_closed f l) (files (closed_name f l)))
            | Inr None \<Rightarrow>
                (case scan_open name of
                   Inl f \<Rightarrow> Inl f
                 | Inr (Some f) \<Rightarrow> Inr (map_option (Dir_open f) (files (open_name f)))
                 | Inr None \<Rightarrow> Inr (Some Dir_other))))"

fun read_dir :: "bool \<Rightarrow> string \<Rightarrow> (string \<rightharpoonup> byte list) \<Rightarrow> string list \<Rightarrow> dir_entry list option res" where
  "read_dir is_empty before files [] = Inr (Some [])"
| "read_dir is_empty before files (n # ns) =
     (case classify is_empty before files n of
        Inl f \<Rightarrow> Inl f
      | Inr None \<Rightarrow> Inr None
      | Inr (Some d) \<Rightarrow>
          (case read_dir is_empty before files ns of
             Inl f \<Rightarrow> Inl f
           | Inr None \<Rightarrow> Inr None
           | Inr (Some ds) \<Rightarrow> Inr (Some (d # ds))))"

text \<open>
  \<open>init\<close> on a directory that can be read. A segment whose printed name does not exist cannot be opened, and \<open>init\<close> fails.
\<close>

definition sl_start ::
    "nat \<Rightarrow> codec \<Rightarrow> bool \<Rightarrow> string \<Rightarrow> (string \<rightharpoonup> byte list) \<Rightarrow> string list \<Rightarrow> bool \<Rightarrow> segment_log \<Rightarrow> configuration_manager \<Rightarrow>
      (rc \<times> segment_log \<times> configuration_manager) res option" where
  "sl_start fuel cd fast_crc before files names save_ok sl cm =
     (case read_dir (sl_meta sl = None) before files names of
        Inl f \<Rightarrow> Some (Inl f)
      | Inr None \<Rightarrow> Some (Inr (NEG1, sl, cm))
      | Inr (Some ds) \<Rightarrow> sl_init fuel cd True fast_crc (Some ds) save_ok sl cm)"

section \<open>Removing, listing and syncing\<close>

text \<open>
  \<open>Segment::unlink\<close>: the file is renamed, then a bthread removes it. \<open>removed\<close> says whether that removal happens before the next start.
\<close>

definition run_unlink :: "bool \<Rightarrow> string \<Rightarrow> (string \<rightharpoonup> byte list) \<Rightarrow> (string \<rightharpoonup> byte list)" where
  "run_unlink removed path files = (if removed then files(path := None) else files)"

definition seg_unlink :: "bool \<Rightarrow> bool \<Rightarrow> segment \<Rightarrow> (string \<rightharpoonup> byte list) \<Rightarrow> rc \<times> (string \<rightharpoonup> byte list)" where
  "seg_unlink rename_ok removed sg files =
     (let path = file_name sg; tmp_path = path @ ''.tmp''
      in if \<not> rename_ok \<or> files path = None then (NEG1, files)
         else (OK0, run_unlink removed tmp_path ((files(tmp_path := files path))(path := None))))"

definition list_files :: "segment_log \<Rightarrow> string list" where
  "list_files sl =
     [meta_name] @ map file_name (sl_segments sl) @ (case sl_open_segment sl of None \<Rightarrow> [] | Some op \<Rightarrow> [file_name op])"

text \<open>\<open>sync\<close> goes over the closed segments; the results are not used. The answer of \<open>fsync\<close> may differ per segment.\<close>

definition sl_sync :: "bool \<Rightarrow> (segment \<Rightarrow> bool) \<Rightarrow> segment_log \<Rightarrow> rc list" where
  "sl_sync raft_sync fsync_ok sl = map (\<lambda>s. seg_sync raft_sync True (fsync_ok s) s) (sl_segments sl)"

section \<open>Names are read back\<close>

lemma zero_pad_digits: "c \<in> set (zero_pad n (show_nat k)) \<Longrightarrow> is_digit c"
  using show_nat_digits [of k] by (auto simp: zero_pad_def is_digit_def [of "CHR ''0''"])

lemma digits_value_zeros: "digits_value (replicate n (CHR ''0'') @ ds) = digits_value ds"
  by (induction n) (simp_all add: digits_value_def digit_value_def)

lemma length_zero_pad: "n < 10 ^ k \<Longrightarrow> 0 < k \<Longrightarrow> length (zero_pad k (show_nat n)) = k"
  using show_nat_length [of n k] by (simp add: zero_pad_def)

lemma digit_not_space: "is_digit c \<Longrightarrow> \<not> is_space c \<and> c \<noteq> CHR ''-'' \<and> c \<noteq> CHR ''+''"
  by (auto simp: is_digit_def is_space_def)

lemma scan_int_digits:
  assumes "\<forall>c \<in> set ds. is_digit c" "ds \<noteq> []"
  shows "scan_int ds = Some (int (digits_value ds), [])"
proof -
  obtain c cs where ds: "ds = c # cs" using assms(2) by (cases ds) auto
  have c: "\<not> is_space c" "c \<noteq> CHR ''-''" "c \<noteq> CHR ''+''" using digit_not_space [of c] assms(1) ds by auto
  have "takeWhile is_digit ds = ds" "dropWhile is_digit ds = []" using assms(1) by (simp_all add: takeWhile_eq_all_conv)
  then show ?thesis using c by (simp add: scan_int_def ds Let_def)
qed

lemma scan_show_020d:
  assumes "0 \<le> i" "fits64 i"
  shows "scan_20ld (show_020d i @ rest) = Some (i, rest)"
proof -
  let ?d = "zero_pad 20 (show_nat (nat i))"
  have len: "length ?d = 20" by (rule length_zero_pad) (use assms in \<open>auto simp: fits64_def\<close>)
  have dig: "\<forall>c \<in> set ?d. is_digit c" using zero_pad_digits by blast
  have ne: "?d \<noteq> []" using len by auto
  then have "dropWhile is_space (?d @ rest) = ?d @ rest"
    using dig digit_not_space by (cases ?d) auto
  moreover have "digits_value ?d = nat i" by (simp add: zero_pad_def digits_value_zeros digits_value_show)
  ultimately show ?thesis
    using scan_int_digits [OF dig ne] len assms(1) by (simp add: scan_20ld_def show_020d_def)
qed

lemma scan_literal_append [simp]: "scan_literal lit (lit @ s) = Some s"
  by (simp add: scan_literal_def)

lemma scan_closed_name:
  assumes "0 \<le> f" "fits64 f" "0 \<le> l" "fits64 l"
  shows "scan_closed (closed_name f l) = Inr (Some (f, l))"
  using scan_show_020d [OF assms(1,2)] scan_show_020d [OF assms(3,4), of "[]"] assms
  by (simp add: scan_closed_def closed_name_def scan_literal_append [of "''log_''", simplified] scan_literal_append [of "''_''", simplified])

lemma scan_closed_open_name: "scan_closed (open_name f) = Inr None"
  by (simp add: scan_closed_def open_name_def scan_literal_def scan_20ld_def scan_int_def is_space_def is_digit_def numeral_eq_Suc)

lemma scan_open_name: "0 \<le> f \<Longrightarrow> fits64 f \<Longrightarrow> scan_open (open_name f) = Inr (Some f)"
  using scan_show_020d [of f "[]"] by (simp add: scan_open_def open_name_def scan_literal_append [of "''log_inprogress_''", simplified])

lemma is_tmp_last: "is_tmp before name \<Longrightarrow> name \<noteq> [] \<Longrightarrow> last name = CHR ''p''"
proof -
  assume t: "is_tmp before name" and ne: "name \<noteq> []"
  let ?w = "before @ name"
  have d: "drop (length name) ?w = ''.tmp''" using t by (simp only: is_tmp_def)
  then have "length name < length ?w" by (metis drop_all leI list.distinct(1))
  then have "last (drop (length name) ?w) = last ?w" by (rule last_drop)
  then show ?thesis unfolding d using ne by simp
qed

lemma last_show_020d: "show_020d i \<noteq> []" "last (show_020d i) \<noteq> CHR ''p''"
proof -
  have "is_digit (last (show_nat n))" for n
    using show_nat_digits [of n] last_in_set [OF show_nat_nonempty [of n]] digit_char_facts(1) by metis
  then have d: "is_digit (last (show_020d i))" and ne: "show_020d i \<noteq> []" by (simp_all add: show_020d_def zero_pad_def)
  show "show_020d i \<noteq> []" by (rule ne)
  show "last (show_020d i) \<noteq> CHR ''p''" using d by (auto simp: is_digit_def)
qed

lemma not_tmp_names: "\<not> is_tmp before (closed_name f l)" "\<not> is_tmp before (open_name f)"
  using is_tmp_last [of before "closed_name f l"] is_tmp_last [of before "open_name f"]
  by (auto simp: closed_name_def open_name_def last_show_020d)

lemma tmp_name: "length before = 4 \<Longrightarrow> is_tmp before (n @ ''.tmp'')"
  by (simp add: is_tmp_def)

text \<open>Names in the two forms, with indexes that 64 bits hold.\<close>

definition named_index :: "int64 \<Rightarrow> bool" where
  "named_index i \<longleftrightarrow> 0 \<le> i \<and> fits64 i"

definition entry_of :: "segment \<Rightarrow> dir_entry" where
  "entry_of s = (if sg_is_open s then Dir_open (sg_first_index s) (sg_file s) else Dir_closed (sg_first_index s) (sg_last_index s) (sg_file s))"

lemma classify_file_name:
  assumes "named_index (sg_first_index s)" "\<not> sg_is_open s \<longrightarrow> named_index (sg_last_index s)" "files (file_name s) = Some (sg_file s)"
  shows "classify False before files (file_name s) = Inr (Some (entry_of s))"
  using assms
  by (simp add: classify_def file_name_def named_index_def not_tmp_names scan_closed_name scan_closed_open_name scan_open_name entry_of_def
      split: if_splits)

section \<open>Segments that were filled by appends\<close>

text \<open>
  \<open>written cd ck s es\<close>: the segment received the entries \<open>es\<close>, in any order of their indexes, and was perhaps closed. \<open>found\<close> is the
  object that \<open>list_segments\<close> makes for its file, \<open>reloaded\<close> what \<open>load\<close> turns that into.
\<close>

definition written :: "codec \<Rightarrow> nat \<Rightarrow> segment \<Rightarrow> log_entry list \<Rightarrow> bool" where
  "written cd ck s es \<longleftrightarrow> (\<forall>e \<in> set es. plain cd (sg_first_index s) e) \<and>
     (\<exists>v p. s = (replay cd es (new_segment (sg_first_index s) ck))\<lparr>sg_is_open := sg_is_open s, sg_valid_entries := v, sg_pending_for_closing := p\<rparr>)"

definition found :: "nat \<Rightarrow> segment \<Rightarrow> segment" where
  "found ck s = (if sg_is_open s then (new_segment (sg_first_index s) ck)\<lparr>sg_file := sg_file s\<rparr>
     else closed_segment (sg_first_index s) (sg_last_index s) ck (sg_file s))"

definition reloaded :: "segment \<Rightarrow> segment" where
  "reloaded s = s\<lparr>sg_valid_entries := 0, sg_pending_for_closing := False\<rparr>"

lemma new_segment_simps [simp]:
  "sg_first_index (new_segment f ck) = f" "sg_last_index (new_segment f ck) = f - 1" "sg_checksum_type (new_segment f ck) = ck"
  "sg_file (new_segment f ck) = []" "sg_bytes (new_segment f ck) = 0" "sg_is_open (new_segment f ck)" "\<not> sg_pending_for_closing (new_segment f ck)"
  by (simp_all add: new_segment_def)

lemma written_new: "written cd ck (new_segment first ck) []"
  by (auto simp: written_def new_segment_def)

lemma replay_first [simp]: "sg_first_index (replay cd es sg) = sg_first_index sg"
  by (induction es arbitrary: sg) simp_all

lemma replay_checksum [simp]: "sg_checksum_type (replay cd es sg) = sg_checksum_type sg"
  by (induction es arbitrary: sg) simp_all

lemma writtenI:
  assumes "s = (replay cd es (new_segment f ck))\<lparr>sg_is_open := b, sg_valid_entries := v, sg_pending_for_closing := p\<rparr>" "\<forall>e \<in> set es. plain cd f e"
  shows "written cd ck s es"
proof -
  have "sg_first_index s = f" "sg_is_open s = b" by (simp_all add: assms(1))
  then show ?thesis using assms unfolding written_def by auto
qed

lemma writtenE:
  assumes "written cd ck s es"
  obtains v p where "s = (replay cd es (new_segment (sg_first_index s) ck))\<lparr>sg_is_open := sg_is_open s, sg_valid_entries := v, sg_pending_for_closing := p\<rparr>"
    "\<forall>e \<in> set es. plain cd (sg_first_index s) e"
  using assms by (auto simp: written_def)

lemma appended_update:
  "appended cd e p (s\<lparr>sg_is_open := b, sg_valid_entries := v, sg_pending_for_closing := q\<rparr>) =
     (appended cd e p s)\<lparr>sg_is_open := b, sg_valid_entries := v + 1, sg_pending_for_closing := q\<rparr>"
  by (simp add: appended_def Let_def)

lemma appended_open: "appended cd e p (s\<lparr>sg_is_open := b\<rparr>) = (appended cd e p s)\<lparr>sg_is_open := b\<rparr>"
  by (simp add: appended_def Let_def)

lemma replay_open: "replay cd es (s\<lparr>sg_is_open := b\<rparr>) = (replay cd es s)\<lparr>sg_is_open := b\<rparr>"
  by (induction es arbitrary: s) (simp_all add: appended_open)

lemma replay_frame:
  "sg_is_open (replay cd es s) = sg_is_open s" "sg_pending_for_closing (replay cd es s) = sg_pending_for_closing s"
  "sg_bytes s = int (length (sg_file s)) \<Longrightarrow> sg_bytes (replay cd es s) = int (length (sg_file (replay cd es s)))"
  by (induction es arbitrary: s) simp_all

lemma written_append:
  assumes "written cd ck s es" "plain cd (sg_first_index s) e"
  shows "written cd ck (appended cd e (le_data e) s) (es @ [e])"
proof -
  let ?r = "replay cd es (new_segment (sg_first_index s) ck)"
  obtain v p where s: "s = ?r\<lparr>sg_is_open := sg_is_open s, sg_valid_entries := v, sg_pending_for_closing := p\<rparr>"
    and pl: "\<forall>e \<in> set es. plain cd (sg_first_index s) e" using assms(1) by (rule writtenE)
  have "appended cd e (le_data e) s =
      (appended cd e (le_data e) ?r)\<lparr>sg_is_open := sg_is_open s, sg_valid_entries := v + 1, sg_pending_for_closing := p\<rparr>"
    by (subst s) (rule appended_update)
  moreover have "appended cd e (le_data e) ?r = replay cd (es @ [e]) (new_segment (sg_first_index s) ck)" by (simp add: replay_def)
  ultimately show ?thesis using pl assms(2) by (intro writtenI) simp_all
qed

lemma written_relabel:
  assumes "written cd ck s es"
  shows "written cd ck (s\<lparr>sg_is_open := b, sg_valid_entries := v, sg_pending_for_closing := p\<rparr>) es"
proof -
  let ?r = "replay cd es (new_segment (sg_first_index s) ck)"
  obtain v' p' where s: "s = ?r\<lparr>sg_is_open := sg_is_open s, sg_valid_entries := v', sg_pending_for_closing := p'\<rparr>"
    and pl: "\<forall>e \<in> set es. plain cd (sg_first_index s) e" using assms by (rule writtenE)
  have "s\<lparr>sg_is_open := b, sg_valid_entries := v, sg_pending_for_closing := p\<rparr> =
      ?r\<lparr>sg_is_open := b, sg_valid_entries := v, sg_pending_for_closing := p\<rparr>" by (subst s) simp
  then show ?thesis by (rule writtenI) (rule pl)
qed

lemma written_close:
  assumes "written cd ck s es" "seg_close io will_sync s = (r, s')"
  shows "written cd ck s' es"
proof (cases "s' = s")
  case False
  then have "s' = s\<lparr>sg_is_open := False, sg_pending_for_closing := False\<rparr>"
    using assms(2) by (auto simp: seg_close_def split: if_splits)
  then have "s' = s\<lparr>sg_is_open := False, sg_valid_entries := sg_valid_entries s, sg_pending_for_closing := False\<rparr>" by simp
  then show ?thesis using written_relabel [OF assms(1), of False "sg_valid_entries s" False] by metis
qed (use assms in simp)

lemma load_loop_mono:
  "load_loop n cd i off alast sg cm = Some r \<Longrightarrow> n \<le> m \<Longrightarrow> load_loop m cd i off alast sg cm = Some r"
proof (induction n arbitrary: m i off alast sg cm)
  case 0
  then show ?case by (cases m) (simp_all add: load_loop.simps [of 0] load_loop.simps [of "Suc k" for k] split: if_splits)
next
  case (Suc n)
  then obtain m' where m: "m = Suc m'" "n \<le> m'" by (cases m) auto
  note IH = Suc.IH [OF _ m(2)]
  show ?case
    using Suc.prems(1) unfolding m(1) load_loop.simps [of "Suc n"] load_loop.simps [of "Suc m'"]
    by (auto simp: Let_def intro: IH split: if_splits load_result.splits sum.splits)
qed

lemma written_load:
  assumes "written cd ck s es" "ck < 2" "length es \<le> fuel"
  shows "seg_load fuel cd (found ck s) cm = Some (Inr (OK0, reloaded s, cm))"
proof -
  define f op where "f = sg_first_index s" and "op = sg_is_open s"
  define n where "n = (new_segment f ck)\<lparr>sg_is_open := op\<rparr>"
  define r where "r = replay cd es n"
  obtain v p where "s = (replay cd es (new_segment f ck))\<lparr>sg_is_open := op, sg_valid_entries := v, sg_pending_for_closing := p\<rparr>"
    using assms(1) unfolding f_def op_def by (rule writtenE)
  then have s: "s = r\<lparr>sg_valid_entries := v, sg_pending_for_closing := p\<rparr>" by (simp add: r_def n_def replay_open)
  have n: "sg_first_index n = f" "sg_last_index n = f - 1" "sg_file n = []" "sg_bytes n = 0" "sg_checksum_type n = ck" "sg_is_open n = op"
    "\<not> sg_pending_for_closing n" by (simp_all add: n_def new_segment_def)
  have r: "sg_bytes r = int (length (sg_file r))" "sg_is_open r = op" "\<not> sg_pending_for_closing r" "sg_first_index r = f"
    using n by (simp_all add: r_def replay_frame)
  have fields: "sg_file s = sg_file r" "sg_last_index s = sg_last_index r" by (simp_all add: s)
  define l where "l = (if op then f - 1 else sg_last_index r)"
  have fnd: "found ck s = n\<lparr>sg_file := sg_file r, sg_valid_entries := 0, sg_last_index := l, sg_bytes := 0\<rparr>"
    by (simp add: found_def closed_segment_def new_segment_def n_def l_def fields flip: f_def op_def)
  have "\<forall>e \<in> set es. plain cd (sg_first_index n) e" using assms(1) n by (simp add: written_def f_def)
  from load_loop_replay [OF this, of f 0 l 0 cm]
  have "load_loop (length es) cd f 0 (f - 1) (found ck s) cm =
      Some (Inr (OK0, r\<lparr>sg_valid_entries := 0, sg_last_index := l, sg_bytes := 0\<rparr>, cm, length (sg_file r), sg_last_index r))"
    using assms(2) n by (simp add: fnd r_def)
  note loop = load_loop_mono [OF this assms(3)]
  have same: "r\<lparr>sg_valid_entries := 0, sg_bytes := int (length (sg_file r)), sg_last_index := sg_last_index r\<rparr> =
      r\<lparr>sg_valid_entries := 0, sg_pending_for_closing := False\<rparr>"
    using r by (cases r) simp
  have "reloaded s = r\<lparr>sg_valid_entries := 0, sg_pending_for_closing := False\<rparr>" by (simp add: reloaded_def s)
  moreover have "sg_first_index (found ck s) = f" by (simp add: fnd n)
  ultimately show ?thesis
    unfolding seg_load_def using loop same r by (cases op) (simp_all add: Let_def l_def)
qed

section \<open>The directory is read back\<close>

text \<open>The objects that the loop over the directory creates.\<close>

fun closed_of :: "nat \<Rightarrow> dir_entry \<Rightarrow> segment list" where
  "closed_of ck (Dir_closed f l bs) = [closed_segment f l ck bs]"
| "closed_of ck d = []"

fun opens_of :: "nat \<Rightarrow> dir_entry \<Rightarrow> segment list" where
  "opens_of ck (Dir_open f bs) = [(new_segment f ck)\<lparr>sg_file := bs\<rparr>]"
| "opens_of ck d = []"

fun open_found :: "segment option \<Rightarrow> segment list \<Rightarrow> segment option" where
  "open_found cur [] = cur"
| "open_found cur (op # ops) = Some op"

lemma scan_dir_objects:
  assumes "length (concat (map (opens_of (sl_checksum_type sl)) ds)) \<le> (if sl_open_segment sl = None then 1 else 0)"
  shows "scan_dir False ds sl = (OK0, sl
     \<lparr>sl_segments := fold seg_insert (concat (map (closed_of (sl_checksum_type sl)) ds)) (sl_segments sl),
      sl_open_segment := open_found (sl_open_segment sl) (concat (map (opens_of (sl_checksum_type sl)) ds))\<rparr>)"
  using assms
proof (induction ds arbitrary: sl)
  case (Cons d ds)
  show ?case
  proof (cases d)
    case (Dir_closed f l bs)
    then show ?thesis using Cons.prems Cons.IH [of "sl\<lparr>sl_segments := seg_insert (closed_segment f l (sl_checksum_type sl) bs) (sl_segments sl)\<rparr>"]
      by (simp del: concat_eq_Nil_conv)
  next
    case (Dir_open f bs)
    then have "sl_open_segment sl = None" "concat (map (opens_of (sl_checksum_type sl)) ds) = []"
      using Cons.prems by (auto split: if_splits)
    then show ?thesis using Dir_open Cons.IH [of "sl\<lparr>sl_open_segment := Some ((new_segment f (sl_checksum_type sl))\<lparr>sg_file := bs\<rparr>)\<rparr>"]
      by (simp del: concat_eq_Nil_conv)
  qed (use Cons in simp_all)
qed simp

abbreviation by_first :: "segment list \<Rightarrow> bool" where
  "by_first \<equiv> sorted_wrt (\<lambda>s t. sg_first_index s < sg_first_index t)"

lemma by_first_distinct: "by_first ss \<Longrightarrow> distinct (map sg_first_index ss)"
  by (induction ss) auto

lemma seg_insert_sorted:
  "by_first ss \<Longrightarrow> sg_first_index s \<notin> sg_first_index ` set ss \<Longrightarrow> by_first (seg_insert s ss) \<and> mset (seg_insert s ss) = mset (s # ss)"
proof (induction ss)
  case (Cons t ts)
  then have IH: "by_first (seg_insert s ts)" "mset (seg_insert s ts) = mset (s # ts)" by auto
  have "set (seg_insert s ts) = set (s # ts)" using mset_eq_setD [OF IH(2)] .
  then show ?case using Cons.prems IH by (auto intro: order.strict_trans)
qed simp

lemma fold_seg_insert:
  "by_first ts \<Longrightarrow> distinct (map sg_first_index (ss @ ts)) \<Longrightarrow>
     by_first (fold seg_insert ss ts) \<and> mset (fold seg_insert ss ts) = mset (ss @ ts)"
proof (induction ss arbitrary: ts)
  case (Cons s ss)
  then have "sg_first_index s \<notin> sg_first_index ` set ts" by auto
  note i = seg_insert_sorted [OF Cons.prems(1) this]
  have st: "set (seg_insert s ts) = insert s (set ts)" using mset_eq_setD [OF conjunct2 [OF i]] by simp
  have "distinct (map sg_first_index (seg_insert s ts))" by (rule by_first_distinct [OF conjunct1 [OF i]])
  then have "distinct (map sg_first_index (ss @ seg_insert s ts))" using Cons.prems(2) st by auto
  from Cons.IH [OF conjunct1 [OF i] this] i show ?case by simp
qed simp

lemma by_first_unique:
  "by_first xs \<Longrightarrow> by_first ys \<Longrightarrow> set xs = set ys \<Longrightarrow> xs = ys"
proof (induction xs arbitrary: ys)
  case (Cons x xs)
  then obtain y ys' where ys: "ys = y # ys'" by (cases ys) auto
  have "x = y"
  proof (rule ccontr)
    assume "x \<noteq> y"
    with Cons.prems ys have "x \<in> set ys'" "y \<in> set xs" by (metis list.set_intros(1) set_ConsD)+
    with Cons.prems(1,2) ys show False by fastforce
  qed
  moreover have "x \<notin> set xs" "y \<notin> set ys'" using Cons.prems(1,2) ys by auto
  ultimately have "set xs = set ys'" using Cons.prems(3) ys by auto
  with Cons.IH [of ys'] Cons.prems(1,2) ys \<open>x = y\<close> show ?case by simp
qed simp

lemma fold_seg_insert_perm:
  assumes "by_first ss" "mset xs = mset ss"
  shows "fold seg_insert xs [] = ss"
proof -
  have d: "distinct (map sg_first_index ss)" by (rule by_first_distinct [OF assms(1)])
  have "mset (map sg_first_index xs) = mset (map sg_first_index ss)" using assms(2) by simp
  then have "distinct (map sg_first_index xs)" using d mset_eq_imp_distinct_iff by blast
  from fold_seg_insert [of "[]" xs] this have f: "by_first (fold seg_insert xs [])" "mset (fold seg_insert xs []) = mset xs" by simp_all
  have "set (fold seg_insert xs []) = set ss" using mset_eq_setD f(2) assms(2) by metis
  from by_first_unique [OF f(1) assms(1) this] show ?thesis .
qed

text \<open>The checks of \<open>list_segments\<close> pass on segments without holes.\<close>

lemma check_segments_chain:
  "contiguous ss \<Longrightarrow> \<forall>s \<in> set ss. sg_first_index s \<le> sg_last_index s \<and> 0 < sg_first_index s \<Longrightarrow> ss \<noteq> [] \<Longrightarrow>
     ll \<noteq> -1 \<and> sg_first_index (hd ss) = ll + 1 \<or> ll = -1 \<and> sg_first_index (hd ss) \<le> fl \<and> fl \<le> sg_last_index (hd ss) \<Longrightarrow>
     check_segments fl ll ss = Some (ss, sg_last_index (last ss))"
proof (induction ss arbitrary: ll rule: contiguous.induct)
  case (3 s t ss)
  then have "check_segments fl (sg_last_index s) (t # ss) = Some (t # ss, sg_last_index (last (t # ss)))" by (intro "3.IH") auto
  with 3 show ?case by auto
qed auto

lemma read_dir_map:
  "\<forall>n \<in> set names. classify is_empty before files n = Inr (Some (g n)) \<Longrightarrow> read_dir is_empty before files names = Inr (Some (map g names))"
  by (induction names) simp_all

lemma mset_concat_map: "mset xs = mset ys \<Longrightarrow> mset (concat (map f xs)) = mset (concat (map f ys))"
  by (simp add: mset_concat flip: sum_mset_sum_list)

text \<open>Names that create no segment, among them the meta file and the entries for the directory itself and its parent.\<close>

definition inert :: "string \<Rightarrow> (string \<rightharpoonup> byte list) \<Rightarrow> string \<Rightarrow> bool" where
  "inert before files n \<longleftrightarrow> classify False before files n = Inr (Some Dir_tmp) \<or> classify False before files n = Inr (Some Dir_other)"

lemma inert_names: "inert before files meta_name" "inert before files ''.''" "inert before files ''..''"
  using is_tmp_last [of before]
  by (auto simp: inert_def classify_def meta_name_def scan_closed_def scan_open_def scan_literal_def scan_20ld_def scan_int_def is_space_def is_digit_def)

lemma inert_tmp: "length before = 4 \<Longrightarrow> inert before files (n @ ''.tmp'')"
  by (simp add: inert_def classify_def tmp_name)

lemma load_closed_written:
  "\<forall>s \<in> set ss. \<exists>es. written cd ck s es \<and> length es \<le> fuel \<Longrightarrow> ck < 2 \<Longrightarrow>
     load_closed fuel cd (map (found ck) ss) ll cm =
       Some (Inr (OK0, map reloaded ss, if ss = [] then ll else sg_last_index (last ss), cm))"
proof (induction ss arbitrary: ll)
  case (Cons s ss)
  then obtain es where "written cd ck s es" "length es \<le> fuel" by auto
  from written_load [OF this(1) Cons.prems(2) this(2)] Cons show ?case by (simp add: reloaded_def)
qed simp

text \<open>
  A storage whose segments hold what was appended to them, without holes, closed except for the open one, and the first of which
  reaches the first log index.
\<close>

definition durable :: "codec \<Rightarrow> nat \<Rightarrow> nat \<Rightarrow> segment_log \<Rightarrow> bool" where
  "durable cd ck fuel sl \<longleftrightarrow> sl_wf sl \<and> sl_meta sl = Some (sl_first_log_index sl) \<and>
     1 \<le> sl_first_log_index sl \<and> sl_first_log_index sl \<le> sl_last_log_index sl \<and>
     (sl_segments sl \<noteq> [] \<longrightarrow> sg_first_index (hd (sl_segments sl)) \<le> sl_first_log_index sl \<and> sl_first_log_index sl \<le> sg_last_index (hd (sl_segments sl))) \<and>
     (\<forall>s \<in> set (sl_segments sl). \<not> sg_is_open s \<and> sg_first_index s \<le> sg_last_index s) \<and>
     (\<forall>op. sl_open_segment sl = Some op \<longrightarrow> sg_is_open op) \<and>
     (\<forall>s \<in> set (all_segments sl). 0 < sg_first_index s \<and> named_index (sg_first_index s) \<and> named_index (sg_last_index s) \<and>
        (\<exists>es. written cd ck s es \<and> length es \<le> fuel))"

text \<open>The files of a storage in a directory that may hold other names too, in any order.\<close>

definition stored_in :: "string \<Rightarrow> (string \<rightharpoonup> byte list) \<Rightarrow> string list \<Rightarrow> segment_log \<Rightarrow> bool" where
  "stored_in before files names sl \<longleftrightarrow> (\<forall>s \<in> set (all_segments sl). files (file_name s) = Some (sg_file s)) \<and>
     (\<exists>extra. mset names = mset (list_files sl @ extra) \<and> (\<forall>n \<in> set extra. inert before files n))"

lemma closed_of_entry: "closed_of ck (entry_of s) = (if sg_is_open s then [] else [found ck s])"
  and opens_of_entry: "opens_of ck (entry_of s) = (if sg_is_open s then [found ck s] else [])"
  by (simp_all add: entry_of_def found_def)

lemma list_files_all: "list_files sl = meta_name # map file_name (all_segments sl)"
  by (simp add: list_files_def all_segments_def split: option.splits)

lemma stored_objects:
  assumes "durable cd ck fuel sl"
  shows "concat (map (closed_of ck) (map entry_of (all_segments sl))) = map (found ck) (sl_segments sl)"
    "concat (map (opens_of ck) (map entry_of (all_segments sl))) = (case sl_open_segment sl of None \<Rightarrow> [] | Some op \<Rightarrow> [found ck op])"
proof -
  have "\<forall>s \<in> set (sl_segments sl). \<not> sg_is_open s" "\<forall>op. sl_open_segment sl = Some op \<longrightarrow> sg_is_open op"
    using assms by (auto simp: durable_def)
  moreover have "\<forall>s \<in> set ss. \<not> sg_is_open s \<Longrightarrow>
      concat (map (closed_of ck) (map entry_of ss)) = map (found ck) ss \<and> concat (map (opens_of ck) (map entry_of ss)) = []" for ss
    by (induction ss) (simp_all add: closed_of_entry opens_of_entry)
  ultimately show "concat (map (closed_of ck) (map entry_of (all_segments sl))) = map (found ck) (sl_segments sl)"
    "concat (map (opens_of ck) (map entry_of (all_segments sl))) = (case sl_open_segment sl of None \<Rightarrow> [] | Some op \<Rightarrow> [found ck op])"
    by (simp_all add: all_segments_def closed_of_entry opens_of_entry split: option.splits)
qed

lemma read_dir_stored:
  assumes "durable cd ck fuel sl" "stored_in before files names sl"
  shows "\<exists>ds. read_dir False before files names = Inr (Some ds) \<and>
    mset (concat (map (closed_of ck) ds)) = mset (map (found ck) (sl_segments sl)) \<and>
    concat (map (opens_of ck) ds) = (case sl_open_segment sl of None \<Rightarrow> [] | Some op \<Rightarrow> [found ck op])"
proof -
  obtain extra where ex: "mset names = mset (list_files sl @ extra)" "\<forall>n \<in> set extra. inert before files n"
    using assms(2) by (auto simp: stored_in_def)
  define g where "g n = (case classify False before files n of Inr (Some d) \<Rightarrow> d | _ \<Rightarrow> Dir_other)" for n
  have seg: "classify False before files (file_name s) = Inr (Some (entry_of s))" if "s \<in> set (all_segments sl)" for s
    using that assms by (intro classify_file_name) (auto simp: durable_def stored_in_def)
  have all: "classify False before files n = Inr (Some (g n))" if "n \<in> set names" for n
  proof -
    have "n \<in> set (list_files sl @ extra)" using that mset_eq_setD [OF ex(1)] by simp
    then consider s where "s \<in> set (all_segments sl)" "n = file_name s" | "inert before files n"
      using ex(2) inert_names(1) by (auto simp: list_files_all)
    then show ?thesis by cases (auto simp: g_def seg inert_def)
  qed
  have gs: "map g (map file_name (all_segments sl)) = map entry_of (all_segments sl)" using seg by (simp add: g_def)
  have gi: "closed_of ck (g n) = []" "opens_of ck (g n) = []" if "inert before files n" for n using that by (auto simp: g_def inert_def)
  have none: "concat (map (closed_of ck) (map g (meta_name # extra))) = []" "concat (map (opens_of ck) (map g (meta_name # extra))) = []"
    using gi ex(2) inert_names(1) [of before files] by (auto simp: concat_eq_Nil_conv)
  have m: "mset (map g names) = mset (map g (map file_name (all_segments sl) @ meta_name # extra))"
    using ex(1) by (simp add: list_files_all multiset.map_comp)
  have split: "concat (map f (map g (map file_name (all_segments sl) @ meta_name # extra))) =
      concat (map f (map entry_of (all_segments sl))) @ concat (map f (map g (meta_name # extra)))" for f :: "dir_entry \<Rightarrow> segment list"
    by (simp only: map_append concat_append gs)
  note c = stored_objects(1) [OF assms(1)] and o = stored_objects(2) [OF assms(1)]
  have cm: "mset (concat (map (closed_of ck) (map g names))) = mset (map (found ck) (sl_segments sl))"
    using mset_concat_map [OF m, of "closed_of ck"] unfolding split none c by simp
  have "mset (concat (map (opens_of ck) (map g names))) = mset (case sl_open_segment sl of None \<Rightarrow> [] | Some op \<Rightarrow> [found ck op])"
    using mset_concat_map [OF m, of "opens_of ck"] unfolding split none o by simp
  then have "concat (map (opens_of ck) (map g names)) = (case sl_open_segment sl of None \<Rightarrow> [] | Some op \<Rightarrow> [found ck op])"
    by (cases "sl_open_segment sl") simp_all
  with cm read_dir_map [of names False before files g] all show ?thesis by blast
qed

lemma found_simps [simp]: "sg_first_index (found ck s) = sg_first_index s" "\<not> sg_is_open s \<Longrightarrow> sg_last_index (found ck s) = sg_last_index s"
  by (simp_all add: found_def closed_segment_def)

lemma reloaded_simps [simp]:
  "sg_first_index (reloaded s) = sg_first_index s" "sg_last_index (reloaded s) = sg_last_index s" "sg_is_open (reloaded s) = sg_is_open s"
  by (simp_all add: reloaded_def)

lemma contiguous_map:
  "(\<And>s. s \<in> set ss \<Longrightarrow> sg_first_index (f s) = sg_first_index s \<and> sg_last_index (f s) = sg_last_index s) \<Longrightarrow> contiguous (map f ss) = contiguous ss"
  by (induction ss rule: contiguous.induct) auto

lemma seg_get_reloaded: "seg_get cd i (reloaded s) = seg_get cd i s"
proof -
  have m: "get_meta i (reloaded s) = get_meta i s" and f: "sg_file (reloaded s) = sg_file s"
    unfolding get_meta_def Let_def reloaded_def by simp_all
  show ?thesis unfolding seg_get_def m f ..
qed

lemma list_segments_stored:
  assumes "durable cd ck fuel sl" "stored_in before files names sl" "read_dir False before files names = Inr (Some ds)"
    and sl0: "sl_segments sl0 = []" "sl_open_segment sl0 = None" "sl_checksum_type sl0 = ck" "sl_first_log_index sl0 = sl_first_log_index sl"
  shows "list_segments False (Some ds) sl0 =
    (OK0, sl0\<lparr>sl_segments := map (found ck) (sl_segments sl), sl_open_segment := map_option (found ck) (sl_open_segment sl)\<rparr>)"
proof -
  have ds: "mset (concat (map (closed_of ck) ds)) = mset (map (found ck) (sl_segments sl))"
    "concat (map (opens_of ck) ds) = (case sl_open_segment sl of None \<Rightarrow> [] | Some op \<Rightarrow> [found ck op])"
    using read_dir_stored [OF assms(1,2)] assms(3) by auto
  have cont: "contiguous (sl_segments sl)"
    using assms(1) contiguous_prefix by (auto simp: durable_def sl_wf_def all_segments_def)
  have cl: "\<forall>s \<in> set (sl_segments sl). \<not> sg_is_open s \<and> sg_first_index s \<le> sg_last_index s \<and> 0 < sg_first_index s"
    using assms(1) by (auto simp: durable_def all_segments_def)
  have srt: "by_first (map (found ck) (sl_segments sl))"
    using contiguous_sorted [OF cont] by (simp add: sorted_wrt_map) (erule sorted_wrt_mono_rel [rotated], simp)
  have "scan_dir False ds sl0 = (OK0, sl0\<lparr>sl_segments := map (found ck) (sl_segments sl), sl_open_segment := map_option (found ck) (sl_open_segment sl)\<rparr>)"
    using scan_dir_objects [of sl0 ds] fold_seg_insert_perm [OF srt ds(1)] ds(2) sl0 by (cases "sl_open_segment sl") simp_all
  moreover have "\<exists>l. check_segments (sl_first_log_index sl) (-1) (map (found ck) (sl_segments sl)) = Some (map (found ck) (sl_segments sl), l)"
  proof (cases "sl_segments sl = []")
    case False
    have "contiguous (map (found ck) (sl_segments sl))" using cont cl by (subst contiguous_map) auto
    moreover have "sg_first_index (hd (sl_segments sl)) \<le> sl_first_log_index sl" "sl_first_log_index sl \<le> sg_last_index (hd (sl_segments sl))"
      using False assms(1) by (auto simp: durable_def)
    ultimately have "check_segments (sl_first_log_index sl) (-1) (map (found ck) (sl_segments sl)) =
        Some (map (found ck) (sl_segments sl), sg_last_index (last (map (found ck) (sl_segments sl))))"
      using False cl by (intro check_segments_chain) (auto simp: hd_map)
    then show ?thesis by blast
  qed simp
  ultimately show ?thesis using sl0 by (auto simp: list_segments_def)
qed

lemma all_segments_map: "sl_segments sl' = map f (sl_segments sl) \<Longrightarrow> sl_open_segment sl' = map_option f (sl_open_segment sl) \<Longrightarrow>
    all_segments sl' = map f (all_segments sl)"
  by (cases "sl_open_segment sl") (simp_all add: all_segments_def)

lemma load_segments_stored:
  assumes "durable cd ck fuel sl" "ck < 2" "sl_first_log_index sl0 = sl_first_log_index sl" "sl_last_log_index sl0 = 0"
    and "sl_segments sl0 = map (found ck) (sl_segments sl)" "sl_open_segment sl0 = map_option (found ck) (sl_open_segment sl)"
  shows "load_segments fuel cd sl0 cm =
    Some (Inr (OK0, sl0\<lparr>sl_segments := map reloaded (sl_segments sl), sl_open_segment := map_option reloaded (sl_open_segment sl),
      sl_last_log_index := sl_last_log_index sl\<rparr>, cm))"
proof -
  have wf: "sl_wf sl" and rng: "1 \<le> sl_first_log_index sl" "sl_first_log_index sl \<le> sl_last_log_index sl"
    and w: "\<forall>s \<in> set (all_segments sl). \<exists>es. written cd ck s es \<and> length es \<le> fuel"
    using assms(1) by (auto simp: durable_def)
  have "\<forall>s \<in> set (sl_segments sl). \<exists>es. written cd ck s es \<and> length es \<le> fuel" using w by (auto simp: all_segments_def)
  note lc = load_closed_written [OF this assms(2), of 0 cm]
  have pos: "sl_last_log_index sl \<noteq> 0" using rng by simp
  show ?thesis
  proof (cases "sl_open_segment sl")
    case None
    then have "sl_segments sl \<noteq> []" "sl_last_log_index sl = sg_last_index (last (sl_segments sl))"
      using wf rng by (auto simp: sl_wf_def all_segments_def)
    with lc pos None assms(3-6) show ?thesis by (simp add: load_segments_def)
  next
    case (Some op)
    then have l: "sl_last_log_index sl = sg_last_index op" using wf by (simp add: sl_wf_def all_segments_def)
    obtain es where "written cd ck op es" "length es \<le> fuel" using w Some by (auto simp: all_segments_def)
    from written_load [OF this(1) assms(2) this(2), of cm] lc pos Some l rng assms(3-6) show ?thesis
      by (simp add: load_segments_def)
  qed
qed

lemma log_storage_reloads:
  assumes "durable cd (if fast_crc then 1 else 0) fuel sl" "stored_in before files names sl"
  shows "\<exists>sl'. sl_start fuel cd fast_crc before files names save_ok (new_segment_log enable_sync (sl_meta sl)) cm = Some (Inr (OK0, sl', cm)) \<and>
    sl_wf sl' \<and> sl_first_log_index sl' = sl_first_log_index sl \<and> sl_last_log_index sl' = sl_last_log_index sl \<and>
    (\<forall>i. sl_get_entry cd i sl' = sl_get_entry cd i sl)"
proof -
  define ck :: nat where "ck = (if fast_crc then 1 else 0)"
  note dur = assms(1) [folded ck_def]
  have wf: "sl_wf sl" and meta: "sl_meta sl = Some (sl_first_log_index sl)" and ck: "ck < 2" using dur by (auto simp: durable_def ck_def)
  obtain ds where ds: "read_dir False before files names = Inr (Some ds)" using read_dir_stored [OF dur assms(2)] by blast
  define sl0 where "sl0 = (new_segment_log enable_sync (sl_meta sl))\<lparr>sl_checksum_type := ck, sl_first_log_index := sl_first_log_index sl\<rparr>"
  define sl1 where "sl1 = sl0\<lparr>sl_segments := map (found ck) (sl_segments sl), sl_open_segment := map_option (found ck) (sl_open_segment sl)\<rparr>"
  define sl' where "sl' = sl1\<lparr>sl_segments := map reloaded (sl_segments sl), sl_open_segment := map_option reloaded (sl_open_segment sl),
      sl_last_log_index := sl_last_log_index sl\<rparr>"
  have ls: "list_segments False (Some ds) sl0 = (OK0, sl1)"
    unfolding sl1_def by (rule list_segments_stored [OF dur assms(2) ds]) (simp_all add: sl0_def new_segment_log_def)
  have ld: "load_segments fuel cd sl1 cm = Some (Inr (OK0, sl', cm))"
    unfolding sl'_def by (rule load_segments_stored [OF dur ck]) (simp_all add: sl1_def sl0_def new_segment_log_def)
  have sl0: "load_meta ((new_segment_log enable_sync (sl_meta sl))\<lparr>sl_checksum_type := ck\<rparr>) = (OK0, sl0)"
    by (simp add: load_meta_def meta sl0_def new_segment_log_def)
  have start: "sl_start fuel cd fast_crc before files names save_ok (new_segment_log enable_sync (sl_meta sl)) cm = Some (Inr (OK0, sl', cm))"
    using ds ls ld sl0 by (simp add: sl_start_def sl_init_def meta ck_def [symmetric] new_segment_log_def)
  have fl: "sl_first_log_index sl' = sl_first_log_index sl" "sl_last_log_index sl' = sl_last_log_index sl"
    by (simp_all add: sl'_def sl1_def sl0_def)
  have all: "all_segments sl' = map reloaded (all_segments sl)" by (rule all_segments_map) (simp_all add: sl'_def)
  have wf': "sl_wf sl'" using wf by (auto simp: sl_wf_def all fl contiguous_map last_map)
  have cov: "covering i (map reloaded ss) = map_option reloaded (covering i ss)" for i ss
    by (simp add: covering_def filter_map comp_def last_map Let_def)
  have "sl_get_entry cd i sl' = sl_get_entry cd i sl" for i
    unfolding sl_get_entry_covering [OF wf] sl_get_entry_covering [OF wf'] all fl cov
    by (auto simp: seg_get_reloaded split: option.splits)
  with start wf' fl show ?thesis by blast
qed

text \<open>
  C24. Restarting the log storage: if every segment holds what was appended to it, then \<open>init\<close> on the directory, listed in any order and with
  temporary and foreign files in between, ends with success, and every index reads as it did before, with the same first and last index.
\<close>

theorem log_storage_restart:
  assumes "durable cd (if fast_crc then 1 else 0) fuel sl" "stored_in before files names sl"
  shows "\<exists>sl'. sl_start fuel cd fast_crc before files names save_ok (new_segment_log enable_sync (sl_meta sl)) cm = Some (Inr (OK0, sl', cm)) \<and>
    sl_wf sl' \<and> sl_first_log_index sl' = sl_first_log_index sl \<and> sl_last_log_index sl' = sl_last_log_index sl \<and>
    (\<forall>i. sl_get_entry cd i sl' = sl_get_entry cd i sl)"
  by (rule log_storage_reloads [OF assms])

text \<open>
  A removed segment does not come back: after \<open>unlink\<close> renamed the file of \<open>s\<close>, the directory stores the other segments, whether or not the
  background removal happened before the process ended.
\<close>

theorem unlinked_segment_stays_removed:
  assumes "seg_unlink True removed s files = (OK0, files')" "length before = 4"
    and "\<forall>t \<in> set (all_segments sl). files (file_name t) = Some (sg_file t) \<and> file_name t \<noteq> file_name s"
    and "mset names = mset (list_files sl @ (if removed then [] else [file_name s @ ''.tmp'']))"
  shows "stored_in before files' names sl"
proof -
  have tmp: "file_name t \<noteq> file_name s @ ''.tmp''" for t
    using not_tmp_names [of before] tmp_name [OF assms(2), of "file_name s"] unfolding file_name_def by metis
  have "files' = run_unlink removed (file_name s @ ''.tmp'') ((files(file_name s @ ''.tmp'' := files (file_name s)))(file_name s := None))"
    using assms(1) by (auto simp: seg_unlink_def Let_def split: if_splits)
  then have "files' (file_name t) = files (file_name t)" if "file_name t \<noteq> file_name s" for t
    using that tmp [of t] by (simp add: run_unlink_def)
  then have "\<forall>t \<in> set (all_segments sl). files' (file_name t) = Some (sg_file t)" using assms(3) by simp
  then show ?thesis
    unfolding stored_in_def
    by (intro conjI exI [of _ "if removed then [] else [file_name s @ ''.tmp'']"]) (simp_all add: assms(4) inert_tmp [OF assms(2)])
qed

section \<open>Examples\<close>

text \<open>A closed segment with the indexes 1 and 2, filled in the other order, and an open one with the index 3.\<close>

definition demo_closed :: segment where
  "demo_closed = (replay demo_cd [data_entry 2 1 [7], data_entry 1 1 []] (new_segment 1 1))
     \<lparr>sg_is_open := False, sg_valid_entries := 2, sg_pending_for_closing := False\<rparr>"

definition demo_open :: segment where
  "demo_open = replay demo_cd [data_entry 3 1 [8]] (new_segment 3 1)"

definition demo_stored :: segment_log where
  "demo_stored = (new_segment_log True (Some 1))\<lparr>sl_segments := [demo_closed], sl_open_segment := Some demo_open, sl_last_log_index := 3\<rparr>"

definition demo_files :: "string \<rightharpoonup> byte list" where
  "demo_files = [closed_name 1 2 \<mapsto> sg_file demo_closed, open_name 3 \<mapsto> sg_file demo_open]"

definition demo_listing :: "string list" where
  "demo_listing = [open_name 3, ''..'', closed_name 4 9 @ ''.tmp'', meta_name, closed_name 1 2]"

lemma demo_segments:
  "sg_first_index demo_closed = 1" "sg_last_index demo_closed = 2" "\<not> sg_is_open demo_closed"
  "sg_first_index demo_open = 3" "sg_last_index demo_open = 3" "sg_is_open demo_open"
  "written demo_cd 1 demo_closed [data_entry 2 1 [7], data_entry 1 1 []]" "written demo_cd 1 demo_open [data_entry 3 1 [8]]"
proof -
  show "sg_first_index demo_closed = 1" "sg_last_index demo_closed = 2" "\<not> sg_is_open demo_closed"
    "sg_first_index demo_open = 3" "sg_last_index demo_open = 3" "sg_is_open demo_open"
    by (simp_all add: demo_closed_def demo_open_def data_entry_def)
  show "written demo_cd 1 demo_closed [data_entry 2 1 [7], data_entry 1 1 []]"
    by (rule writtenI [OF demo_closed_def]) (simp add: plain_data_entry fits64_def array_size_def)
  show "written demo_cd 1 demo_open [data_entry 3 1 [8]]"
    by (rule writtenI [where f = 3 and b = True and v = 1 and p = False])
      (simp_all add: demo_open_def appended_def new_segment_def plain_data_entry fits64_def array_size_def Let_def)
qed

lemma demo_durable: "durable demo_cd 1 2 demo_stored"
proof -
  have "all_segments demo_stored = [demo_closed, demo_open]" by (simp add: all_segments_def demo_stored_def)
  moreover from this have "sl_wf demo_stored" by (simp add: sl_wf_def demo_segments) (simp add: demo_stored_def)
  ultimately show ?thesis
    using demo_segments by (auto simp: durable_def demo_stored_def new_segment_log_def named_index_def fits64_def intro!: exI)
qed

lemma demo_stored_in: "stored_in before demo_files demo_listing demo_stored" if "length before = 4"
proof -
  have s: "all_segments demo_stored = [demo_closed, demo_open]" by (simp add: all_segments_def demo_stored_def)
  have n: "file_name demo_closed = closed_name 1 2" "file_name demo_open = open_name 3" by (simp_all add: file_name_def demo_segments)
  have ne: "closed_name 1 2 \<noteq> open_name 3" by (simp add: closed_name_def open_name_def show_020d_def zero_pad_def show_nat.simps digit_char_def numeral_eq_Suc)
  have "demo_files (closed_name 1 2) = Some (sg_file demo_closed)" "demo_files (open_name 3) = Some (sg_file demo_open)"
    using ne by (simp_all add: demo_files_def)
  moreover have "mset demo_listing = mset (list_files demo_stored @ [''..'', closed_name 4 9 @ ''.tmp''])"
    by (simp add: list_files_all s n demo_listing_def)
  ultimately show ?thesis
    unfolding stored_in_def s
    by (intro conjI exI [of _ "[''..'', closed_name 4 9 @ ''.tmp'']"]) (simp_all add: n inert_names inert_tmp [OF that])
qed

lemma seg_rep_labels: "seg_rep cd s M \<Longrightarrow> seg_rep cd (s\<lparr>sg_is_open := b, sg_valid_entries := v, sg_pending_for_closing := p\<rparr>) M"
  by (simp add: seg_rep_def stored_at_def s_off_def s_fin_def)

definition demo_entry :: "int64 \<Rightarrow> log_entry" where
  "demo_entry i = (if i = 1 then data_entry 1 1 [] else if i = 2 then data_entry 2 1 [7] else data_entry 3 1 [8])"

lemma demo_reps:
  "seg_rep demo_cd demo_closed ((Map.empty(1 \<mapsto> data_entry 2 1 [7]))(0 \<mapsto> data_entry 1 1 []))"
  "seg_rep demo_cd demo_open (Map.empty(0 \<mapsto> data_entry 3 1 [8]))"
proof -
  let ?e1 = "data_entry 1 1 []" and ?e2 = "data_entry 2 1 [7]" and ?e3 = "data_entry 3 1 [8]"
  have st: "storable demo_cd ?e2 [7]" "storable demo_cd ?e1 []" "storable demo_cd ?e3 [8]"
    using plain_storable [OF plain_data_entry [of 1 2 1 "[7]" demo_cd]] plain_storable [OF plain_data_entry [of 1 1 1 "[]" demo_cd]]
      plain_storable [OF plain_data_entry [of 3 3 1 "[8]" demo_cd]]
    by (simp_all add: data_entry_def fits64_def array_size_def)
  have d: "le_data ?e1 = []" "le_data ?e2 = [7]" "le_data ?e3 = [8]" by (simp_all add: data_entry_def)
  have "seg_rep demo_cd (appended demo_cd ?e1 [] (appended demo_cd ?e2 [7] (new_segment 1 1))) ((Map.empty(1 \<mapsto> ?e2))(0 \<mapsto> ?e1))"
    using appended_rep [OF appended_rep [OF seg_rep_new [of 1 demo_cd 1] st(1)] st(2)] by (simp add: data_entry_def array_size_def)
  with d show "seg_rep demo_cd demo_closed ((Map.empty(1 \<mapsto> ?e2))(0 \<mapsto> ?e1))"
    unfolding demo_closed_def replay_simps by (intro seg_rep_labels) (simp only:)
  have "seg_rep demo_cd (appended demo_cd ?e3 [8] (new_segment 3 1)) (Map.empty(0 \<mapsto> ?e3))"
    using appended_rep [OF seg_rep_new [of 1 demo_cd 3] st(3)] by (simp add: data_entry_def array_size_def)
  with d show "seg_rep demo_cd demo_open (Map.empty(0 \<mapsto> ?e3))" unfolding demo_open_def replay_simps by (simp only:)
qed

lemma demo_stored_get: "i \<in> {1..3} \<Longrightarrow> sl_get_entry demo_cd i demo_stored = Inr (Some (demo_entry i))"
proof -
  assume "i \<in> {1..3}"
  then have i: "i = 1 \<or> i = 2 \<or> i = 3" by auto
  have g: "seg_get demo_cd 1 demo_closed = Inr (Some (demo_entry 1))" "seg_get demo_cd 2 demo_closed = Inr (Some (demo_entry 2))"
    "seg_get demo_cd 3 demo_open = Inr (Some (demo_entry 3))"
    using seg_get_rep [OF demo_reps(1), of 1] seg_get_rep [OF demo_reps(1), of 2] seg_get_rep [OF demo_reps(2), of 3]
    by (simp_all add: demo_segments array_size_def demo_entry_def)
  have s: "all_segments demo_stored = [demo_closed, demo_open]" by (simp add: all_segments_def demo_stored_def)
  have r: "sl_first_log_index demo_stored = 1" "sl_last_log_index demo_stored = 3" by (simp_all add: demo_stored_def new_segment_log_def)
  have "sl_wf demo_stored" using demo_durable by (simp add: durable_def)
  note c = sl_get_entry_covering [OF this, of demo_cd]
  show ?thesis using i g by (elim disjE) (simp_all add: c s r covering_def demo_segments)
qed

theorem log_storage_restart_witness:
  "\<forall>cm. \<exists>sl'. sl_start 2 demo_cd True ''abcd'' demo_files demo_listing True (new_segment_log True (Some 1)) cm = Some (Inr (OK0, sl', cm)) \<and>
     sl_get_entry demo_cd 2 sl' = Inr (Some (data_entry 2 1 [7])) \<and> sl_last_log_index sl' = 3"
proof
  fix cm
  have d: "durable demo_cd (if True then 1 else 0) 2 demo_stored" using demo_durable by simp
  have s: "stored_in ''abcd'' demo_files demo_listing demo_stored" by (rule demo_stored_in) simp
  have m: "sl_meta demo_stored = Some 1" "sl_last_log_index demo_stored = 3" by (simp_all add: demo_stored_def new_segment_log_def)
  from log_storage_restart [OF d s, of True True cm]
  show "\<exists>sl'. sl_start 2 demo_cd True ''abcd'' demo_files demo_listing True (new_segment_log True (Some 1)) cm = Some (Inr (OK0, sl', cm)) \<and>
     sl_get_entry demo_cd 2 sl' = Inr (Some (data_entry 2 1 [7])) \<and> sl_last_log_index sl' = 3" by (auto simp: m demo_stored_get demo_entry_def)
qed

end
