(* ===== verification/Server.thy ===== *)
theory Server
  imports Service Segment_Files Cluster_Example
begin

text \<open>
  The start of the sample server (\<open>src/examples/raft_server.cc\<close>): the options of the node (\<open>NodeOptions\<close> of \<open>raft.h\<close>), the registered storages
  (\<open>node.cc\<close>), \<open>SampleStateMachine::start\<close> and \<open>main\<close>. Over them: a server that is started again on its data directory.
\<close>

section \<open>Options\<close>

text \<open>The pointers \<open>fsm\<close> and \<open>log_storage\<close> are left out: the first is the sample machine, the second stays \<open>NULL\<close>.\<close>

record node_options =
  no_election_timeout_ms :: int
  no_snapshot_interval_s :: int
  no_catchup_margin :: int
  no_initial_conf :: configuration
  no_node_owns_fsm :: bool
  no_node_owns_log_storage :: bool
  no_usercode_in_pthread :: bool
  no_log_uri :: string
  no_raft_meta_uri :: string
  no_snapshot_uri :: string
  no_filter_before_copy_remote :: bool
  no_disable_cli :: bool

definition default_options :: node_options where
  "default_options =
     \<lparr>no_election_timeout_ms = 1000, no_snapshot_interval_s = 3600, no_catchup_margin = 1000, no_initial_conf = {||},
      no_node_owns_fsm = False, no_node_owns_log_storage = True, no_usercode_in_pthread = False, no_log_uri = [],
      no_raft_meta_uri = [], no_snapshot_uri = [], no_filter_before_copy_remote = False, no_disable_cli = False\<rparr>"

record server_flags =
  sf_conf :: string
  sf_election_timeout_ms :: int
  sf_data_path :: string
  sf_port :: int
  sf_snapshot_interval :: int
  sf_disable_cli :: bool
  sf_look_back :: int64

definition server_options :: "server_flags \<Rightarrow> configuration \<Rightarrow> node_options" where
  "server_options fl conf =
     (let prefix = ''local://'' @ sf_data_path fl
      in default_options\<lparr>no_initial_conf := conf, no_election_timeout_ms := sf_election_timeout_ms fl, no_node_owns_fsm := False,
           no_snapshot_interval_s := sf_snapshot_interval fl, no_log_uri := prefix @ ''/log'', no_raft_meta_uri := prefix @ ''/raft_meta'',
           no_snapshot_uri := prefix @ ''/snapshot'', no_disable_cli := sf_disable_cli fl\<rparr>)"

text \<open>The storages that \<open>global_init_or_die_impl\<close> registers: a new instance is determined by its path.\<close>

definition local_extension :: "string \<Rightarrow> (string \<Rightarrow> string) option" where
  "local_extension protocol = (if protocol = ''local'' then Some (\<lambda>path. path) else None)"

section \<open>Start\<close>

text \<open>
  What the system calls of the start return. \<open>si_log\<close> gives, for the path of a log storage, the index in its meta file, its files and the names
  that reading the directory returns.
\<close>

record server_io =
  si_mkdir_ok :: bool
  si_open_ok :: bool
  si_log :: "string \<Rightarrow> int64 option \<times> (string \<rightharpoonup> byte list) \<times> string list"
  si_before :: string
  si_fuel :: nat
  si_codec :: codec
  si_fast_crc :: bool
  si_save_ok :: bool
  si_enable_sync :: bool
  si_wait_map_ok :: bool
  si_meta_mkdir_ok :: bool
  si_meta_stale_enoent :: bool
  si_fsm_caller_ret :: rc
  si_queue_ok :: bool

text \<open>The log storage that \<open>init_log_storage\<close> creates and initialises; \<open>Inr None\<close> when the uri selects none, \<open>None\<close> when loading does not end.\<close>

definition open_log_storage :: "server_io \<Rightarrow> string \<Rightarrow> (rc \<times> segment_log \<times> configuration_manager) option res option" where
  "open_log_storage si uri =
     (case storage_create local_extension uri of
        None \<Rightarrow> Some (Inr None)
      | Some path \<Rightarrow>
          (case si_log si path of (meta, files, names) \<Rightarrow>
             case sl_start (si_fuel si) (si_codec si) (si_fast_crc si) (si_before si) files names (si_save_ok si)
                    (new_segment_log (si_enable_sync si) meta) new_configuration_manager of
               None \<Rightarrow> None
             | Some (Inl f) \<Rightarrow> Some (Inl f)
             | Some (Inr r) \<Rightarrow> Some (Inr (Some r))))"

definition init_inputs ::
    "server_flags \<Rightarrow> server_io \<Rightarrow> node_options \<Rightarrow> (rc \<times> segment_log \<times> configuration_manager) option \<Rightarrow> init_env" where
  "init_inputs fl si opt storage =
     \<lparr>io_initial_conf = no_initial_conf opt, io_server_id = PeerId 0 (sf_port fl) 0, io_look_back = sf_look_back fl,
      io_log_storage = storage, io_wait_map_ok = si_wait_map_ok si,
      io_meta_created = (storage_create local_extension (no_raft_meta_uri opt) \<noteq> None),
      io_meta_mkdir_ok = si_meta_mkdir_ok si, io_meta_stale_enoent = si_meta_stale_enoent si,
      io_fsm_caller_ret = si_fsm_caller_ret si, io_queue_ok = si_queue_ok si\<rparr>"

definition init_node_env :: "node_options \<Rightarrow> node_env \<Rightarrow> node_env" where
  "init_node_env opt ne =
     ne\<lparr>ne_election_timeout_ms := no_election_timeout_ms opt,
        ne_meta_path := (case storage_create local_extension (no_raft_meta_uri opt) of None \<Rightarrow> [] | Some path \<Rightarrow> path)\<rparr>"

text \<open>\<open>SampleStateMachine::start\<close>: the result of \<open>init\<close> is not looked at.\<close>

definition sample_start ::
    "node_env \<Rightarrow> (char \<Rightarrow> string \<Rightarrow> string list) \<Rightarrow> server_flags \<Rightarrow> server_io \<Rightarrow> ('c, 'r, 'w) node \<Rightarrow>
      (rc \<times> ('c, 'r, 'w) node_event list \<times> ('c, 'r, 'w) node) res option" where
  "sample_start ne splitter fl si nd =
     (if \<not> si_mkdir_ok si then Some (Inr (NEG1, [], nd))
      else if \<not> si_open_ok si then Some (Inr (NEG1, [], nd))
      else (case conf_parse_from (ne_str2ip ne) splitter (sf_conf fl) of
              Inl f \<Rightarrow> Some (Inl f)
            | Inr (ret, conf) \<Rightarrow>
                if ret \<noteq> OK0 then Some (Inr (NEG1, [], nd))
                else (let opt = server_options fl conf
                      in case open_log_storage si (no_log_uri opt) of
                           None \<Rightarrow> None
                         | Some (Inl f) \<Rightarrow> Some (Inl f)
                         | Some (Inr storage) \<Rightarrow>
                             (case node_init (init_node_env opt ne) (init_inputs fl si opt storage) nd of
                                Inl f \<Rightarrow> Some (Inl f)
                              | Inr (_, nd') \<Rightarrow> Some (Inr (OK0, node_start nd', nd'))))))"

text \<open>\<open>main\<close>: the calls it makes, in order, and its result. The rpc server runs before the node is initialised.\<close>

datatype main_call = Add_raft_service | Add_write_service | Server_start | Machine_start | Wait_for_quit | Machine_shutdown | Server_stop | Machine_join | Server_join

definition sample_main :: "bool \<Rightarrow> bool \<Rightarrow> bool \<Rightarrow> rc \<Rightarrow> rc \<times> main_call list" where
  "sample_main add1_ok add2_ok start_ok machine_ret =
     (if \<not> add1_ok then (NEG1, [Add_raft_service])
      else if \<not> add2_ok then (NEG1, [Add_raft_service, Add_write_service])
      else if \<not> start_ok then (NEG1, [Add_raft_service, Add_write_service, Server_start])
      else if machine_ret \<noteq> OK0 then (NEG1, [Add_raft_service, Add_write_service, Server_start, Machine_start])
      else (OK0, [Add_raft_service, Add_write_service, Server_start, Machine_start, Wait_for_quit, Machine_shutdown, Server_stop,
                  Machine_join, Server_join]))"

section \<open>Paths\<close>

lemma local_uri:
  assumes "\<forall>c \<in> set path. \<not> is_space c"
  shows "storage_create local_extension (''local://'' @ path) = Some path"
proof -
  have "parse_uri (''local'' @ ''://'' @ path) = (''local'', path)"
    unfolding parse_uri_def using assms split_uri_append [of "''local''" path] by (simp add: trim_spaces_id filter_id_conv is_space_def)
  then show ?thesis by (simp add: storage_create_def local_extension_def)
qed

lemma server_storages:
  assumes "\<forall>c \<in> set (sf_data_path fl). \<not> is_space c"
  shows "storage_create local_extension (no_log_uri (server_options fl C)) = Some (sf_data_path fl @ ''/log'')"
    "storage_create local_extension (no_raft_meta_uri (server_options fl C)) = Some (sf_data_path fl @ ''/raft_meta'')"
proof -
  have l: "storage_create local_extension (''local://'' @ (sf_data_path fl @ ''/log'')) = Some (sf_data_path fl @ ''/log'')"
    by (rule local_uri) (use assms in \<open>auto simp: is_space_def\<close>)
  have m: "storage_create local_extension (''local://'' @ (sf_data_path fl @ ''/raft_meta'')) = Some (sf_data_path fl @ ''/raft_meta'')"
    by (rule local_uri) (use assms in \<open>auto simp: is_space_def\<close>)
  show "storage_create local_extension (no_log_uri (server_options fl C)) = Some (sf_data_path fl @ ''/log'')"
    "storage_create local_extension (no_raft_meta_uri (server_options fl C)) = Some (sf_data_path fl @ ''/raft_meta'')"
    using l m by (simp_all add: server_options_def Let_def default_options_def)
qed

section \<open>Starting on an existing data directory\<close>

lemma sl_get_term_total: "sl_get_entry cd i sl = Inr x \<Longrightarrow> \<exists>t. sl_get_term i sl = Inr t"
  by (auto simp: sl_get_entry_def sl_get_term_def seg_get_def seg_get_term_def split: sum.splits option.splits prod.splits)

text \<open>The log manager of a node that was just initialised.\<close>

definition fresh_manager :: "init_env \<Rightarrow> segment_log \<Rightarrow> configuration_manager \<Rightarrow> int64 \<Rightarrow> ('c, 'w) log_manager" where
  "fresh_manager io sl cm t =
     (new_log_manager sl cm)\<lparr>lm_dependency_look_back := io_look_back io, lm_MAX_DEPENDENCY := mask (nat (io_look_back io)),
        lm_first_log_index := sl_first_log_index sl, lm_last_log_index := sl_last_log_index sl,
        lm_max_log_index := sl_last_log_index sl, lm_disk_id := LogId (sl_last_log_index sl) t\<rparr>"

lemma fresh_manager_reads:
  assumes "sl_first_log_index sl \<le> i" "i \<le> sl_last_log_index sl" "sl_get_entry cd i sl = Inr (Some e)"
  shows "lm_get_entry cd i (fresh_manager io sl cm t) = Inr (Some e, [], fresh_manager io sl cm t)"
  using assms by (simp add: lm_get_entry_def fresh_manager_def new_log_manager_def get_entry_from_memory_def)

lemma init_log_storage_ok:
  assumes "io_log_storage io = Some (OK0, sl, cm)" "io_wait_map_ok io" "sl_get_term (sl_last_log_index sl) sl = Inr t"
  shows "init_log_storage io = Inr (OK0, Some (fresh_manager io sl cm t))"
  using assms by (simp add: init_log_storage_def lm_init_def Let_def fresh_manager_def storage_max_log_index_def new_log_manager_def)

lemma init_commit_ok: "\<exists>nd'. init_commit nd = (OK0, nd') \<and> nd_log_manager nd' = nd_log_manager nd \<and> nd_peer_list nd' = nd_peer_list nd"
  by (simp add: init_commit_def ballot_box_init_def Let_def split: option.splits)

lemma init_meta_storage_ok:
  assumes "stored ne (nd_files nd) (meta_of t v)" "0 \<le> t" "t \<le> int32_max"
  shows "init_meta_storage ne True e nd = (OK0, nd\<lparr>nd_meta := meta_of t v, nd_current_term := t, nd_voted_id := v\<rparr>)"
  using assms to_int32_id [of t]
  by (simp add: stored_def init_meta_storage_def rm_get_votedfor_def rm_get_term_def meta_of_def)

lemma node_init_ok:
  assumes "io_log_storage io = Some (OK0, sl, cm)" "io_wait_map_ok io" "sl_get_term (sl_last_log_index sl) sl = Inr tm"
    and "io_meta_created io" "io_meta_mkdir_ok io" "io_fsm_caller_ret io = OK0" "io_queue_ok io"
    and "stored ne (nd_files nd) (meta_of t v)" "0 \<le> t" "t \<le> int32_max"
  shows "\<exists>nd'. node_init ne io nd = Inr (OK0, nd') \<and> nd_log_manager nd' = fresh_manager io sl cm tm \<and> nd_peer_list nd' = io_initial_conf io \<and>
    nd_current_term nd' = t \<and> nd_voted_id nd' = v \<and> nd_state nd' = STATE_FOLLOWER \<and> nd_server_id nd' = io_server_id io"
proof -
  define nd1 where "nd1 = nd\<lparr>nd_conf := (nd_conf nd)\<lparr>ce_id := new_log_id, ce_conf := io_initial_conf io\<rparr>, nd_server_id := io_server_id io,
    nd_dependency_look_back := io_look_back io, nd_peer_list := io_initial_conf io, nd_log_manager := fresh_manager io sl cm tm\<rparr>"
  define nd2 where "nd2 = nd1\<lparr>nd_meta := meta_of t v, nd_current_term := t, nd_voted_id := v\<rparr>"
  have "stored ne (nd_files nd1) (meta_of t v)" using assms(8) by (simp add: nd1_def)
  from init_meta_storage_ok [OF this assms(9,10)]
  have m: "init_meta_storage ne True (io_meta_stale_enoent io) nd1 = (OK0, nd2)" by (simp add: nd2_def)
  obtain nd' where c: "init_commit nd2 = (OK0, nd')" "nd_log_manager nd' = nd_log_manager nd2" "nd_peer_list nd' = nd_peer_list nd2"
    using init_commit_ok [of nd2] by blast
  have "node_init ne io nd = Inr (OK0, nd')"
    unfolding node_init_def init_log_storage_ok [OF assms(1-3)] using m c(1) assms(4-7) by (simp add: nd1_def Let_def)
  then show ?thesis using c(2,3) init_commit_fields [OF c(1)] by (simp add: nd2_def nd1_def)
qed


text \<open>
  A failed \<open>init\<close> is not noticed: when the log directory cannot be opened, \<open>start\<close> returns 0, and on port 8000 the election timer of the
  node runs.
\<close>

theorem failed_init_starts_anyway:
  fixes nd :: "('c, 'r, 'w) node"
  assumes "conf_parse_from (ne_str2ip ne) splitter (sf_conf fl) = Inr (OK0, C)" "si_mkdir_ok si" "si_open_ok si"
    and "open_log_storage si (no_log_uri (server_options fl C)) = Some (Inr (Some (ret, sl, cm)))" "ret \<noteq> OK0" "sf_port fl = 8000"
  shows "\<exists>nd'. sample_start ne splitter fl si nd = Some (Inr (OK0, [Start_timer Election_timer], nd'))"
proof -
  let ?opt = "server_options fl C"
  let ?io = "init_inputs fl si ?opt (Some (ret, sl, cm))"
  have "\<exists>ret2 lm. init_log_storage ?io = (Inr (ret2, Some lm) :: (rc \<times> ('r stable_closure, 'w) log_manager option) res) \<and> ret2 \<noteq> OK0"
    using assms(5) by (cases "si_wait_map_ok si") (simp_all add: init_log_storage_def init_inputs_def lm_init_def Let_def)
  then obtain ret2 lm where l: "init_log_storage ?io = (Inr (ret2, Some lm) :: (rc \<times> ('r stable_closure, 'w) log_manager option) res)" "ret2 \<noteq> OK0"
    by blast
  have "io_server_id ?io = PeerId 0 8000 0" using assms(6) by (simp add: init_inputs_def)
  then have "\<exists>nd'. node_init (init_node_env ?opt ne) ?io nd = Inr (NEG1, nd') \<and> nd_server_id nd' = PeerId 0 8000 0"
    using l(2) by (simp add: node_init_def l(1) Let_def)
  then show ?thesis using assms(1-4) by (auto simp: sample_start_def Let_def node_start_def)
qed

section \<open>Example\<close>

text \<open>
  A server with the flags of the example configuration whose directory holds three entries in two segments, and the vote for server 2 in term 5.
\<close>

definition demo_flags :: server_flags where
  "demo_flags = \<lparr>sf_conf = conf_print demo_endpoint conf3, sf_election_timeout_ms = 5000, sf_data_path = ''data'', sf_port = 8000,
     sf_snapshot_interval = 30, sf_disable_cli = False, sf_look_back = 63\<rparr>"

definition demo_server_io :: server_io where
  "demo_server_io = \<lparr>si_mkdir_ok = True, si_open_ok = True,
     si_log = (\<lambda>path. if path = ''data/log'' then (Some 1, demo_files, demo_listing) else (None, Map.empty, [])),
     si_before = ''abcd'', si_fuel = 2, si_codec = demo_cd, si_fast_crc = True, si_save_ok = True, si_enable_sync = True,
     si_wait_map_ok = True, si_meta_mkdir_ok = True, si_meta_stale_enoent = False, si_fsm_caller_ret = OK0, si_queue_ok = True\<rparr>"

definition demo_saved_files :: file_system where
  "demo_saved_files = snd (rm_save (ne_codec demo_env) (peer_to_string (ne_endpoint2str demo_env)) ''data/raft_meta'' True Save_completes
     (meta_of 5 (peer_n 2)) Map.empty)"

lemma demo_flags_conf: "conf_parse_from (ne_str2ip demo_env) (\<lambda>sep. demo_split sep []) (sf_conf demo_flags) = Inr (OK0, conf3)"
proof -
  have "\<forall>p \<in> fset conf3. address_text demo_ip_of demo_endpoint demo_ip (peer_ip p) \<and> fits_int (peer_port p) \<and> fits_int (peer_idx p)"
    using demo_address3 by (simp add: conf3_def peer_n_def fits_int_def)
  from conf_parse_print [of "\<lambda>sep. demo_split sep []", OF _ this] show ?thesis
    by (simp add: demo_flags_def demo_env_def demo_split_join)
qed

lemma demo_saved: "stored (demo_env\<lparr>ne_meta_path := ''data/raft_meta''\<rparr>) demo_saved_files (meta_of 5 (peer_n 2))"
proof -
  let ?ne = "demo_env\<lparr>ne_meta_path := ''data/raft_meta''\<rparr>"
  have env: "env_ok ?ne demo_ip conf3" using env_ok_demo by (simp add: env_ok_def)
  have step: "step_env ?ne ?ne" by (simp add: step_env_def demo_env_def)
  obtain r where "rm_save (ne_codec ?ne) (peer_to_string (ne_endpoint2str ?ne)) (ne_meta_path ?ne) (ne_meta_sync ?ne) (ne_save_outcome ?ne)
      (meta_of 5 (peer_n 2)) Map.empty = (r, demo_saved_files)"
    by (cases "rm_save (ne_codec demo_env) (peer_to_string (ne_endpoint2str demo_env)) ''data/raft_meta'' True Save_completes
      (meta_of 5 (peer_n 2)) Map.empty") (simp add: demo_saved_files_def demo_env_def)
  from rm_save_stored [OF env step _ _ _ this] show ?thesis by (simp add: meta_of_def int32_max_def)
qed


theorem failed_init_starts_anyway_witness:
  "\<exists>nd'. sample_start demo_env (\<lambda>sep. demo_split sep []) demo_flags
      (demo_server_io\<lparr>si_log := (\<lambda>_. (None, Map.empty, [])), si_save_ok := False\<rparr>) (demo_node 1) =
    Some (Inr (OK0, [Start_timer Election_timer], nd'))"
proof -
  let ?si = "demo_server_io\<lparr>si_log := (\<lambda>_. (None, Map.empty, [])), si_save_ok := False\<rparr>"
  have si: "si_mkdir_ok ?si" "si_open_ok ?si" "sf_port demo_flags = 8000" by (simp_all add: demo_server_io_def demo_flags_def)
  have sp: "\<forall>c \<in> set (sf_data_path demo_flags). \<not> is_space c" by (simp add: demo_flags_def is_space_def)
  have "\<exists>ret sl cm. open_log_storage ?si (no_log_uri (server_options demo_flags conf3)) = Some (Inr (Some (ret, sl, cm))) \<and> ret \<noteq> OK0"
    by (simp add: open_log_storage_def server_storages(1) [OF sp] sl_start_def sl_init_def load_meta_def new_segment_log_def list_segments_def
        load_segments_def save_meta_def Let_def)
  then obtain ret sl cm where "open_log_storage ?si (no_log_uri (server_options demo_flags conf3)) = Some (Inr (Some (ret, sl, cm)))" "ret \<noteq> OK0"
    by blast
  from failed_init_starts_anyway [OF demo_flags_conf si(1,2) this si(3)] show ?thesis by blast
qed

end
