(* ===== verification/Spec2Isabelle.thy ===== *)
theory Spec2Isabelle
  imports Ballot_Box Leader_Log Follower Replicator_Group Replicated_File Checksum File_System Node_Timers Sample_Client Counter Server
begin

text \<open>
  A verification development of hit-consistency, a C++ implementation of Raft with out-of-order replication
  (\<open>src/cpp\<close>). Clients give tasks with a dependency id to the leader; the leader stamps each log entry with a bit set of the
  earlier entries it conflicts with; followers may receive, store and commit entries out of order as long as the entries
  they depend on have arrived.

  \<^bold>\<open>The program and how its parts interact.\<close>
  \<open>NodeImpl\<close> (\<open>node.cc\<close>) is the state machine of a server. It elects a leader with \<open>Ballot\<close>, saves its term and vote through
  \<open>LocalRaftMetaStorage\<close>, applies tasks by opening a ballot in \<open>BallotBox\<close> and appending an entry to \<open>LogManager\<close>, and as a
  follower hands the entries of AppendEntries requests to \<open>LogManager\<close> or keeps the requests in \<open>AppendEntriesCache\<close>.
  \<open>LogManager\<close> keeps the newest entries in memory, with gaps, and a bitmap of what was received; its disk thread writes them to
  \<open>SegmentLogStorage\<close>, a sequence of \<open>Segment\<close> files, and then runs the closure of the caller, which on the leader is a vote in
  \<open>BallotBox\<close>. On the leader, \<open>ReplicatorGroup\<close> keeps one \<open>Replicator\<close> per follower, which sends the entries of the log one by one, with several
  requests in flight, and turns the answers into votes in \<open>BallotBox\<close>. An index with a quorum is committed; \<open>FSMCaller\<close> then takes the
  closures of the client from \<open>ClosureQueue\<close> and shows the entries to the state machine of the user.
  \<open>RepeatedTimerTask\<close> drives the timeouts. \<open>ConfigurationManager\<close> keeps the history of configurations found in the log.

  \<^bold>\<open>Theories.\<close>
  \<^item> \<open>Prelude\<close>, \<open>Bytes\<close>: return codes, undefined behaviour as the values of \<open>fault\<close>, element access with its faults, big-endian packing.
  \<^item> \<open>Configuration\<close>, \<open>Peer_Text\<close> (\<open>configuration.h\<close>, \<open>configuration.cc\<close>): \<open>PeerId\<close> with its order, \<open>Configuration\<close> as a finite set,
    and the text forms. A printed configuration parses back.
  \<^item> \<open>Ballot\<close> (\<open>ballot.h\<close>, \<open>ballot.cc\<close>): a ballot refines a set of votes; \<open>quorum_system\<close> is the interface of quorums, interpreted
    by majorities.
  \<^item> \<open>Window\<close>: the interface \<open>sliding_window\<close> of a queue of slots that are marked in any order and leave at the front.
    \<open>Closure_Queue\<close> (\<open>closure_queue.cc\<close>) and \<open>Ballot_Box\<close> (\<open>ballot_box.cc\<close>) interpret it; every closure is handed out once, and an
    index is committed exactly when a quorum stored it.
  \<^item> \<open>Log_Entry\<close>, \<open>Configuration_Manager\<close>: entries, their ids and the history of configurations.
  \<^item> \<open>Timer\<close> (\<open>repeated_timer_task.cc\<close>): all interleavings of a timer with its callbacks.
  \<^item> \<open>Raft_Meta\<close> (\<open>protobuf_file.cc\<close>, \<open>raft_meta.cc\<close>): the saved term and vote over a map of files, with every system call that can
    fail; a save is atomic.
  \<^item> \<open>Segment\<close>, \<open>Log_Storage\<close> (\<open>log.cc\<close>): the byte layout of entries, append, read, truncate, load, and the map of segments.
    \<open>Segment_Files\<close>: the names of the files, reading them back from a directory, removal, and the restart of a storage. \<open>Checksum\<close> (\<open>util.h\<close>):
    checksums over the blocks of a buffer.
  \<^item> \<open>Log_Manager\<close> (\<open>log_manager.cc\<close>): the memory tail, the bitmap, conflict resolution, the disk queue and the waiters. The tail is
    related to the partial map of the entries received.
  \<^item> \<open>Append_Cache\<close> (\<open>node.cc\<close>, \<open>AppendEntriesCache\<close>): the requests that wait for their dependencies.
  \<^item> \<open>Node\<close> (\<open>node.h\<close>, \<open>node.cc\<close>): the record \<open>node\<close> has the fields of \<open>NodeImpl\<close>; one definition per handler. A handler that gives up the
    mutex to ask the disk queue is two definitions.
  \<^item> \<open>Dependency\<close>: the bits that \<open>check_dependency\<close> of the node stamps, and what \<open>check_dependency\<close> of the log manager makes of them.
  \<^item> \<open>Election\<close>, \<open>Cluster\<close>, \<open>Cluster_Example\<close>: what every handler does to term, vote and role; a cluster as a step relation over the
    handlers, the messages in flight, crashes and restarts; its invariant, and a run that elects a leader.
  \<^item> \<open>Leader_Log\<close>, \<open>Follower\<close>: how tasks enter the log of a leader, and which leader a follower follows.
  \<^item> \<open>Fsm_Caller\<close> (\<open>fsm_caller.cc\<close>, \<open>Iterator\<close> of \<open>raft.cc\<close>): the queue of tasks, \<open>do_committed\<close> and the iterator over committed entries; the
    state machine of the user is a parameter. \<open>Fsm_Apply\<close>: which entries are applied, how often and in which order; \<open>committed_log\<close> is the
    interface of the log that it reads, interpreted by the log manager.
  \<^item> \<open>Replicator\<close> (\<open>replicator.cc\<close>): the record \<open>replicator\<close> and one definition per handler, over the log manager and the ballot box.
    \<open>Replicator_Ack\<close>: the window of acknowledged indexes, another interpretation of \<open>sliding_window\<close>, and the votes it becomes.
    \<open>Replicator_Commit\<close>: what a request carries and announces. \<open>Replicator_Run\<close>: all interleavings of the handlers and their invariant.
  \<^item> \<open>Replicator_Group\<close> (\<open>replicator.cc\<close>, \<open>ReplicatorGroup\<close>): the map from followers to replicators, its invariant, the choice of a candidate,
    stopping, and what the calls of \<open>become_leader\<close> do.
  \<^item> \<open>File_Io\<close> (\<open>util.cc\<close>), \<open>Reorder\<close>, \<open>Sample_Machine\<close> (\<open>raft_server.cc\<close>): the replicated file of the example, its writes through partial and
    interrupted system calls, and replicas that apply them in different orders; \<open>commuting_actions\<close> is the interface of actions that may be
    reordered, interpreted by writes to a file.
    \<open>Replicated_File\<close>: a batch of commits through \<open>FSMCaller\<close> and the sample machine together, on a leader and on a follower.
  \<^item> \<open>Service\<close> (\<open>node.cc\<close>, \<open>raft_service.cc\<close>, \<open>storage.cc\<close>): how client requests become tasks, and how a uri selects a storage.
  \<^item> \<open>Node_Timers\<close> (\<open>node.cc\<close>): the periods of the timers, and when a follower notices that its leader is gone.
  \<^item> \<open>Server\<close> (\<open>raft_server.cc\<close>, \<open>raft.h\<close>): options, start and main of the sample server; a start on an existing data directory.
    \<open>Sample_Client\<close> (\<open>raft_client.cc\<close>): the writes of the load generator and its measuring loop.
  \<^item> \<open>File_System\<close> (\<open>file_system_adaptor.cc\<close>, \<open>fsync.h\<close>), \<open>Counter\<close> (\<open>util.cc\<close>): the wrappers of files and directories, and the names of counters.

  \<^bold>\<open>How the model corresponds to the code.\<close>
  A class is a record with the fields of the class; a method is a function from the arguments and the state to the return code, the
  calls it makes outside (events, in order) and the new state. Undefined behaviour is \<open>Inl\<close> of a \<open>fault\<close>. \<open>CHECK\<close> only
  logs and is not a branch. Indexes and terms are unbounded integers; the 32-bit \<open>_current_term\<close>, the 64-bit dependencies, the
  1024-bit bitmap and the file headers have their width. Locks make the handlers atomic; where the code unlocks, the model has two steps.
  Code outside \<open>src/\<close> is a parameter: the protobuf coding of the meta and configuration messages, checksums, the address functions,
  the splitter of strings, and the outcome of every system call.

  \<^bold>\<open>Loops and fuel.\<close>
  Loops over containers are structural recursions. \<open>Segment::load\<close> runs with fuel, because it does not terminate on files with
  truncated entries; enough fuel for all other files is the size of the file. \<open>resolve_dependency\<close> shifts a positive 64-bit number to
  the right, so 64 steps are enough. \<open>execute_applying_tasks\<close> and the loops over the iterator of committed entries have a measure. The loop of
  \<open>create_sub_directory\<close> over parent directories may not end for an arbitrary path library and is a partial function; it is shown to end for relative paths.

  \<^bold>\<open>What the theorems show.\<close>
  Safety of elections: a term has at most one leader, and a node one vote per term, for a fixed configuration, provided that the saves of the
  meta complete; the theorem about forgotten votes shows that this is needed. Safety of commits: quorums of one configuration meet, and
  the ballot box commits exactly the indexes with a quorum; every acknowledged index is reported to it once, as one vote of the follower.
  Application: a leader shows every committed entry to the state machine once, with its closure; batches of commits are merged; replicas of the
  sample file converge when the writes that meet are ordered by their dependency. Order of dependent entries: a follower takes an entry only after the entries with the
  same dependency id in the look-back window. Durability: entries, terms and votes are read back after a restart, up to the start of the
  whole server on its data directory. Liveness: a follower notices a lost leader within two seconds of the election timeout. Bookkeeping of the closures, timers,
  caches and configurations. The theorems of kind error state where the code departs from this, each with a concrete instance.

  \<^bold>\<open>Not modelled.\<close>
  The rpcs of \<open>raft_service.cc\<close> other than \<open>client_request\<close> only forward to the node. Recording and reading the values of counters only
  calls \<open>bvar\<close>, in part with floating point numbers. \<open>describe\<close> functions and logging have no state of the protocol. Memory reclamation and data races
  outside the mutexes are not represented.
\<close>

end
